(* ===== verification/Prelude.thy ===== *)
theory Prelude
  imports Main "HOL-Library.Multiset"
begin

section \<open>Prelude: what every component shares\<close>

text \<open>
  The parts of Go that the sources rely on everywhere: run-time failures as values of a sum
  type, checked indexing and slicing, maps that may be \<^verbatim>\<open>nil\<close>, and the generic lemmas about
  them. A Go \<^verbatim>\<open>int\<close> is an \<^typ>\<open>int\<close>: terms, log indices and request numbers start at 0 and only
  ever grow by one per operation, so no run reaches the 64-bit bound. Where an operation
  computes with a number that only the sender of a message vouches for, the result is cut to
  64 bits by \<open>goint\<close>; the components whose results depend on a width (bit sets, hashes) use
  words.
\<close>

subsection \<open>Integers\<close>

definition goint :: "int \<Rightarrow> int" where
  "goint x = signed_take_bit 63 x"

lemma goint_id: "- (2 ^ 63) \<le> x \<Longrightarrow> x < 2 ^ 63 \<Longrightarrow> goint x = x"
  by (simp add: goint_def signed_take_bit_int_eq_self)

lemma goint_small [simp]:
  "goint 0 = 0" "goint 1 = 1" "(numeral n :: int) < 2 ^ 63 \<Longrightarrow> goint (numeral n) = numeral n"
  by (rule goint_id; simp)+

lemma goint_up: "2 ^ 63 \<le> x \<Longrightarrow> x < 2 ^ 64 \<Longrightarrow> goint x = x - 2 ^ 64"
proof -
  assume "2 ^ 63 \<le> x" "x < 2 ^ 64"
  then have "(x + 2 ^ 63 - 2 ^ 64) mod 2 ^ 64 = x + 2 ^ 63 - 2 ^ 64" by (intro mod_pos_pos_trivial) simp_all
  then have "(x + 2 ^ 63) mod 2 ^ 64 = x + 2 ^ 63 - 2 ^ 64" by (simp only: minus_mod_self2)
  then show ?thesis by (simp add: goint_def signed_take_bit_eq_take_bit_shift take_bit_eq_mod)
qed

lemma goint_down: "- (2 ^ 64) \<le> x \<Longrightarrow> x < - (2 ^ 63) \<Longrightarrow> goint x = x + 2 ^ 64"
proof -
  assume "- (2 ^ 64) \<le> x" "x < - (2 ^ 63)"
  then have "(x + 2 ^ 63 + 2 ^ 64) mod 2 ^ 64 = x + 2 ^ 63 + 2 ^ 64" by (intro mod_pos_pos_trivial) simp_all
  then have "(x + 2 ^ 63) mod 2 ^ 64 = x + 2 ^ 63 + 2 ^ 64" by (simp only: mod_add_self2)
  then show ?thesis by (simp add: goint_def signed_take_bit_eq_take_bit_shift take_bit_eq_mod)
qed

subsection \<open>Failures\<close>

text \<open>
  What can stop a goroutine: an index or slice expression out of range, a write to a
  \<^verbatim>\<open>nil\<close> map, a \<^verbatim>\<open>nil\<close> pointer dereference, a failed type assertion, \<^verbatim>\<open>log.Fatalf\<close>, and
  waiting for ever (a mutex that is never released, a channel that nobody reads), a
  division by zero, and a panic that a library function raises.
\<close>

datatype go_error =
    IndexOutOfRange
  | SliceBounds
  | NilMapWrite
  | NilDereference
  | TypeAssertion
  | Fatal string
  | Blocked
  | DivideByZero
  | Panic string

type_synonym 'a go = "go_error + 'a"

definition bindE :: "'a go \<Rightarrow> ('a \<Rightarrow> 'b go) \<Rightarrow> 'b go" where
  "bindE x f = (case x of Inl e \<Rightarrow> Inl e | Inr a \<Rightarrow> f a)"

text \<open>\<open>returns x P\<close>: the computation ends without a failure and its result satisfies \<open>P\<close>.\<close>

definition returns :: "'a go \<Rightarrow> ('a \<Rightarrow> bool) \<Rightarrow> bool" where
  "returns x P = (case x of Inl e \<Rightarrow> False | Inr a \<Rightarrow> P a)"

text \<open>A loop over a list that stops at the first failure.\<close>

primrec foldE :: "('x \<Rightarrow> 's \<Rightarrow> 's go) \<Rightarrow> 'x list \<Rightarrow> 's \<Rightarrow> 's go" where
  "foldE f [] s = Inr s"
| "foldE f (x # xs) s = bindE (f x s) (foldE f xs)"

subsection \<open>Slices\<close>

definition len :: "'a list \<Rightarrow> int" where
  "len xs = int (length xs)"

definition index :: "'a list \<Rightarrow> int \<Rightarrow> 'a go" where
  "index xs i = (if 0 \<le> i \<and> i < len xs then Inr (xs ! nat i) else Inl IndexOutOfRange)"

definition set_index :: "'a list \<Rightarrow> int \<Rightarrow> 'a \<Rightarrow> 'a list go" where
  "set_index xs i v = (if 0 \<le> i \<and> i < len xs then Inr (xs[nat i := v]) else Inl IndexOutOfRange)"

text \<open>\<^verbatim>\<open>xs[i:]\<close> and \<^verbatim>\<open>xs[0:i]\<close>.\<close>

definition slice_from :: "'a list \<Rightarrow> int \<Rightarrow> 'a list go" where
  "slice_from xs i = (if 0 \<le> i \<and> i \<le> len xs then Inr (drop (nat i) xs) else Inl SliceBounds)"

definition slice_to :: "'a list \<Rightarrow> int \<Rightarrow> 'a list go" where
  "slice_to xs i = (if 0 \<le> i \<and> i \<le> len xs then Inr (take (nat i) xs) else Inl SliceBounds)"

subsection \<open>Maps that may be nil\<close>

text \<open>
  A Go map value is a reference: reading a \<^verbatim>\<open>nil\<close> map finds nothing, writing to it panics.
\<close>

type_synonym ('k, 'v) gomap = "('k \<rightharpoonup> 'v) option"

definition map_get :: "('k, 'v) gomap \<Rightarrow> 'k \<Rightarrow> 'v option" where
  "map_get m k = (case m of None \<Rightarrow> None | Some f \<Rightarrow> f k)"

definition map_set :: "('k, 'v) gomap \<Rightarrow> 'k \<Rightarrow> 'v \<Rightarrow> ('k, 'v) gomap go" where
  "map_set m k v = (case m of None \<Rightarrow> Inl NilMapWrite | Some f \<Rightarrow> Inr (Some (f(k \<mapsto> v))))"

subsection \<open>strconv.Itoa\<close>

fun nat_digits :: "nat \<Rightarrow> string" where
  "nat_digits n =
     (if n < 10 then [char_of (48 + n)] else nat_digits (n div 10) @ [char_of (48 + n mod 10)])"

declare nat_digits.simps [simp del]

definition Itoa :: "int \<Rightarrow> string" where
  "Itoa i = (if i < 0 then CHR ''-'' # nat_digits (nat (- i)) else nat_digits (nat i))"

subsection \<open>Collections of facts\<close>

named_theorems go_simps \<open>rewriting of the failure monad on results that are known\<close>

subsection \<open>Lemmas\<close>

lemma bindE_simps [simp]:
  "bindE (Inl e) f = Inl e"
  "bindE (Inr a) f = f a"
  by (simp_all add: bindE_def)

lemma bindE_eq_Inr [go_simps]: "bindE x f = Inr b \<longleftrightarrow> (\<exists>a. x = Inr a \<and> f a = Inr b)"
  by (cases x) auto

lemma bindE_eq_Inl: "bindE x f = Inl e \<longleftrightarrow> x = Inl e \<or> (\<exists>a. x = Inr a \<and> f a = Inl e)"
  by (cases x) auto

lemma bindE_assoc: "bindE (bindE x f) g = bindE x (\<lambda>a. bindE (f a) g)"
  by (cases x) auto

lemma bindE_if [simp]: "bindE (if b then x else y) f = (if b then bindE x f else bindE y f)"
  by simp

lemma foldE_append: "foldE f (xs @ ys) s = bindE (foldE f xs s) (foldE f ys)"
  by (induction xs arbitrary: s) (auto simp: bindE_def split: sum.splits)

lemma foldE_pure:
  assumes "\<And>x s. x \<in> set xs \<Longrightarrow> f x s = Inr (g x s)"
  shows "foldE f xs s = Inr (fold g xs s)"
  using assms by (induction xs arbitrary: s) simp_all

lemma returns_simps [simp]:
  "returns (Inl e) P = False"
  "returns (Inr a) P = P a"
  by (simp_all add: returns_def)

lemma returns_iff: "returns x P \<longleftrightarrow> (\<exists>a. x = Inr a \<and> P a)"
  by (cases x) auto

lemma returns_bindE: "returns (bindE x f) P \<longleftrightarrow> returns x (\<lambda>a. returns (f a) P)"
  by (cases x) auto

lemma returns_mono: "returns x P \<Longrightarrow> (\<And>a. x = Inr a \<Longrightarrow> P a \<Longrightarrow> Q a) \<Longrightarrow> returns x Q"
  by (auto simp: returns_iff)

lemma len_simps [simp]:
  "len [] = 0"
  "len (x # xs) = 1 + len xs"
  "len (xs @ ys) = len xs + len ys"
  "0 \<le> len xs"
  "len (map f xs) = len xs"
  "len (xs[k := v]) = len xs"
  by (simp_all add: len_def)

lemma len_pos: "0 < len xs \<longleftrightarrow> xs \<noteq> []"
  by (simp add: len_def)

lemma nat_len [simp]: "nat (len xs) = length xs"
  by (simp add: len_def)

lemma len_take: "0 \<le> i \<Longrightarrow> i \<le> len xs \<Longrightarrow> len (take (nat i) xs) = i"
  by (auto simp: len_def)

lemma len_drop: "0 \<le> i \<Longrightarrow> i \<le> len xs \<Longrightarrow> len (drop (nat i) xs) = len xs - i"
  by (auto simp: len_def)

lemma index_ok: "0 \<le> i \<Longrightarrow> i < len xs \<Longrightarrow> index xs i = Inr (xs ! nat i)"
  by (simp add: index_def)

lemma index_eq_Inr: "index xs i = Inr v \<longleftrightarrow> 0 \<le> i \<and> i < len xs \<and> v = xs ! nat i"
  by (auto simp: index_def)

lemma set_index_ok: "0 \<le> i \<Longrightarrow> i < len xs \<Longrightarrow> set_index xs i v = Inr (xs[nat i := v])"
  by (simp add: set_index_def)

lemma set_index_eq_Inr: "set_index xs i v = Inr ys \<longleftrightarrow> 0 \<le> i \<and> i < len xs \<and> ys = xs[nat i := v]"
  by (auto simp: set_index_def)

lemma slice_from_ok: "0 \<le> i \<Longrightarrow> i \<le> len xs \<Longrightarrow> slice_from xs i = Inr (drop (nat i) xs)"
  by (simp add: slice_from_def)

lemma slice_from_eq_Inr:
  "slice_from xs i = Inr ys \<longleftrightarrow> 0 \<le> i \<and> i \<le> len xs \<and> ys = drop (nat i) xs"
  by (auto simp: slice_from_def)

lemma slice_to_ok: "0 \<le> i \<Longrightarrow> i \<le> len xs \<Longrightarrow> slice_to xs i = Inr (take (nat i) xs)"
  by (simp add: slice_to_def)

lemma slice_to_eq_Inr:
  "slice_to xs i = Inr ys \<longleftrightarrow> 0 \<le> i \<and> i \<le> len xs \<and> ys = take (nat i) xs"
  by (auto simp: slice_to_def)

lemmas slice_ok = index_ok set_index_ok slice_from_ok slice_to_ok

lemmas slice_results = index_eq_Inr set_index_eq_Inr slice_from_eq_Inr slice_to_eq_Inr

lemma map_get_simps [simp]:
  "map_get None k = None"
  "map_get (Some f) k = f k"
  by (simp_all add: map_get_def)

lemma map_set_Some [simp]: "map_set (Some f) k v = Inr (Some (f(k \<mapsto> v)))"
  by (simp add: map_set_def)

lemma map_set_eq_Inr:
  "map_set m k v = Inr m' \<longleftrightarrow> (\<exists>f. m = Some f \<and> m' = Some (f(k \<mapsto> v)))"
  by (cases m) (auto simp: map_set_def)

lemma nth_nat_Suc: "0 < i \<Longrightarrow> (x # xs) ! nat i = xs ! nat (i - 1)"
  by (cases "nat i") (auto simp: nat_diff_distrib)

subsection \<open>Decimal numbers\<close>

definition digits_val :: "string \<Rightarrow> nat" where
  "digits_val s = foldl (\<lambda>a c. 10 * a + (of_char c - 48)) 0 s"

lemma nat_digits_val: "digits_val (nat_digits n) = n"
proof (induction n rule: nat_digits.induct)
  case (1 n)
  show ?case
  proof (cases "n < 10")
    case True
    then show ?thesis by (simp add: nat_digits.simps [of n] digits_val_def)
  next
    case False
    then have "digits_val (nat_digits n) = 10 * digits_val (nat_digits (n div 10)) + (of_char (char_of (48 + n mod 10)) - 48)"
      by (simp add: nat_digits.simps [of n] digits_val_def)
    then show ?thesis using 1 False by simp
  qed
qed

lemma nat_digits_chars: "c \<in> set (nat_digits n) \<Longrightarrow> 48 \<le> (of_char c :: nat)"
proof (induction n rule: nat_digits.induct)
  case (1 n)
  show ?case
  proof (cases "n < 10")
    case True
    then show ?thesis using 1(2) by (simp add: nat_digits.simps [of n])
  next
    case False
    then have "c \<in> set (nat_digits (n div 10)) \<or> c = char_of (48 + n mod 10)" using 1(2) by (auto simp: nat_digits.simps [of n])
    then show ?thesis using 1(1) False by auto
  qed
qed

lemma nat_digits_no_dash: "CHR ''-'' \<notin> set (nat_digits n)"
  using nat_digits_chars [of "CHR ''-''" n] by auto

lemma Itoa_nat: "Itoa (int n) = nat_digits n"
  by (simp add: Itoa_def)

lemma Itoa_inject: "Itoa (int n) = Itoa (int m) \<longleftrightarrow> n = m"
  using nat_digits_val by (metis Itoa_nat)

lemma dash_split:
  assumes "xs @ c # ys = xs' @ c # ys'" "c \<notin> set xs" "c \<notin> set xs'"
  shows "xs = xs' \<and> ys = ys'"
  using assms
proof (induction xs arbitrary: xs')
  case Nil
  then show ?case by (cases xs') auto
next
  case (Cons x xs)
  then show ?case by (cases xs') auto
qed

lemma Itoa_dash:
  assumes "Itoa (int a) @ ''-'' @ xs = Itoa (int b) @ ''-'' @ ys"
  shows "a = b \<and> xs = ys"
  using dash_split [of "Itoa (int a)" "CHR ''-''" xs "Itoa (int b)" ys] assms nat_digits_no_dash
  by (simp add: Itoa_inject) (simp add: Itoa_nat)

end
