(* ===== verification/Persister.thy ===== *)
theory Persister
  imports Prelude
begin

section \<open>Stable storage: gob streams and the persister\<close>

text \<open>
  Models \<^verbatim>\<open>src/raft/persister.go\<close> and the data that \<^verbatim>\<open>src/raft/raft.go\<close> saves through it:
  log entries, snapshots, and the byte slices that \<^verbatim>\<open>labgob\<close> encoders produce. A byte slice
  is modelled as the sequence of values that were encoded into it, which is what a gob
  stream is to the code that writes and reads it: \<^verbatim>\<open>Encode\<close> appends a value, \<^verbatim>\<open>Decode\<close> takes
  the next one and fails when there is none or when it has another type. The length in
  bytes, which only \<^verbatim>\<open>RaftStateSize\<close> and \<^verbatim>\<open>SnapshotSize\<close> look at, is a parameter of those two.
\<close>

subsection \<open>The data\<close>

text \<open>
  \<^verbatim>\<open>interface{}\<close> as it is used for a log command: \<^verbatim>\<open>nil\<close> in the entry at index 0, the string of
  a no-op, or the service's own command.
\<close>

datatype 'c command = NilCommand | StringCommand string | OpCommand 'c

record 'c Log =
  Command :: "'c command"
  Term :: int

record SnapShot =
  Mp :: "(string, string) gomap"
  LastIndex :: int
  LastTerm :: int
  CliMap :: "(int, int) gomap"

text \<open>\<^verbatim>\<open>var snapshot SnapShot\<close>: every field has its zero value.\<close>

definition zero_SnapShot :: SnapShot where
  "zero_SnapShot = \<lparr>Mp = None, LastIndex = 0, LastTerm = 0, CliMap = None\<rparr>"

text \<open>\<^verbatim>\<open>Log{Term: 0}\<close>, the entry at index 0.\<close>

definition dummy_entry :: "'c Log" where
  "dummy_entry = \<lparr>Command = NilCommand, Term = 0\<rparr>"

subsection \<open>Gob streams\<close>

datatype 'c gobval =
    GInt int
  | GLogs "'c Log list"
  | GSnapShot SnapShot

type_synonym 'c bytes = "'c gobval list"

definition Encode :: "'c bytes \<Rightarrow> 'c gobval \<Rightarrow> 'c bytes" where
  "Encode w v = w @ [v]"

fun decode_int :: "'c bytes \<Rightarrow> (int \<times> 'c bytes) option" where
  "decode_int (GInt i # r) = Some (i, r)"
| "decode_int _ = None"

fun decode_logs :: "'c bytes \<Rightarrow> ('c Log list \<times> 'c bytes) option" where
  "decode_logs (GLogs l # r) = Some (l, r)"
| "decode_logs _ = None"

fun decode_snapshot :: "'c bytes \<Rightarrow> (SnapShot \<times> 'c bytes) option" where
  "decode_snapshot (GSnapShot s # r) = Some (s, r)"
| "decode_snapshot _ = None"

text \<open>
  The two uses: the persistent Raft state is three values, a snapshot is one. A snapshot is
  read with the error of \<^verbatim>\<open>Decode\<close> ignored, so data that holds none leaves the zero value.
\<close>

definition encode_state :: "int \<Rightarrow> int \<Rightarrow> 'c Log list \<Rightarrow> 'c bytes" where
  "encode_state currentTerm votedFor l =
     Encode (Encode (Encode [] (GInt currentTerm)) (GInt votedFor)) (GLogs l)"

definition decode_state :: "'c bytes \<Rightarrow> (int \<times> int \<times> 'c Log list) option" where
  "decode_state data =
     (case decode_int data of None \<Rightarrow> None
      | Some (t, r) \<Rightarrow> (case decode_int r of None \<Rightarrow> None
         | Some (v, r') \<Rightarrow> (case decode_logs r' of None \<Rightarrow> None
            | Some (l, r'') \<Rightarrow> Some (t, v, l))))"

definition encode_snapshot :: "SnapShot \<Rightarrow> 'c bytes" where
  "encode_snapshot ss = Encode [] (GSnapShot ss)"

definition read_snapshot :: "'c bytes \<Rightarrow> SnapShot" where
  "read_snapshot data = (case decode_snapshot data of None \<Rightarrow> zero_SnapShot | Some (s, r) \<Rightarrow> s)"

subsection \<open>The persister\<close>

record 'c Persister =
  raftstate :: "'c bytes"
  snapshot :: "'c bytes"

definition MakePersister :: "'c Persister" where
  "MakePersister = \<lparr>raftstate = [], snapshot = []\<rparr>"

definition Copy :: "'c Persister \<Rightarrow> 'c Persister" where
  "Copy ps = (let np = MakePersister;
                  np = np\<lparr>raftstate := raftstate ps\<rparr>
              in np\<lparr>snapshot := snapshot ps\<rparr>)"

definition SaveRaftState :: "'c Persister \<Rightarrow> 'c bytes \<Rightarrow> 'c Persister" where
  "SaveRaftState ps state = ps\<lparr>raftstate := state\<rparr>"

definition ReadRaftState :: "'c Persister \<Rightarrow> 'c bytes" where
  "ReadRaftState ps = raftstate ps"

definition RaftStateSize :: "('c bytes \<Rightarrow> int) \<Rightarrow> 'c Persister \<Rightarrow> int" where
  "RaftStateSize bytelen ps = bytelen (raftstate ps)"

definition SaveStateAndSnapshot :: "'c Persister \<Rightarrow> 'c bytes \<Rightarrow> 'c bytes \<Rightarrow> 'c Persister" where
  "SaveStateAndSnapshot ps state snap = ps\<lparr>raftstate := state, snapshot := snap\<rparr>"

definition ReadSnapshot :: "'c Persister \<Rightarrow> 'c bytes" where
  "ReadSnapshot ps = snapshot ps"

definition SnapshotSize :: "('c bytes \<Rightarrow> int) \<Rightarrow> 'c Persister \<Rightarrow> int" where
  "SnapshotSize bytelen ps = bytelen (snapshot ps)"

subsection \<open>The interface: a stable store with a codec\<close>

text \<open>
  What a client of the persister relies on: the two saves and the two reads, and an encoding
  of its state that decodes to what was encoded. The client lemmas say what a crash at any
  point between two saves leaves to read.
\<close>

locale stable_store =
  fixes saveState :: "'p \<Rightarrow> 'b \<Rightarrow> 'p"
    and saveBoth :: "'p \<Rightarrow> 'b \<Rightarrow> 'b \<Rightarrow> 'p"
    and readState :: "'p \<Rightarrow> 'b"
    and readSnap :: "'p \<Rightarrow> 'b"
  assumes readState_saveState: "readState (saveState p b) = b"
    and readSnap_saveState: "readSnap (saveState p b) = readSnap p"
    and readState_saveBoth: "readState (saveBoth p b s) = b"
    and readSnap_saveBoth: "readSnap (saveBoth p b s) = s"
begin

lemma readSnap_saves: "readSnap (foldl saveState p bs) = readSnap p"
  by (induction bs arbitrary: p) (simp_all add: readSnap_saveState)

lemma readState_saves: "bs \<noteq> [] \<Longrightarrow> readState (foldl saveState p bs) = last bs"
  by (induction bs rule: rev_induct) (simp_all add: readState_saveState)

lemmas store_simps = readState_saveState readSnap_saveState readState_saveBoth readSnap_saveBoth

end

locale state_codec =
  fixes enc :: "'s \<Rightarrow> 'b" and dec :: "'b \<Rightarrow> 's option"
  assumes dec_enc: "dec (enc s) = Some s"
begin

lemma enc_inject: "enc s = enc t \<longleftrightarrow> s = t"
  by (metis dec_enc option.inject)

end

locale recoverable_store = stable_store saveState saveBoth readState readSnap + state_codec enc dec
  for saveState :: "'p \<Rightarrow> 'b \<Rightarrow> 'p" and saveBoth readState readSnap
    and enc :: "'s \<Rightarrow> 'b" and dec :: "'b \<Rightarrow> 's option"
begin

lemma recover_saveState: "dec (readState (saveState p (enc s))) = Some s"
  by (simp add: store_simps dec_enc)

lemma recover_saveBoth: "dec (readState (saveBoth p (enc s) b)) = Some s"
  by (simp add: store_simps dec_enc)

lemma recover_last:
  "ss \<noteq> [] \<Longrightarrow> dec (readState (foldl saveState p (map enc ss))) = Some (last ss)"
  by (simp add: readState_saves last_map dec_enc)

end

subsection \<open>The persister provides it\<close>

lemmas gob_defs = Encode_def encode_state_def decode_state_def encode_snapshot_def read_snapshot_def

lemmas persister_defs = MakePersister_def Copy_def SaveRaftState_def ReadRaftState_def
  SaveStateAndSnapshot_def ReadSnapshot_def

lemma decode_encode_state [simp]: "decode_state (encode_state t v l) = Some (t, v, l)"
  by (simp add: gob_defs)

lemma encode_state_nonempty [simp]: "encode_state t v l \<noteq> []"
  by (simp add: gob_defs)

lemma read_encode_snapshot [simp]: "read_snapshot (encode_snapshot ss) = ss"
  by (simp add: gob_defs)

lemma read_snapshot_Nil [simp]: "read_snapshot [] = zero_SnapShot"
  by (simp add: gob_defs)

lemma persister_simps [simp]:
  "raftstate (SaveRaftState ps b) = b"
  "snapshot (SaveRaftState ps b) = snapshot ps"
  "raftstate (SaveStateAndSnapshot ps b s) = b"
  "snapshot (SaveStateAndSnapshot ps b s) = s"
  by (simp_all add: persister_defs)

interpretation raft_store: recoverable_store SaveRaftState SaveStateAndSnapshot ReadRaftState
    ReadSnapshot "\<lambda>(t, v, l). encode_state t v l" decode_state
  by unfold_locales (auto simp: persister_defs)

lemma Copy_same: "Copy ps = ps"
  by (simp add: persister_defs)

text \<open>
  Whatever is saved last is what a restarted server decodes, and saving the Raft state alone
  never touches the snapshot.
\<close>

lemma persister_last_save:
  "ss \<noteq> [] \<Longrightarrow>
   decode_state (ReadRaftState (foldl SaveRaftState ps (map (\<lambda>(t, v, l). encode_state t v l) ss)))
     = Some (last ss) \<and>
   ReadSnapshot (foldl SaveRaftState ps (map (\<lambda>(t, v, l). encode_state t v l) ss)) = ReadSnapshot ps"
  using raft_store.recover_last raft_store.readSnap_saves by blast

end
