(* ===== verification/Raft_State.thy ===== *)
theory Raft_State
  imports Persister
begin

section \<open>Raft: the state of a peer and its local operations\<close>

text \<open>
  Models the data of \<^verbatim>\<open>src/raft/raft.go\<close> and the operations of one peer that involve no
  other: creating it from its persister, reading its state, saving it, starting agreement
  on a command, killing it, the election timer, and the two searches through the log.

  Every operation of the code runs between \<^verbatim>\<open>rf.mu.Lock()\<close> and \<^verbatim>\<open>rf.mu.Unlock()\<close>, so it is one
  function on the state. The mutex itself is the field \<open>mu\<close> (True: held by nobody who will
  release it): an operation that locks it is \<open>Inl Blocked\<close> when it is held, and the
  paths of the code that return without unlocking leave it True. A value sent on
  \<^verbatim>\<open>rf.applych\<close> is appended to the field \<open>applych\<close>, so that the field is the sequence of
  messages the service receives. Random numbers and the peers' answers are arguments.
\<close>

subsection \<open>The data\<close>

text \<open>The field \<^verbatim>\<open>Command\<close> of an \<^verbatim>\<open>ApplyMsg\<close>: a log command, or the bytes of a snapshot.\<close>

datatype 'c payload = CommandPayload "'c command" | DataPayload "'c bytes"

record 'c ApplyMsg =
  CommandValid :: bool
  MsgCommand :: "'c payload"
  CommandIndex :: int

record 'c Raft =
  mu :: bool
  peers :: nat                  \<comment> \<open>\<^verbatim>\<open>len(rf.peers)\<close>\<close>
  persister :: "'c Persister"
  me :: int
  dead :: int
  tp :: int                     \<comment> \<open>0: follower, 1: candidate, 2: leader\<close>
  currentTerm :: int
  votedFor :: int
  log :: "'c Log list"
  commitIndex :: int
  lastApplied :: int
  nextIndex :: "int list"
  matchIndex :: "int list"
  voteCount :: int
  timePassed :: int
  timeout :: int
  commitCount :: "int list"
  appendFlag :: bool
  applych :: "'c ApplyMsg list"
  startAppend :: bool
  snapshotIndex :: int
  snapshotTerm :: int
  Noop :: bool
  apps :: "nat list"            \<comment> \<open>the number of values waiting in each channel, at most 1\<close>

subsection \<open>Locking, killing, reading the state\<close>

definition with_lock :: "'c Raft \<Rightarrow> ('c Raft \<Rightarrow> 'a go) \<Rightarrow> 'a go" where
  "with_lock rf body = (if mu rf then Inl Blocked else body rf)"

definition Kill :: "'c Raft \<Rightarrow> 'c Raft" where
  "Kill rf = rf\<lparr>dead := 1\<rparr>"

definition killed :: "'c Raft \<Rightarrow> bool" where
  "killed rf = (let z = dead rf in z = 1)"

definition GetState :: "'c Raft \<Rightarrow> (int \<times> bool) go" where
  "GetState rf = with_lock rf (\<lambda>rf.
     let term = currentTerm rf;
         isleader = (if tp rf = 2 then True else False)
     in Inr (term, isleader))"

subsection \<open>Saving and restoring\<close>

definition persist :: "'c Raft \<Rightarrow> 'c Raft" where
  "persist rf =
     (let data = encode_state (currentTerm rf) (votedFor rf) (log rf)
      in rf\<lparr>persister := SaveRaftState (persister rf) data\<rparr>)"

definition readPersist :: "'c Raft \<Rightarrow> 'c bytes \<Rightarrow> 'c Raft go" where
  "readPersist rf data =
     (if data = [] then Inr rf
      else case decode_state data of
        None \<Rightarrow> Inl (Fatal ''decode fail'')
      | Some (t, v, l) \<Rightarrow> Inr (rf\<lparr>currentTerm := t, votedFor := v, log := l\<rparr>))"

definition readSnapRaft :: "'c Raft \<Rightarrow> 'c bytes \<Rightarrow> 'c Raft" where
  "readSnapRaft rf data =
     (let ss = read_snapshot data
      in rf\<lparr>snapshotIndex := LastIndex ss, snapshotTerm := LastTerm ss\<rparr>)"

text \<open>\<open>for_peers n f xs\<close>: the loop that stores \<^verbatim>\<open>f(xs[i])\<close> at every index \<^verbatim>\<open>i\<close> below \<open>n\<close>.\<close>

definition for_peers :: "nat \<Rightarrow> (int \<Rightarrow> int) \<Rightarrow> int list \<Rightarrow> int list go" where
  "for_peers n f xs =
     (if n \<le> length xs then Inr (map f (take n xs) @ drop n xs) else Inl IndexOutOfRange)"

definition persistV2 :: "'c Raft \<Rightarrow> SnapShot \<Rightarrow> 'c Raft go" where
  "persistV2 rf ss = with_lock rf (\<lambda>rf.
     if LastIndex ss \<le> snapshotIndex rf then Inr rf
     else if LastIndex ss - snapshotIndex rf > len (log rf) - 1 then Inr rf
     else
       bindE (index (log rf) (LastIndex ss - snapshotIndex rf)) (\<lambda>e.
       let ss = ss\<lparr>LastTerm := Term e\<rparr> in
       bindE (slice_from (log rf) (LastIndex ss - snapshotIndex rf + 1)) (\<lambda>rest.
       let rf = rf\<lparr>log := dummy_entry # rest\<rparr> in
       bindE (for_peers (peers rf) (\<lambda>n. n + snapshotIndex rf - LastIndex ss) (nextIndex rf)) (\<lambda>ni.
       let rf = rf\<lparr>nextIndex := ni\<rparr>;
           rf = rf\<lparr>snapshotIndex := LastIndex ss, snapshotTerm := LastTerm ss\<rparr>;
           statedata = encode_state (currentTerm rf) (votedFor rf) (log rf);
           snapdata = encode_snapshot ss
       in Inr (rf\<lparr>persister := SaveStateAndSnapshot (persister rf) statedata snapdata\<rparr>)))))"

subsection \<open>The timer\<close>

text \<open>\<^verbatim>\<open>rand.Intn(600)\<close> is the argument \<open>r\<close>, a number from 0 to 599.\<close>

definition resetTime :: "int \<Rightarrow> 'c Raft \<Rightarrow> 'c Raft" where
  "resetTime r rf = rf\<lparr>timeout := 600 + r, timePassed := 0\<rparr>"

definition termUpdate :: "'c Raft \<Rightarrow> int \<Rightarrow> int \<Rightarrow> int \<Rightarrow> 'c Raft" where
  "termUpdate rf newTerm t voteFor =
     persist (rf\<lparr>currentTerm := newTerm, tp := t, votedFor := voteFor\<rparr>)"

text \<open>
  One turn of the loop of \<^verbatim>\<open>oscillator\<close> up to its sleep: the loop ends, it starts an election
  in a new goroutine, or it goes on; and the step after the sleep.
\<close>

datatype oscillation = OscillatorReturns | OscillatorElects | OscillatorGoesOn

definition oscillator_check :: "int \<Rightarrow> 'c Raft \<Rightarrow> ('c Raft \<times> oscillation) go" where
  "oscillator_check r rf =
     (if killed rf then Inr (rf, OscillatorReturns)
      else with_lock rf (\<lambda>rf.
        if tp rf = 2 then Inr (rf, OscillatorReturns)
        else if timePassed rf \<ge> timeout rf then Inr (resetTime r rf, OscillatorElects)
        else Inr (rf, OscillatorGoesOn)))"

definition oscillator_tick :: "'c Raft \<Rightarrow> 'c Raft go" where
  "oscillator_tick rf = with_lock rf (\<lambda>rf.
     let inc = 10 in Inr (rf\<lparr>timePassed := timePassed rf + inc\<rparr>))"

subsection \<open>Creating a peer\<close>

text \<open>\<^verbatim>\<open>&Raft{}\<close> with \<^verbatim>\<open>peers\<close>, \<^verbatim>\<open>persister\<close> and \<^verbatim>\<open>me\<close> filled in.\<close>

definition new_Raft :: "nat \<Rightarrow> int \<Rightarrow> 'c Persister \<Rightarrow> 'c Raft" where
  "new_Raft n i ps =
     \<lparr>mu = False, peers = n, persister = ps, me = i, dead = 0, tp = 0, currentTerm = 0,
      votedFor = 0, log = [], commitIndex = 0, lastApplied = 0, nextIndex = [], matchIndex = [],
      voteCount = 0, timePassed = 0, timeout = 0, commitCount = [], appendFlag = False,
      applych = [], startAppend = False, snapshotIndex = 0, snapshotTerm = 0, Noop = False,
      apps = []\<rparr>"

definition Make :: "int \<Rightarrow> nat \<Rightarrow> int \<Rightarrow> 'c Persister \<Rightarrow> 'c Raft go" where
  "Make r n i ps =
     (let rf = new_Raft n i ps in
      bindE (readPersist rf (raftstate (persister rf))) (\<lambda>rf.
      let rf = (if currentTerm rf = 0 then rf\<lparr>votedFor := -1\<rparr> else rf);
          rf = (if len (log rf) = 0 then rf\<lparr>log := log rf @ [dummy_entry]\<rparr> else rf);
          rf = persist rf;
          rf = rf\<lparr>nextIndex := replicate n (len (log rf)), matchIndex := replicate n 0\<rparr>
      in
      bindE (set_index (matchIndex rf) i (len (log rf) - 1 + snapshotIndex rf)) (\<lambda>mi.
      let rf = rf\<lparr>matchIndex := mi\<rparr>;
          rf = readSnapRaft rf (ReadSnapshot (persister rf));
          rf = rf\<lparr>commitIndex := snapshotIndex rf, lastApplied := 0\<rparr>;
          rf = resetTime r rf;
          rf = rf\<lparr>commitCount := []\<rparr>
      in Inr (rf\<lparr>apps := replicate n 0\<rparr>))))"

definition GetPersister :: "'c Raft \<Rightarrow> 'c Persister" where
  "GetPersister rf = persister rf"

subsection \<open>Starting agreement on a command\<close>

text \<open>The loop over \<^verbatim>\<open>rf.apps\<close>: a token into every empty channel but the peer's own.\<close>

definition wake_apps :: "int \<Rightarrow> nat list \<Rightarrow> nat list" where
  "wake_apps i cs = map (\<lambda>(j, c). if int j \<noteq> i \<and> c = 0 then 1 else c) (enumerate 0 cs)"

definition Start :: "'c Raft \<Rightarrow> 'c command \<Rightarrow> ('c Raft \<times> int \<times> int \<times> bool) go" where
  "Start rf command = with_lock rf (\<lambda>rf.
     if killed rf then Inr (rf\<lparr>mu := True\<rparr>, 0, 0, False)
     else if tp rf \<noteq> 2 then Inr (rf, -1, -1, False)
     else
       let term = currentTerm rf;
           rf = rf\<lparr>log := log rf @ [\<lparr>Command = command, Term = currentTerm rf\<rparr>]\<rparr>;
           rf = persist rf;
           i = len (log rf) - 1 + snapshotIndex rf
       in
       bindE (set_index (matchIndex rf) (me rf) (len (log rf) - 1 + snapshotIndex rf)) (\<lambda>mi.
       let rf = rf\<lparr>matchIndex := mi, startAppend := True\<rparr>
       in Inr (rf\<lparr>apps := wake_apps (me rf) (apps rf)\<rparr>, i, term, True)))"

subsection \<open>Searching the log\<close>

text \<open>
  \<^verbatim>\<open>findEntry\<close>: the loop runs \<^verbatim>\<open>p\<close> down while the entry has the term, and remembers the last
  index it saw.
\<close>

function findEntry_loop :: "'c Log list \<Rightarrow> int \<Rightarrow> int \<Rightarrow> int \<Rightarrow> int go" where
  "findEntry_loop l t p res =
     (if p \<ge> 0 then
        bindE (index l p) (\<lambda>e.
          if Term e = t then findEntry_loop l t (p - 1) p else Inr res)
      else Inr res)"
  by pat_completeness auto
termination
  by (relation "measure (\<lambda>(l, t, p, res). nat (p + 1))") auto

declare findEntry_loop.simps [simp del]

definition findEntry :: "'c Raft \<Rightarrow> int \<Rightarrow> int go" where
  "findEntry rf p =
     bindE (index (log rf) p) (\<lambda>e. let term = Term e in findEntry_loop (log rf) term p 0)"

function findLast_loop :: "'c Log list \<Rightarrow> int \<Rightarrow> int \<Rightarrow> int go" where
  "findLast_loop l t i =
     (if i \<ge> 0 then
        bindE (index l i) (\<lambda>e.
          if Term e = t then Inr i
          else if Term e < t then Inr (-1)
          else findLast_loop l t (i - 1))
      else Inr 0)"
  by pat_completeness auto
termination
  by (relation "measure (\<lambda>(l, t, i). nat (i + 1))") auto

declare findLast_loop.simps [simp del]

definition findLast :: "'c Raft \<Rightarrow> int \<Rightarrow> int \<Rightarrow> int go" where
  "findLast rf t start = findLast_loop (log rf) t start"

end
