(* ===== verification/Raft_Rpc.thy ===== *)
theory Raft_Rpc
  imports Raft_State
begin

section \<open>Raft: the RPC handlers\<close>

text \<open>
  \<^verbatim>\<open>RequestVote\<close>, \<^verbatim>\<open>AppendEntries\<close> and \<^verbatim>\<open>InstallSnapshot\<close> of \<^verbatim>\<open>src/raft/raft.go\<close> with their argument
  and reply structs. Each handler is a function from the peer's state and the arguments to
  the new state and the reply. \<^verbatim>\<open>AppendEntries\<close> is composed of its five parts in the order of
  the code: the term, the three ways the log can compare with \<^verbatim>\<open>PrevLogIndex\<close>, the commit.
\<close>

subsection \<open>Arguments and replies\<close>

record RequestVoteArgs =
  va_Term :: int
  va_CandidateId :: int
  va_LastLogIndex :: int
  va_LastLogTerm :: int

record RequestVoteReply =
  vr_Term :: int
  vr_VoteGranted :: bool

record 'c RequestAppendArgs =
  aa_Term :: int
  aa_LeaderId :: int
  aa_PrevLogIndex :: int
  aa_PrevLogTerm :: int
  aa_Entries :: "'c Log list"
  aa_LeaderCommit :: int

record RequestAppendReply =
  ar_Term :: int
  ar_Success :: bool
  ar_Miss :: bool
  ar_TermConflict :: int
  ar_TermStart :: int
  ar_Len :: int

record 'c SnapArg =
  sa_Term :: int
  sa_LeaderId :: int
  sa_LastIncludedIndex :: int
  sa_LastIncludedTerm :: int
  sa_Data :: "'c bytes"

record SnapReply =
  sr_Term :: int

text \<open>\<^verbatim>\<open>&RequestAppendReply{}\<close>.\<close>

definition zero_AppendReply :: RequestAppendReply where
  "zero_AppendReply =
     \<lparr>ar_Term = 0, ar_Success = False, ar_Miss = False, ar_TermConflict = 0, ar_TermStart = 0,
      ar_Len = 0\<rparr>"

subsection \<open>RequestVote\<close>

text \<open>The term of the last entry: the snapshot's when the log holds nothing but the entry 0.\<close>

definition lastLogTerm :: "'c Raft \<Rightarrow> int go" where
  "lastLogTerm rf =
     (if len (log rf) = 1 then Inr (snapshotTerm rf)
      else bindE (index (log rf) (len (log rf) - 1)) (\<lambda>e. Inr (Term e)))"

definition RequestVote ::
  "int \<Rightarrow> 'c Raft \<Rightarrow> RequestVoteArgs \<Rightarrow> ('c Raft \<times> RequestVoteReply) go" where
  "RequestVote r rf args = with_lock rf (\<lambda>rf.
     let reply = \<lparr>vr_Term = currentTerm rf, vr_VoteGranted = False\<rparr> in
     if va_Term args < currentTerm rf then Inr (rf, reply\<lparr>vr_VoteGranted := False\<rparr>)
     else
       let rf = (if va_Term args > currentTerm rf
                 then persist (rf\<lparr>currentTerm := va_Term args, tp := 0, votedFor := -1\<rparr>)
                 else rf)
       in
       if votedFor rf = -1 \<or> votedFor rf = va_CandidateId args then
         bindE (lastLogTerm rf) (\<lambda>termLast.
         if va_LastLogTerm args > termLast \<or>
            (va_LastLogTerm args = termLast \<and>
             va_LastLogIndex args \<ge> len (log rf) - 1 + snapshotIndex rf)
         then Inr (resetTime r (persist (rf\<lparr>votedFor := va_CandidateId args\<rparr>)),
                   reply\<lparr>vr_VoteGranted := True\<rparr>)
         else Inr (rf, reply\<lparr>vr_VoteGranted := False\<rparr>))
       else Inr (rf, reply\<lparr>vr_VoteGranted := False\<rparr>))"

subsection \<open>AppendEntries\<close>

text \<open>The term of the request against the peer's own (shared with \<^verbatim>\<open>InstallSnapshot\<close>).\<close>

definition adoptTerm :: "'c Raft \<Rightarrow> int \<Rightarrow> 'c Raft" where
  "adoptTerm rf t =
     (if t > currentTerm rf then termUpdate rf t 0 (-1)
      else if tp rf = 1 \<and> t = currentTerm rf then rf\<lparr>tp := 0\<rparr>
      else rf)"

text \<open>The previous entry lies in the log and has the term the leader says.\<close>

definition prevMatches :: "'c Raft \<Rightarrow> 'c RequestAppendArgs \<Rightarrow> bool" where
  "prevMatches rf args =
     (aa_PrevLogIndex args > snapshotIndex rf \<and>
      aa_PrevLogIndex args < len (log rf) + snapshotIndex rf \<and>
      aa_PrevLogTerm args = Term (log rf ! nat (aa_PrevLogIndex args - snapshotIndex rf)))"

text \<open>
  \<^verbatim>\<open>PrevLogIndex\<close> is what the sender says: the index of the last new entry and the distances of
  the two from the snapshot are computed on 64-bit integers. The bound of the slice in the
  first branch lies within the log and cannot overflow.
\<close>

definition appendAfterPrev :: "'c Raft \<Rightarrow> 'c RequestAppendArgs \<Rightarrow> 'c Raft go" where
  "appendAfterPrev rf args =
     (let lastIndex = goint (len (aa_Entries args) + aa_PrevLogIndex args) in
      if lastIndex \<ge> len (log rf) - 1 + snapshotIndex rf then
        bindE (slice_to (log rf) (aa_PrevLogIndex args + 1 - snapshotIndex rf)) (\<lambda>temp.
        Inr (persist (rf\<lparr>log := temp @ aa_Entries args\<rparr>)))
      else
        bindE (index (log rf) (goint (lastIndex - snapshotIndex rf))) (\<lambda>e.
        if Term e = aa_Term args then Inr rf
        else
          bindE (slice_to (log rf) (aa_PrevLogIndex args + 1 - snapshotIndex rf)) (\<lambda>temp.
          Inr (persist (rf\<lparr>log := temp @ aa_Entries args\<rparr>)))))"

definition appendAfterSnapshot :: "'c Raft \<Rightarrow> 'c RequestAppendArgs \<Rightarrow> 'c Raft go" where
  "appendAfterSnapshot rf args =
     (let lastIndex = goint (len (aa_Entries args) + aa_PrevLogIndex args);
          ahead = goint (snapshotIndex rf - aa_PrevLogIndex args) in
      bindE
        (if ahead > len (aa_Entries args) - 1 then Inr rf
         else if lastIndex \<ge> len (log rf) - 1 + snapshotIndex rf then
           bindE (slice_from (aa_Entries args) ahead) (\<lambda>es.
           Inr (persist (rf\<lparr>log := dummy_entry # es\<rparr>)))
         else
           bindE (index (log rf) (goint (lastIndex - snapshotIndex rf))) (\<lambda>e.
           if Term e = aa_Term args then Inr rf
           else
             bindE (slice_from (aa_Entries args) ahead) (\<lambda>es.
             Inr (persist (rf\<lparr>log := dummy_entry # es\<rparr>)))))
        (\<lambda>rf. Inr (persist rf)))"

definition rejectAppend ::
  "'c Raft \<Rightarrow> 'c RequestAppendArgs \<Rightarrow> RequestAppendReply \<Rightarrow> RequestAppendReply go" where
  "rejectAppend rf args reply =
     (let reply = reply\<lparr>ar_Success := False\<rparr> in
      if aa_PrevLogIndex args \<ge> len (log rf) + snapshotIndex rf then
        Inr (reply\<lparr>ar_Miss := True, ar_Len := len (log rf) + snapshotIndex rf\<rparr>)
      else
        bindE (index (log rf) (aa_PrevLogIndex args - snapshotIndex rf)) (\<lambda>e.
        bindE (findEntry rf (aa_PrevLogIndex args - snapshotIndex rf)) (\<lambda>f.
        Inr (reply\<lparr>ar_TermConflict := Term e, ar_TermStart := f + snapshotIndex rf\<rparr>))))"

text \<open>
  The loops that send log entries to the service: entries \<open>i\<close> to \<open>hi\<close> of the slice, each
  \<open>copies\<close> times in a row. \<^verbatim>\<open>AppendEntries\<close> sends each entry twice, \<^verbatim>\<open>updateCommit\<close> once.
\<close>

function applyLoop ::
  "nat \<Rightarrow> 'c Log list \<Rightarrow> int \<Rightarrow> int \<Rightarrow> int \<Rightarrow> 'c ApplyMsg list go" where
  "applyLoop copies l snap i hi =
     (if i \<le> hi then
        bindE (index l i) (\<lambda>e.
        bindE (applyLoop copies l snap (i + 1) hi) (\<lambda>ms.
        Inr (replicate copies
               \<lparr>CommandValid = True, MsgCommand = CommandPayload (Command e), CommandIndex = i + snap\<rparr>
             @ ms)))
      else Inr [])"
  by pat_completeness auto
termination
  by (relation "measure (\<lambda>(copies, l, snap, i, hi). nat (hi + 1 - i))") auto

declare applyLoop.simps [simp del]

definition followCommit :: "'c Raft \<Rightarrow> int \<Rightarrow> 'c Raft go" where
  "followCommit rf leaderCommit =
     (if leaderCommit > commitIndex rf then
        let pre = commitIndex rf;
            rf = (if leaderCommit \<le> len (log rf) - 1 + snapshotIndex rf
                  then rf\<lparr>commitIndex := leaderCommit\<rparr>
                  else rf\<lparr>commitIndex := len (log rf) - 1 + snapshotIndex rf\<rparr>)
        in
        bindE (applyLoop 2 (log rf) (snapshotIndex rf) (pre + 1 - snapshotIndex rf)
                 (commitIndex rf - snapshotIndex rf)) (\<lambda>ms.
        Inr (rf\<lparr>applych := applych rf @ ms\<rparr>))
      else Inr rf)"

definition AppendEntries ::
  "int \<Rightarrow> 'c Raft \<Rightarrow> 'c RequestAppendArgs \<Rightarrow> ('c Raft \<times> RequestAppendReply) go" where
  "AppendEntries r rf args = with_lock rf (\<lambda>rf.
     let reply = zero_AppendReply\<lparr>ar_Term := currentTerm rf\<rparr> in
     if aa_Term args < currentTerm rf then Inr (rf, reply\<lparr>ar_Success := False\<rparr>)
     else
       let rf = adoptTerm rf (aa_Term args);
           reply = (if len (aa_Entries args) = 0 then reply\<lparr>ar_Success := True\<rparr> else reply)
       in
       if prevMatches rf args then
         bindE (appendAfterPrev rf args) (\<lambda>rf.
         bindE (followCommit rf (aa_LeaderCommit args)) (\<lambda>rf.
         Inr (resetTime r rf, reply\<lparr>ar_Success := True\<rparr>)))
       else if aa_PrevLogIndex args \<le> snapshotIndex rf then
         bindE (appendAfterSnapshot rf args) (\<lambda>rf.
         bindE (followCommit rf (aa_LeaderCommit args)) (\<lambda>rf.
         Inr (resetTime r rf, reply\<lparr>ar_Success := True\<rparr>)))
       else
         bindE (rejectAppend rf args reply) (\<lambda>reply.
         Inr (resetTime r rf, reply)))"

subsection \<open>InstallSnapshot\<close>

text \<open>
  The handler ends by sending the snapshot to the service and waiting on \<^verbatim>\<open>SnapSync2\<close> until
  the service has installed it; the installation is part of the service's model.
\<close>

definition InstallSnapshot ::
  "int \<Rightarrow> 'c Raft \<Rightarrow> 'c SnapArg \<Rightarrow> ('c Raft \<times> SnapReply) go" where
  "InstallSnapshot r rf args = with_lock rf (\<lambda>rf.
     let reply = \<lparr>sr_Term = currentTerm rf\<rparr> in
     if sa_Term args < currentTerm rf then Inr (rf, reply)
     else
       let rf = resetTime r rf;
           rf = adoptTerm rf (sa_Term args)
       in
       if sa_LastIncludedIndex args \<le> snapshotIndex rf then Inr (rf, reply)
       else
         let rf = (if commitIndex rf < sa_LastIncludedIndex args
                   then rf\<lparr>commitIndex := sa_LastIncludedIndex args\<rparr> else rf)
         in
         bindE
           (if len (log rf) - 1 + snapshotIndex rf \<ge> sa_LastIncludedIndex args
            then bindE (index (log rf) (sa_LastIncludedIndex args - snapshotIndex rf)) (\<lambda>e.
                 Inr (Term e = sa_LastIncludedTerm args))
            else Inr False) (\<lambda>retain.
         bindE
           (if retain
            then bindE (slice_from (log rf) (sa_LastIncludedIndex args + 1 - snapshotIndex rf)) (\<lambda>l.
                 Inr (rf\<lparr>log := dummy_entry # l\<rparr>))
            else Inr (persist (rf\<lparr>log := [dummy_entry]\<rparr>))) (\<lambda>rf.
         let statedata = encode_state (currentTerm rf) (votedFor rf) (log rf);
             rf = rf\<lparr>persister := SaveStateAndSnapshot (persister rf) statedata (sa_Data args)\<rparr>;
             rf = rf\<lparr>snapshotIndex := sa_LastIncludedIndex args,
                     snapshotTerm := sa_LastIncludedTerm args\<rparr>
         in Inr (rf\<lparr>applych := applych rf @
                      [\<lparr>CommandValid = False, MsgCommand = DataPayload (sa_Data args),
                        CommandIndex = 0\<rparr>]\<rparr>, reply))))"

end
