(* ===== verification/Raft_Leader.thy ===== *)
theory Raft_Leader
  imports Raft_Rpc
begin

section \<open>Raft: elections and replication by the leader\<close>

text \<open>
  The goroutines of \<^verbatim>\<open>src/raft/raft.go\<close> that talk to other peers: \<^verbatim>\<open>startElection\<close> with one
  goroutine per peer, \<^verbatim>\<open>Append2\<close> with the goroutines it starts, and \<^verbatim>\<open>updateCommit\<close>. A goroutine
  is split where it gives up \<^verbatim>\<open>rf.mu\<close>: what it does before it sends a request, and what it does
  with the answer (\<open>ok\<close> and \<open>reply\<close> are what \<^verbatim>\<open>Call\<close> returned). Its local variables are
  arguments.
\<close>

subsection \<open>startElection\<close>

text \<open>The first critical section; the result carries \<^verbatim>\<open>termTemp\<close>.\<close>

definition startElection :: "'c Raft \<Rightarrow> ('c Raft \<times> int) go" where
  "startElection rf = with_lock rf (\<lambda>rf.
     let rf = rf\<lparr>currentTerm := currentTerm rf + 1\<rparr>;
         rf = rf\<lparr>votedFor := me rf\<rparr>;
         rf = persist rf;
         rf = rf\<lparr>tp := 1, voteCount := 1\<rparr>;
         termTemp = currentTerm rf
     in Inr (rf, termTemp))"

text \<open>The goroutine for one peer: the request it sends, and its use of the answer.\<close>

definition voteRequest :: "'c Raft \<Rightarrow> int \<Rightarrow> RequestVoteArgs go" where
  "voteRequest rf termTemp = with_lock rf (\<lambda>rf.
     bindE (lastLogTerm rf) (\<lambda>termLast.
     Inr \<lparr>va_Term = termTemp, va_CandidateId = me rf,
          va_LastLogIndex = len (log rf) - 1 + snapshotIndex rf, va_LastLogTerm = termLast\<rparr>))"

definition voteReply ::
  "int \<Rightarrow> 'c Raft \<Rightarrow> int \<Rightarrow> bool \<Rightarrow> RequestVoteReply \<Rightarrow> 'c Raft go" where
  "voteReply r rf termTemp ok reply =
     (if killed rf then Inr rf
      else with_lock rf (\<lambda>rf.
        if currentTerm rf > termTemp then Inr rf
        else if ok \<and> vr_Term reply > currentTerm rf then
          Inr (resetTime r (termUpdate rf (vr_Term reply) 0 (-1)))
        else if ok \<and> vr_VoteGranted reply = True then
          Inr (rf\<lparr>voteCount := voteCount rf + 1\<rparr>)
        else Inr rf))"

text \<open>
  The loop that waits for a majority: the two conjuncts of its condition, which are read one
  after the other without the lock, and the critical section that follows. The candidate wins, waits for the next answer, or (when
  it has been killed) returns with the lock held.
\<close>

definition electionTerm :: "'c Raft \<Rightarrow> int \<Rightarrow> bool" where
  "electionTerm rf termTemp = (currentTerm rf = termTemp)"

definition electionRole :: "'c Raft \<Rightarrow> bool" where
  "electionRole rf = (tp rf = 1)"

datatype election = ElectionWon | ElectionWaits | ElectionReturns

definition electionCheck :: "'c Raft \<Rightarrow> ('c Raft \<times> election) go" where
  "electionCheck rf =
     (if killed rf then Inr (rf, ElectionReturns)
      else with_lock rf (\<lambda>rf.
        if voteCount rf > int (peers rf div 2) then
          if killed rf then Inr (rf\<lparr>mu := True\<rparr>, ElectionReturns)
          else
            let rf = rf\<lparr>tp := 2\<rparr>;
                n = length (nextIndex rf)
            in
            bindE (for_peers n (\<lambda>_. 0) (matchIndex rf)) (\<lambda>mi.
            let rf = rf\<lparr>nextIndex := replicate n (len (log rf)), matchIndex := mi\<rparr>;
                rf = rf\<lparr>commitCount := replicate (length (log rf)) 0\<rparr>
            in Inr (rf\<lparr>startAppend := False\<rparr>, ElectionWon))
        else Inr (rf, ElectionWaits)))"

text \<open>The command a new leader starts when \<^verbatim>\<open>Noop\<close> is set.\<close>

definition noopCommand :: "'c Raft \<Rightarrow> 'c command" where
  "noopCommand rf = StringCommand (''Term '' @ Itoa (currentTerm rf) @ ''no-op'')"

definition electionNoop :: "'c Raft \<Rightarrow> 'c Raft go" where
  "electionNoop rf =
     (if Noop rf then bindE (Start rf (noopCommand rf)) (\<lambda>(rf, i, t, l). Inr rf) else Inr rf)"

subsection \<open>updateCommit\<close>

definition updateCommit :: "'c Raft \<Rightarrow> 'c Raft go" where
  "updateCommit rf =
     (if length (matchIndex rf) < peers rf then Inl IndexOutOfRange
      else
        let pre = commitIndex rf;
            ps = sort_key (\<lambda>p. matchIndex rf ! p) [0..<peers rf]
        in
        bindE (index ps (int (peers rf div 2))) (\<lambda>p.
        bindE (index (matchIndex rf) (int p)) (\<lambda>temp.
        let rf = (if temp > pre then rf\<lparr>commitIndex := temp\<rparr> else rf) in
        if pre \<ge> snapshotIndex rf then
          bindE (applyLoop 1 (log rf) (snapshotIndex rf) (pre + 1 - snapshotIndex rf)
                   (commitIndex rf - snapshotIndex rf)) (\<lambda>ms.
          Inr (rf\<lparr>applych := applych rf @ ms\<rparr>))
        else Inr rf)))"

subsection \<open>Append2\<close>

text \<open>The local variables of one \<^verbatim>\<open>Append2\<close> goroutine.\<close>

record Append2 =
  termTemp :: int
  count :: int

definition Append2_init :: "'c Raft \<Rightarrow> Append2" where
  "Append2_init rf = \<lparr>termTemp = currentTerm rf, count = 0\<rparr>"

text \<open>
  One turn of the loop up to the goroutine it starts: \<^verbatim>\<open>Append2\<close> returns, sends its snapshot,
  or sends log entries. The killed case returns with the lock held.
\<close>

datatype append2_turn = Append2Returns | Append2Snapshot | Append2Entries

definition Append2_turn :: "'c Raft \<Rightarrow> int \<Rightarrow> ('c Raft \<times> append2_turn) go" where
  "Append2_turn rf server = with_lock rf (\<lambda>rf.
     if killed rf then Inr (rf\<lparr>mu := True\<rparr>, Append2Returns)
     else if tp rf \<noteq> 2 then Inr (rf, Append2Returns)
     else
       bindE (index (nextIndex rf) server) (\<lambda>next.
       if next \<le> 0 then Inr (rf, Append2Snapshot) else Inr (rf, Append2Entries)))"

definition snapshotRequest :: "'c Raft \<Rightarrow> Append2 \<Rightarrow> (Append2 \<times> 'c SnapArg) go" where
  "snapshotRequest rf a2 = with_lock rf (\<lambda>rf.
     Inr (a2\<lparr>count := count a2 + 1\<rparr>,
          \<lparr>sa_Term = currentTerm rf, sa_LeaderId = me rf, sa_LastIncludedIndex = snapshotIndex rf,
           sa_LastIncludedTerm = snapshotTerm rf, sa_Data = snapshot (persister rf)\<rparr>))"

definition snapshotReply ::
  "int \<Rightarrow> 'c Raft \<Rightarrow> Append2 \<Rightarrow> int \<Rightarrow> int \<Rightarrow> bool \<Rightarrow> SnapReply \<Rightarrow> 'c Raft go" where
  "snapshotReply r rf a2 server countTemp ok reply =
     (if killed rf then Inr rf
      else if count a2 \<noteq> countTemp then Inr rf
      else with_lock rf (\<lambda>rf.
        if termTemp a2 < currentTerm rf then Inr rf
        else if ok \<and> sr_Term reply > currentTerm rf then
          Inr (resetTime r (termUpdate rf (sr_Term reply) 0 (-1)))
        else if ok then
          bindE (set_index (nextIndex rf) server 1) (\<lambda>ni. Inr (rf\<lparr>nextIndex := ni\<rparr>))
        else Inr rf))"

text \<open>\<open>None\<close>: the goroutine returns without sending anything.\<close>

definition appendRequest ::
  "'c Raft \<Rightarrow> Append2 \<Rightarrow> int \<Rightarrow> (Append2 \<times> 'c RequestAppendArgs option) go" where
  "appendRequest rf a2 server = with_lock rf (\<lambda>rf.
     let a2 = a2\<lparr>count := count a2 + 1\<rparr> in
     bindE (index (nextIndex rf) server) (\<lambda>next.
     if next \<le> 0 then Inr (a2, None)
     else if tp rf \<noteq> 2 then Inr (a2, None)
     else
       bindE (slice_from (log rf) next) (\<lambda>entries.
       bindE (if next = 1 then Inr (snapshotTerm rf)
              else bindE (index (log rf) (next - 1)) (\<lambda>e. Inr (Term e))) (\<lambda>argTerm.
       Inr (a2, Some \<lparr>aa_Term = currentTerm rf, aa_LeaderId = me rf,
                      aa_PrevLogIndex = next - 1 + snapshotIndex rf, aa_PrevLogTerm = argTerm,
                      aa_Entries = entries, aa_LeaderCommit = commitIndex rf\<rparr>)))))"

text \<open>What the leader does with a rejection: the fast search for the common prefix.\<close>

definition appendRejected ::
  "'c Raft \<Rightarrow> int \<Rightarrow> 'c RequestAppendArgs \<Rightarrow> RequestAppendReply \<Rightarrow> 'c Raft go" where
  "appendRejected rf server args reply =
     bindE (index (nextIndex rf) server) (\<lambda>next.
     if next + snapshotIndex rf = aa_PrevLogIndex args + 1 then
       bindE
         (if ar_Miss reply = True then Inr (ar_Len reply - snapshotIndex rf)
          else
            bindE (findLast rf (ar_TermConflict reply) (aa_PrevLogIndex args - snapshotIndex rf)) (\<lambda>i.
            if i \<noteq> -1 then Inr i else Inr (ar_TermStart reply - snapshotIndex rf))) (\<lambda>n.
       bindE (set_index (nextIndex rf) server n) (\<lambda>ni. Inr (rf\<lparr>nextIndex := ni\<rparr>)))
     else Inr rf)"

definition appendAccepted ::
  "'c Raft \<Rightarrow> int \<Rightarrow> 'c RequestAppendArgs \<Rightarrow> 'c Raft go" where
  "appendAccepted rf server args =
     bindE (index (nextIndex rf) server) (\<lambda>next.
     if next + snapshotIndex rf = aa_PrevLogIndex args + 1 \<and> len (aa_Entries args) > 0 then
       let matchTemp = next - 1 + len (aa_Entries args) + snapshotIndex rf in
       bindE (index (matchIndex rf) server) (\<lambda>m.
       bindE
         (if matchTemp > m
          then bindE (set_index (matchIndex rf) server matchTemp) (\<lambda>mi. Inr (rf\<lparr>matchIndex := mi\<rparr>))
          else Inr rf) (\<lambda>rf.
       bindE (set_index (nextIndex rf) server (next + len (aa_Entries args))) (\<lambda>ni.
       updateCommit (rf\<lparr>nextIndex := ni\<rparr>))))
     else Inr rf)"

definition appendReply ::
  "int \<Rightarrow> 'c Raft \<Rightarrow> Append2 \<Rightarrow> int \<Rightarrow> int \<Rightarrow> 'c RequestAppendArgs \<Rightarrow> bool
     \<Rightarrow> RequestAppendReply \<Rightarrow> 'c Raft go" where
  "appendReply r rf a2 server countTemp args ok reply =
     (if killed rf then Inr rf
      else if count a2 \<noteq> countTemp then Inr rf
      else with_lock rf (\<lambda>rf.
        if startAppend rf = False then Inr rf
        else
          bindE
            (if termTemp a2 < currentTerm rf then Inr rf
             else if ok \<and> ar_Term reply > currentTerm rf then
               Inr (resetTime r (termUpdate rf (ar_Term reply) 0 (-1)))
             else if ok \<and> ar_Success reply = False then appendRejected rf server args reply
             else if ok \<and> ar_Success reply = True then appendAccepted rf server args
             else Inr rf)
            updateCommit))"

end
