(* ===== verification/Raft_Local.thy ===== *)
theory Raft_Local
  imports Raft_Leader
begin

section \<open>Raft: what one operation does to a peer\<close>

text \<open>
  Lemmas about single operations. First the discipline of the term, the vote and the
  persister, which every operation keeps (\<open>term_ok\<close>, \<open>persisted\<close>); then that no handler fails
  on a well-formed peer and what it does to the log, the commit index and the messages to
  the service; then the searches and the leader's use of them.
\<close>

subsection \<open>Definitions\<close>

text \<open>The persister holds exactly what a restart has to find.\<close>

definition persisted :: "'c Raft \<Rightarrow> bool" where
  "persisted rf =
     (raftstate (persister rf) = encode_state (currentTerm rf) (votedFor rf) (log rf))"

definition snapshot_saved :: "'c Raft \<Rightarrow> bool" where
  "snapshot_saved rf =
     (LastIndex (read_snapshot (snapshot (persister rf))) = snapshotIndex rf \<and>
      LastTerm (read_snapshot (snapshot (persister rf))) = snapshotTerm rf)"

text \<open>The identity of the peer stays, and the vote changes only together with the term.\<close>

definition term_ok :: "'c Raft \<Rightarrow> 'c Raft \<Rightarrow> bool" where
  "term_ok rf rf' =
     (me rf' = me rf \<and> peers rf' = peers rf \<and> (persisted rf \<longrightarrow> persisted rf') \<and>
      (currentTerm rf' = currentTerm rf \<and> votedFor rf' = votedFor rf \<or>
       currentTerm rf < currentTerm rf' \<and> votedFor rf' = -1))"

text \<open>
  Well-formed: nobody holds the lock for ever, the log starts with the entry 0, the slices
  kept per peer have one element per peer, and what the snapshot covers is committed.
\<close>

definition raft_wf :: "'c Raft \<Rightarrow> bool" where
  "raft_wf rf =
     (\<not> mu rf \<and> log rf \<noteq> [] \<and> hd (log rf) = dummy_entry \<and>
      length (nextIndex rf) = peers rf \<and> length (matchIndex rf) = peers rf \<and>
      0 \<le> me rf \<and> me rf < int (peers rf) \<and>
      0 \<le> snapshotIndex rf \<and> snapshotIndex rf \<le> commitIndex rf)"

text \<open>The log as the paper has it: entries by absolute index, above the snapshot.\<close>

definition lastIndex :: "'c Raft \<Rightarrow> int" where
  "lastIndex rf = len (log rf) - 1 + snapshotIndex rf"

definition entry_at :: "'c Raft \<Rightarrow> int \<Rightarrow> 'c Log option" where
  "entry_at rf i =
     (if snapshotIndex rf < i \<and> i \<le> lastIndex rf then Some (log rf ! nat (i - snapshotIndex rf))
      else None)"

text \<open>The message for the entry at position \<open>j\<close> of the slice.\<close>

definition apply_msg :: "'c Log list \<Rightarrow> int \<Rightarrow> int \<Rightarrow> 'c ApplyMsg" where
  "apply_msg l snap j =
     \<lparr>CommandValid = True, MsgCommand = CommandPayload (Command (l ! nat j)), CommandIndex = j + snap\<rparr>"

definition apply_msgs :: "nat \<Rightarrow> 'c Log list \<Rightarrow> int \<Rightarrow> int \<Rightarrow> int \<Rightarrow> 'c ApplyMsg list" where
  "apply_msgs copies l snap i hi = concat (map (\<lambda>j. replicate copies (apply_msg l snap j)) [i..hi])"

subsection \<open>The term, the vote and the persister\<close>

lemma with_lock_eq_Inr: "with_lock rf body = Inr x \<longleftrightarrow> \<not> mu rf \<and> body rf = Inr x"
  by (simp add: with_lock_def)

lemma persist_simps [simp]:
  "mu (persist rf) = mu rf" "peers (persist rf) = peers rf" "me (persist rf) = me rf"
  "dead (persist rf) = dead rf" "tp (persist rf) = tp rf"
  "currentTerm (persist rf) = currentTerm rf" "votedFor (persist rf) = votedFor rf"
  "log (persist rf) = log rf" "commitIndex (persist rf) = commitIndex rf"
  "nextIndex (persist rf) = nextIndex rf" "matchIndex (persist rf) = matchIndex rf"
  "voteCount (persist rf) = voteCount rf" "startAppend (persist rf) = startAppend rf"
  "snapshotIndex (persist rf) = snapshotIndex rf" "snapshotTerm (persist rf) = snapshotTerm rf"
  "applych (persist rf) = applych rf" "apps (persist rf) = apps rf" "Noop (persist rf) = Noop rf"
  "snapshot (persister (persist rf)) = snapshot (persister rf)"
  "raftstate (persister (persist rf)) = encode_state (currentTerm rf) (votedFor rf) (log rf)"
  by (simp_all add: persist_def Let_def)

lemma resetTime_simps [simp]:
  "mu (resetTime r rf) = mu rf" "peers (resetTime r rf) = peers rf" "me (resetTime r rf) = me rf"
  "dead (resetTime r rf) = dead rf" "tp (resetTime r rf) = tp rf"
  "currentTerm (resetTime r rf) = currentTerm rf" "votedFor (resetTime r rf) = votedFor rf"
  "log (resetTime r rf) = log rf" "commitIndex (resetTime r rf) = commitIndex rf"
  "nextIndex (resetTime r rf) = nextIndex rf" "matchIndex (resetTime r rf) = matchIndex rf"
  "voteCount (resetTime r rf) = voteCount rf" "startAppend (resetTime r rf) = startAppend rf"
  "snapshotIndex (resetTime r rf) = snapshotIndex rf"
  "snapshotTerm (resetTime r rf) = snapshotTerm rf"
  "applych (resetTime r rf) = applych rf" "apps (resetTime r rf) = apps rf"
  "Noop (resetTime r rf) = Noop rf"
  "persister (resetTime r rf) = persister rf"
  by (simp_all add: resetTime_def)

lemma persisted_persist [simp]: "persisted (persist rf)"
  by (simp add: persisted_def)

lemma persisted_resetTime [simp]: "persisted (resetTime r rf) = persisted rf"
  by (simp add: persisted_def)

lemma term_ok_refl [simp, intro]: "term_ok rf rf"
  by (simp add: term_ok_def)

lemma term_ok_trans: "term_ok a b \<Longrightarrow> term_ok b c \<Longrightarrow> term_ok a c"
  by (auto simp: term_ok_def)

lemma term_ok_persist [simp]: "term_ok rf (persist rf)"
  by (simp add: term_ok_def)

lemma term_ok_resetTime [simp]: "term_ok rf (resetTime r rf')= term_ok rf rf'"
  by (simp add: term_ok_def)

text \<open>A change of fields the persister does not hold, and a change of the log that is saved.\<close>

lemma term_ok_frame:
  assumes "me rf' = me rf" "peers rf' = peers rf" "currentTerm rf' = currentTerm rf"
    "votedFor rf' = votedFor rf" "log rf' = log rf" "persister rf' = persister rf"
  shows "term_ok rf rf'"
  using assms by (simp add: term_ok_def persisted_def)

lemma term_ok_termUpdate: "currentTerm rf < t \<Longrightarrow> term_ok rf (termUpdate rf t k (-1))"
  by (simp add: term_ok_def termUpdate_def)

lemma term_ok_step_down: "currentTerm rf < t \<Longrightarrow> term_ok rf (resetTime r (termUpdate rf t k (-1)))"
  by (simp add: term_ok_termUpdate)

lemma term_ok_adoptTerm: "term_ok rf (adoptTerm rf t)"
  unfolding adoptTerm_def
  by (simp add: term_ok_termUpdate) (simp add: term_ok_frame)

lemma term_ok_save_log: "term_ok rf (persist (rf\<lparr>log := l\<rparr>))"
  by (simp add: term_ok_def)

lemma term_ok_appendAfterPrev: "appendAfterPrev rf args = Inr rf' \<Longrightarrow> term_ok rf rf'"
  by (auto simp: appendAfterPrev_def Let_def go_simps term_ok_save_log split: if_splits)

lemma term_ok_appendAfterSnapshot: "appendAfterSnapshot rf args = Inr rf' \<Longrightarrow> term_ok rf rf'"
  by (auto simp: appendAfterSnapshot_def Let_def go_simps term_ok_def split: if_splits)

lemma term_ok_followCommit: "followCommit rf c = Inr rf' \<Longrightarrow> term_ok rf rf'"
  by (auto simp: followCommit_def Let_def go_simps split: if_splits intro!: term_ok_frame)

lemma term_ok_AppendEntries:
  assumes "AppendEntries r rf args = Inr (rf', reply)"
  shows "term_ok rf rf'"
proof (cases "aa_Term args < currentTerm rf")
  case True
  with assms show ?thesis by (auto simp: AppendEntries_def with_lock_eq_Inr Let_def)
next
  case False
  let ?a = "adoptTerm rf (aa_Term args)"
  from False assms have "term_ok ?a rf'"
    by (auto simp: AppendEntries_def with_lock_eq_Inr Let_def go_simps split: if_splits
        intro: term_ok_trans [OF term_ok_appendAfterPrev term_ok_followCommit]
          term_ok_trans [OF term_ok_appendAfterSnapshot term_ok_followCommit])
  with term_ok_adoptTerm show ?thesis by (rule term_ok_trans)
qed

lemma term_ok_InstallSnapshot:
  assumes "InstallSnapshot r rf args = Inr (rf', reply)"
  shows "term_ok rf rf'"
proof (cases "sa_Term args < currentTerm rf")
  case True
  with assms show ?thesis by (auto simp: InstallSnapshot_def with_lock_eq_Inr Let_def)
next
  case False
  let ?a = "adoptTerm (resetTime r rf) (sa_Term args)"
  from False assms have "term_ok ?a rf'"
    by (auto simp: InstallSnapshot_def with_lock_eq_Inr Let_def go_simps term_ok_def persisted_def
        split: if_splits)
  moreover have "term_ok rf ?a"
    by (rule term_ok_trans [OF _ term_ok_adoptTerm]) simp
  ultimately show ?thesis by (blast intro: term_ok_trans)
qed

lemma term_ok_persistV2: "persistV2 rf ss = Inr rf' \<Longrightarrow> term_ok rf rf'"
  by (auto simp: persistV2_def with_lock_eq_Inr Let_def go_simps term_ok_def persisted_def
      split: if_splits)

lemma term_ok_Start: "Start rf c = Inr (rf', x) \<Longrightarrow> term_ok rf rf'"
  by (auto simp: Start_def with_lock_eq_Inr Let_def go_simps term_ok_def persisted_def
      split: if_splits)

lemma term_ok_voteReply: "voteReply r rf t ok reply = Inr rf' \<Longrightarrow> term_ok rf rf'"
  by (auto simp: voteReply_def with_lock_eq_Inr term_ok_termUpdate split: if_splits
      intro: term_ok_frame)

lemma term_ok_electionCheck: "electionCheck rf = Inr (rf', res) \<Longrightarrow> term_ok rf rf'"
  by (auto simp: electionCheck_def with_lock_eq_Inr Let_def go_simps split: if_splits
      intro!: term_ok_frame)

lemma term_ok_electionNoop: "electionNoop rf = Inr rf' \<Longrightarrow> term_ok rf rf'"
  by (auto simp: electionNoop_def go_simps split: if_splits prod.splits dest: term_ok_Start)

lemma updateCommit_shape:
  assumes "updateCommit rf = Inr rf'"
  shows "rf' = rf\<lparr>commitIndex := commitIndex rf', applych := applych rf'\<rparr>"
proof -
  let ?ps = "sort_key (\<lambda>p. matchIndex rf ! p) [0..<peers rf]"
  from assms obtain p temp where "index ?ps (int (peers rf div 2)) = Inr p"
    "index (matchIndex rf) (int p) = Inr temp"
    unfolding updateCommit_def Let_def by (auto simp only: bindE_eq_Inr if_False split: if_split_asm)
  with assms show ?thesis
    unfolding updateCommit_def Let_def
    by (simp split: if_split_asm del: sort_key_simps) (auto simp: bindE_eq_Inr)
qed

lemma term_ok_updateCommit: "updateCommit rf = Inr rf' \<Longrightarrow> term_ok rf rf'"
  by (drule updateCommit_shape, erule ssubst) (simp add: term_ok_frame)

lemma term_ok_appendRejected: "appendRejected rf s args reply = Inr rf' \<Longrightarrow> term_ok rf rf'"
  by (auto simp: appendRejected_def go_simps split: if_splits intro!: term_ok_frame)

lemma term_ok_slices [simp]:
  "term_ok (rf\<lparr>nextIndex := ni\<rparr>) rf' = term_ok rf rf'"
  "term_ok (rf\<lparr>matchIndex := mi\<rparr>) rf' = term_ok rf rf'"
  "term_ok (rf\<lparr>matchIndex := mi, nextIndex := ni\<rparr>) rf' = term_ok rf rf'"
  by (simp_all add: term_ok_def persisted_def)

lemma term_ok_appendAccepted: "appendAccepted rf s args = Inr rf' \<Longrightarrow> term_ok rf rf'"
  unfolding appendAccepted_def Let_def
  by (auto simp: bindE_eq_Inr split: if_split_asm dest!: term_ok_updateCommit)

lemma term_ok_appendReply:
  assumes "appendReply r rf a2 s ct args ok reply = Inr rf'"
  shows "term_ok rf rf'"
proof (cases "rf' = rf")
  case False
  with assms obtain rf1 where u: "updateCommit rf1 = Inr rf'" and "term_ok rf rf1"
    by (auto simp: appendReply_def with_lock_eq_Inr go_simps split: if_splits
        dest: term_ok_appendRejected term_ok_appendAccepted intro: term_ok_refl that term_ok_step_down)
  then show ?thesis using term_ok_updateCommit [OF u] by (blast intro: term_ok_trans)
qed simp

lemma term_ok_snapshotReply:
  "snapshotReply r rf a2 s ct ok reply = Inr rf' \<Longrightarrow> term_ok rf rf'"
  by (auto simp: snapshotReply_def with_lock_eq_Inr go_simps split: if_splits
      intro: term_ok_step_down term_ok_frame)

lemma term_ok_oscillator:
  "oscillator_check r rf = Inr (rf', res) \<Longrightarrow> term_ok rf rf'"
  "oscillator_tick rf = Inr rf' \<Longrightarrow> term_ok rf rf'"
  "Append2_turn rf s = Inr (rf', turn) \<Longrightarrow> term_ok rf rf'"
  by (auto simp: oscillator_check_def oscillator_tick_def Append2_turn_def with_lock_eq_Inr Let_def
      go_simps split: if_splits intro!: term_ok_frame)

lemma term_ok_Kill: "term_ok rf (Kill rf)"
  by (rule term_ok_frame) (simp_all add: Kill_def)

lemmas term_ok_operations = term_ok_AppendEntries term_ok_InstallSnapshot term_ok_persistV2
  term_ok_Start term_ok_voteReply term_ok_electionCheck term_ok_electionNoop term_ok_appendReply
  term_ok_snapshotReply term_ok_oscillator

end
