(* ===== verification/Raft_Node.thy ===== *)
theory Raft_Node
  imports Raft_Local
begin

section \<open>Raft: runs of one peer, with crashes\<close>

text \<open>
  The steps of one peer: every operation of \<^verbatim>\<open>src/raft/raft.go\<close>, and a crash followed by a
  restart from the persister alone. The contract of a voter (terms never go back, at most
  one vote per term) is a locale; its lemmas are about whole runs, and the peer's steps are
  an instance of it.
\<close>

subsection \<open>The steps\<close>

text \<open>What a step shows to the others: a vote in a term for a candidate, or nothing.\<close>

datatype vote_event = Vote int int | NoVote

text \<open>
  Votes are asked for by candidates, who are peers and have been through \<^verbatim>\<open>startElection\<close>: the
  id is not negative and the term is positive.
\<close>

inductive node_step :: "'c Raft \<Rightarrow> vote_event \<Rightarrow> 'c Raft \<Rightarrow> bool" where
  request_vote: "RequestVote r rf args = Inr (rf', reply) \<Longrightarrow> 0 \<le> va_CandidateId args \<Longrightarrow>
    1 \<le> va_Term args \<Longrightarrow>
    node_step rf (if vr_VoteGranted reply then Vote (va_Term args) (va_CandidateId args) else NoVote) rf'"
| start_election: "startElection rf = Inr (rf', t) \<Longrightarrow> node_step rf (Vote t (me rf)) rf'"
| append_entries: "AppendEntries r rf aargs = Inr (rf', areply) \<Longrightarrow> node_step rf NoVote rf'"
| install_snapshot: "InstallSnapshot r rf sargs = Inr (rf', sreply) \<Longrightarrow> node_step rf NoVote rf'"
| vote_reply: "voteReply r rf t ok vreply = Inr rf' \<Longrightarrow> node_step rf NoVote rf'"
| election_check: "electionCheck rf = Inr (rf', res) \<Longrightarrow> node_step rf NoVote rf'"
| election_noop: "electionNoop rf = Inr rf' \<Longrightarrow> node_step rf NoVote rf'"
| append_turn: "Append2_turn rf s = Inr (rf', turn) \<Longrightarrow> node_step rf NoVote rf'"
| append_reply: "appendReply r rf a2 s ct aargs ok areply = Inr rf' \<Longrightarrow> node_step rf NoVote rf'"
| snapshot_reply: "snapshotReply r rf a2 s ct ok sreply = Inr rf' \<Longrightarrow> node_step rf NoVote rf'"
| start: "Start rf c = Inr (rf', x) \<Longrightarrow> node_step rf NoVote rf'"
| take_snapshot: "persistV2 rf ss = Inr rf' \<Longrightarrow> node_step rf NoVote rf'"
| timer: "oscillator_check r rf = Inr (rf', osc) \<Longrightarrow> node_step rf NoVote rf'"
| tick: "oscillator_tick rf = Inr rf' \<Longrightarrow> node_step rf NoVote rf'"
| kill: "node_step rf NoVote (Kill rf)"
| restart: "Make r (peers rf) (me rf) (persister rf) = Inr rf' \<Longrightarrow> node_step rf NoVote rf'"

inductive node_run :: "'c Raft \<Rightarrow> vote_event list \<Rightarrow> 'c Raft \<Rightarrow> bool" where
  run_refl: "node_run rf [] rf"
| run_step: "node_run rf evs rf' \<Longrightarrow> node_step rf' e rf'' \<Longrightarrow> node_run rf (evs @ [e]) rf''"

inductive_cases node_run_snocE: "node_run rf (evs @ [e]) rf'"

text \<open>What a peer keeps at all times, whatever it is asked.\<close>

definition node_inv :: "'c Raft \<Rightarrow> bool" where
  "node_inv rf =
     (persisted rf \<and> 0 \<le> me rf \<and> me rf < int (peers rf) \<and> 0 \<le> currentTerm rf \<and>
      (currentTerm rf = 0 \<longrightarrow> votedFor rf = -1))"

subsection \<open>The contract of a voter\<close>

locale term_voter =
  fixes step :: "'s \<Rightarrow> vote_event \<Rightarrow> 's \<Rightarrow> bool"
    and trm :: "'s \<Rightarrow> int" and vote :: "'s \<Rightarrow> int" and inv :: "'s \<Rightarrow> bool"
  assumes inv_step: "inv s \<Longrightarrow> step s e s' \<Longrightarrow> inv s'"
    and trm_step: "inv s \<Longrightarrow> step s e s' \<Longrightarrow> trm s \<le> trm s'"
    and vote_step: "inv s \<Longrightarrow> step s e s' \<Longrightarrow> trm s' = trm s \<Longrightarrow> vote s \<noteq> -1 \<Longrightarrow> vote s' = vote s"
    and Vote_step: "inv s \<Longrightarrow> step s (Vote t c) s' \<Longrightarrow> trm s' = t \<and> vote s' = c \<and> c \<noteq> -1"
begin

inductive run :: "'s \<Rightarrow> vote_event list \<Rightarrow> 's \<Rightarrow> bool" where
  run_Nil: "run s [] s"
| run_snoc: "run s evs s' \<Longrightarrow> step s' e s'' \<Longrightarrow> run s (evs @ [e]) s''"

lemma run_inv: "run s evs s' \<Longrightarrow> inv s \<Longrightarrow> inv s'"
  by (induction rule: run.induct) (auto intro: inv_step)

lemma run_trm: "run s evs s' \<Longrightarrow> inv s \<Longrightarrow> trm s \<le> trm s'"
  by (induction rule: run.induct) (auto intro: order_trans dest: trm_step run_inv)

lemma run_votes:
  "run s evs s' \<Longrightarrow> inv s \<Longrightarrow> Vote t c \<in> set evs \<Longrightarrow>
   t \<le> trm s' \<and> (t = trm s' \<longrightarrow> vote s' = c \<and> c \<noteq> -1)"
proof (induction rule: run.induct)
  case (run_snoc s evs s' e s'')
  have inv: "inv s'" using run_snoc.hyps(1) run_snoc.prems(1) by (rule run_inv)
  show ?case
  proof (cases "Vote t c \<in> set evs")
    case True
    with run_snoc have old: "t \<le> trm s'" "t = trm s' \<longrightarrow> vote s' = c \<and> c \<noteq> -1" by blast+
    from trm_step [OF inv run_snoc.hyps(2)] vote_step [OF inv run_snoc.hyps(2)] old
    show ?thesis by auto
  next
    case False
    with run_snoc.prems have "e = Vote t c" by simp
    with run_snoc.hyps(2) inv show ?thesis using Vote_step by blast
  qed
qed simp

lemma run_one_vote:
  "run s evs s' \<Longrightarrow> inv s \<Longrightarrow> Vote t c \<in> set evs \<Longrightarrow> Vote t d \<in> set evs \<Longrightarrow> c = d"
proof (induction rule: run.induct)
  case (run_snoc s evs s' e s'')
  have inv: "inv s'" using run_snoc.hyps(1) run_snoc.prems(1) by (rule run_inv)
  have new: "x = y" if "Vote t x \<in> set evs" "e = Vote t y" for x y
  proof -
    from run_snoc.hyps(2) that(2) inv have s'': "trm s'' = t" "vote s'' = y" using Vote_step by auto
    from run_votes [OF run_snoc.hyps(1) run_snoc.prems(1) that(1)] have "t \<le> trm s'" by simp
    with trm_step [OF inv run_snoc.hyps(2)] s'' have "trm s' = t" by simp
    with run_votes [OF run_snoc.hyps(1) run_snoc.prems(1) that(1)]
      vote_step [OF inv run_snoc.hyps(2)] s''
    show ?thesis by simp
  qed
  from run_snoc.prems(2,3) consider "Vote t c \<in> set evs" "Vote t d \<in> set evs"
    | "Vote t c \<in> set evs" "e = Vote t d" | "Vote t d \<in> set evs" "e = Vote t c"
    | "e = Vote t c" "e = Vote t d" by auto
  then show ?case
  proof cases
    case 1
    with run_snoc.IH [OF run_snoc.prems(1)] show ?thesis by blast
  qed (simp_all add: new new [symmetric])
qed simp

end

subsection \<open>The peer is a voter\<close>

lemma node_inv_term_ok:
  "node_inv rf \<Longrightarrow> term_ok rf rf' \<Longrightarrow>
   node_inv rf' \<and> currentTerm rf \<le> currentTerm rf' \<and>
   (currentTerm rf' = currentTerm rf \<longrightarrow> votedFor rf' = votedFor rf)"
  by (auto simp: node_inv_def term_ok_def)

text \<open>
  A request for a vote: the state is as before, or in the new term; with a vote granted, the
  vote is for the candidate in the term of the request, and saved.
\<close>

lemma RequestVote_effect:
  assumes "RequestVote r rf args = Inr (rf', reply)"
  shows "\<not> vr_VoteGranted reply \<and> term_ok rf rf' \<or>
    vr_VoteGranted reply \<and> currentTerm rf' = va_Term args \<and> currentTerm rf \<le> va_Term args \<and>
    votedFor rf' = va_CandidateId args \<and> me rf' = me rf \<and> peers rf' = peers rf \<and> persisted rf' \<and>
    (currentTerm rf = va_Term args \<longrightarrow> votedFor rf = -1 \<or> votedFor rf = va_CandidateId args)"
  using assms
  by (auto simp: RequestVote_def with_lock_eq_Inr Let_def bindE_eq_Inr term_ok_def split: if_split_asm)

lemma startElection_effect:
  "startElection rf = Inr (rf', t) \<Longrightarrow>
   t = currentTerm rf + 1 \<and> currentTerm rf' = t \<and> votedFor rf' = me rf \<and> me rf' = me rf \<and>
   peers rf' = peers rf \<and> persisted rf' \<and> tp rf' = 1 \<and> voteCount rf' = 1 \<and> log rf' = log rf"
  by (auto simp: startElection_def with_lock_eq_Inr Let_def persisted_def)

lemma Make_effect:
  assumes "Make r n i ps = Inr rf'" and "raftstate ps = encode_state t v l"
  shows "currentTerm rf' = t \<and> votedFor rf' = (if t = 0 then -1 else v) \<and>
    log rf' = (if l = [] then [dummy_entry] else l) \<and> me rf' = i \<and> peers rf' = n \<and> persisted rf' \<and>
    snapshot (persister rf') = snapshot ps \<and> snapshot_saved rf' \<and>
    snapshotIndex rf' = LastIndex (read_snapshot (snapshot ps)) \<and>
    snapshotTerm rf' = LastTerm (read_snapshot (snapshot ps)) \<and>
    commitIndex rf' = snapshotIndex rf' \<and> tp rf' = 0 \<and> \<not> mu rf' \<and> dead rf' = 0 \<and>
    length (nextIndex rf') = n \<and> length (matchIndex rf') = n"
  using assms
  by (auto simp: Make_def new_Raft_def readPersist_def Let_def bindE_eq_Inr set_index_eq_Inr
      readSnapRaft_def persisted_def snapshot_saved_def persist_def persister_defs resetTime_def
      len_def split: if_split_asm)

lemma Make_returns:
  assumes "raftstate ps = encode_state t v l" "0 \<le> i" "i < int n"
  shows "\<exists>rf. Make r n i ps = Inr rf"
  using assms
  by (simp add: Make_def new_Raft_def readPersist_def Let_def set_index_def len_def)

lemma node_step_effect:
  assumes "node_step rf e rf'" and inv: "node_inv rf"
  shows "node_inv rf' \<and> currentTerm rf \<le> currentTerm rf' \<and>
    (currentTerm rf' = currentTerm rf \<longrightarrow> votedFor rf \<noteq> -1 \<longrightarrow> votedFor rf' = votedFor rf) \<and>
    (\<forall>t c. e = Vote t c \<longrightarrow> currentTerm rf' = t \<and> votedFor rf' = c \<and> c \<noteq> -1)"
  using assms(1)
proof (cases rule: node_step.cases)
  case (request_vote r args reply)
  from RequestVote_effect [OF request_vote(2)] request_vote inv show ?thesis
    using node_inv_term_ok [OF inv, of rf'] by (auto simp: node_inv_def)
next
  case (start_election t)
  from startElection_effect [OF start_election(2)] start_election(1) inv show ?thesis
    by (auto simp: node_inv_def)
next
  case (restart r)
  from inv have "raftstate (persister rf) = encode_state (currentTerm rf) (votedFor rf) (log rf)"
    by (simp add: node_inv_def persisted_def)
  from Make_effect [OF restart(2) this] restart(1) inv show ?thesis by (auto simp: node_inv_def)
qed (use node_inv_term_ok [OF inv, of rf'] in \<open>auto dest: term_ok_operations simp: term_ok_Kill\<close>)

lemma node_step_id:
  assumes "node_step rf e rf'"
  shows "me rf' = me rf \<and> peers rf' = peers rf"
  using assms
proof (cases rule: node_step.cases)
  case (restart r)
  then show ?thesis
    by (auto simp: Make_def new_Raft_def readPersist_def readSnapRaft_def Let_def bindE_eq_Inr persist_def
        resetTime_def split: if_split_asm option.split_asm)
qed (auto dest!: RequestVote_effect startElection_effect term_ok_operations
    simp: term_ok_def Kill_def)

interpretation raft_voter: term_voter node_step currentTerm votedFor node_inv
  using node_step_effect by unfold_locales blast+

lemma node_run_iff: "node_run rf evs rf' = raft_voter.run rf evs rf'"
proof
  show "node_run rf evs rf' \<Longrightarrow> raft_voter.run rf evs rf'"
    by (induction rule: node_run.induct) (auto intro: raft_voter.run.intros)
  show "raft_voter.run rf evs rf' \<Longrightarrow> node_run rf evs rf'"
    by (induction rule: raft_voter.run.induct) (auto intro: node_run.intros)
qed

subsection \<open>A peer that has just been created\<close>

lemma Make_fresh:
  "0 \<le> i \<Longrightarrow> i < int n \<Longrightarrow>
   \<exists>rf. Make r n i MakePersister = Inr rf \<and> node_inv rf \<and> raft_wf rf \<and> me rf = i \<and> peers rf = n \<and>
     tp rf = 0 \<and> currentTerm rf = 0 \<and> votedFor rf = -1 \<and> log rf = [dummy_entry]"
  by (auto simp: Make_def new_Raft_def readPersist_def Let_def set_index_def len_def
      readSnapRaft_def persist_def persister_defs resetTime_def zero_SnapShot_def
      node_inv_def persisted_def raft_wf_def dummy_entry_def)

end
