(* ===== verification/Raft_Log.thy ===== *)
theory Raft_Log
  imports Raft_Local
begin

section \<open>Raft: the log of one peer\<close>

text \<open>
  What the operations do to the log, the commit index and the messages to the service:
  the loops and searches have the results they are meant to have, the handlers do not fail
  on a well-formed peer and keep it well-formed, and their effect in terms of absolute log
  indices.
\<close>

subsection \<open>Sending entries to the service\<close>

lemma applyLoop_eq:
  "0 \<le> i \<Longrightarrow> hi < len l \<Longrightarrow> applyLoop k l snap i hi = Inr (apply_msgs k l snap i hi)"
proof (induction k l snap i hi rule: applyLoop.induct)
  case (1 k l snap i hi)
  show ?case
  proof (cases "i \<le> hi")
    case True
    with 1 have "applyLoop k l snap (i + 1) hi = Inr (apply_msgs k l snap (i + 1) hi)"
      by (simp add: index_ok)
    with True 1 show ?thesis
      by (simp add: applyLoop.simps [of k l snap i hi] index_ok apply_msgs_def apply_msg_def upto_rec1)
  next
    case False
    then show ?thesis by (simp add: applyLoop.simps [of k l snap i hi] apply_msgs_def)
  qed
qed

subsection \<open>Searching for a term\<close>

lemma findEntry_loop_spec:
  "p < len l \<Longrightarrow>
   \<exists>f. findEntry_loop l t p res = Inr f \<and>
     (f = res \<and> (p < 0 \<or> Term (l ! nat p) \<noteq> t) \<or>
      0 \<le> f \<and> f \<le> p \<and> (\<forall>j. f \<le> j \<and> j \<le> p \<longrightarrow> Term (l ! nat j) = t) \<and>
      (f = 0 \<or> Term (l ! nat (f - 1)) \<noteq> t))"
proof (induction l t p res rule: findEntry_loop.induct)
  case (1 l t p res)
  show ?case
  proof (cases "p \<ge> 0 \<and> Term (l ! nat p) = t")
    case True
    from "1.IH" [of "l ! nat p"] True 1(2)
    have "\<exists>f. findEntry_loop l t (p - 1) p = Inr f \<and>
       (f = p \<and> (p - 1 < 0 \<or> Term (l ! nat (p - 1)) \<noteq> t) \<or>
        0 \<le> f \<and> f \<le> p - 1 \<and> (\<forall>j. f \<le> j \<and> j \<le> p - 1 \<longrightarrow> Term (l ! nat j) = t) \<and>
        (f = 0 \<or> Term (l ! nat (f - 1)) \<noteq> t))" by simp
    then obtain f where f: "findEntry_loop l t (p - 1) p = Inr f"
      and c: "f = p \<and> (p - 1 < 0 \<or> Term (l ! nat (p - 1)) \<noteq> t) \<or>
        0 \<le> f \<and> f \<le> p - 1 \<and> (\<forall>j. f \<le> j \<and> j \<le> p - 1 \<longrightarrow> Term (l ! nat j) = t) \<and>
        (f = 0 \<or> Term (l ! nat (f - 1)) \<noteq> t)" by blast
    have "findEntry_loop l t p res = Inr f"
      using True 1(2) f by (simp add: findEntry_loop.simps [of l t p res] index_ok)
    moreover have "Term (l ! nat j) = t" if "f \<le> j" "j \<le> p" for j
      using that True c by (cases "j = p") auto
    moreover have "0 \<le> f" "f \<le> p" "f = 0 \<or> Term (l ! nat (f - 1)) \<noteq> t"
      using True c by auto
    ultimately show ?thesis by blast
  next
    case False
    with 1(2) show ?thesis by (auto simp: findEntry_loop.simps [of l t p res] index_ok)
  qed
qed

lemma findEntry_spec:
  assumes "0 \<le> p" "p < len (log rf)"
  shows "\<exists>f. findEntry rf p = Inr f \<and> 0 \<le> f \<and> f \<le> p \<and>
    (\<forall>j. f \<le> j \<and> j \<le> p \<longrightarrow> Term (log rf ! nat j) = Term (log rf ! nat p)) \<and>
    (f = 0 \<or> Term (log rf ! nat (f - 1)) \<noteq> Term (log rf ! nat p))"
  using assms findEntry_loop_spec [of p "log rf" "Term (log rf ! nat p)" 0]
  by (auto simp: findEntry_def index_ok)

lemma findLast_loop_found:
  "i < len l \<Longrightarrow> sorted (map Term l) \<Longrightarrow> 0 \<le> j \<Longrightarrow> j \<le> i \<Longrightarrow> Term (l ! nat j) = t \<Longrightarrow>
   \<exists>f. findLast_loop l t i = Inr f \<and> j \<le> f \<and> f \<le> i \<and> Term (l ! nat f) = t \<and>
     (\<forall>k. f < k \<and> k \<le> i \<longrightarrow> Term (l ! nat k) \<noteq> t)"
proof (induction l t i rule: findLast_loop.induct)
  case (1 l t i)
  have i: "0 \<le> i" "i < len l" using 1 by auto
  show ?case
  proof (cases "Term (l ! nat i) = t")
    case True
    with i 1 show ?thesis by (auto simp: findLast_loop.simps [of l t i] index_ok)
  next
    case False
    have "Term (l ! nat j) \<le> Term (l ! nat i)"
      using 1 i by (auto simp: sorted_iff_nth_mono len_def)
    with False 1 have gt: "\<not> Term (l ! nat i) < t" and "j \<le> i - 1" by (auto simp: le_less)
    with False 1 i obtain f where "findLast_loop l t (i - 1) = Inr f" "j \<le> f" "f \<le> i - 1"
        "Term (l ! nat f) = t" "\<forall>k. f < k \<and> k \<le> i - 1 \<longrightarrow> Term (l ! nat k) \<noteq> t"
      by (auto simp: index_ok)
    with False gt i show ?thesis
      by (auto simp: findLast_loop.simps [of l t i] index_ok) (metis le_less zle_diff1_eq)
  qed
qed

lemma findLast_loop_missing:
  "0 \<le> i \<Longrightarrow> i < len l \<Longrightarrow> Term (l ! 0) < t \<Longrightarrow> \<forall>j. 0 \<le> j \<and> j \<le> i \<longrightarrow> Term (l ! nat j) \<noteq> t \<Longrightarrow>
   findLast_loop l t i = Inr (-1)"
proof (induction l t i rule: findLast_loop.induct)
  case (1 l t i)
  show ?case
  proof (cases "Term (l ! nat i) < t")
    case True
    with 1 show ?thesis by (auto simp: findLast_loop.simps [of l t i] index_ok)
  next
    case False
    with 1 have "i \<noteq> 0" "Term (l ! nat i) \<noteq> t" by auto
    with False 1 show ?thesis by (auto simp: findLast_loop.simps [of l t i] index_ok)
  qed
qed

lemma findLast_loop_bound:
  "0 \<le> i \<Longrightarrow> i < len l \<Longrightarrow> \<exists>f. findLast_loop l t i = Inr f \<and> -1 \<le> f \<and> f \<le> i"
proof (induction l t i rule: findLast_loop.induct)
  case (1 l t i)
  show ?case
  proof (cases "i = 0")
    case True
    with 1 show ?thesis
      by (simp add: findLast_loop.simps [of l t 0] findLast_loop.simps [of l t "-1"] index_ok)
  next
    case False
    with 1 have "\<exists>f. findLast_loop l t (i - 1) = Inr f \<and> -1 \<le> f \<and> f \<le> i - 1"
      if "Term (l ! nat i) \<noteq> t" "\<not> Term (l ! nat i) < t" using that by simp
    moreover have "findLast_loop l t i = (if Term (l ! nat i) = t then Inr i
        else if Term (l ! nat i) < t then Inr (-1) else findLast_loop l t (i - 1))"
      using 1(2,3) by (simp add: findLast_loop.simps [of l t i] index_ok)
    ultimately show ?thesis using 1(2) by fastforce
  qed
qed

subsection \<open>The handlers do not fail\<close>

lemma len_pos_wf: "raft_wf rf \<Longrightarrow> 1 \<le> len (log rf)"
  by (cases "log rf") (auto simp: raft_wf_def)

lemma raft_wf_persist [simp]: "raft_wf (persist rf) = raft_wf rf"
  by (simp add: raft_wf_def)

lemma raft_wf_resetTime [simp]: "raft_wf (resetTime r rf) = raft_wf rf"
  by (simp add: raft_wf_def)

lemma raft_wf_applych [simp]: "raft_wf (rf\<lparr>applych := ms\<rparr>) = raft_wf rf"
  by (simp add: raft_wf_def)

lemma adoptTerm_simps [simp]:
  "raft_wf (adoptTerm rf t) = raft_wf rf"
  "log (adoptTerm rf t) = log rf"
  "snapshotIndex (adoptTerm rf t) = snapshotIndex rf"
  "snapshotTerm (adoptTerm rf t) = snapshotTerm rf"
  "commitIndex (adoptTerm rf t) = commitIndex rf"
  "applych (adoptTerm rf t) = applych rf"
  "snapshot (persister (adoptTerm rf t)) = snapshot (persister rf)"
  by (auto simp: adoptTerm_def termUpdate_def raft_wf_def)

lemma raft_wf_log:
  "raft_wf rf \<Longrightarrow> l \<noteq> [] \<Longrightarrow> hd l = dummy_entry \<Longrightarrow> raft_wf (rf\<lparr>log := l\<rparr>)"
  by (simp add: raft_wf_def)

text \<open>The log after an accepted \<^verbatim>\<open>AppendEntries\<close>: kept, or cut after the previous entry and extended.\<close>

definition spliced :: "'c Raft \<Rightarrow> 'c RequestAppendArgs \<Rightarrow> 'c Log list" where
  "spliced rf args =
     (if aa_PrevLogIndex args \<le> snapshotIndex rf
      then dummy_entry # drop (nat (snapshotIndex rf - aa_PrevLogIndex args)) (aa_Entries args)
      else take (nat (aa_PrevLogIndex args + 1 - snapshotIndex rf)) (log rf) @ aa_Entries args)"

text \<open>The test by which the code decides that it already has the entries.\<close>

definition alreadyHas :: "'c Raft \<Rightarrow> 'c RequestAppendArgs \<Rightarrow> bool" where
  "alreadyHas rf args =
     (let l = len (aa_Entries args) + aa_PrevLogIndex args in
      l \<le> snapshotIndex rf \<or>
      l < lastIndex rf \<and> Term (log rf ! nat (l - snapshotIndex rf)) = aa_Term args)"

text \<open>The numbers that \<^verbatim>\<open>AppendEntries\<close> computes from \<^verbatim>\<open>PrevLogIndex\<close> fit into 64 bits.\<close>

definition indices_fit :: "'c Raft \<Rightarrow> 'c RequestAppendArgs \<Rightarrow> bool" where
  "indices_fit rf args =
     (snapshotIndex rf - aa_PrevLogIndex args < 2 ^ 63 \<and> len (aa_Entries args) + aa_PrevLogIndex args < 2 ^ 63)"

lemma indices_fit_frame [simp]: "indices_fit (adoptTerm rf t) args = indices_fit rf args"
  by (simp add: indices_fit_def)

lemma appendAfterPrev_eq:
  assumes "raft_wf rf" "prevMatches rf args" "indices_fit rf args"
  shows "appendAfterPrev rf args =
    Inr (if alreadyHas rf args then rf else persist (rf\<lparr>log := spliced rf args\<rparr>))"
proof -
  have n: "0 \<le> snapshotIndex rf" "0 \<le> len (aa_Entries args)" "snapshotIndex rf < aa_PrevLogIndex args"
    using assms(1,2) by (simp_all add: raft_wf_def prevMatches_def len_def)
  have g: "goint (len (aa_Entries args) + aa_PrevLogIndex args) = len (aa_Entries args) + aa_PrevLogIndex args"
    "goint (len (aa_Entries args) + aa_PrevLogIndex args - snapshotIndex rf) =
       len (aa_Entries args) + aa_PrevLogIndex args - snapshotIndex rf"
    by (rule goint_id; use assms(3) n in \<open>unfold indices_fit_def, linarith\<close>)+
  show ?thesis using assms
    unfolding appendAfterPrev_def Let_def g
    by (auto simp: prevMatches_def index_def slice_to_def len_def
      alreadyHas_def spliced_def lastIndex_def)
qed

lemma persist_persist [simp]: "persist (persist rf) = persist rf"
  by (simp add: persist_def Let_def SaveRaftState_def)

lemma appendAfterSnapshot_eq:
  assumes "raft_wf rf" "aa_PrevLogIndex args \<le> snapshotIndex rf" "indices_fit rf args"
  shows "appendAfterSnapshot rf args =
    Inr (if alreadyHas rf args then persist rf else persist (rf\<lparr>log := spliced rf args\<rparr>))"
proof -
  have n: "0 \<le> snapshotIndex rf" "0 \<le> len (aa_Entries args)" using assms(1) by (simp_all add: raft_wf_def len_def)
  have g: "goint (len (aa_Entries args) + aa_PrevLogIndex args) = len (aa_Entries args) + aa_PrevLogIndex args"
    "goint (snapshotIndex rf - aa_PrevLogIndex args) = snapshotIndex rf - aa_PrevLogIndex args"
    "goint (len (aa_Entries args) + aa_PrevLogIndex args - snapshotIndex rf) =
       len (aa_Entries args) + aa_PrevLogIndex args - snapshotIndex rf"
    by (rule goint_id; use assms(2,3) n in \<open>unfold indices_fit_def, linarith\<close>)+
  show ?thesis using assms
    unfolding appendAfterSnapshot_def Let_def g
    by (auto simp: index_def slice_from_def len_def alreadyHas_def spliced_def lastIndex_def)
qed

lemma raft_wf_spliced:
  assumes "raft_wf rf" "prevMatches rf args \<or> aa_PrevLogIndex args \<le> snapshotIndex rf"
  shows "raft_wf (rf\<lparr>log := spliced rf args\<rparr>)"
proof (rule raft_wf_log [OF assms(1)])
  from assms show "spliced rf args \<noteq> []" "hd (spliced rf args) = dummy_entry"
    by (auto simp: spliced_def raft_wf_def prevMatches_def hd_append)
qed

lemma followCommit_eq:
  assumes "raft_wf rf"
  shows "followCommit rf c =
    Inr (if c > commitIndex rf
         then rf\<lparr>commitIndex := min c (lastIndex rf),
                 applych := applych rf @ apply_msgs 2 (log rf) (snapshotIndex rf)
                   (commitIndex rf + 1 - snapshotIndex rf) (min c (lastIndex rf) - snapshotIndex rf)\<rparr>
         else rf)"
proof -
  have "0 \<le> commitIndex rf + 1 - snapshotIndex rf" using assms by (simp add: raft_wf_def)
  then show ?thesis
    by (auto simp: followCommit_def Let_def applyLoop_eq lastIndex_def min_def)
qed

lemma raft_wf_followCommit:
  assumes "raft_wf rf" "followCommit rf c = Inr rf'"
  shows "raft_wf rf'"
  using assms len_pos_wf [OF assms(1)]
  by (auto simp: followCommit_eq raft_wf_def lastIndex_def split: if_splits)

lemma rejectAppend_returns:
  assumes "raft_wf rf" "\<not> aa_PrevLogIndex args \<le> snapshotIndex rf"
  shows "\<exists>reply'. rejectAppend rf args reply = Inr reply'"
proof (cases "aa_PrevLogIndex args \<ge> len (log rf) + snapshotIndex rf")
  case False
  with assms obtain f where "findEntry rf (aa_PrevLogIndex args - snapshotIndex rf) = Inr f"
    using findEntry_spec [of "aa_PrevLogIndex args - snapshotIndex rf" rf] by auto
  with False assms show ?thesis by (simp add: rejectAppend_def Let_def index_ok)
qed (simp add: rejectAppend_def)

lemma AppendEntries_returns:
  assumes wf: "raft_wf rf" and fit: "indices_fit rf args"
  shows "\<exists>rf' reply. AppendEntries r rf args = Inr (rf', reply) \<and> raft_wf rf'"
proof -
  let ?a = "adoptTerm rf (aa_Term args)"
  have a: "raft_wf ?a" using wf by simp
  have mu: "\<not> mu rf" using wf by (simp add: raft_wf_def)
  have commit: "\<exists>rf2. followCommit rf1 c = Inr rf2 \<and> raft_wf rf2" if "raft_wf rf1" for rf1 c
    using raft_wf_followCommit [OF that] followCommit_eq [OF that] by metis
  consider "aa_Term args < currentTerm rf"
    | "\<not> aa_Term args < currentTerm rf" "prevMatches ?a args"
    | "\<not> aa_Term args < currentTerm rf" "\<not> prevMatches ?a args" "aa_PrevLogIndex args \<le> snapshotIndex rf"
    | "\<not> aa_Term args < currentTerm rf" "\<not> prevMatches ?a args" "\<not> aa_PrevLogIndex args \<le> snapshotIndex rf"
    by blast
  then show ?thesis
  proof cases
    case 1
    with wf mu show ?thesis by (simp add: AppendEntries_def with_lock_def)
  next
    case 2
    obtain rf1 where "appendAfterPrev ?a args = Inr rf1" "raft_wf rf1"
      using appendAfterPrev_eq [OF a 2(2)] raft_wf_spliced [OF a] 2(2) a fit by force
    with commit [of rf1 "aa_LeaderCommit args"] 2 mu show ?thesis
      by (auto simp: AppendEntries_def with_lock_def Let_def)
  next
    case 3
    obtain rf1 where "appendAfterSnapshot ?a args = Inr rf1" "raft_wf rf1"
      using appendAfterSnapshot_eq [OF a] raft_wf_spliced [OF a] 3(3) a fit by force
    with commit [of rf1 "aa_LeaderCommit args"] 3 mu show ?thesis
      by (auto simp: AppendEntries_def with_lock_def Let_def)
  next
    case 4
    then obtain reply' where "rejectAppend ?a args (zero_AppendReply\<lparr>ar_Term := currentTerm rf,
        ar_Success := len (aa_Entries args) = 0\<rparr>) = Inr reply'"
      using rejectAppend_returns [OF a, of args] by auto
    with 4 a mu show ?thesis
      by (auto simp: AppendEntries_def with_lock_def Let_def zero_AppendReply_def split: if_splits)
  qed
qed

end
