(* ===== verification/Raft_Replication.thy ===== *)
theory Raft_Replication
  imports Raft_Log
begin

section \<open>Raft: replication between two peers\<close>

text \<open>
  What a request of the leader does to a follower's log, how a rejection moves the leader's
  \<^verbatim>\<open>nextIndex\<close>, which index \<^verbatim>\<open>updateCommit\<close> commits, and what snapshots do: everything here is
  about one exchange of a request and a reply, with the handlers of both sides composed.
\<close>

subsection \<open>What an accepted request does\<close>

lemma adoptTerm_tests [simp]:
  "prevMatches (adoptTerm rf t) args = prevMatches rf args"
  "alreadyHas (adoptTerm rf t) args = alreadyHas rf args"
  "spliced (adoptTerm rf t) args = spliced rf args"
  "lastIndex (adoptTerm rf t) = lastIndex rf"
  by (simp_all add: prevMatches_def alreadyHas_def spliced_def lastIndex_def)

lemma adoptTerm_term: "currentTerm rf \<le> t \<Longrightarrow> currentTerm (adoptTerm rf t) = t"
  by (auto simp: adoptTerm_def termUpdate_def)

text \<open>The log and the commit index after the request.\<close>

definition logAfter :: "'c Raft \<Rightarrow> 'c RequestAppendArgs \<Rightarrow> 'c Log list" where
  "logAfter rf args = (if alreadyHas rf args then log rf else spliced rf args)"

definition commitAfter :: "'c Raft \<Rightarrow> 'c RequestAppendArgs \<Rightarrow> int" where
  "commitAfter rf args =
     (if aa_LeaderCommit args > commitIndex rf
      then min (aa_LeaderCommit args) (len (logAfter rf args) - 1 + snapshotIndex rf)
      else commitIndex rf)"

definition accepts :: "'c Raft \<Rightarrow> 'c RequestAppendArgs \<Rightarrow> bool" where
  "accepts rf args =
     (currentTerm rf \<le> aa_Term args \<and>
      (prevMatches rf args \<or> aa_PrevLogIndex args \<le> snapshotIndex rf))"

lemma upto_empty_apply_msgs [simp]: "hi < i \<Longrightarrow> apply_msgs k l snap i hi = []"
  by (simp add: apply_msgs_def)

lemma AppendEntries_accepts:
  assumes wf: "raft_wf rf" and acc: "accepts rf args" and fit: "indices_fit rf args"
  shows "\<exists>rf' reply. AppendEntries r rf args = Inr (rf', reply) \<and> ar_Success reply \<and>
    ar_Term reply = currentTerm rf \<and> currentTerm rf' = aa_Term args \<and>
    log rf' = logAfter rf args \<and> snapshotIndex rf' = snapshotIndex rf \<and>
    commitIndex rf' = commitAfter rf args \<and>
    applych rf' = applych rf @ apply_msgs 2 (logAfter rf args) (snapshotIndex rf)
      (commitIndex rf + 1 - snapshotIndex rf) (commitAfter rf args - snapshotIndex rf)"
proof -
  let ?a = "adoptTerm rf (aa_Term args)"
  let ?b = "if alreadyHas rf args then (if prevMatches rf args then ?a else persist ?a)
            else persist (?a\<lparr>log := spliced rf args\<rparr>)"
  have a: "raft_wf ?a" using wf by simp
  have b: "raft_wf ?b" using a raft_wf_spliced [OF a, of args] acc by (auto simp: accepts_def)
  have app: "(if prevMatches rf args then appendAfterPrev ?a args else appendAfterSnapshot ?a args) = Inr ?b"
    using appendAfterPrev_eq [OF a, of args] appendAfterSnapshot_eq [OF a, of args] acc fit
    by (auto simp: accepts_def)
  have fields: "log ?b = logAfter rf args" "snapshotIndex ?b = snapshotIndex rf"
    "commitIndex ?b = commitIndex rf" "applych ?b = applych rf" "currentTerm ?b = aa_Term args"
    using acc by (auto simp: logAfter_def accepts_def adoptTerm_term)
  have "AppendEntries r rf args = bindE (followCommit ?b (aa_LeaderCommit args)) (\<lambda>rf'.
      Inr (resetTime r rf', zero_AppendReply\<lparr>ar_Term := currentTerm rf, ar_Success := True\<rparr>))"
    using app acc wf
    by (auto simp: AppendEntries_def with_lock_def Let_def accepts_def raft_wf_def split: if_splits)
  then show ?thesis
    using fields by (simp add: followCommit_eq [OF b] commitAfter_def lastIndex_def)
qed

lemma AppendEntries_Success:
  assumes "AppendEntries r rf args = Inr (rf', reply)" "ar_Success reply"
  shows "accepts rf args"
  using assms
  by (auto simp: AppendEntries_def with_lock_def Let_def accepts_def rejectAppend_def bindE_eq_Inr
      zero_AppendReply_def split: if_split_asm)

text \<open>The same in absolute indices: the entries lie where the leader says.\<close>

lemma entry_at_spliced:
  assumes "raft_wf rf" "accepts rf args" "\<not> alreadyHas rf args" "log rf' = spliced rf args"
    "snapshotIndex rf' = snapshotIndex rf" "snapshotIndex rf < i"
  shows "entry_at rf' i =
    (if i \<le> aa_PrevLogIndex args then entry_at rf i
     else if i \<le> aa_PrevLogIndex args + len (aa_Entries args)
     then Some (aa_Entries args ! nat (i - aa_PrevLogIndex args - 1)) else None)"
proof (cases "aa_PrevLogIndex args \<le> snapshotIndex rf")
  case True
  let ?d = "nat (snapshotIndex rf - aa_PrevLogIndex args)"
  have l: "log rf' = dummy_entry # drop ?d (aa_Entries args)" using assms True by (simp add: spliced_def)
  have "snapshotIndex rf < len (aa_Entries args) + aa_PrevLogIndex args"
    using assms(3) by (auto simp: alreadyHas_def Let_def)
  then have n: "len (drop ?d (aa_Entries args)) = len (aa_Entries args) - (snapshotIndex rf - aa_PrevLogIndex args)"
    using True by (subst len_drop) auto
  have d: "?d + (nat (i - snapshotIndex rf) - 1) = nat (i - aa_PrevLogIndex args - 1)"
    using True assms(6) by (simp add: nat_diff_distrib')
  have "?d \<le> length (aa_Entries args)"
    using \<open>snapshotIndex rf < len (aa_Entries args) + aa_PrevLogIndex args\<close> by (simp add: len_def)
  with d have "log rf' ! nat (i - snapshotIndex rf) = aa_Entries args ! nat (i - aa_PrevLogIndex args - 1)"
    if "i \<le> aa_PrevLogIndex args + len (aa_Entries args)"
    using assms(6) True by (simp add: l nth_Cons')
  with True n l assms(5,6) show ?thesis by (simp add: entry_at_def lastIndex_def)
next
  case False
  let ?k = "nat (aa_PrevLogIndex args + 1 - snapshotIndex rf)"
  have l: "log rf' = take ?k (log rf) @ aa_Entries args" using assms False by (simp add: spliced_def)
  have p: "aa_PrevLogIndex args < len (log rf) + snapshotIndex rf"
    using assms(2) False by (auto simp: accepts_def prevMatches_def)
  then have k: "len (take ?k (log rf)) = aa_PrevLogIndex args + 1 - snapshotIndex rf" "?k \<le> length (log rf)"
    using False by (auto simp: len_take len_def)
  have "log rf' ! nat (i - snapshotIndex rf) =
      (if i \<le> aa_PrevLogIndex args then log rf ! nat (i - snapshotIndex rf)
       else aa_Entries args ! nat (i - aa_PrevLogIndex args - 1))"
  proof (cases "i \<le> aa_PrevLogIndex args")
    case True
    then have "nat (i - snapshotIndex rf) < ?k" using assms(6) by simp
    with True k(2) show ?thesis by (simp add: l nth_append)
  next
    case False
    then have "nat (i - snapshotIndex rf) - ?k = nat (i - aa_PrevLogIndex args - 1)"
      "\<not> nat (i - snapshotIndex rf) < ?k"
      using assms(6) \<open>\<not> aa_PrevLogIndex args \<le> snapshotIndex rf\<close> by auto
    with False k(2) show ?thesis by (simp add: l nth_append)
  qed
  moreover obtain n where "len (aa_Entries args) = int n" using len_def by blast
  ultimately show ?thesis using False p k(1) l assms(5,6) by (auto simp: entry_at_def lastIndex_def)
qed

subsection \<open>Replication: a request of the leader, accepted by a follower\<close>

lemma appendRequest_effect:
  assumes "appendRequest rf a2 s = Inr (a2', Some args)"
  shows "\<exists>next. index (nextIndex rf) s = Inr next \<and> 1 \<le> next \<and> next \<le> len (log rf) \<and> tp rf = 2 \<and>
    aa_Term args = currentTerm rf \<and> aa_LeaderId args = me rf \<and>
    aa_PrevLogIndex args = next - 1 + snapshotIndex rf \<and>
    aa_Entries args = drop (nat next) (log rf) \<and> aa_LeaderCommit args = commitIndex rf \<and>
    aa_PrevLogTerm args = (if next = 1 then snapshotTerm rf else Term (log rf ! nat (next - 1)))"
  using assms
  by (auto simp: appendRequest_def with_lock_def Let_def bindE_eq_Inr slice_from_eq_Inr index_eq_Inr
      split: if_split_asm)

lemma entry_at_request:
  assumes "appendRequest rf a2 s = Inr (a2', Some args)" "aa_PrevLogIndex args < i" "raft_wf rf"
  shows "entry_at rf i =
    (if i \<le> aa_PrevLogIndex args + len (aa_Entries args)
     then Some (aa_Entries args ! nat (i - aa_PrevLogIndex args - 1)) else None)"
proof -
  from appendRequest_effect [OF assms(1)] obtain nx where n: "1 \<le> nx" "nx \<le> len (log rf)"
    "aa_PrevLogIndex args = nx - 1 + snapshotIndex rf" "aa_Entries args = drop (nat nx) (log rf)"
    by blast
  then have "len (aa_Entries args) = len (log rf) - nx" by (simp add: len_drop)
  moreover have "aa_Entries args ! nat (i - aa_PrevLogIndex args - 1) = log rf ! nat (i - snapshotIndex rf)"
  proof -
    have "nat nx + nat (i - aa_PrevLogIndex args - 1) = nat (i - snapshotIndex rf)"
      using n assms(2) by simp
    moreover have "nat nx \<le> length (log rf)" using n(2) by (simp add: len_def)
    ultimately show ?thesis using n(4) by simp
  qed
  ultimately show ?thesis using n assms(2) by (auto simp: entry_at_def lastIndex_def)
qed

lemma lastIndex_request:
  assumes "appendRequest rf a2 s = Inr (a2', Some args)"
  shows "lastIndex rf = aa_PrevLogIndex args + len (aa_Entries args)"
  using appendRequest_effect [OF assms] by (auto simp: lastIndex_def len_drop)

lemma request_fits:
  assumes "raft_wf L" "appendRequest L a2 s = Inr (a2', Some args)" "lastIndex L < 2 ^ 63" "snapshotIndex F < 2 ^ 63"
  shows "indices_fit F args"
proof -
  have "0 \<le> aa_PrevLogIndex args" using appendRequest_effect [OF assms(2)] assms(1) by (auto simp: raft_wf_def)
  then show ?thesis using lastIndex_request [OF assms(2)] assms(3,4) by (simp add: indices_fit_def)
qed

lemma replicated:
  assumes "raft_wf L" "raft_wf F" "appendRequest L a2 s = Inr (a2', Some args)"
    "AppendEntries r F args = Inr (F', reply)" "ar_Success reply" "\<not> alreadyHas F args" "indices_fit F args"
  shows "lastIndex F' = lastIndex L \<and>
    (\<forall>i. snapshotIndex F < i \<and> aa_PrevLogIndex args < i \<longrightarrow> entry_at F' i = entry_at L i) \<and>
    (\<forall>i. snapshotIndex F < i \<and> i \<le> aa_PrevLogIndex args \<longrightarrow> entry_at F' i = entry_at F i)"
proof -
  have acc: "accepts F args" using assms(4,5) by (rule AppendEntries_Success)
  from AppendEntries_accepts [OF assms(2) acc assms(7), of r] assms(4,6)
  have F': "log F' = spliced F args" "snapshotIndex F' = snapshotIndex F" by (auto simp: logAfter_def)
  have "lastIndex F' = aa_PrevLogIndex args + len (aa_Entries args)"
    using F' acc assms(6)
    by (auto simp: lastIndex_def spliced_def len_take len_drop accepts_def prevMatches_def
        alreadyHas_def Let_def)
  with lastIndex_request [OF assms(3)] entry_at_request [OF assms(3) _ assms(1)]
    entry_at_spliced [OF assms(2) acc assms(6) F'] show ?thesis by auto
qed

subsection \<open>A rejection moves the leader back\<close>

lemma AppendEntries_rejects:
  assumes "raft_wf rf" "currentTerm rf \<le> aa_Term args" "\<not> accepts rf args"
  shows "\<exists>rf' reply. AppendEntries r rf args = Inr (rf', reply) \<and> \<not> ar_Success reply \<and>
    ar_Term reply = currentTerm rf \<and> log rf' = log rf \<and>
    (if aa_PrevLogIndex args \<ge> len (log rf) + snapshotIndex rf
     then ar_Miss reply \<and> ar_Len reply = len (log rf) + snapshotIndex rf
     else \<not> ar_Miss reply \<and> snapshotIndex rf \<le> ar_TermStart reply \<and> ar_TermStart reply \<le> aa_PrevLogIndex args \<and>
       ar_TermConflict reply = Term (log rf ! nat (aa_PrevLogIndex args - snapshotIndex rf)))"
proof (cases "aa_PrevLogIndex args \<ge> len (log rf) + snapshotIndex rf")
  case True
  with assms show ?thesis
    by (auto simp: AppendEntries_def with_lock_def Let_def accepts_def raft_wf_def rejectAppend_def)
next
  case False
  from assms have p: "0 \<le> aa_PrevLogIndex args - snapshotIndex rf" by (auto simp: accepts_def)
  with False obtain f where f: "findEntry rf (aa_PrevLogIndex args - snapshotIndex rf) = Inr f"
    "0 \<le> f" "f \<le> aa_PrevLogIndex args - snapshotIndex rf"
    using findEntry_spec [of "aa_PrevLogIndex args - snapshotIndex rf" rf] by auto
  have "findEntry (adoptTerm rf t) = findEntry rf" for t by (simp add: findEntry_def fun_eq_iff)
  with False p f assms show ?thesis
    by (auto simp: AppendEntries_def with_lock_def Let_def accepts_def raft_wf_def rejectAppend_def
        index_ok zero_AppendReply_def)
qed

subsection \<open>The index that is committed\<close>

text \<open>
  The element in the middle of the sorted match indices: at least \<open>n - n div 2\<close> peers have
  matched up to it.
\<close>

definition commitRank :: "'c Raft \<Rightarrow> int" where
  "commitRank rf =
     matchIndex rf ! (sort_key (\<lambda>p. matchIndex rf ! p) [0..<peers rf] ! (peers rf div 2))"

lemma sort_key_middle:
  fixes f :: "nat \<Rightarrow> int"
  assumes "m < n"
  shows "n - m \<le> card {p. p < n \<and> f (sort_key f [0..<n] ! m) \<le> f p}"
    and "sort_key f [0..<n] ! m < n"
proof -
  let ?ps = "sort_key f [0..<n]"
  have n: "length ?ps = n" "distinct ?ps" "set ?ps = {0..<n}" by simp_all
  then show "?ps ! m < n" using assms nth_mem [of m ?ps] by auto
  have "f (?ps ! m) \<le> f p" if "p \<in> set (drop m ?ps)" for p
  proof -
    from that obtain j where "j < length (drop m ?ps)" "p = drop m ?ps ! j" by (metis in_set_conv_nth)
    then have "p = ?ps ! (m + j)" "m + j < n" by auto
    moreover have "sorted (map f ?ps)" by simp
    ultimately show ?thesis using n by (auto simp: sorted_iff_nth_mono simp del: sorted_sort_key)
  qed
  moreover have "set (drop m ?ps) \<subseteq> {0..<n}" using set_drop_subset [of m ?ps] by simp
  ultimately have "set (drop m ?ps) \<subseteq> {p. p < n \<and> f (?ps ! m) \<le> f p}" by auto
  then have "card (set (drop m ?ps)) \<le> card {p. p < n \<and> f (?ps ! m) \<le> f p}"
    by (intro card_mono) auto
  then show "n - m \<le> card {p. p < n \<and> f (?ps ! m) \<le> f p}"
    using n by (simp add: distinct_card)
qed

lemma commitRank_quorum:
  assumes "0 < peers rf"
  shows "peers rf - peers rf div 2 \<le> card {p. p < peers rf \<and> commitRank rf \<le> matchIndex rf ! p}"
  using sort_key_middle(1) [of "peers rf div 2" "peers rf" "\<lambda>p. matchIndex rf ! p"] assms
  by (simp add: commitRank_def)

lemma updateCommit_eq:
  assumes "length (matchIndex rf) = peers rf" "0 < peers rf"
  shows "updateCommit rf =
    (let c = max (commitIndex rf) (commitRank rf) in
     if snapshotIndex rf \<le> commitIndex rf then
       bindE (applyLoop 1 (log rf) (snapshotIndex rf) (commitIndex rf + 1 - snapshotIndex rf)
                (c - snapshotIndex rf)) (\<lambda>ms.
       Inr (rf\<lparr>commitIndex := c, applych := applych rf @ ms\<rparr>))
     else Inr (rf\<lparr>commitIndex := c\<rparr>))"
proof -
  let ?ps = "sort_key (\<lambda>p. matchIndex rf ! p) [0..<peers rf]"
  have m: "peers rf div 2 < peers rf" using assms(2) by simp
  have "index ?ps (int (peers rf div 2)) = Inr (?ps ! (peers rf div 2))"
    using m by (simp add: index_def len_def)
  moreover have "index (matchIndex rf) (int (?ps ! (peers rf div 2))) = Inr (commitRank rf)"
    using sort_key_middle(2) [OF m] assms(1) by (simp add: index_def len_def commitRank_def)
  ultimately show ?thesis
    using assms(1) by (simp add: updateCommit_def Let_def max_def del: One_nat_def)
qed

lemma updateCommit_returns:
  assumes "raft_wf rf" "\<forall>m \<in> set (matchIndex rf). m \<le> lastIndex rf" "commitIndex rf \<le> lastIndex rf"
  shows "updateCommit rf =
    Inr (rf\<lparr>commitIndex := max (commitIndex rf) (commitRank rf),
            applych := applych rf @ apply_msgs 1 (log rf) (snapshotIndex rf)
              (commitIndex rf + 1 - snapshotIndex rf)
              (max (commitIndex rf) (commitRank rf) - snapshotIndex rf)\<rparr>)"
proof -
  have n: "length (matchIndex rf) = peers rf" "0 < peers rf" using assms(1) by (auto simp: raft_wf_def)
  then have "commitRank rf \<in> set (matchIndex rf)"
    using sort_key_middle(2) [of "peers rf div 2" "peers rf" "\<lambda>p. matchIndex rf ! p"]
    by (simp add: commitRank_def)
  with assms have "max (commitIndex rf) (commitRank rf) - snapshotIndex rf < len (log rf)"
    "0 \<le> commitIndex rf + 1 - snapshotIndex rf" "snapshotIndex rf \<le> commitIndex rf"
    by (auto simp: raft_wf_def lastIndex_def)
  then show ?thesis
    by (simp add: updateCommit_eq [OF n] applyLoop_eq Let_def del: One_nat_def)
qed

subsection \<open>What the leader does with a rejection\<close>

lemma AppendEntries_reply_Term: "AppendEntries r rf args = Inr (rf', reply) \<Longrightarrow> ar_Term reply = currentTerm rf"
  by (auto simp: AppendEntries_def with_lock_def Let_def rejectAppend_def bindE_eq_Inr split: if_split_asm)

lemma rejection_bounds:
  assumes "raft_wf F" "AppendEntries r F args = Inr (F', reply)" "\<not> ar_Success reply" "currentTerm F \<le> aa_Term args"
  shows "(if ar_Miss reply then ar_Len reply else ar_TermStart reply) \<le> aa_PrevLogIndex args"
proof -
  have "\<not> accepts F args"
    using assms(2,3) by (auto simp: AppendEntries_def with_lock_def Let_def accepts_def bindE_eq_Inr split: if_split_asm)
  from AppendEntries_rejects [OF assms(1,4) this, of r] assms(2) show ?thesis by (auto split: if_split_asm)
qed

text \<open>
  The guards of the goroutine that receives the answer, and the test that \<^verbatim>\<open>nextIndex\<close> is still
  what it was when the request was sent.
\<close>

definition takes_rejection ::
  "'c Raft \<Rightarrow> Append2 \<Rightarrow> int \<Rightarrow> int \<Rightarrow> 'c RequestAppendArgs \<Rightarrow> RequestAppendReply \<Rightarrow> bool" where
  "takes_rejection rf a2 s countTemp args reply \<longleftrightarrow>
     \<not> killed rf \<and> count a2 = countTemp \<and> startAppend rf \<and>
     currentTerm rf \<le> termTemp a2 \<and> ar_Term reply \<le> currentTerm rf \<and>
     nextIndex rf ! nat s + snapshotIndex rf = aa_PrevLogIndex args + 1"

lemma appendRejected_taken:
  assumes L: "0 \<le> s" "s < len (nextIndex L)" "nextIndex L ! nat s \<le> len (log L)"
    and same: "nextIndex L ! nat s + snapshotIndex L = aa_PrevLogIndex args + 1"
    and b: "(if ar_Miss reply then ar_Len reply else ar_TermStart reply) \<le> aa_PrevLogIndex args"
  shows "\<exists>n. appendRejected L s args reply = Inr (L\<lparr>nextIndex := (nextIndex L)[nat s := n]\<rparr>) \<and>
    (n < nextIndex L ! nat s \<or> n \<le> 0 \<and> nextIndex L ! nat s \<le> 0)"
proof -
  let ?x = "nextIndex L ! nat s"
  obtain i where i: "findLast L (ar_TermConflict reply) (?x - 1) = Inr i" "i < ?x \<or> i = 0 \<and> ?x \<le> 0"
  proof (cases "1 \<le> ?x")
    case True
    then show ?thesis
      using findLast_loop_bound [of "?x - 1" "log L" "ar_TermConflict reply"] L(3) that by (fastforce simp: findLast_def)
  next
    case False
    then show ?thesis using that by (simp add: findLast_def findLast_loop.simps)
  qed
  have p: "aa_PrevLogIndex args - snapshotIndex L = ?x - 1" using same by simp
  have next_at: "index (nextIndex L) s = Inr ?x" using L(1,2) by (simp add: index_ok)
  let ?n = "if ar_Miss reply then ar_Len reply - snapshotIndex L
            else if i \<noteq> -1 then i else ar_TermStart reply - snapshotIndex L"
  have "appendRejected L s args reply = Inr (L\<lparr>nextIndex := (nextIndex L)[nat s := ?n]\<rparr>)"
    using L(1,2) same i(1) by (auto simp: appendRejected_def next_at p set_index_ok)
  moreover have "?n < ?x \<or> ?n \<le> 0 \<and> ?x \<le> 0" using b same i(2) by auto
  ultimately show ?thesis by blast
qed

lemma updateCommit_nextIndex:
  assumes "raft_wf rf" "\<forall>m \<in> set (matchIndex rf). m \<le> lastIndex rf" "commitIndex rf \<le> lastIndex rf"
  shows "\<exists>rf'. updateCommit rf = Inr rf' \<and> nextIndex rf' = nextIndex rf"
  using updateCommit_returns [OF assms] by simp

lemma appendReply_rejected:
  assumes F: "raft_wf F" "AppendEntries r F args = Inr (F', reply)" "\<not> ar_Success reply"
    and L: "raft_wf L" "\<forall>m \<in> set (matchIndex L). m \<le> lastIndex L" "commitIndex L \<le> lastIndex L"
      "0 \<le> s" "s < int (peers L)" "nextIndex L ! nat s \<le> len (log L)"
    and a2: "termTemp a2 \<le> aa_Term args"
  shows "\<exists>L'. appendReply r' L a2 s countTemp args True reply = Inr L' \<and>
    (if takes_rejection L a2 s countTemp args reply
     then \<exists>n. nextIndex L' = (nextIndex L)[nat s := n] \<and>
       (n < nextIndex L ! nat s \<or> n \<le> 0 \<and> nextIndex L ! nat s \<le> 0)
     else nextIndex L' = nextIndex L)"
proof -
  have mu: "\<not> mu L" using L(1) by (simp add: raft_wf_def)
  have s: "s < len (nextIndex L)" using L(1,5) by (simp add: raft_wf_def len_def)
  have commit: "\<exists>L'. updateCommit L1 = Inr L' \<and> nextIndex L' = nextIndex L1"
    if "raft_wf L1" "matchIndex L1 = matchIndex L" "lastIndex L1 = lastIndex L" "commitIndex L1 = commitIndex L" for L1
    using updateCommit_nextIndex [of L1] L(2,3) that by simp
  consider "killed L \<or> count a2 \<noteq> countTemp \<or> \<not> startAppend L"
    | "\<not> killed L" "count a2 = countTemp" "startAppend L" "termTemp a2 < currentTerm L \<or> ar_Term reply > currentTerm L"
    | "\<not> killed L" "count a2 = countTemp" "startAppend L" "currentTerm L \<le> termTemp a2" "ar_Term reply \<le> currentTerm L"
    by fastforce
  then show ?thesis
  proof cases
    case 1
    then show ?thesis using mu by (auto simp: appendReply_def with_lock_def takes_rejection_def)
  next
    case 2
    let ?u = "resetTime r' (termUpdate L (ar_Term reply) 0 (-1))"
    have "raft_wf ?u" "lastIndex ?u = lastIndex L" "matchIndex ?u = matchIndex L" "commitIndex ?u = commitIndex L"
      "nextIndex ?u = nextIndex L" using L(1) by (auto simp: raft_wf_def lastIndex_def termUpdate_def)
    with commit [of ?u] commit [of L] L(1) 2 mu show ?thesis
      by (auto simp: appendReply_def with_lock_def takes_rejection_def)
  next
    case 3
    have cur: "currentTerm F \<le> aa_Term args" using AppendEntries_reply_Term [OF F(2)] 3(4,5) a2 by simp
    have rep: "appendReply r' L a2 s countTemp args True reply = bindE (appendRejected L s args reply) updateCommit"
      using 3 mu F(3) by (auto simp: appendReply_def with_lock_def)
    show ?thesis
    proof (cases "nextIndex L ! nat s + snapshotIndex L = aa_PrevLogIndex args + 1")
      case True
      obtain n where n: "appendRejected L s args reply = Inr (L\<lparr>nextIndex := (nextIndex L)[nat s := n]\<rparr>)"
        "n < nextIndex L ! nat s \<or> n \<le> 0 \<and> nextIndex L ! nat s \<le> 0"
        using appendRejected_taken [OF L(4) s L(6) True rejection_bounds [OF F cur]] by blast
      have "\<exists>L'. updateCommit (L\<lparr>nextIndex := (nextIndex L)[nat s := n]\<rparr>) = Inr L' \<and>
          nextIndex L' = (nextIndex L)[nat s := n]"
        using commit [of "L\<lparr>nextIndex := (nextIndex L)[nat s := n]\<rparr>"] L(1) by (simp add: raft_wf_def lastIndex_def)
      then show ?thesis using rep n 3 True by (auto simp: takes_rejection_def)
    next
      case False
      then have "appendRejected L s args reply = Inr L"
        using L(4) s by (simp add: appendRejected_def index_ok)
      then show ?thesis using rep commit [of L] L(1) False by (auto simp: takes_rejection_def)
    qed
  qed
qed

subsection \<open>Start\<close>

lemma Start_leader:
  assumes "raft_wf rf" "tp rf = 2" "\<not> killed rf"
  shows "\<exists>rf'. Start rf c = Inr (rf', lastIndex rf + 1, currentTerm rf, True) \<and> raft_wf rf' \<and>
    persisted rf' \<and> lastIndex rf' = lastIndex rf + 1 \<and> snapshotIndex rf' = snapshotIndex rf \<and>
    entry_at rf' (lastIndex rf + 1) = Some \<lparr>Command = c, Term = currentTerm rf\<rparr> \<and>
    (\<forall>i. i \<noteq> lastIndex rf + 1 \<longrightarrow> entry_at rf' i = entry_at rf i) \<and>
    matchIndex rf' ! nat (me rf) = lastIndex rf'"
proof -
  let ?l = "log rf @ [\<lparr>Command = c, Term = currentTerm rf\<rparr>]"
  let ?rf = "(persist (rf\<lparr>log := ?l\<rparr>))\<lparr>matchIndex := (matchIndex rf)[nat (me rf) := lastIndex rf + 1],
    startAppend := True, apps := wake_apps (me rf) (apps rf)\<rparr>"
  have "Start rf c = Inr (?rf, lastIndex rf + 1, currentTerm rf, True)"
    using assms by (simp add: Start_def with_lock_def raft_wf_def lastIndex_def set_index_def len_def
        Let_def)
  moreover have "raft_wf ?rf" using assms(1) by (simp add: raft_wf_def)
  moreover have "persisted ?rf" by (simp add: persisted_def)
  moreover have "lastIndex ?rf = lastIndex rf + 1" "snapshotIndex ?rf = snapshotIndex rf"
    by (simp_all add: lastIndex_def)
  moreover have "entry_at ?rf i = (if i = lastIndex rf + 1
      then Some \<lparr>Command = c, Term = currentTerm rf\<rparr> else entry_at rf i)" for i
    using len_pos_wf [OF assms(1)]
    by (auto simp: entry_at_def lastIndex_def nth_append len_def nat_less_iff)
  moreover have "matchIndex ?rf ! nat (me rf) = lastIndex ?rf"
    using assms(1) by (simp add: raft_wf_def lastIndex_def nat_less_iff)
  ultimately show ?thesis by (smt (verit))
qed

lemma Start_not_leader: "\<not> mu rf \<Longrightarrow> \<not> killed rf \<Longrightarrow> tp rf \<noteq> 2 \<Longrightarrow> Start rf c = Inr (rf, -1, -1, False)"
  by (simp add: Start_def with_lock_def)

lemma Start_killed:
  "\<not> mu rf \<Longrightarrow> killed rf \<Longrightarrow>
   Start rf c = Inr (rf\<lparr>mu := True\<rparr>, 0, 0, False) \<and> Start (rf\<lparr>mu := True\<rparr>) d = Inl Blocked"
  by (simp add: Start_def with_lock_def)

subsection \<open>RequestVote\<close>

lemma lastLogTerm_returns: "raft_wf rf \<Longrightarrow> \<exists>t. lastLogTerm rf = Inr t"
  using len_pos_wf [of rf] by (auto simp: lastLogTerm_def index_def)

lemma lastLogTerm_persist [simp]:
  "lastLogTerm (persist rf) = lastLogTerm rf"
  "lastLogTerm (rf\<lparr>currentTerm := t, tp := k, votedFor := v\<rparr>) = lastLogTerm rf"
  by (simp_all add: lastLogTerm_def)

lemma lastIndex_persist [simp]:
  "lastIndex (persist rf) = lastIndex rf"
  "lastIndex (resetTime r rf) = lastIndex rf"
  "lastIndex (rf\<lparr>currentTerm := t, tp := k, votedFor := v\<rparr>) = lastIndex rf"
  by (simp_all add: lastIndex_def)

text \<open>The candidate's log is at least as up to date as the voter's.\<close>

definition upToDate :: "RequestVoteArgs \<Rightarrow> int \<Rightarrow> int \<Rightarrow> bool" where
  "upToDate args t i =
     (va_LastLogTerm args > t \<or> va_LastLogTerm args = t \<and> va_LastLogIndex args \<ge> i)"

lemma RequestVote_granted_iff:
  assumes wf: "raft_wf rf" and t: "lastLogTerm rf = Inr t"
  shows "\<exists>rf' reply. RequestVote r rf args = Inr (rf', reply) \<and> raft_wf rf' \<and>
    vr_Term reply = currentTerm rf \<and> log rf' = log rf \<and> commitIndex rf' = commitIndex rf \<and>
    (vr_VoteGranted reply \<longleftrightarrow>
       currentTerm rf \<le> va_Term args \<and> upToDate args t (lastIndex rf) \<and>
       (currentTerm rf < va_Term args \<or> votedFor rf = -1 \<or> votedFor rf = va_CandidateId args))"
  using assms
  by (auto simp: RequestVote_def with_lock_def Let_def raft_wf_def upToDate_def lastIndex_def)


subsection \<open>Snapshots\<close>

lemma entry_at_cut:
  assumes "snapshotIndex rf < n" "n \<le> lastIndex rf"
    "log rf' = dummy_entry # drop (nat (n - snapshotIndex rf + 1)) (log rf)" "snapshotIndex rf' = n"
  shows "lastIndex rf' = lastIndex rf" and "n < i \<Longrightarrow> entry_at rf' i = entry_at rf i"
proof -
  let ?d = "nat (n - snapshotIndex rf + 1)"
  have d: "?d \<le> length (log rf)" "len (drop ?d (log rf)) = len (log rf) - (n - snapshotIndex rf + 1)"
    using assms(1,2) by (auto simp: lastIndex_def len_drop) (simp add: len_def)
  then show last: "lastIndex rf' = lastIndex rf" using assms by (simp add: lastIndex_def)
  assume i: "n < i"
  have "?d + (nat (i - n) - 1) = nat (i - snapshotIndex rf)" using assms(1) i by linarith
  then have "log rf' ! nat (i - n) = log rf ! nat (i - snapshotIndex rf)"
    using assms(3) d(1) i by (simp add: nth_Cons')
  with last i assms(1,4) show "entry_at rf' i = entry_at rf i" by (simp add: entry_at_def)
qed

lemma persistV2_effect:
  assumes wf: "raft_wf rf" and g: "snapshotIndex rf < LastIndex ss" "LastIndex ss \<le> lastIndex rf"
  shows "\<exists>rf' e. persistV2 rf ss = Inr rf' \<and> persisted rf' \<and> snapshot_saved rf' \<and>
    entry_at rf (LastIndex ss) = Some e \<and>
    read_snapshot (snapshot (persister rf')) = ss\<lparr>LastTerm := Term e\<rparr> \<and>
    snapshotIndex rf' = LastIndex ss \<and> snapshotTerm rf' = Term e \<and> lastIndex rf' = lastIndex rf \<and>
    (\<forall>i. LastIndex ss < i \<longrightarrow> entry_at rf' i = entry_at rf i) \<and>
    (\<forall>p < peers rf. nextIndex rf' ! p + snapshotIndex rf' = nextIndex rf ! p + snapshotIndex rf) \<and>
    commitIndex rf' = commitIndex rf \<and> applych rf' = applych rf \<and>
    (LastIndex ss \<le> commitIndex rf \<longrightarrow> raft_wf rf')"
proof -
  let ?k = "LastIndex ss - snapshotIndex rf"
  let ?e = "log rf ! nat ?k"
  let ?l = "dummy_entry # drop (nat (?k + 1)) (log rf)"
  let ?ni = "map (\<lambda>n. n + snapshotIndex rf - LastIndex ss) (nextIndex rf)"
  let ?rf = "rf\<lparr>log := ?l, nextIndex := ?ni, snapshotIndex := LastIndex ss, snapshotTerm := Term ?e,
    persister := SaveStateAndSnapshot (persister rf) (encode_state (currentTerm rf) (votedFor rf) ?l)
      (encode_snapshot (ss\<lparr>LastTerm := Term ?e\<rparr>))\<rparr>"
  have "persistV2 rf ss = Inr ?rf"
    using assms
    by (simp add: persistV2_def with_lock_def Let_def raft_wf_def lastIndex_def index_ok slice_from_ok
        for_peers_def)
  moreover have "entry_at rf (LastIndex ss) = Some ?e" using g by (simp add: entry_at_def)
  moreover have "persisted ?rf" "snapshot_saved ?rf" by (simp_all add: persisted_def snapshot_saved_def)
  moreover have "lastIndex ?rf = lastIndex rf" "\<forall>i. LastIndex ss < i \<longrightarrow> entry_at ?rf i = entry_at rf i"
    using entry_at_cut [OF g, of ?rf] by simp_all
  moreover have "\<forall>p < peers rf. nextIndex ?rf ! p + snapshotIndex ?rf = nextIndex rf ! p + snapshotIndex rf"
    using wf by (simp add: raft_wf_def)
  moreover have "LastIndex ss \<le> commitIndex rf \<longrightarrow> raft_wf ?rf" using wf g by (simp add: raft_wf_def)
  ultimately show ?thesis by (intro exI [of _ ?rf] exI [of _ ?e]) simp
qed

text \<open>
  The data of a request and the index it claims belong together; the leader's persister
  guarantees that for the requests it sends.
\<close>

definition coherent :: "'c SnapArg \<Rightarrow> bool" where
  "coherent args =
     (LastIndex (read_snapshot (sa_Data args)) = sa_LastIncludedIndex args \<and>
      LastTerm (read_snapshot (sa_Data args)) = sa_LastIncludedTerm args)"

lemma snapshotRequest_coherent:
  "snapshot_saved rf \<Longrightarrow> snapshotRequest rf a2 = Inr (a2', args) \<Longrightarrow> coherent args"
  by (auto simp: snapshotRequest_def with_lock_eq_Inr snapshot_saved_def coherent_def)

text \<open>The follower keeps its log above the snapshot when its entry there has the snapshot's term.\<close>

definition retains :: "'c Raft \<Rightarrow> 'c SnapArg \<Rightarrow> bool" where
  "retains rf args =
     (\<exists>e. entry_at rf (sa_LastIncludedIndex args) = Some e \<and> Term e = sa_LastIncludedTerm args)"

lemma InstallSnapshot_ignores:
  assumes "\<not> mu rf" "sa_Term args < currentTerm rf \<or> sa_LastIncludedIndex args \<le> snapshotIndex rf"
  shows "\<exists>rf' reply. InstallSnapshot r rf args = Inr (rf', reply) \<and> log rf' = log rf \<and>
    snapshotIndex rf' = snapshotIndex rf \<and> commitIndex rf' = commitIndex rf \<and> applych rf' = applych rf \<and>
    raft_wf rf' = raft_wf rf \<and> (snapshot_saved rf' = snapshot_saved rf)"
  using assms by (auto simp: InstallSnapshot_def with_lock_def Let_def snapshot_saved_def)

lemma raise_commit:
  "(if commitIndex rf < n then rf\<lparr>commitIndex := n\<rparr> else rf) = rf\<lparr>commitIndex := max (commitIndex rf) n\<rparr>"
  by (simp add: max_def)

lemma InstallSnapshot_effect:
  assumes wf: "raft_wf rf" and g: "currentTerm rf \<le> sa_Term args" "snapshotIndex rf < sa_LastIncludedIndex args"
  shows "\<exists>rf' reply. InstallSnapshot r rf args = Inr (rf', reply) \<and> raft_wf rf' \<and> persisted rf' \<and>
    (coherent args \<longrightarrow> snapshot_saved rf') \<and> snapshot (persister rf') = sa_Data args \<and>
    snapshotIndex rf' = sa_LastIncludedIndex args \<and> snapshotTerm rf' = sa_LastIncludedTerm args \<and>
    commitIndex rf' = max (commitIndex rf) (sa_LastIncludedIndex args) \<and>
    applych rf' = applych rf @
      [\<lparr>CommandValid = False, MsgCommand = DataPayload (sa_Data args), CommandIndex = 0\<rparr>] \<and>
    (\<forall>i. sa_LastIncludedIndex args < i \<longrightarrow>
       entry_at rf' i = (if retains rf args then entry_at rf i else None))"
proof -
  let ?n = "sa_LastIncludedIndex args"
  let ?a = "adoptTerm (resetTime r rf) (sa_Term args)"
  let ?l = "if retains rf args then dummy_entry # drop (nat (?n - snapshotIndex rf + 1)) (log rf) else [dummy_entry]"
  let ?b = "?a\<lparr>commitIndex := max (commitIndex ?a) ?n\<rparr>"
  let ?c = "if retains rf args then ?b\<lparr>log := ?l\<rparr> else persist (?b\<lparr>log := ?l\<rparr>)"
  define rf' where "rf' = ?c\<lparr>persister := SaveStateAndSnapshot (persister ?c)
      (encode_state (currentTerm ?c) (votedFor ?c) (log ?c)) (sa_Data args), snapshotIndex := ?n,
      snapshotTerm := sa_LastIncludedTerm args, applych := applych ?c @
      [\<lparr>CommandValid = False, MsgCommand = DataPayload (sa_Data args), CommandIndex = 0\<rparr>]\<rparr>"
  have ret: "retains rf args \<longleftrightarrow>
      ?n \<le> lastIndex rf \<and> Term (log rf ! nat (?n - snapshotIndex rf)) = sa_LastIncludedTerm args"
    using g(2) by (auto simp: retains_def entry_at_def)
  have mu: "\<not> mu rf" using wf by (simp add: raft_wf_def)
  have cut: "?n + 1 - snapshotIndex rf = ?n - snapshotIndex rf + 1" by simp
  have eq: "InstallSnapshot r rf args = Inr (rf', \<lparr>sr_Term = currentTerm rf\<rparr>)"
  proof (cases "?n \<le> lastIndex rf")
    case True
    then have "index (log rf) (?n - snapshotIndex rf) = Inr (log rf ! nat (?n - snapshotIndex rf))"
      "slice_from (log rf) (?n + 1 - snapshotIndex rf) = Inr (drop (nat (?n - snapshotIndex rf + 1)) (log rf))"
      "len (log rf) - 1 + snapshotIndex rf \<ge> ?n"
      using g(2) unfolding cut by (auto simp: lastIndex_def intro!: index_ok slice_from_ok)
    with True mu g show ?thesis
      unfolding InstallSnapshot_def with_lock_def Let_def rf'_def ret raise_commit by simp
  next
    case False
    then have "\<not> len (log rf) - 1 + snapshotIndex rf \<ge> ?n" by (simp add: lastIndex_def)
    with False mu g show ?thesis
      unfolding InstallSnapshot_def with_lock_def Let_def rf'_def ret raise_commit by simp
  qed
  have rf': "log rf' = ?l" "snapshotIndex rf' = ?n" "snapshotTerm rf' = sa_LastIncludedTerm args"
    "commitIndex rf' = max (commitIndex rf) ?n" "snapshot (persister rf') = sa_Data args" "persisted rf'"
    "applych rf' = applych rf @
       [\<lparr>CommandValid = False, MsgCommand = DataPayload (sa_Data args), CommandIndex = 0\<rparr>]"
    "mu rf' = mu ?a" "peers rf' = peers ?a" "me rf' = me ?a" "nextIndex rf' = nextIndex ?a"
    "matchIndex rf' = matchIndex ?a"
    by (simp_all add: rf'_def persisted_def)
  have "raft_wf ?a" using wf by simp
  with rf' g(2) have "raft_wf rf'" by (auto simp: raft_wf_def)
  moreover have "entry_at rf' i = (if retains rf args then entry_at rf i else None)" if "?n < i" for i
  proof (cases "retains rf args")
    case True
    then have "?n \<le> lastIndex rf" by (auto simp: retains_def entry_at_def split: if_split_asm)
    with True rf' entry_at_cut(2) [OF g(2), of rf' i] that show ?thesis by simp
  next
    case False
    with rf' that show ?thesis by (simp add: entry_at_def lastIndex_def)
  qed
  moreover have "coherent args \<longrightarrow> snapshot_saved rf'" using rf' by (simp add: coherent_def snapshot_saved_def)
  ultimately show ?thesis using eq rf' by blast
qed


end
