(* ===== verification/Raft_Election.thy ===== *)
theory Raft_Election
  imports Raft_Node Raft_Replication
begin

section \<open>Raft: elections in a cluster\<close>

text \<open>
  A cluster of peers whose states evolve by the operations of \<^verbatim>\<open>src/raft/raft.go\<close>, with the
  goroutines of \<^verbatim>\<open>startElection\<close> and the vote requests and replies in flight. The network
  (\<^verbatim>\<open>src/labrpc\<close>) may delay, reorder and lose messages: a message that stays in flight for
  ever is a lost one. The loop of \<^verbatim>\<open>startElection\<close> reads \<^verbatim>\<open>rf.currentTerm\<close> and \<^verbatim>\<open>rf.tp\<close> without
  the lock before it takes the lock and counts its votes; each of the two reads and the
  critical section is a step of its own, so that anything may happen in between. A peer
  that has stepped down in between becomes leader all the same; \<open>raced\<close> records the peers
  and terms for which this happened. The theorem of this theory is that two leaders of one
  term are the same peer unless one of them is in \<open>raced\<close>; \<open>election_race\<close> among the
  properties is a run in which the exception occurs and two peers lead the same term.
\<close>

subsection \<open>Quorums\<close>

locale quorum_system =
  fixes quorum :: "'a set \<Rightarrow> bool"
  assumes quorum_meet: "quorum P \<Longrightarrow> quorum Q \<Longrightarrow> P \<inter> Q \<noteq> {}"
begin

lemma chosen_unique:
  assumes "\<And>v c d. B v c \<Longrightarrow> B v d \<Longrightarrow> c = d" "quorum {v. B v c}" "quorum {v. B v d}"
  shows "c = d"
  using quorum_meet [OF assms(2,3)] assms(1) by blast

end

definition majority :: "nat \<Rightarrow> nat set \<Rightarrow> bool" where
  "majority n S = (S \<subseteq> {..<n} \<and> n div 2 < card S)"

lemma majority_meet: "majority n P \<Longrightarrow> majority n Q \<Longrightarrow> P \<inter> Q \<noteq> {}"
proof
  assume P: "majority n P" and Q: "majority n Q" and "P \<inter> Q = {}"
  then have "card (P \<union> Q) = card P + card Q"
    by (auto simp: majority_def intro!: card_Un_disjoint finite_subset [OF _ finite_lessThan])
  moreover have "card (P \<union> Q) \<le> card {..<n}" using P Q by (intro card_mono) (auto simp: majority_def)
  ultimately have "card P + card Q \<le> n" by simp
  moreover have "n div 2 < card P" "n div 2 < card Q" using P Q by (simp_all add: majority_def)
  ultimately show False by linarith
qed

interpretation majorities: quorum_system "majority n" for n
  by unfold_locales (rule majority_meet)

subsection \<open>Operations that do not elect\<close>

text \<open>A peer leaves its role, or keeps it together with its term and its count of votes.\<close>

definition role_ok :: "'c Raft \<Rightarrow> 'c Raft \<Rightarrow> bool" where
  "role_ok rf rf' =
     (tp rf' \<noteq> 0 \<longrightarrow> tp rf' = tp rf \<and> currentTerm rf' = currentTerm rf \<and> voteCount rf' = voteCount rf)"

text \<open>The steps of a peer that neither grant a vote nor count one nor end an election.\<close>

inductive other_step :: "'c Raft \<Rightarrow> 'c Raft \<Rightarrow> bool" where
  append_entries: "AppendEntries r rf aargs = Inr (rf', areply) \<Longrightarrow> other_step rf rf'"
| install_snapshot: "InstallSnapshot r rf sargs = Inr (rf', sreply) \<Longrightarrow> other_step rf rf'"
| election_noop: "electionNoop rf = Inr rf' \<Longrightarrow> other_step rf rf'"
| append_turn: "Append2_turn rf s = Inr (rf', turn) \<Longrightarrow> other_step rf rf'"
| append_reply: "appendReply r rf a2 s ct aargs ok areply = Inr rf' \<Longrightarrow> other_step rf rf'"
| snapshot_reply: "snapshotReply r rf a2 s ct ok sreply = Inr rf' \<Longrightarrow> other_step rf rf'"
| start: "Start rf c = Inr (rf', x) \<Longrightarrow> other_step rf rf'"
| take_snapshot: "persistV2 rf ss = Inr rf' \<Longrightarrow> other_step rf rf'"
| timer: "oscillator_check r rf = Inr (rf', osc) \<Longrightarrow> other_step rf rf'"
| tick: "oscillator_tick rf = Inr rf' \<Longrightarrow> other_step rf rf'"
| kill: "other_step rf (Kill rf)"
| restart: "Make r (peers rf) (me rf) (persister rf) = Inr rf' \<Longrightarrow> other_step rf rf'"

lemma other_step_node_step: "other_step rf rf' \<Longrightarrow> node_step rf NoVote rf'"
  by (induction rule: other_step.induct) (blast intro: node_step.intros)+

subsection \<open>The cluster\<close>

text \<open>
  A ballot \<open>(v, t, c)\<close>: peer \<open>v\<close> has voted for \<open>c\<close> in term \<open>t\<close> (a history of the run). A
  goroutine \<open>(c, t, v)\<close>: candidate \<open>c\<close> asks \<open>v\<close> for its vote in term \<open>t\<close>; it is waiting to
  send, its request is in flight, or the reply is; when the reply has been handled it is
  gone. \<open>counted c t\<close>: the peers whose votes the candidate has counted. \<open>looping\<close>: the
  \<^verbatim>\<open>startElection\<close> of candidate \<open>c\<close> for term \<open>t\<close> with the point its loop has reached: about to
  read the term, about to read the role, or about to take the lock. \<open>raced\<close>: peer \<open>c\<close> became
  leader of term \<open>t\<close> when it was a follower of that term (a history of the run).
\<close>

datatype loop_point = AtTerm | AtRole | AtLock

record 'c cluster =
  nodes :: "nat \<Rightarrow> 'c Raft"
  ballots :: "(nat \<times> int \<times> nat) set"
  waiting :: "(nat \<times> int \<times> nat) set"
  requests :: "((nat \<times> int \<times> nat) \<times> RequestVoteArgs) set"
  replies :: "((nat \<times> int \<times> nat) \<times> RequestVoteReply) set"
  counted :: "nat \<Rightarrow> int \<Rightarrow> nat set"
  looping :: "(nat \<times> int \<times> loop_point) set"
  raced :: "(nat \<times> int) set"

definition set_node :: "'c cluster \<Rightarrow> nat \<Rightarrow> 'c Raft \<Rightarrow> 'c cluster" where
  "set_node s i rf = s\<lparr>nodes := (nodes s)(i := rf)\<rparr>"

inductive cluster_step :: "nat \<Rightarrow> 'c cluster \<Rightarrow> 'c cluster \<Rightarrow> bool" for n :: nat where
  elect: "i < n \<Longrightarrow> startElection (nodes s i) = Inr (rf', t) \<Longrightarrow>
    cluster_step n s ((set_node s i rf')\<lparr>ballots := insert (i, t, i) (ballots s),
      waiting := waiting s \<union> {(i, t, j) | j. j < n \<and> j \<noteq> i},
      counted := (counted s)(i := (counted s i)(t := {i})),
      looping := insert (i, t, AtTerm) (looping s)\<rparr>)"
| send: "(i, t, j) \<in> waiting s \<Longrightarrow> voteRequest (nodes s i) t = Inr args \<Longrightarrow>
    cluster_step n s (s\<lparr>waiting := waiting s - {(i, t, j)},
      requests := insert ((i, t, j), args) (requests s)\<rparr>)"
| vote: "((i, t, j), args) \<in> requests s \<Longrightarrow> RequestVote r (nodes s j) args = Inr (rf', reply) \<Longrightarrow>
    cluster_step n s ((set_node s j rf')\<lparr>requests := requests s - {((i, t, j), args)},
      replies := insert ((i, t, j), reply) (replies s),
      ballots := (if vr_VoteGranted reply then insert (j, t, i) (ballots s) else ballots s)\<rparr>)"
| count: "((i, t, j), reply) \<in> replies s \<Longrightarrow> voteReply r (nodes s i) t ok reply = Inr rf' \<Longrightarrow>
    cluster_step n s ((set_node s i rf')\<lparr>replies := replies s - {((i, t, j), reply)},
      counted := (if ok \<and> vr_VoteGranted reply
                  then (counted s)(i := (counted s i)(t := insert j (counted s i t)))
                  else counted s)\<rparr>)"
| read_term: "(i, t, AtTerm) \<in> looping s \<Longrightarrow> electionTerm (nodes s i) t \<Longrightarrow>
    cluster_step n s (s\<lparr>looping := insert (i, t, AtRole) (looping s - {(i, t, AtTerm)})\<rparr>)"
| read_role: "(i, t, AtRole) \<in> looping s \<Longrightarrow> electionRole (nodes s i) \<Longrightarrow>
    cluster_step n s (s\<lparr>looping := insert (i, t, AtLock) (looping s - {(i, t, AtRole)})\<rparr>)"
| check: "(i, t, AtLock) \<in> looping s \<Longrightarrow> electionCheck (nodes s i) = Inr (rf', res) \<Longrightarrow>
    cluster_step n s ((set_node s i rf')\<lparr>
      looping := looping s - {(i, t, AtLock)} \<union> (if res = ElectionWaits then {(i, t, AtTerm)} else {}),
      raced := (if res = ElectionWon \<and> tp (nodes s i) \<notin> {1, 2}
                then insert (i, currentTerm (nodes s i)) (raced s) else raced s)\<rparr>)"
| other: "i < n \<Longrightarrow> other_step (nodes s i) rf' \<Longrightarrow> cluster_step n s (set_node s i rf')"

text \<open>At the start every peer has just been created and nothing is in flight.\<close>

definition cluster_init :: "nat \<Rightarrow> 'c cluster \<Rightarrow> bool" where
  "cluster_init n s =
     ((\<forall>i < n. \<exists>r. Make r n (int i) MakePersister = Inr (nodes s i)) \<and> ballots s = {} \<and>
      waiting s = {} \<and> requests s = {} \<and> replies s = {} \<and> counted s = (\<lambda>_ _. {}) \<and>
      looping s = {} \<and> raced s = {})"

inductive cluster_reach :: "nat \<Rightarrow> 'c cluster \<Rightarrow> bool" for n :: nat where
  init: "cluster_init n s \<Longrightarrow> cluster_reach n s"
| step: "cluster_reach n s \<Longrightarrow> cluster_step n s s' \<Longrightarrow> cluster_reach n s'"

text \<open>The goroutines that are still alive, with the peer they talk to.\<close>

definition alive :: "'c cluster \<Rightarrow> (nat \<times> int \<times> nat) set" where
  "alive s = waiting s \<union> fst ` requests s \<union> fst ` replies s"

definition peer_inv :: "nat \<Rightarrow> 'c cluster \<Rightarrow> nat \<Rightarrow> bool" where
  "peer_inv n s i =
     (node_inv (nodes s i) \<and> me (nodes s i) = int i \<and> peers (nodes s i) = n \<and>
      (\<forall>t c. (i, t, c) \<in> ballots s \<longrightarrow>
         t \<le> currentTerm (nodes s i) \<and> (t = currentTerm (nodes s i) \<longrightarrow> votedFor (nodes s i) = int c)) \<and>
      (\<forall>t j. (i, t, j) \<in> alive s \<longrightarrow> t \<le> currentTerm (nodes s i)) \<and>
      (tp (nodes s i) = 1 \<longrightarrow>
         voteCount (nodes s i) \<le> int (card (counted s i (currentTerm (nodes s i))))) \<and>
      (tp (nodes s i) = 2 \<longrightarrow> (i, currentTerm (nodes s i)) \<in> raced s \<or>
         majority n {v. (v, currentTerm (nodes s i), i) \<in> ballots s}))"

definition flight_inv :: "nat \<Rightarrow> 'c cluster \<Rightarrow> bool" where
  "flight_inv n s =
     ((\<forall>i t j. (i, t, j) \<in> alive s \<longrightarrow> i < n \<and> j < n \<and> i \<noteq> j \<and> 1 \<le> t \<and> j \<notin> counted s i t) \<and>
      (\<forall>i t j args. ((i, t, j), args) \<in> requests s \<longrightarrow>
         va_Term args = t \<and> va_CandidateId args = int i \<and> (i, t, j) \<notin> waiting s) \<and>
      (\<forall>i t j reply. ((i, t, j), reply) \<in> replies s \<longrightarrow> (vr_VoteGranted reply \<longrightarrow> (j, t, i) \<in> ballots s) \<and>
         (i, t, j) \<notin> waiting s \<and> (\<forall>args. ((i, t, j), args) \<notin> requests s)) \<and>
      (\<forall>i t p. (i, t, p) \<in> looping s \<longrightarrow> i < n) \<and>
      single_valued (requests s) \<and> single_valued (replies s))"

definition ballot_inv :: "nat \<Rightarrow> 'c cluster \<Rightarrow> bool" where
  "ballot_inv n s =
     ((\<forall>v t c d. (v, t, c) \<in> ballots s \<longrightarrow> (v, t, d) \<in> ballots s \<longrightarrow> c = d) \<and>
      (\<forall>v t c. (v, t, c) \<in> ballots s \<longrightarrow> v < n \<and> c < n) \<and>
      (\<forall>i t j. j \<in> counted s i t \<longrightarrow> (j, t, i) \<in> ballots s))"

definition cluster_inv :: "nat \<Rightarrow> 'c cluster \<Rightarrow> bool" where
  "cluster_inv n s = ((\<forall>i < n. peer_inv n s i) \<and> flight_inv n s \<and> ballot_inv n s)"

subsection \<open>Roles\<close>

lemma role_ok_refl [simp]: "role_ok rf rf"
  by (simp add: role_ok_def)

lemma role_ok_frame:
  "tp rf' = tp rf \<Longrightarrow> currentTerm rf' = currentTerm rf \<Longrightarrow> voteCount rf' = voteCount rf \<Longrightarrow> role_ok rf rf'"
  by (simp add: role_ok_def)

lemma role_ok_trans: "role_ok a b \<Longrightarrow> role_ok b c \<Longrightarrow> role_ok a c"
  by (auto simp: role_ok_def)

lemma role_ok_termUpdate [simp]: "role_ok rf (resetTime r (termUpdate rf t 0 v))" "role_ok rf (termUpdate rf t 0 v)"
  by (simp_all add: role_ok_def termUpdate_def)

lemma role_ok_adoptTerm: "role_ok rf (adoptTerm rf t)"
  by (auto simp: role_ok_def adoptTerm_def termUpdate_def)

lemma role_frames:
  "appendAfterPrev rf args = Inr rf' \<Longrightarrow> role_ok rf rf'"
  "appendAfterSnapshot rf args = Inr rf' \<Longrightarrow> role_ok rf rf'"
  "followCommit rf c = Inr rf' \<Longrightarrow> role_ok rf rf'"
  by (auto simp: appendAfterPrev_def appendAfterSnapshot_def followCommit_def Let_def bindE_eq_Inr
      split: if_split_asm intro!: role_ok_frame)

lemma role_ok_AppendEntries:
  assumes "AppendEntries r rf args = Inr (rf', reply)"
  shows "role_ok rf rf'"
proof (cases "aa_Term args < currentTerm rf")
  case True
  with assms show ?thesis by (auto simp: AppendEntries_def with_lock_eq_Inr Let_def)
next
  case False
  have reset: "role_ok a (resetTime r b) = role_ok a b" for a b :: "'a Raft" by (simp add: role_ok_def)
  from False assms have "role_ok (adoptTerm rf (aa_Term args)) rf'"
    by (auto simp: AppendEntries_def with_lock_eq_Inr Let_def bindE_eq_Inr reset split: if_split_asm
        intro: role_ok_trans [OF role_frames(1) role_frames(3)] role_ok_trans [OF role_frames(2) role_frames(3)])
  with role_ok_adoptTerm show ?thesis by (rule role_ok_trans)
qed

lemma role_ok_InstallSnapshot:
  assumes "InstallSnapshot r rf args = Inr (rf', reply)"
  shows "role_ok rf rf'"
proof (cases "sa_Term args < currentTerm rf")
  case True
  with assms show ?thesis by (auto simp: InstallSnapshot_def with_lock_eq_Inr Let_def)
next
  case False
  let ?a = "adoptTerm (resetTime r rf) (sa_Term args)"
  from False assms have "role_ok ?a rf'"
    by (auto simp: InstallSnapshot_def with_lock_eq_Inr Let_def bindE_eq_Inr raise_commit role_ok_def
        split: if_split_asm)
  moreover have "role_ok rf ?a"
    by (rule role_ok_trans [OF _ role_ok_adoptTerm]) (simp add: role_ok_def)
  ultimately show ?thesis by (blast intro: role_ok_trans)
qed

lemma role_ok_updateCommit: "updateCommit rf = Inr rf' \<Longrightarrow> role_ok rf rf'"
  by (drule updateCommit_shape, erule ssubst) (simp add: role_ok_def)

lemma role_ok_slices [simp]:
  "role_ok (rf\<lparr>nextIndex := ni\<rparr>) rf' = role_ok rf rf'"
  "role_ok (rf\<lparr>matchIndex := mi\<rparr>) rf' = role_ok rf rf'"
  "role_ok (rf\<lparr>matchIndex := mi, nextIndex := ni\<rparr>) rf' = role_ok rf rf'"
  by (simp_all add: role_ok_def)

lemma role_ok_accepted:
  "appendAccepted rf s args = Inr rf' \<Longrightarrow> role_ok rf rf'"
  "appendRejected rf s args reply = Inr rf' \<Longrightarrow> role_ok rf rf'"
  unfolding appendAccepted_def appendRejected_def Let_def
  by (auto simp: bindE_eq_Inr split: if_split_asm dest!: role_ok_updateCommit intro: role_ok_frame)

lemma role_ok_appendReply:
  assumes "appendReply r rf a2 s ct args ok reply = Inr rf'"
  shows "role_ok rf rf'"
proof (cases "rf' = rf")
  case False
  with assms obtain rf1 where u: "updateCommit rf1 = Inr rf'" and "role_ok rf rf1"
    by (auto simp: appendReply_def with_lock_eq_Inr bindE_eq_Inr split: if_split_asm
        dest: role_ok_accepted intro: role_ok_refl role_ok_termUpdate that)
  then show ?thesis using role_ok_updateCommit [OF u] by (blast intro: role_ok_trans)
qed simp

lemma role_ok_Start: "Start rf c = Inr (rf', x) \<Longrightarrow> role_ok rf rf'"
  by (auto simp: Start_def with_lock_eq_Inr Let_def bindE_eq_Inr role_ok_def split: if_split_asm)

lemma role_ok_small:
  "snapshotReply r rf a2 s ct ok sreply = Inr rf' \<Longrightarrow> role_ok rf rf'"
  "electionCheck rf = Inr (rf', res) \<Longrightarrow> res \<noteq> ElectionWon \<Longrightarrow> role_ok rf rf'"
  "persistV2 rf ss = Inr rf' \<Longrightarrow> role_ok rf rf'"
  "oscillator_check r rf = Inr (rf', osc) \<Longrightarrow> role_ok rf rf'"
  "oscillator_tick rf = Inr rf' \<Longrightarrow> role_ok rf rf'"
  "Append2_turn rf s = Inr (rf', turn) \<Longrightarrow> role_ok rf rf'"
  by (auto simp: snapshotReply_def electionCheck_def persistV2_def oscillator_check_def
      oscillator_tick_def Append2_turn_def with_lock_eq_Inr Let_def bindE_eq_Inr split: if_split_asm
      intro: role_ok_frame)

lemma role_ok_Make: "Make r n i ps = Inr rf' \<Longrightarrow> role_ok rf rf'"
  by (auto simp: Make_def new_Raft_def readPersist_def readSnapRaft_def Let_def bindE_eq_Inr role_ok_def
      split: if_split_asm option.split_asm)

lemma role_ok_other: "other_step rf rf' \<Longrightarrow> role_ok rf rf'"
proof (induction rule: other_step.induct)
  case (election_noop rf rf')
  then show ?case by (auto simp: electionNoop_def bindE_eq_Inr split: if_split_asm prod.splits dest: role_ok_Start)
next
  case (kill rf)
  then show ?case by (simp add: role_ok_def Kill_def)
qed (blast intro: role_ok_AppendEntries role_ok_InstallSnapshot role_ok_appendReply role_ok_Start
    role_ok_small role_ok_Make)+

lemma role_ok_RequestVote: "RequestVote r rf args = Inr (rf', reply) \<Longrightarrow> role_ok rf rf'"
  by (auto simp: RequestVote_def with_lock_eq_Inr Let_def bindE_eq_Inr role_ok_def split: if_split_asm)


subsection \<open>The invariant\<close>

lemma majority_mono: "majority n A \<Longrightarrow> A \<subseteq> B \<Longrightarrow> B \<subseteq> {..<n} \<Longrightarrow> majority n B"
  unfolding majority_def using card_mono [of B A] finite_subset [of B "{..<n}"] by fastforce

text \<open>A peer whose state changes without an election keeps its part of the invariant.\<close>

lemma peer_inv_step:
  assumes P: "peer_inv n s i"
    and N: "node_inv (nodes s' i)" "me (nodes s' i) = me (nodes s i)" "peers (nodes s' i) = peers (nodes s i)"
    and T: "currentTerm (nodes s i) \<le> currentTerm (nodes s' i)"
    and V: "currentTerm (nodes s' i) = currentTerm (nodes s i) \<Longrightarrow> votedFor (nodes s i) \<noteq> -1 \<Longrightarrow>
      votedFor (nodes s' i) = votedFor (nodes s i)"
    and B: "\<And>t c. (i, t, c) \<in> ballots s' \<Longrightarrow>
      (i, t, c) \<in> ballots s \<or> t = currentTerm (nodes s' i) \<and> votedFor (nodes s' i) = int c"
    and A: "\<And>t j. (i, t, j) \<in> alive s' \<Longrightarrow> (i, t, j) \<in> alive s"
    and R: "role_ok (nodes s i) (nodes s' i)"
    and C: "\<And>t. card (counted s i t) \<le> card (counted s' i t)"
    and M: "ballots s \<subseteq> ballots s'" "\<And>v t c. (v, t, c) \<in> ballots s' \<Longrightarrow> v < n" "raced s \<subseteq> raced s'"
  shows "peer_inv n s' i"
proof -
  let ?t = "currentTerm (nodes s' i)"
  have "t \<le> ?t \<and> (t = ?t \<longrightarrow> votedFor (nodes s' i) = int c)" if b: "(i, t, c) \<in> ballots s'" for t c
  proof (cases "(i, t, c) \<in> ballots s")
    case True
    with P have "t \<le> currentTerm (nodes s i)" "t = currentTerm (nodes s i) \<Longrightarrow> votedFor (nodes s i) = int c"
      by (auto simp: peer_inv_def)
    with T V show ?thesis by fastforce
  next
    case False
    with B [OF b] show ?thesis by auto
  qed
  moreover have "t \<le> ?t" if "(i, t, j) \<in> alive s'" for t j
    using A [OF that] P T by (fastforce simp: peer_inv_def)
  moreover have "voteCount (nodes s' i) \<le> int (card (counted s' i ?t))" if "tp (nodes s' i) = 1"
    using R that P C [of ?t] by (auto simp: role_ok_def peer_inv_def)
  moreover have "majority n {v. (v, ?t, i) \<in> ballots s'}" if "tp (nodes s' i) = 2" "(i, ?t) \<notin> raced s'"
  proof (rule majority_mono)
    show "majority n {v. (v, ?t, i) \<in> ballots s}" using R that P M(3) by (auto simp: role_ok_def peer_inv_def)
  qed (use M in auto)
  ultimately show ?thesis using P N by (auto simp: peer_inv_def)
qed

text \<open>A peer whose state does not change.\<close>

lemma peer_inv_frame:
  assumes "peer_inv n s i" "nodes s' i = nodes s i" "ballots s \<subseteq> ballots s'"
    "\<And>t c. (i, t, c) \<in> ballots s' \<Longrightarrow> (i, t, c) \<in> ballots s" "\<And>v t c. (v, t, c) \<in> ballots s' \<Longrightarrow> v < n"
    "\<And>t j. (i, t, j) \<in> alive s' \<Longrightarrow> (i, t, j) \<in> alive s" "counted s' i = counted s i"
    "raced s \<subseteq> raced s'"
  shows "peer_inv n s' i"
  by (rule peer_inv_step [OF assms(1)]) (use assms in \<open>auto simp: peer_inv_def\<close>)

lemma peer_invI:
  assumes "node_inv (nodes s i)" "me (nodes s i) = int i" "peers (nodes s i) = n"
    "\<And>t c. (i, t, c) \<in> ballots s \<Longrightarrow>
       t \<le> currentTerm (nodes s i) \<and> (t = currentTerm (nodes s i) \<longrightarrow> votedFor (nodes s i) = int c)"
    "\<And>t j. (i, t, j) \<in> alive s \<Longrightarrow> t \<le> currentTerm (nodes s i)"
    "tp (nodes s i) = 1 \<Longrightarrow>
       voteCount (nodes s i) \<le> int (card (counted s i (currentTerm (nodes s i))))"
    "tp (nodes s i) = 2 \<Longrightarrow> (i, currentTerm (nodes s i)) \<in> raced s \<or>
       majority n {v. (v, currentTerm (nodes s i), i) \<in> ballots s}"
  shows "peer_inv n s i"
  using assms by (simp add: peer_inv_def)

lemma flight_invI:
  assumes "\<And>i t j. (i, t, j) \<in> alive s \<Longrightarrow> i < n \<and> j < n \<and> i \<noteq> j \<and> 1 \<le> t \<and> j \<notin> counted s i t"
    "\<And>i t j args. ((i, t, j), args) \<in> requests s \<Longrightarrow> va_Term args = t \<and> va_CandidateId args = int i"
    "\<And>i t j args. ((i, t, j), args) \<in> requests s \<Longrightarrow> (i, t, j) \<notin> waiting s"
    "\<And>i t j reply. ((i, t, j), reply) \<in> replies s \<Longrightarrow> vr_VoteGranted reply \<Longrightarrow> (j, t, i) \<in> ballots s"
    "\<And>i t j reply. ((i, t, j), reply) \<in> replies s \<Longrightarrow> (i, t, j) \<notin> waiting s"
    "\<And>i t j args reply. ((i, t, j), reply) \<in> replies s \<Longrightarrow> ((i, t, j), args) \<notin> requests s"
    "single_valued (requests s)" "single_valued (replies s)"
    "\<And>i t p. (i, t, p) \<in> looping s \<Longrightarrow> i < n"
  shows "flight_inv n s"
  using assms unfolding flight_inv_def by fastforce

lemma flight_invD:
  assumes "flight_inv n s"
  shows "\<And>i t j. (i, t, j) \<in> alive s \<Longrightarrow> i < n \<and> j < n \<and> i \<noteq> j \<and> 1 \<le> t \<and> j \<notin> counted s i t"
    "\<And>i t j args. ((i, t, j), args) \<in> requests s \<Longrightarrow> va_Term args = t \<and> va_CandidateId args = int i"
    "\<And>i t j args. ((i, t, j), args) \<in> requests s \<Longrightarrow> (i, t, j) \<notin> waiting s"
    "\<And>i t j reply. ((i, t, j), reply) \<in> replies s \<Longrightarrow> vr_VoteGranted reply \<Longrightarrow> (j, t, i) \<in> ballots s"
    "\<And>i t j reply. ((i, t, j), reply) \<in> replies s \<Longrightarrow> (i, t, j) \<notin> waiting s"
    "\<And>i t j args reply. ((i, t, j), reply) \<in> replies s \<Longrightarrow> ((i, t, j), args) \<notin> requests s"
    "single_valued (requests s)" "single_valued (replies s)"
    "\<And>i t p. (i, t, p) \<in> looping s \<Longrightarrow> i < n"
  using assms unfolding flight_inv_def by blast+

lemma alive_intros:
  "x \<in> waiting s \<Longrightarrow> x \<in> alive s" "(x, args) \<in> requests s \<Longrightarrow> x \<in> alive s"
  "(x, reply) \<in> replies s \<Longrightarrow> x \<in> alive s"
  by (force simp: alive_def)+

lemma counted_bound: "ballot_inv n s \<Longrightarrow> counted s i t \<subseteq> {..<n}"
  unfolding ballot_inv_def by blast

lemma cluster_invI:
  "peer_inv n s i \<Longrightarrow> (\<And>j. j < n \<Longrightarrow> j \<noteq> i \<Longrightarrow> peer_inv n s j) \<Longrightarrow> flight_inv n s \<Longrightarrow> ballot_inv n s \<Longrightarrow>
   cluster_inv n s"
  by (metis cluster_inv_def)

text \<open>A goroutine whose request has been answered, and one whose reply has been handled.\<close>

lemma alive_answered:
  assumes "(x, a) \<in> requests s"
  shows "alive (s\<lparr>requests := requests s - {(x, a)}, replies := insert (x, r) (replies s)\<rparr>) = alive s"
  using assms by (force simp: alive_def image_iff)

lemma alive_handled:
  "alive (s\<lparr>replies := replies s - {(x, r)}\<rparr>) \<subseteq> alive s"
  by (auto simp: alive_def)

lemma alive_more [simp]:
  "alive (s\<lparr>ballots := b\<rparr>) = alive s" "alive (s\<lparr>nodes := f\<rparr>) = alive s" "alive (s\<lparr>counted := c\<rparr>) = alive s"
  "alive (s\<lparr>looping := l\<rparr>) = alive s" "alive (s\<lparr>raced := x\<rparr>) = alive s"
  by (simp_all add: alive_def)

lemma set_node_simps [simp]:
  "nodes (set_node s i rf) = (nodes s)(i := rf)" "ballots (set_node s i rf) = ballots s"
  "waiting (set_node s i rf) = waiting s" "requests (set_node s i rf) = requests s"
  "replies (set_node s i rf) = replies s" "counted (set_node s i rf) = counted s"
  "looping (set_node s i rf) = looping s" "raced (set_node s i rf) = raced s"
  "alive (set_node s i rf) = alive s"
  by (simp_all add: set_node_def alive_def)

lemma cluster_inv_other:
  assumes inv: "cluster_inv n s" and i: "i < n" and st: "other_step (nodes s i) rf'"
  shows "cluster_inv n (set_node s i rf')"
proof -
  let ?s = "set_node s i rf'"
  have pi: "peer_inv n s i" and b: "ballot_inv n s" and f: "flight_inv n s"
    using inv i by (auto simp: cluster_inv_def)
  have eff: "node_inv rf'" "currentTerm (nodes s i) \<le> currentTerm rf'"
    "currentTerm rf' = currentTerm (nodes s i) \<Longrightarrow> votedFor (nodes s i) \<noteq> -1 \<Longrightarrow> votedFor rf' = votedFor (nodes s i)"
    using node_step_effect [OF other_step_node_step [OF st]] pi by (auto simp: peer_inv_def)
  have id: "me rf' = me (nodes s i)" "peers rf' = peers (nodes s i)"
    using node_step_id [OF other_step_node_step [OF st]] by auto
  have "peer_inv n ?s i"
    by (rule peer_inv_step [OF pi]) (use eff id role_ok_other [OF st] b in \<open>auto simp: ballot_inv_def\<close>)
  moreover have "peer_inv n ?s j" if "j < n" "j \<noteq> i" for j
    by (rule peer_inv_frame [of n s]) (use inv that b in \<open>auto simp: cluster_inv_def ballot_inv_def\<close>)
  moreover have "flight_inv n ?s" "ballot_inv n ?s"
    using f b by (simp_all add: flight_inv_def ballot_inv_def)
  ultimately show ?thesis by (rule cluster_invI)
qed

lemma cluster_inv_elect:
  assumes inv: "cluster_inv n s" and i: "i < n" and st: "startElection (nodes s i) = Inr (rf', t)"
  shows "cluster_inv n ((set_node s i rf')\<lparr>ballots := insert (i, t, i) (ballots s),
      waiting := waiting s \<union> {(i, t, j) | j. j < n \<and> j \<noteq> i},
      counted := (counted s)(i := (counted s i)(t := {i})),
      looping := insert (i, t, AtTerm) (looping s)\<rparr>)" (is "cluster_inv n ?s")
proof -
  have pi: "peer_inv n s i" and b: "ballot_inv n s" and f: "flight_inv n s"
    using inv i by (auto simp: cluster_inv_def)
  note eff = startElection_effect [OF st]
  have new: "(i, t, c) \<notin> ballots s" "(i, t, j) \<notin> alive s" for c j
    using pi eff by (fastforce simp: peer_inv_def)+
  then have new': "((i, t, j), args) \<notin> requests s" "((i, t, j), reply) \<notin> replies s" for j args reply
    using alive_intros by blast+
  have al: "alive ?s = alive s \<union> {(i, t, j) | j. j < n \<and> j \<noteq> i}" by (auto simp: alive_def)
  have ni: "node_inv rf'" using pi eff by (auto simp: peer_inv_def node_inv_def)
  have "peer_inv n ?s i"
  proof (rule peer_invI)
    fix u c assume "(i, u, c) \<in> ballots ?s"
    then consider "u = t" "c = i" | "u \<le> currentTerm (nodes s i)" using pi by (auto simp: peer_inv_def)
    then show "u \<le> currentTerm (nodes ?s i) \<and>
        (u = currentTerm (nodes ?s i) \<longrightarrow> votedFor (nodes ?s i) = int c)"
      using eff pi by cases (auto simp: peer_inv_def)
  next
    fix u j assume "(i, u, j) \<in> alive ?s"
    then consider "u = t" | "u \<le> currentTerm (nodes s i)" using pi al by (auto simp: peer_inv_def)
    then show "u \<le> currentTerm (nodes ?s i)" using eff by cases auto
  qed (use ni eff pi in \<open>auto simp: peer_inv_def\<close>)
  moreover have "peer_inv n ?s j" if "j < n" "j \<noteq> i" for j
    by (rule peer_inv_frame [of n s]) (use inv that b al i in \<open>auto simp: cluster_inv_def ballot_inv_def\<close>)
  moreover have "flight_inv n ?s"
  proof (rule flight_invI)
    fix a u j assume "(a, u, j) \<in> alive ?s"
    then consider "(a, u, j) \<in> alive s" "(a, u) \<noteq> (i, t)" | "a = i" "u = t" "j < n" "j \<noteq> i"
      using al new by auto
    then show "a < n \<and> j < n \<and> a \<noteq> j \<and> 1 \<le> u \<and> j \<notin> counted ?s a u"
      using f i eff pi by cases (auto simp: flight_inv_def peer_inv_def node_inv_def)
  qed (use flight_invD [OF f] new new' i in \<open>auto\<close>)
  moreover have "ballot_inv n ?s" using b new i by (auto simp: ballot_inv_def split: if_split_asm)
  ultimately show ?thesis by (rule cluster_invI)
qed

lemma cluster_inv_send:
  assumes inv: "cluster_inv n s" and w: "(i, t, j) \<in> waiting s" and st: "voteRequest (nodes s i) t = Inr args"
  shows "cluster_inv n (s\<lparr>waiting := waiting s - {(i, t, j)},
      requests := insert ((i, t, j), args) (requests s)\<rparr>)" (is "cluster_inv n ?s")
proof -
  have b: "ballot_inv n s" and f: "flight_inv n s" using inv by (auto simp: cluster_inv_def)
  have i: "i < n" using flight_invD(1) [OF f] alive_intros(1) [OF w] by blast
  then have "me (nodes s i) = int i" using inv by (simp add: cluster_inv_def peer_inv_def)
  with st have args: "va_Term args = t" "va_CandidateId args = int i"
    by (auto simp: voteRequest_def with_lock_eq_Inr bindE_eq_Inr)
  have al: "alive ?s = alive s" using w by (auto simp: alive_def)
  have old: "((i, t, j), a) \<notin> requests s" "((i, t, j), r) \<notin> replies s" for a r
    using w flight_invD(3,5) [OF f] by blast+
  have "peer_inv n ?s k" if "k < n" for k
    by (rule peer_inv_frame [of n s]) (use inv that b al in \<open>auto simp: cluster_inv_def ballot_inv_def\<close>)
  moreover have "flight_inv n ?s"
  proof (rule flight_invI)
    show "single_valued (requests ?s)"
      using flight_invD(7) [OF f] old by (auto simp: single_valued_def)
  qed (use flight_invD [OF f] args old al in \<open>auto\<close>)
  moreover have "ballot_inv n ?s" using b by (simp add: ballot_inv_def)
  ultimately show ?thesis by (simp add: cluster_inv_def)
qed

lemma cluster_inv_vote:
  assumes inv: "cluster_inv n s" and q: "((i, t, j), args) \<in> requests s"
    and st: "RequestVote r (nodes s j) args = Inr (rf', reply)"
  shows "cluster_inv n ((set_node s j rf')\<lparr>requests := requests s - {((i, t, j), args)},
      replies := insert ((i, t, j), reply) (replies s),
      ballots := (if vr_VoteGranted reply then insert (j, t, i) (ballots s) else ballots s)\<rparr>)"
    (is "cluster_inv n ?s")
proof -
  have b: "ballot_inv n s" and f: "flight_inv n s" using inv by (auto simp: cluster_inv_def)
  have ij: "i < n" "j < n" "i \<noteq> j" "1 \<le> t" using flight_invD(1) [OF f] alive_intros(2) [OF q] by blast+
  have pj: "peer_inv n s j" using inv ij by (simp add: cluster_inv_def)
  have args: "va_Term args = t" "va_CandidateId args = int i" using flight_invD(2) [OF f] q by blast+
  have al: "alive ?s = alive s"
    using alive_answered [of "(i, t, j)" args "set_node s j rf'" reply] q by simp
  have old: "(i, t, j) \<notin> waiting s" "((i, t, j), x) \<notin> replies s" "((i, t, j), a) \<in> requests s \<Longrightarrow> a = args"
    for x a using q flight_invD(3,6,7) [OF f] by (blast, blast, meson single_valuedD)
  have ns: "node_step (nodes s j)
      (if vr_VoteGranted reply then Vote (va_Term args) (va_CandidateId args) else NoVote) rf'"
    by (rule node_step.request_vote [OF st]) (use args ij in simp_all)
  have ni: "node_inv (nodes s j)" using pj by (simp add: peer_inv_def)
  note eff = node_step_effect [OF ns ni]
  note eff2 = RequestVote_effect [OF st]
  have "peer_inv n ?s j"
    by (rule peer_inv_step [OF pj])
      (use eff node_step_id [OF ns] al b ij args role_ok_RequestVote [OF st] in
        \<open>auto simp: ballot_inv_def split: if_split_asm\<close>)
  moreover have "peer_inv n ?s k" if "k < n" "k \<noteq> j" for k
    by (rule peer_inv_frame [of n s])
      (use inv that b al ij in \<open>auto simp: cluster_inv_def ballot_inv_def split: if_split_asm\<close>)
  moreover have "flight_inv n ?s"
  proof (rule flight_invI)
    show "single_valued (requests ?s)" "single_valued (replies ?s)"
      using flight_invD(7,8) [OF f] old by (auto simp: single_valued_def)
  qed (use flight_invD [OF f] args old al in \<open>auto split: if_split_asm\<close>)
  moreover have "ballot_inv n ?s"
  proof -
    have "c = i" if g: "vr_VoteGranted reply" and "(j, t, c) \<in> ballots s" for c
    proof -
      have "t \<le> currentTerm (nodes s j)" "t = currentTerm (nodes s j) \<Longrightarrow> votedFor (nodes s j) = int c"
        using that(2) pj by (auto simp: peer_inv_def)
      with eff2 g args show ?thesis by auto
    qed
    then show ?thesis using b ij by (auto simp: ballot_inv_def split: if_split_asm)
  qed
  ultimately show ?thesis by (rule cluster_invI)
qed

lemma voteReply_effect:
  assumes "voteReply r rf t ok reply = Inr rf'" "t \<le> currentTerm rf"
  shows "role_ok rf rf' \<or>
    rf' = rf\<lparr>voteCount := voteCount rf + 1\<rparr> \<and> t = currentTerm rf \<and> ok \<and> vr_VoteGranted reply"
  using assms by (auto simp: voteReply_def with_lock_eq_Inr split: if_split_asm)

lemma cluster_inv_count:
  assumes inv: "cluster_inv n s" and q: "((i, t, j), reply) \<in> replies s"
    and st: "voteReply r (nodes s i) t ok reply = Inr rf'"
  shows "cluster_inv n ((set_node s i rf')\<lparr>replies := replies s - {((i, t, j), reply)},
      counted := (if ok \<and> vr_VoteGranted reply
                  then (counted s)(i := (counted s i)(t := insert j (counted s i t)))
                  else counted s)\<rparr>)" (is "cluster_inv n ?s")
proof -
  have b: "ballot_inv n s" and f: "flight_inv n s" using inv by (auto simp: cluster_inv_def)
  have ij: "i < n" "j < n" "j \<notin> counted s i t" using flight_invD(1) [OF f] alive_intros(3) [OF q] by blast+
  have pi: "peer_inv n s i" using inv ij by (simp add: cluster_inv_def)
  have al: "alive ?s \<subseteq> alive s"
    using alive_handled [of "set_node s i rf'" "(i, t, j)" reply] by simp
  have tle: "t \<le> currentTerm (nodes s i)" using pi alive_intros(3) [OF q] by (auto simp: peer_inv_def)
  have gone: "(i, t, j) \<notin> alive ?s"
    using q flight_invD(5,6,8) [OF f] by (fastforce simp: alive_def dest: single_valuedD)
  have fin: "finite (counted s i u)" for u
    using counted_bound [OF b] by (rule finite_subset) simp
  have ns: "node_step (nodes s i) NoVote rf'" using st by (rule node_step.vote_reply)
  have ni: "node_inv (nodes s i)" using pi by (simp add: peer_inv_def)
  note eff = node_step_effect [OF ns ni]
  have "peer_inv n ?s i"
  proof (cases "role_ok (nodes s i) rf'")
    case True
    have "card (counted s i u) \<le> card (counted ?s i u)" for u using fin by (auto intro: card_mono)
    then show ?thesis
      by (intro peer_inv_step [OF pi]) (use True eff node_step_id [OF ns] al b in \<open>auto simp: ballot_inv_def\<close>)
  next
    case False
    with voteReply_effect [OF st tle] have "rf' = (nodes s i)\<lparr>voteCount := voteCount (nodes s i) + 1\<rparr>"
      "t = currentTerm (nodes s i)" "ok" "vr_VoteGranted reply" by auto
    moreover have "u \<le> currentTerm (nodes s i)" if "(i, u, k) \<in> alive ?s" for u k
      using subsetD [OF al that] pi by (auto simp: peer_inv_def)
    ultimately show ?thesis
      by (intro peer_invI) (use pi ij(3) fin eff in \<open>auto simp: peer_inv_def\<close>)
  qed
  moreover have "peer_inv n ?s k" if "k < n" "k \<noteq> i" for k
    by (rule peer_inv_frame [of n s]) (use inv that b al ij in \<open>auto simp: cluster_inv_def ballot_inv_def\<close>)
  moreover have "flight_inv n ?s"
  proof (rule flight_invI)
    fix a u k assume "(a, u, k) \<in> alive ?s"
    with al gone have "(a, u, k) \<in> alive s" "(a, u, k) \<noteq> (i, t, j)" by blast+
    with flight_invD(1) [OF f] show "a < n \<and> k < n \<and> a \<noteq> k \<and> 1 \<le> u \<and> k \<notin> counted ?s a u" by auto
  next
    show "single_valued (replies ?s)" using flight_invD(8) [OF f] by (auto simp: single_valued_def)
  qed (use flight_invD [OF f] in auto)
  moreover have "ballot_inv n ?s"
    using b flight_invD(4) [OF f q] by (auto simp: ballot_inv_def split: if_split_asm)
  ultimately show ?thesis by (rule cluster_invI)
qed

lemma electionCheck_Won:
  "electionCheck rf = Inr (rf', ElectionWon) \<Longrightarrow> int (peers rf div 2) < voteCount rf \<and> tp rf' = 2 \<and>
   currentTerm rf' = currentTerm rf \<and> votedFor rf' = votedFor rf"
  by (auto simp: electionCheck_def with_lock_eq_Inr Let_def bindE_eq_Inr split: if_split_asm)

text \<open>A candidate that wins has a majority, and a leader that wins again keeps its reason.\<close>

lemma won_majority:
  assumes pi: "peer_inv n s i" and b: "ballot_inv n s" and won: "electionCheck (nodes s i) = Inr (rf', ElectionWon)"
    and tp: "tp (nodes s i) \<in> {1, 2}"
  shows "(i, currentTerm (nodes s i)) \<in> raced s \<or> majority n {v. (v, currentTerm (nodes s i), i) \<in> ballots s}"
proof (cases "tp (nodes s i) = 1")
  case True
  let ?t = "currentTerm (nodes s i)"
  have "majority n {v. (v, ?t, i) \<in> ballots s}"
  proof (rule majority_mono)
    have "n div 2 < card (counted s i ?t)" using electionCheck_Won [OF won] pi True by (auto simp: peer_inv_def)
    then show "majority n (counted s i ?t)" using counted_bound [OF b] by (simp add: majority_def)
  qed (use b in \<open>auto simp: ballot_inv_def\<close>)
  then show ?thesis ..
qed (use tp pi in \<open>auto simp: peer_inv_def\<close>)

lemma cluster_inv_check:
  assumes inv: "cluster_inv n s" and l: "(i, t, AtLock) \<in> looping s" and st: "electionCheck (nodes s i) = Inr (rf', res)"
  shows "cluster_inv n ((set_node s i rf')\<lparr>
      looping := looping s - {(i, t, AtLock)} \<union> (if res = ElectionWaits then {(i, t, AtTerm)} else {}),
      raced := (if res = ElectionWon \<and> tp (nodes s i) \<notin> {1, 2}
                then insert (i, currentTerm (nodes s i)) (raced s) else raced s)\<rparr>)" (is "cluster_inv n ?s")
proof -
  have f: "flight_inv n s" and b: "ballot_inv n s" using inv by (auto simp: cluster_inv_def)
  have i: "i < n" using flight_invD(9) [OF f l] .
  have pi: "peer_inv n s i" using inv i by (simp add: cluster_inv_def)
  have ns: "node_step (nodes s i) NoVote rf'" using st by (rule node_step.election_check)
  have ni: "node_inv (nodes s i)" using pi by (simp add: peer_inv_def)
  note eff = node_step_effect [OF ns ni] node_step_id [OF ns]
  have "peer_inv n ?s i"
  proof (cases "res = ElectionWon")
    case True
    then have won: "electionCheck (nodes s i) = Inr (rf', ElectionWon)" using st by simp
    have "(i, currentTerm (nodes s i)) \<in> raced ?s \<or> majority n {v. (v, currentTerm (nodes s i), i) \<in> ballots s}"
      using won_majority [OF pi b won] True by auto
    then show ?thesis
      using pi eff electionCheck_Won [OF won] by (intro peer_invI) (auto simp: peer_inv_def)
  next
    case False
    show ?thesis
      by (rule peer_inv_step [OF pi])
        (use eff role_ok_small(2) [OF st False] False b in \<open>auto simp: ballot_inv_def\<close>)
  qed
  moreover have "peer_inv n ?s j" if "j < n" "j \<noteq> i" for j
    by (rule peer_inv_frame [of n s]) (use inv that b in \<open>auto simp: cluster_inv_def ballot_inv_def\<close>)
  moreover have "flight_inv n ?s"
    by (rule flight_invI) (use flight_invD [OF f] i in \<open>auto split: if_split_asm\<close>)
  moreover have "ballot_inv n ?s" using b by (simp add: ballot_inv_def)
  ultimately show ?thesis by (rule cluster_invI)
qed

lemma cluster_inv_read:
  assumes inv: "cluster_inv n s" and l: "(i, t, p) \<in> looping s"
  shows "cluster_inv n (s\<lparr>looping := insert (i, t, q) (looping s - {(i, t, p)})\<rparr>)" (is "cluster_inv n ?s")
proof -
  have f: "flight_inv n s" and b: "ballot_inv n s" using inv by (auto simp: cluster_inv_def)
  have "peer_inv n ?s j" if "j < n" for j
    by (rule peer_inv_frame [of n s]) (use inv that b in \<open>auto simp: cluster_inv_def ballot_inv_def\<close>)
  moreover have "flight_inv n ?s"
    by (rule flight_invI) (use flight_invD [OF f] flight_invD(9) [OF f l] in auto)
  moreover have "ballot_inv n ?s" using b by (simp add: ballot_inv_def)
  ultimately show ?thesis by (simp add: cluster_inv_def)
qed

lemma cluster_inv_step: "cluster_step n s s' \<Longrightarrow> cluster_inv n s \<Longrightarrow> cluster_inv n s'"
  by (induction rule: cluster_step.induct)
    (blast intro: cluster_inv_elect cluster_inv_send cluster_inv_vote cluster_inv_count cluster_inv_check
      cluster_inv_read
      cluster_inv_other)+

lemma cluster_inv_init: "cluster_init n s \<Longrightarrow> cluster_inv n s"
proof -
  assume init: "cluster_init n s"
  have "peer_inv n s i" if i: "i < n" for i
  proof -
    obtain r where "Make r n (int i) MakePersister = Inr (nodes s i)" using init i unfolding cluster_init_def by blast
    moreover obtain rf :: "'a Raft" where "Make r n (int i) MakePersister = Inr rf"
      "node_inv rf \<and> me rf = int i \<and> peers rf = n \<and> tp rf = 0"
      using i Make_fresh [of "int i" n r] by auto
    ultimately have "node_inv (nodes s i) \<and> me (nodes s i) = int i \<and> peers (nodes s i) = n \<and> tp (nodes s i) = 0"
      by simp
    with init show ?thesis by (auto simp: peer_inv_def cluster_init_def alive_def)
  qed
  with init show ?thesis
    by (auto simp: cluster_inv_def flight_inv_def ballot_inv_def cluster_init_def alive_def)
qed

lemma cluster_reach_inv: "cluster_reach n s \<Longrightarrow> cluster_inv n s"
  by (induction rule: cluster_reach.induct) (auto intro: cluster_inv_init cluster_inv_step)

lemma leaders_agree:
  assumes "cluster_inv n s" "i < n" "j < n" "tp (nodes s i) = 2" "tp (nodes s j) = 2"
    "currentTerm (nodes s i) = currentTerm (nodes s j)"
    "(i, currentTerm (nodes s i)) \<notin> raced s" "(j, currentTerm (nodes s j)) \<notin> raced s"
  shows "i = j"
proof (rule majorities.chosen_unique)
  let ?B = "\<lambda>v c. (v, currentTerm (nodes s i), c) \<in> ballots s"
  show "\<And>v c d. ?B v c \<Longrightarrow> ?B v d \<Longrightarrow> c = d" using assms(1) by (auto simp: cluster_inv_def ballot_inv_def)
  show "majority n {v. ?B v i}" "majority n {v. ?B v j}"
    using assms by (auto simp: cluster_inv_def peer_inv_def)
qed

end
