(* ===== verification/Raft_Properties.thy ===== *)
theory Raft_Properties
  imports Raft_Election
begin

section \<open>Raft: the properties\<close>

text \<open>
  The statements about \<^verbatim>\<open>src/raft/raft.go\<close> that the theories before this one were built for,
  each with a witness at concrete peers. Commands are numbers in the witnesses.
\<close>

subsection \<open>Concrete peers\<close>

text \<open>A cluster of three: peer \<open>i\<close> in term \<open>t\<close> with a log of entries above an empty snapshot.\<close>

definition exPeer :: "int \<Rightarrow> int \<Rightarrow> nat Log list \<Rightarrow> nat Raft" where
  "exPeer i t l =
     persist ((new_Raft 3 i MakePersister)\<lparr>currentTerm := t, votedFor := -1, log := dummy_entry # l,
       nextIndex := [1 + len l, 1 + len l, 1 + len l], matchIndex := [0, 0, 0], timeout := 600,
       apps := [0, 0, 0]\<rparr>)"

definition exEntry :: "nat \<Rightarrow> int \<Rightarrow> nat Log" where
  "exEntry c t = \<lparr>Command = OpCommand c, Term = t\<rparr>"

lemmas ex_defs = exPeer_def exEntry_def new_Raft_def dummy_entry_def

lemma exPeer_simps [simp]:
  "mu (exPeer i t l) = False" "peers (exPeer i t l) = 3" "me (exPeer i t l) = i"
  "dead (exPeer i t l) = 0" "tp (exPeer i t l) = 0" "currentTerm (exPeer i t l) = t"
  "votedFor (exPeer i t l) = -1" "log (exPeer i t l) = dummy_entry # l"
  "commitIndex (exPeer i t l) = 0" "snapshotIndex (exPeer i t l) = 0" "snapshotTerm (exPeer i t l) = 0"
  "applych (exPeer i t l) = []" "voteCount (exPeer i t l) = 0"
  "nextIndex (exPeer i t l) = [1 + len l, 1 + len l, 1 + len l]" "matchIndex (exPeer i t l) = [0, 0, 0]"
  "snapshot (persister (exPeer i t l)) = []"
  by (simp_all add: exPeer_def new_Raft_def persister_defs)

lemma exPeer_persisted [simp]: "persisted (exPeer i t l)"
  by (simp add: exPeer_def)

lemma exPeer_node_inv: "0 \<le> i \<Longrightarrow> i < 3 \<Longrightarrow> 0 \<le> t \<Longrightarrow> node_inv (exPeer i t l)"
  by (simp add: node_inv_def)

lemma exPeer_wf: "0 \<le> i \<Longrightarrow> i < 3 \<Longrightarrow> raft_wf (exPeer i t l)"
  by (simp add: raft_wf_def)

lemma exPeer_snapshot_saved [simp]: "snapshot_saved (exPeer i t l)"
  by (simp add: snapshot_saved_def zero_SnapShot_def)

lemma exEntry_simps [simp]: "Term (exEntry c t) = t" "Command (exEntry c t) = OpCommand c"
  by (simp_all add: exEntry_def)

lemma dummy_Term [simp]: "Term dummy_entry = 0"
  by (simp add: dummy_entry_def)

subsection \<open>Elections\<close>

text \<open>
  C1. Election safety: in every state a cluster can reach (messages delayed, reordered or
  lost, peers crashing and restarting at any time, and other goroutines running between the
  unlocked reads of an election loop and its critical section), two leaders of the same
  term are the same peer, unless one of them is in \<open>raced\<close>: it was a follower of that term
  when the critical section, which looks at \<^verbatim>\<open>voteCount\<close> only, made it leader. That this
  exception does occur is \<^verbatim>\<open>election_race\<close> below.
\<close>

theorem election_safety:
  assumes "cluster_reach n s" and "i < n" and "j < n"
    and "tp (nodes s i) = 2" and "tp (nodes s j) = 2"
    and "currentTerm (nodes s i) = currentTerm (nodes s j)"
    and "(i, currentTerm (nodes s i)) \<notin> raced s" and "(j, currentTerm (nodes s j)) \<notin> raced s"
  shows "i = j"
  using assms cluster_reach_inv leaders_agree by blast

text \<open>
  C2. A peer votes at most once in a term, across any sequence of operations, crashes and
  restarts from the persister.
\<close>

theorem one_vote_per_term:
  assumes "node_inv rf" and "node_run rf evs rf'"
  shows "card {c. Vote t c \<in> set evs} \<le> 1"
proof -
  have "c = d" if "Vote t c \<in> set evs" "Vote t d \<in> set evs" for c d
    using raft_voter.run_one_vote assms that by (simp add: node_run_iff)
  then have "\<exists>c. {c. Vote t c \<in> set evs} \<subseteq> {c}" by blast
  then show ?thesis by (metis card_mono card.empty card_insert_disjoint empty_iff finite.emptyI
        finite.insertI One_nat_def)
qed

text \<open>
  C8. Terms never go back, not even over a crash, and at every moment the persister holds the
  peer's term, vote and log.
\<close>

theorem term_monotone_and_saved:
  assumes "node_inv rf" and "node_run rf evs rf'"
  shows "currentTerm rf \<le> currentTerm rf' \<and>
    decode_state (ReadRaftState (persister rf')) = Some (currentTerm rf', votedFor rf', log rf')"
proof
  from assms have run: "raft_voter.run rf evs rf'" by (simp add: node_run_iff)
  show "currentTerm rf \<le> currentTerm rf'" using run assms(1) by (rule raft_voter.run_trm)
  have "node_inv rf'" using run assms(1) by (rule raft_voter.run_inv)
  then show "decode_state (ReadRaftState (persister rf')) = Some (currentTerm rf', votedFor rf', log rf')"
    by (simp add: node_inv_def persisted_def ReadRaftState_def)
qed

text \<open>
  C9. Crash recovery: \<^verbatim>\<open>Make\<close> on the persister of a peer succeeds and gives back its term, its
  vote, its log and the position of its snapshot, as a well-formed follower.
\<close>

theorem crash_recovery:
  assumes "node_inv rf" and "raft_wf rf" and "snapshot_saved rf"
  shows "\<exists>rf'. Make r (peers rf) (me rf) (persister rf) = Inr rf' \<and>
    currentTerm rf' = currentTerm rf \<and> votedFor rf' = votedFor rf \<and> log rf' = log rf \<and>
    snapshotIndex rf' = snapshotIndex rf \<and> snapshotTerm rf' = snapshotTerm rf \<and>
    tp rf' = 0 \<and> node_inv rf' \<and> raft_wf rf' \<and> snapshot_saved rf'"
proof -
  have saved: "raftstate (persister rf) = encode_state (currentTerm rf) (votedFor rf) (log rf)"
    using assms(1) by (simp add: node_inv_def persisted_def)
  obtain rf' where mk: "Make r (peers rf) (me rf) (persister rf) = Inr rf'"
    using Make_returns [OF saved, of "me rf" "peers rf" r] assms(1) by (auto simp: node_inv_def)
  with Make_effect [OF mk saved] assms show ?thesis
    by (auto simp: node_inv_def raft_wf_def snapshot_saved_def)
qed

subsection \<open>Witnesses\<close>

lemma exFresh: "0 \<le> i \<Longrightarrow> i < 3 \<Longrightarrow> Make 0 3 i MakePersister = Inr (exPeer i 0 [])"
  by (simp add: Make_def exPeer_def new_Raft_def readPersist_def Let_def set_index_def len_def
      readSnapRaft_def persist_def persister_defs resetTime_def zero_SnapShot_def numeral_eq_Suc
      list_update_code split: nat.split)

text \<open>Peer 0 becomes a candidate, gets the vote of peer 1, counts it and wins.\<close>

definition exCandidate :: "nat Raft" where
  "exCandidate = (persist ((exPeer 0 0 [])\<lparr>currentTerm := 1, votedFor := 0\<rparr>))\<lparr>tp := 1, voteCount := 1\<rparr>"

definition exVoter :: "nat Raft" where
  "exVoter = resetTime 0 (persist ((persist ((exPeer 1 0 [])\<lparr>currentTerm := 1, tp := 0, votedFor := -1\<rparr>))
     \<lparr>votedFor := 0\<rparr>))"

definition exLeader :: "nat Raft" where
  "exLeader = exCandidate\<lparr>voteCount := 2, tp := 2, nextIndex := [1, 1, 1], matchIndex := [0, 0, 0],
     commitCount := [0], startAppend := False\<rparr>"

lemma exElection:
  "startElection (exPeer 0 0 []) = Inr (exCandidate, 1)"
  "voteRequest exCandidate 1 =
     Inr \<lparr>va_Term = 1, va_CandidateId = 0, va_LastLogIndex = 0, va_LastLogTerm = 0\<rparr>"
  "RequestVote 0 (exPeer 1 0 [])
     \<lparr>va_Term = 1, va_CandidateId = 0, va_LastLogIndex = 0, va_LastLogTerm = 0\<rparr> =
     Inr (exVoter, \<lparr>vr_Term = 0, vr_VoteGranted = True\<rparr>)"
  "voteReply 0 exCandidate 1 True \<lparr>vr_Term = 0, vr_VoteGranted = True\<rparr> =
     Inr (exCandidate\<lparr>voteCount := 2\<rparr>)"
  "electionTerm (exCandidate\<lparr>voteCount := 2\<rparr>) 1" "electionRole (exCandidate\<lparr>voteCount := 2\<rparr>)"
  "electionCheck (exCandidate\<lparr>voteCount := 2\<rparr>) = Inr (exLeader, ElectionWon)"
  by (simp_all add: startElection_def voteRequest_def RequestVote_def voteReply_def electionTerm_def electionRole_def
      electionCheck_def with_lock_def killed_def lastLogTerm_def exCandidate_def exVoter_def exLeader_def
      for_peers_def Let_def)

text \<open>
  Peer \<open>i\<close> starts an election, peer \<open>j\<close> answers, the answer is counted, and the loop of the
  candidate passes its two reads.
\<close>

lemma cluster_election:
  assumes s: "cluster_reach n s" and ij: "i < n" "j < n" "i \<noteq> j"
    and e: "startElection (nodes s i) = Inr (c, t)" "voteRequest c t = Inr args"
      "RequestVote r (nodes s j) args = Inr (v, reply)" "voteReply r' c t True reply = Inr c'"
      "electionTerm c' t" "electionRole c'"
  shows "\<exists>s'. cluster_reach n s' \<and> nodes s' = (nodes s)(i := c', j := v) \<and> (i, t, AtLock) \<in> looping s' \<and>
    (\<forall>k u. k \<noteq> i \<and> (k, u, AtLock) \<in> looping s \<longrightarrow> (k, u, AtLock) \<in> looping s') \<and> raced s' = raced s"
proof -
  let ?k = "(i, t, j)"
  let ?keep = "\<lambda>s'. (\<forall>k u. k \<noteq> i \<and> (k, u, AtLock) \<in> looping s \<longrightarrow> (k, u, AtLock) \<in> looping s') \<and> raced s' = raced s"
  from cluster_reach.step [OF s cluster_step.elect [of i n s c t]]
  obtain s1 where 1: "cluster_reach n s1" "nodes s1 = (nodes s)(i := c)" "?k \<in> waiting s1"
    "(i, t, AtTerm) \<in> looping s1" "?keep s1"
    using e(1) ij by fastforce
  from cluster_reach.step [OF 1(1) cluster_step.send [OF 1(3), of args]]
  obtain s2 where 2: "cluster_reach n s2" "nodes s2 = nodes s1" "(?k, args) \<in> requests s2"
    "(i, t, AtTerm) \<in> looping s2" "?keep s2"
    using e(2) 1(2,4,5) by fastforce
  from cluster_reach.step [OF 2(1) cluster_step.vote [OF 2(3), of r v reply]]
  obtain s3 where 3: "cluster_reach n s3" "nodes s3 = (nodes s2)(j := v)" "(?k, reply) \<in> replies s3"
    "(i, t, AtTerm) \<in> looping s3" "?keep s3"
    using e(3) 1(2) 2(2,4,5) ij by fastforce
  from cluster_reach.step [OF 3(1) cluster_step.count [OF 3(3), of r' True c']]
  obtain s4 where 4: "cluster_reach n s4" "nodes s4 = (nodes s3)(i := c')" "(i, t, AtTerm) \<in> looping s4" "?keep s4"
    using e(4) 1(2) 2(2) 3(2,4,5) ij by fastforce
  from cluster_reach.step [OF 4(1) cluster_step.read_term [OF 4(3)]]
  obtain s5 where 5: "cluster_reach n s5" "nodes s5 = nodes s4" "(i, t, AtRole) \<in> looping s5" "?keep s5"
    using e(5) 4(2,4) by fastforce
  from cluster_reach.step [OF 5(1) cluster_step.read_role [OF 5(3)]]
  obtain s6 where 6: "cluster_reach n s6" "nodes s6 = nodes s5" "(i, t, AtLock) \<in> looping s6" "?keep s6"
    using e(6) 4(2) 5(2,4) by fastforce
  have "nodes s6 = (nodes s)(i := c', j := v)" using 1(2) 2(2) 3(2) 4(2) 5(2) 6(2) ij by auto
  with 6 show ?thesis by blast
qed

text \<open>The critical section that follows.\<close>

lemma cluster_won:
  assumes "cluster_reach n s" "(i, t, AtLock) \<in> looping s" "electionCheck (nodes s i) = Inr (rf', ElectionWon)"
  shows "\<exists>s'. cluster_reach n s' \<and> nodes s' = (nodes s)(i := rf') \<and>
    (\<forall>k u. k \<noteq> i \<and> (k, u, AtLock) \<in> looping s \<longrightarrow> (k, u, AtLock) \<in> looping s') \<and>
    raced s' = (if tp (nodes s i) \<notin> {1, 2} then insert (i, currentTerm (nodes s i)) (raced s) else raced s)"
  using cluster_reach.step [OF assms(1) cluster_step.check [OF assms(2,3)]] by fastforce

lemma exStart:
  "\<exists>s :: nat cluster. cluster_reach 3 s \<and> nodes s = (\<lambda>i. exPeer (int i) 0 []) \<and> raced s = {}"
  by (rule exI [of _ "\<lparr>nodes = (\<lambda>i. exPeer (int i) 0 []), ballots = {}, waiting = {}, requests = {},
    replies = {}, counted = (\<lambda>_ _. {}), looping = {}, raced = {}\<rparr>"])
    (auto simp: cluster_init_def intro!: cluster_reach.init exI [of _ 0] exFresh)

lemma exVotes:
  "\<exists>s :: nat cluster. cluster_reach 3 s \<and> nodes s 0 = exCandidate\<lparr>voteCount := 2\<rparr> \<and> nodes s 1 = exVoter \<and>
     nodes s 2 = exPeer 2 0 [] \<and> (0, 1, AtLock) \<in> looping s \<and> raced s = {}"
proof -
  obtain s :: "nat cluster" where s: "cluster_reach 3 s" "nodes s = (\<lambda>i. exPeer (int i) 0 [])" "raced s = {}"
    using exStart by blast
  have "startElection (nodes s 0) = Inr (exCandidate, 1)" "RequestVote 0 (nodes s 1)
     \<lparr>va_Term = 1, va_CandidateId = 0, va_LastLogIndex = 0, va_LastLogTerm = 0\<rparr> =
     Inr (exVoter, \<lparr>vr_Term = 0, vr_VoteGranted = True\<rparr>)" using exElection(1,3) s(2) by simp_all
  from cluster_election [OF s(1) _ _ _ this(1) exElection(2) this(2) exElection(4-6)]
  obtain s' where "cluster_reach 3 s'" "nodes s' = (nodes s)(0 := exCandidate\<lparr>voteCount := 2\<rparr>, 1 := exVoter)"
    "(0, 1, AtLock) \<in> looping s'" "raced s' = {}" using s(3) by auto
  then show ?thesis using s(2) by (intro exI [of _ s']) simp
qed

lemma exCluster:
  "\<exists>s :: nat cluster. cluster_reach 3 s \<and> nodes s 0 = exLeader \<and> nodes s 1 = exVoter \<and> nodes s 2 = exPeer 2 0 [] \<and>
     raced s = {}"
proof -
  obtain s :: "nat cluster" where s: "cluster_reach 3 s" "nodes s 0 = exCandidate\<lparr>voteCount := 2\<rparr>" "nodes s 1 = exVoter"
    "nodes s 2 = exPeer 2 0 []" "(0, 1, AtLock) \<in> looping s" "raced s = {}" using exVotes by blast
  have "tp (exCandidate\<lparr>voteCount := 2\<rparr>) = 1" by (simp add: exCandidate_def)
  then show ?thesis using cluster_won [OF s(1,5), of exLeader] exElection(7) s by fastforce
qed

theorem election_safety_witness:
  "\<exists>s :: nat cluster. cluster_reach 3 s \<and> {j. j < 3 \<and> tp (nodes s j) = 2 \<and> currentTerm (nodes s j) = 1} = {0}"
proof -
  obtain s :: "nat cluster" where s: "cluster_reach 3 s" "nodes s 0 = exLeader" "raced s = {}" using exCluster by blast
  then have 0: "tp (nodes s 0) = 2" "currentTerm (nodes s 0) = 1"
    by (simp_all add: exLeader_def exCandidate_def)
  have "j = 0" if "j < 3" "tp (nodes s j) = 2" "currentTerm (nodes s j) = 1" for j
    by (rule election_safety [OF s(1)]) (use that 0 s(3) in auto)
  with 0 s(1) show ?thesis by (intro exI [of _ s]) auto
qed

lemma exRun:
  "node_run (exPeer 1 0 []) [Vote 1 0, NoVote, Vote 1 0] (resetTime 0 (persist ((exPeer 1 1 [])\<lparr>votedFor := 0\<rparr>)))"
proof -
  let ?args = "\<lparr>va_Term = 1, va_CandidateId = 0, va_LastLogIndex = 0, va_LastLogTerm = 0\<rparr>"
  let ?r = "persist ((exPeer 1 1 [])\<lparr>votedFor := 0\<rparr>)"
  have 1: "node_step (exPeer 1 0 []) (Vote 1 0) exVoter"
    using node_step.request_vote [OF exElection(3)] by simp
  have "Make 0 (peers exVoter) (me exVoter) (persister exVoter) = Inr ?r"
    by (simp add: exVoter_def Make_def exPeer_def new_Raft_def readPersist_def Let_def set_index_def len_def
      readSnapRaft_def persist_def persister_defs resetTime_def zero_SnapShot_def numeral_eq_Suc)
  then have 2: "node_step exVoter NoVote ?r" by (rule node_step.restart)
  have "RequestVote 0 ?r ?args = Inr (resetTime 0 ?r, \<lparr>vr_Term = 1, vr_VoteGranted = True\<rparr>)"
    by (simp add: RequestVote_def with_lock_def lastLogTerm_def persist_def Let_def exPeer_def new_Raft_def
        SaveRaftState_def)
  from node_step.request_vote [OF this] have 3: "node_step ?r (Vote 1 0) (resetTime 0 ?r)" by simp
  from node_run.run_step [OF node_run.run_step [OF node_run.run_step [OF node_run.run_refl 1] 2] 3]
  show ?thesis by simp
qed

theorem one_vote_per_term_witness: "card {c. Vote 1 c \<in> set [Vote 1 0, NoVote, Vote 1 0]} \<le> 1"
  by (rule one_vote_per_term [OF _ exRun]) (simp add: exPeer_node_inv)

theorem term_monotone_and_saved_witness:
  "\<exists>rf' :: nat Raft. node_run (exPeer 1 0 []) [Vote 1 0, NoVote, Vote 1 0] rf' \<and> (0::int) \<le> currentTerm rf' \<and>
     decode_state (ReadRaftState (persister rf')) = Some (1, 0, [dummy_entry])"
proof -
  let ?r = "resetTime 0 (persist ((exPeer 1 1 [])\<lparr>votedFor := 0\<rparr>))"
  have inv: "node_inv (exPeer 1 0 [])" by (simp add: exPeer_node_inv)
  from term_monotone_and_saved [OF inv exRun] exRun show ?thesis by (intro exI [of _ ?r]) simp
qed

theorem crash_recovery_witness:
  "\<exists>rf'. Make 0 3 1 (persister (exPeer 1 4 [exEntry 7 2, exEntry 8 4])) = Inr rf' \<and> currentTerm rf' = 4 \<and>
     log rf' = [dummy_entry, exEntry 7 2, exEntry 8 4]"
  using crash_recovery [of "exPeer 1 4 [exEntry 7 2, exEntry 8 4]" 0]
  by (auto simp: exPeer_node_inv exPeer_wf)

text \<open>
  C25. \<^verbatim>\<open>RequestVote\<close> on a well-formed peer never fails, leaves the log alone, and grants the
  vote exactly when the request is not from an older term, the candidate's log is at least
  as up to date as the voter's, and the voter has not voted for another candidate in that
  term.
\<close>

theorem RequestVote_decides:
  assumes "raft_wf rf" and "lastLogTerm rf = Inr t"
  shows "\<exists>rf' reply. RequestVote r rf args = Inr (rf', reply) \<and> raft_wf rf' \<and> log rf' = log rf \<and>
    (vr_VoteGranted reply \<longleftrightarrow>
       currentTerm rf \<le> va_Term args \<and> upToDate args t (lastIndex rf) \<and>
       (currentTerm rf < va_Term args \<or> votedFor rf = -1 \<or> votedFor rf = va_CandidateId args))"
  using RequestVote_granted_iff [OF assms, of r args] by blast

theorem RequestVote_decides_witness:
  "\<exists>rf' reply. RequestVote 0 (exPeer 1 2 [exEntry 7 2])
     \<lparr>va_Term = 3, va_CandidateId = 0, va_LastLogIndex = 5, va_LastLogTerm = 1\<rparr> = Inr (rf', reply) \<and>
     \<not> vr_VoteGranted reply \<and> log rf' = [dummy_entry, exEntry 7 2]"
proof -
  have "lastLogTerm (exPeer 1 2 [exEntry 7 2]) = Inr 2" by (simp add: lastLogTerm_def index_def)
  from RequestVote_decides [OF exPeer_wf this, of 0
      "\<lparr>va_Term = 3, va_CandidateId = 0, va_LastLogIndex = 5, va_LastLogTerm = 1\<rparr>"]
  show ?thesis by (auto simp: upToDate_def)
qed

subsection \<open>Replication\<close>

text \<open>
  C12. \<^verbatim>\<open>AppendEntries\<close> never panics on a well-formed peer, whatever the request says, as long
  as the two numbers it computes from \<^verbatim>\<open>PrevLogIndex\<close>, the distance to the snapshot and the index
  of the last new entry, fit into 64 bits; and the peer stays well-formed. What happens when
  the distance does not fit is \<^verbatim>\<open>AppendEntries_wraps\<close> below.
\<close>

theorem AppendEntries_safe:
  assumes "raft_wf rf" and "snapshotIndex rf - aa_PrevLogIndex args < 2 ^ 63"
    and "len (aa_Entries args) + aa_PrevLogIndex args < 2 ^ 63"
  shows "returns (AppendEntries r rf args) (\<lambda>(rf', reply). raft_wf rf')"
  using AppendEntries_returns [OF assms(1), of args r] assms(2,3) by (auto simp: returns_iff indices_fit_def)

text \<open>
  A request with a \<^verbatim>\<open>PrevLogIndex\<close> so far below zero that the distance to the snapshot wraps
  around passes the test for entries the snapshot already covers, and the index expression
  that follows panics.
\<close>

lemma AppendEntries_wraps:
  assumes wf: "raft_wf rf" and "currentTerm rf \<le> aa_Term args"
    and p: "- (2 ^ 63) \<le> aa_PrevLogIndex args" "2 ^ 63 \<le> snapshotIndex rf - aa_PrevLogIndex args"
    and l: "len (log rf) + snapshotIndex rf < 2 ^ 63" "len (aa_Entries args) < 2 ^ 63"
  shows "AppendEntries r rf args = Inl IndexOutOfRange"
proof -
  let ?a = "adoptTerm rf (aa_Term args)"
  let ?e = "len (aa_Entries args)"
  have n: "0 \<le> snapshotIndex rf" "1 \<le> len (log rf)" "0 \<le> ?e" "\<not> mu rf"
    using wf len_pos_wf [OF wf] by (simp_all add: raft_wf_def)
  have ahead: "goint (snapshotIndex rf - aa_PrevLogIndex args) < 0"
    using goint_up [of "snapshotIndex rf - aa_PrevLogIndex args"] p n l by simp
  have last: "goint (?e + aa_PrevLogIndex args) = ?e + aa_PrevLogIndex args"
    by (rule goint_id; use p n l in linarith)
  let ?d = "?e + aa_PrevLogIndex args - snapshotIndex rf"
  have "goint ?d < 0 \<or> len (log rf) \<le> goint ?d"
  proof (cases "- (2 ^ 63) \<le> ?d")
    case True
    then show ?thesis using goint_id [of ?d] p n l by simp
  next
    case False
    have w: "(2::int) ^ 64 = 2 * 2 ^ 63" by simp
    have "goint ?d = ?d + 2 ^ 64" by (rule goint_down; use False p n l w in linarith)
    then show ?thesis using w p n l by linarith
  qed
  then have "index (log rf) (goint ?d) = Inl IndexOutOfRange" by (auto simp: index_def)
  moreover have "\<not> ?e - 1 < goint (snapshotIndex rf - aa_PrevLogIndex args)"
    "\<not> len (log rf) - 1 + snapshotIndex rf \<le> ?e + aa_PrevLogIndex args" using ahead p n l by linarith+
  ultimately have "appendAfterSnapshot ?a args = Inl IndexOutOfRange"
    using last by (simp add: appendAfterSnapshot_def Let_def)
  moreover have "\<not> prevMatches ?a args" "aa_PrevLogIndex args \<le> snapshotIndex ?a"
    using p n by (simp_all add: prevMatches_def)
  ultimately show ?thesis using assms(2) n(4) by (simp add: AppendEntries_def with_lock_def Let_def)
qed

definition exArgs :: "nat RequestAppendArgs" where
  "exArgs = \<lparr>aa_Term = 3, aa_LeaderId = 0, aa_PrevLogIndex = 1, aa_PrevLogTerm = 1,
     aa_Entries = [exEntry 8 3, exEntry 9 3], aa_LeaderCommit = 2\<rparr>"

theorem AppendEntries_safe_witness:
  "raft_wf (exPeer 1 2 [exEntry 7 1]) \<and>
   returns (AppendEntries 0 (exPeer 1 2 [exEntry 7 1]) exArgs) (\<lambda>(rf', reply). raft_wf rf')"
  using AppendEntries_safe [of "exPeer 1 2 [exEntry 7 1]" exArgs 0] by (simp add: exPeer_wf exArgs_def)

text \<open>
  C13. An accepted \<^verbatim>\<open>AppendEntries\<close>: the log is cut after the previous entry and extended with
  the leader's entries, unless the peer already has them; the commit index follows the
  leader's as far as the log reaches; and the service gets every newly committed entry, in
  the order of the log, each one twice in a row. The numbers computed from \<^verbatim>\<open>PrevLogIndex\<close> have
  to fit into 64 bits (\<open>indices_fit\<close>).
\<close>

theorem AppendEntries_effect:
  assumes "raft_wf rf" and "accepts rf args" and "indices_fit rf args"
  shows "\<exists>rf' reply. AppendEntries r rf args = Inr (rf', reply) \<and> ar_Success reply \<and>
    currentTerm rf' = aa_Term args \<and> log rf' = logAfter rf args \<and> commitIndex rf' = commitAfter rf args \<and>
    applych rf' = applych rf @ concat (map (\<lambda>j. replicate 2 (apply_msg (log rf') (snapshotIndex rf) j))
      [commitIndex rf + 1 - snapshotIndex rf .. commitAfter rf args - snapshotIndex rf])"
  using AppendEntries_accepts [OF assms, of r] by (auto simp: apply_msgs_def)

theorem AppendEntries_effect_witness:
  "\<exists>rf' reply. AppendEntries 0 (exPeer 1 2 [exEntry 7 1, exEntry 6 2]) exArgs = Inr (rf', reply) \<and>
     log rf' = [dummy_entry, exEntry 7 1, exEntry 8 3, exEntry 9 3] \<and> commitIndex rf' = 2 \<and>
     map MsgCommand (applych rf') = map (CommandPayload \<circ> OpCommand) [7, 7, 8, 8]"
proof -
  let ?F = "exPeer 1 2 [exEntry 7 1, exEntry 6 2]"
  have "accepts ?F exArgs" "indices_fit ?F exArgs"
    by (simp_all add: accepts_def prevMatches_def exArgs_def indices_fit_def)
  moreover have "logAfter ?F exArgs = [dummy_entry, exEntry 7 1, exEntry 8 3, exEntry 9 3]"
    by (simp add: logAfter_def alreadyHas_def spliced_def lastIndex_def exArgs_def numeral_eq_Suc)
  moreover from this have "commitAfter ?F exArgs = 2" by (simp add: commitAfter_def exArgs_def)
  ultimately show ?thesis
    using AppendEntries_effect [of ?F exArgs 0] exPeer_wf [of 1]
    by (auto simp: apply_msg_def upto.simps numeral_eq_Suc)
qed

subsection \<open>The leader and its followers\<close>

text \<open>
  C14. Log matching: when a follower answers a leader's request with success and took the
  entries, its log ends where the leader's ended, and from the entry after \<^verbatim>\<open>PrevLogIndex\<close> on
  (or after its own snapshot, when that reaches further) the two logs hold the same entries;
  before that the follower's log is what it was. The indices of the leader's last entry and
  of the follower's snapshot have to fit into 64 bits.
\<close>

theorem logs_match_after_success:
  assumes "raft_wf L" and "raft_wf F" and "appendRequest L a2 s = Inr (a2', Some args)"
    and "AppendEntries r F args = Inr (F', reply)" and "ar_Success reply" and "\<not> alreadyHas F args"
    and "lastIndex L < 2 ^ 63" and "snapshotIndex F < 2 ^ 63"
  shows "lastIndex F' = lastIndex L \<and>
    (\<forall>i. snapshotIndex F < i \<and> aa_PrevLogIndex args < i \<longrightarrow> entry_at F' i = entry_at L i) \<and>
    (\<forall>i. snapshotIndex F < i \<and> i \<le> aa_PrevLogIndex args \<longrightarrow> entry_at F' i = entry_at F i)"
  using replicated [OF assms(1-6)] request_fits [OF assms(1,3,7,8)] by blast

text \<open>A leader of term 3 with three entries, the second unknown to a follower with a conflicting one.\<close>

definition exLead :: "nat Raft" where
  "exLead = (exPeer 0 3 [exEntry 7 1, exEntry 8 3, exEntry 9 3])\<lparr>tp := 2, nextIndex := [4, 2, 4],
     matchIndex := [3, 0, 0], commitIndex := 1, startAppend := True\<rparr>"

definition exFollower :: "nat Raft" where
  "exFollower = exPeer 1 2 [exEntry 7 1, exEntry 6 2]"

definition exRequest :: "nat RequestAppendArgs" where
  "exRequest = \<lparr>aa_Term = 3, aa_LeaderId = 0, aa_PrevLogIndex = 1, aa_PrevLogTerm = 1,
     aa_Entries = [exEntry 8 3, exEntry 9 3], aa_LeaderCommit = 1\<rparr>"

lemma exLead_wf: "raft_wf exLead" "raft_wf exFollower"
  using exPeer_wf [of 0 3 "[exEntry 7 1, exEntry 8 3, exEntry 9 3]"] exPeer_wf [of 1]
  by (simp_all add: exLead_def exFollower_def raft_wf_def)

lemma exLead_request:
  "appendRequest exLead \<lparr>termTemp = 3, count = 0\<rparr> 1 = Inr (\<lparr>termTemp = 3, count = 1\<rparr>, Some exRequest)"
  by (simp add: appendRequest_def with_lock_def exLead_def exRequest_def index_def slice_from_def Let_def
      numeral_eq_Suc)

theorem logs_match_after_success_witness:
  "\<exists>F' reply. AppendEntries 0 exFollower exRequest = Inr (F', reply) \<and> lastIndex F' = 3 \<and>
     entry_at F' 2 = Some (exEntry 8 3) \<and> entry_at F' 3 = Some (exEntry 9 3) \<and>
     entry_at F' 1 = Some (exEntry 7 1)"
proof -
  have acc: "accepts exFollower exRequest"
    by (simp add: accepts_def prevMatches_def exFollower_def exRequest_def)
  have fit: "indices_fit exFollower exRequest" "lastIndex exLead < 2 ^ 63" "snapshotIndex exFollower < 2 ^ 63"
    by (simp_all add: indices_fit_def exFollower_def exRequest_def exLead_def lastIndex_def)
  have "\<not> alreadyHas exFollower exRequest"
    by (simp add: alreadyHas_def exFollower_def exRequest_def lastIndex_def)
  moreover obtain F' reply where r: "AppendEntries 0 exFollower exRequest = Inr (F', reply)" "ar_Success reply"
    using AppendEntries_accepts [OF exLead_wf(2) acc, of 0] fit by blast
  ultimately have *: "lastIndex F' = lastIndex exLead \<and>
    (\<forall>i. snapshotIndex exFollower < i \<and> aa_PrevLogIndex exRequest < i \<longrightarrow> entry_at F' i = entry_at exLead i) \<and>
    (\<forall>i. snapshotIndex exFollower < i \<and> i \<le> aa_PrevLogIndex exRequest \<longrightarrow> entry_at F' i = entry_at exFollower i)"
    using logs_match_after_success [OF exLead_wf exLead_request] fit(2,3) by blast
  have "entry_at exLead 2 = Some (exEntry 8 3)" "entry_at exLead 3 = Some (exEntry 9 3)"
    "entry_at exFollower 1 = Some (exEntry 7 1)" "lastIndex exLead = 3"
    by (simp_all add: entry_at_def lastIndex_def exLead_def exFollower_def numeral_eq_Suc)
  with * r show ?thesis by (simp add: exFollower_def exRequest_def)
qed

text \<open>
  C16. The search for the common prefix makes progress. When the answer of a follower that
  rejected a request reaches the goroutine that sent it, and the leader is alive, is still in
  the term of the goroutine, has \<^verbatim>\<open>startAppend\<close> set, has sent no later request from this \<^verbatim>\<open>Append2\<close>
  and has the same \<^verbatim>\<open>nextIndex\<close> as when it sent the request, and the follower's term is not newer
  (\<open>takes_rejection\<close>), then \<^verbatim>\<open>nextIndex\<close> of that follower becomes strictly smaller, or it was and
  stays at most 0, where \<^verbatim>\<open>Append2\<close> sends the snapshot; the other followers' is kept. In every
  other case the answer changes no \<^verbatim>\<open>nextIndex\<close>. Either way the handler of the answer returns.
\<close>

theorem rejection_moves_back:
  assumes "raft_wf F" and "AppendEntries r F args = Inr (F', reply)" and "\<not> ar_Success reply"
    and "raft_wf L" and "\<forall>m \<in> set (matchIndex L). m \<le> lastIndex L" and "commitIndex L \<le> lastIndex L"
    and "0 \<le> s" and "s < int (peers L)" and "nextIndex L ! nat s \<le> len (log L)" and "termTemp a2 \<le> aa_Term args"
  shows "\<exists>L'. appendReply r' L a2 s countTemp args True reply = Inr L' \<and>
    (if takes_rejection L a2 s countTemp args reply
     then \<exists>n. nextIndex L' = (nextIndex L)[nat s := n] \<and>
       (n < nextIndex L ! nat s \<or> n \<le> 0 \<and> nextIndex L ! nat s \<le> 0)
     else nextIndex L' = nextIndex L)"
  using appendReply_rejected [OF assms] .

theorem rejection_moves_back_witness:
  "\<exists>F' reply L' n. AppendEntries 0 (exPeer 1 2 [exEntry 5 2]) exRequest = Inr (F', reply) \<and>
     appendReply 0 exLead \<lparr>termTemp = 3, count = 1\<rparr> 1 1 exRequest True reply = Inr L' \<and>
     nextIndex L' = [4, n, 4] \<and> n < 2"
proof -
  let ?F = "exPeer 1 2 [exEntry 5 2]" and ?a2 = "\<lparr>termTemp = 3, count = 1\<rparr>"
  have F: "raft_wf ?F" by (simp add: exPeer_wf)
  have "\<not> accepts ?F exRequest" "currentTerm ?F \<le> aa_Term exRequest"
    by (simp_all add: accepts_def prevMatches_def exRequest_def)
  with AppendEntries_rejects [OF F, of exRequest 0] obtain F' reply where
    r: "AppendEntries 0 ?F exRequest = Inr (F', reply)" "\<not> ar_Success reply" "ar_Term reply = 2"
    by auto
  have "takes_rejection exLead ?a2 1 1 exRequest reply"
    using r(3) by (simp add: takes_rejection_def exLead_def exRequest_def killed_def)
  moreover have "\<forall>m \<in> set (matchIndex exLead). m \<le> lastIndex exLead" "commitIndex exLead \<le> lastIndex exLead"
    "nextIndex exLead ! nat 1 \<le> len (log exLead)" "termTemp ?a2 \<le> aa_Term exRequest" "1 < int (peers exLead)"
    by (simp_all add: exLead_def lastIndex_def exRequest_def)
  ultimately show ?thesis
    using rejection_moves_back [OF F r(1,2) exLead_wf(1), of 1 ?a2 0 1] r(1) by (auto simp: exLead_def numeral_eq_Suc)
qed


subsection \<open>The searches through the log\<close>

text \<open>
  \<^verbatim>\<open>findEntry\<close> returns the first index of the run of entries with the term of entry \<open>p\<close>.
\<close>

theorem findEntry_first_of_run:
  assumes "0 \<le> p" and "p < len (log rf)"
  shows "\<exists>f. findEntry rf p = Inr f \<and> 0 \<le> f \<and> f \<le> p \<and>
    (\<forall>j. f \<le> j \<and> j \<le> p \<longrightarrow> Term (log rf ! nat j) = Term (log rf ! nat p)) \<and>
    (f = 0 \<or> Term (log rf ! nat (f - 1)) \<noteq> Term (log rf ! nat p))"
  using findEntry_spec [OF assms] by blast

theorem findEntry_first_of_run_witness:
  "\<exists>f. findEntry exLead 3 = Inr f \<and> f \<le> 3 \<and> (f = 0 \<or> Term (log exLead ! nat (f - 1)) \<noteq> 3)"
proof -
  have t: "Term (log exLead ! nat 3) = 3" by (simp add: exLead_def)
  have "\<exists>f. findEntry exLead 3 = Inr f \<and> 0 \<le> f \<and> f \<le> 3 \<and>
    (\<forall>j. f \<le> j \<and> j \<le> 3 \<longrightarrow> Term (log exLead ! nat j) = Term (log exLead ! nat 3)) \<and>
    (f = 0 \<or> Term (log exLead ! nat (f - 1)) \<noteq> Term (log exLead ! nat 3))"
    by (rule findEntry_first_of_run) (simp_all add: exLead_def)
  then show ?thesis unfolding t by blast
qed

text \<open>
  \<^verbatim>\<open>findLast\<close> on a log with increasing terms returns the last index up to \<open>start\<close> that holds
  the term, when there is one, and otherwise -1 for every term above that of entry 0.
\<close>

theorem findLast_last_of_term:
  assumes "0 \<le> start" and "start < len (log rf)" and "sorted (map Term (log rf))" and "Term (log rf ! 0) < t"
  shows "\<exists>f. findLast rf t start = Inr f \<and>
    (if \<exists>j. 0 \<le> j \<and> j \<le> start \<and> Term (log rf ! nat j) = t
     then 0 \<le> f \<and> f \<le> start \<and> Term (log rf ! nat f) = t \<and>
       (\<forall>k. f < k \<and> k \<le> start \<longrightarrow> Term (log rf ! nat k) \<noteq> t)
     else f = -1)"
proof (cases "\<exists>j. 0 \<le> j \<and> j \<le> start \<and> Term (log rf ! nat j) = t")
  case True
  then obtain j where j: "0 \<le> j" "j \<le> start" "Term (log rf ! nat j) = t" by blast
  from findLast_loop_found [OF assms(2,3) j] True j(1) show ?thesis
    unfolding findLast_def by (fastforce intro: order_trans)
next
  case False
  then have "\<forall>j. 0 \<le> j \<and> j \<le> start \<longrightarrow> Term (log rf ! nat j) \<noteq> t" by blast
  from findLast_loop_missing [OF assms(1,2,4) this] False show ?thesis
    unfolding findLast_def by simp
qed

theorem findLast_last_of_term_witness:
  "findLast exLead 2 3 = Inr (-1) \<and> (\<exists>f. findLast exLead 3 3 = Inr f \<and> Term (log exLead ! nat f) = 3)"
proof -
  have h: "(0::int) \<le> 3" "3 < len (log exLead)" "sorted (map Term (log exLead))"
    by (simp_all add: exLead_def)
  have t: "Term (log exLead ! 0) < 2" "Term (log exLead ! 0) < 3" by (simp_all add: exLead_def)
  have no: "\<not> (\<exists>j. 0 \<le> j \<and> j \<le> 3 \<and> Term (log exLead ! nat j) = 2)"
  proof
    assume "\<exists>j. 0 \<le> j \<and> j \<le> 3 \<and> Term (log exLead ! nat j) = 2"
    then obtain j where j: "0 \<le> j" "j \<le> 3" "Term (log exLead ! nat j) = 2" by blast
    then consider "j = 0" | "j = 1" | "j = 2" | "j = 3" by linarith
    then show False using j(3) by cases (simp_all add: exLead_def)
  qed
  have yes: "\<exists>j. 0 \<le> j \<and> j \<le> 3 \<and> Term (log exLead ! nat j) = 3"
    by (rule exI [of _ 3]) (simp add: exLead_def)
  have "findLast exLead 2 3 = Inr (-1)"
    using findLast_last_of_term [OF h t(1)] no by simp
  moreover have "\<exists>f. findLast exLead 3 3 = Inr f \<and> Term (log exLead ! nat f) = 3"
    using findLast_last_of_term [OF h t(2)] yes by auto
  ultimately show ?thesis ..
qed

subsection \<open>Commitment and the service's side\<close>

text \<open>
  C15. \<^verbatim>\<open>updateCommit\<close> moves the commit index only forward, and only to an index that at least
  \<open>n - n div 2\<close> of the \<open>n\<close> peers are known to have (a majority when \<open>n\<close> is odd); the service
  gets every newly committed entry once, in the order of the log.
\<close>

theorem commit_needs_quorum:
  assumes "raft_wf rf" and "\<forall>m \<in> set (matchIndex rf). m \<le> lastIndex rf" and "commitIndex rf \<le> lastIndex rf"
  shows "\<exists>rf'. updateCommit rf = Inr rf' \<and> commitIndex rf \<le> commitIndex rf' \<and>
    (commitIndex rf < commitIndex rf' \<longrightarrow>
       peers rf - peers rf div 2 \<le> card {p. p < peers rf \<and> commitIndex rf' \<le> matchIndex rf ! p}) \<and>
    applych rf' = applych rf @ map (apply_msg (log rf) (snapshotIndex rf))
      [commitIndex rf + 1 - snapshotIndex rf .. commitIndex rf' - snapshotIndex rf]"
proof -
  have "0 < peers rf" using assms(1) by (auto simp: raft_wf_def)
  from commitRank_quorum [OF this] updateCommit_returns [OF assms] show ?thesis
    by (auto simp: apply_msgs_def max_def)
qed

theorem commit_needs_quorum_witness:
  "\<exists>rf'. updateCommit (exLead\<lparr>matchIndex := [3, 2, 0]\<rparr>) = Inr rf' \<and> 1 \<le> commitIndex rf' \<and>
     (commitIndex rf' = 1 \<or> 2 \<le> card {p. p < 3 \<and> commitIndex rf' \<le> [3, 2, 0::int] ! p})"
proof -
  let ?r = "exLead\<lparr>matchIndex := [3, 2, 0]\<rparr>"
  have "raft_wf ?r" using exLead_wf(1) by (simp add: raft_wf_def exLead_def)
  from commit_needs_quorum [OF this] show ?thesis by (auto simp: exLead_def lastIndex_def)
qed

text \<open>
  \<^verbatim>\<open>Start\<close> on a live leader returns the index after its last entry and its term; the command
  is at that index, saved, nothing else in the log has changed, and the leader counts itself
  as holding it.
\<close>

theorem Start_appends:
  assumes "raft_wf rf" and "tp rf = 2" and "\<not> killed rf"
  shows "\<exists>rf'. Start rf c = Inr (rf', lastIndex rf + 1, currentTerm rf, True) \<and> raft_wf rf' \<and>
    decode_state (ReadRaftState (persister rf')) = Some (currentTerm rf', votedFor rf', log rf') \<and>
    lastIndex rf' = lastIndex rf + 1 \<and>
    entry_at rf' (lastIndex rf + 1) = Some \<lparr>Command = c, Term = currentTerm rf\<rparr> \<and>
    (\<forall>i. i \<noteq> lastIndex rf + 1 \<longrightarrow> entry_at rf' i = entry_at rf i) \<and>
    matchIndex rf' ! nat (me rf) = lastIndex rf'"
  using Start_leader [OF assms, of c] by (auto simp: persisted_def ReadRaftState_def)

theorem Start_appends_witness:
  "\<exists>rf'. Start exLead (OpCommand 4) = Inr (rf', 4, 3, True) \<and>
     entry_at rf' 4 = Some \<lparr>Command = OpCommand 4, Term = 3\<rparr> \<and> entry_at rf' 3 = Some (exEntry 9 3)"
proof -
  have "lastIndex exLead = 3" "entry_at exLead 3 = Some (exEntry 9 3)" "currentTerm exLead = 3"
    by (simp_all add: exLead_def lastIndex_def entry_at_def numeral_eq_Suc)
  with Start_appends [OF exLead_wf(1), of "OpCommand 4"] show ?thesis
    by (auto simp: exLead_def killed_def)
qed

text \<open>
  C17. Compaction: when the service hands in a snapshot that ends inside the log, \<^verbatim>\<open>persistV2\<close>
  drops exactly the entries it covers. Seen by absolute index nothing changes: the last
  index, every entry after the snapshot and every peer's \<^verbatim>\<open>nextIndex\<close> are the same, and the
  persister holds the shortened state and the snapshot with the term of its last entry.
\<close>

theorem persistV2_compacts:
  assumes "raft_wf rf" and "snapshotIndex rf < LastIndex ss" and "LastIndex ss \<le> lastIndex rf"
  shows "\<exists>rf' e. persistV2 rf ss = Inr rf' \<and> entry_at rf (LastIndex ss) = Some e \<and>
    persisted rf' \<and> read_snapshot (ReadSnapshot (persister rf')) = ss\<lparr>LastTerm := Term e\<rparr> \<and>
    snapshotIndex rf' = LastIndex ss \<and> snapshotTerm rf' = Term e \<and> lastIndex rf' = lastIndex rf \<and>
    (\<forall>i. LastIndex ss < i \<longrightarrow> entry_at rf' i = entry_at rf i) \<and>
    (\<forall>p < peers rf. nextIndex rf' ! p + snapshotIndex rf' = nextIndex rf ! p + snapshotIndex rf)"
  using persistV2_effect [OF assms] by (auto simp: ReadSnapshot_def)

theorem persistV2_compacts_witness:
  "\<exists>rf' e. persistV2 exLead \<lparr>Mp = Some Map.empty, LastIndex = 2, LastTerm = 0, CliMap = Some Map.empty\<rparr> = Inr rf' \<and>
     snapshotIndex rf' = 2 \<and> snapshotTerm rf' = 3 \<and> lastIndex rf' = 3 \<and> entry_at rf' 3 = Some (exEntry 9 3)"
proof -
  let ?ss = "\<lparr>Mp = Some Map.empty, LastIndex = 2, LastTerm = 0, CliMap = Some Map.empty\<rparr>"
  have "lastIndex exLead = 3" "entry_at exLead 3 = Some (exEntry 9 3)" "entry_at exLead 2 = Some (exEntry 8 3)"
    "snapshotIndex exLead = 0"
    by (simp_all add: exLead_def lastIndex_def entry_at_def numeral_eq_Suc)
  with persistV2_compacts [OF exLead_wf(1), of ?ss] show ?thesis by auto
qed


subsection \<open>Snapshots between peers\<close>

text \<open>
  C18. A follower that is behind the leader's snapshot and installs it ends with the leader's
  snapshot in its persister, at the leader's snapshot position, hands it to the service, and
  keeps the rest of its log exactly when its own entry at that position has the leader's
  term; a restart finds the new position.
\<close>

theorem snapshot_transfer:
  assumes "raft_wf F" and "snapshot_saved L" and "snapshotRequest L a2 = Inr (a2', args)"
    and "currentTerm F \<le> currentTerm L" and "snapshotIndex F < snapshotIndex L"
  shows "\<exists>F' reply. InstallSnapshot r F args = Inr (F', reply) \<and> raft_wf F' \<and> persisted F' \<and>
    snapshot_saved F' \<and> ReadSnapshot (persister F') = ReadSnapshot (persister L) \<and>
    snapshotIndex F' = snapshotIndex L \<and> snapshotTerm F' = snapshotTerm L \<and>
    commitIndex F' = max (commitIndex F) (snapshotIndex L) \<and>
    applych F' = applych F @ [\<lparr>CommandValid = False,
      MsgCommand = DataPayload (ReadSnapshot (persister L)), CommandIndex = 0\<rparr>] \<and>
    (\<forall>i. snapshotIndex L < i \<longrightarrow> entry_at F' i = (if retains F args then entry_at F i else None))"
proof -
  have a: "sa_Term args = currentTerm L" "sa_LastIncludedIndex args = snapshotIndex L"
    "sa_LastIncludedTerm args = snapshotTerm L" "sa_Data args = snapshot (persister L)"
    using assms(3) by (auto simp: snapshotRequest_def with_lock_eq_Inr)
  from snapshotRequest_coherent [OF assms(2,3)] InstallSnapshot_effect [OF assms(1), of args r] assms(4,5)
  show ?thesis unfolding a by (auto simp: ReadSnapshot_def)
qed

text \<open>The leader after it compacted its log up to index 2.\<close>

definition exCompact :: "nat Raft" where
  "exCompact = exLead\<lparr>log := [dummy_entry, exEntry 9 3], snapshotIndex := 2, snapshotTerm := 3, commitIndex := 2,
     persister := \<lparr>raftstate = encode_state 3 (-1) [dummy_entry, exEntry 9 3],
       snapshot = encode_snapshot \<lparr>Mp = Some [''k'' \<mapsto> ''v''], LastIndex = 2, LastTerm = 3, CliMap = Some [5 \<mapsto> 1]\<rparr>\<rparr>\<rparr>"

theorem snapshot_transfer_witness:
  "\<exists>a2' args F' reply. snapshotRequest exCompact \<lparr>termTemp = 3, count = 0\<rparr> = Inr (a2', args) \<and>
     InstallSnapshot 0 exFollower args = Inr (F', reply) \<and> snapshotIndex F' = 2 \<and>
     Mp (read_snapshot (ReadSnapshot (persister F'))) = Some [''k'' \<mapsto> ''v'']"
proof -
  have s: "snapshot_saved exCompact" by (simp add: snapshot_saved_def exCompact_def)
  have c: "currentTerm exFollower \<le> currentTerm exCompact" "snapshotIndex exFollower < snapshotIndex exCompact"
    by (simp_all add: exFollower_def exCompact_def exLead_def)
  obtain a2' args where "snapshotRequest exCompact \<lparr>termTemp = 3, count = 0\<rparr> = Inr (a2', args)"
    by (simp add: snapshotRequest_def with_lock_def exCompact_def exLead_def)
  with snapshot_transfer [OF exLead_wf(2) s this c, of 0] show ?thesis
    by (auto simp: exCompact_def ReadSnapshot_def)
qed

subsection \<open>Where the code departs from its specification\<close>

text \<open>
  \<^verbatim>\<open>Start\<close> on a killed peer returns with \<^verbatim>\<open>rf.mu\<close> held, so the next call of any operation that
  locks it, here a second \<^verbatim>\<open>Start\<close>, \<^verbatim>\<open>GetState\<close> and every RPC handler, waits for ever.
\<close>

theorem Start_killed_keeps_lock:
  assumes "\<not> mu rf" and "killed rf"
  shows "\<exists>rf'. Start rf c = Inr (rf', 0, 0, False) \<and> Start rf' d = Inl Blocked \<and>
    GetState rf' = Inl Blocked \<and> RequestVote r rf' va = Inl Blocked \<and>
    AppendEntries r rf' aa = Inl Blocked \<and> InstallSnapshot r rf' sa = Inl Blocked"
  using Start_killed [OF assms, of c d]
  by (auto simp: GetState_def RequestVote_def AppendEntries_def InstallSnapshot_def with_lock_def)

theorem Start_killed_keeps_lock_witness:
  "\<exists>rf'. Start (Kill exLead) (OpCommand 1) = Inr (rf', 0, 0, False) \<and> Start rf' (OpCommand 2) = Inl Blocked"
proof -
  have "\<not> mu (Kill exLead)" "killed (Kill exLead)" by (simp_all add: Kill_def killed_def exLead_def)
  from Start_killed_keeps_lock [OF this] show ?thesis by blast
qed

text \<open>The peers of the next statement: the leader before and after \<^verbatim>\<open>Start\<close>, its two requests, the follower.\<close>

definition exEarly :: "nat Raft" where
  "exEarly = (exPeer 0 3 [exEntry 7 1])\<lparr>votedFor := 0, tp := 2, nextIndex := [2, 2, 2], matchIndex := [0, 0, 0],
     commitIndex := 0\<rparr>"

abbreviation exHeartbeat :: "nat RequestAppendArgs" where
  "exHeartbeat \<equiv> \<lparr>aa_Term = 3, aa_LeaderId = 0, aa_PrevLogIndex = 1, aa_PrevLogTerm = 1,
     aa_Entries = [], aa_LeaderCommit = 0\<rparr>"

abbreviation exAppend :: "nat RequestAppendArgs" where
  "exAppend \<equiv> \<lparr>aa_Term = 3, aa_LeaderId = 0, aa_PrevLogIndex = 1, aa_PrevLogTerm = 1,
     aa_Entries = [exEntry 8 3], aa_LeaderCommit = 0\<rparr>"

definition exStarted :: "nat Raft" where
  "exStarted = (persist (exEarly\<lparr>log := [dummy_entry, exEntry 7 1, exEntry 8 3]\<rparr>))
     \<lparr>matchIndex := [2, 0, 0], startAppend := True, apps := [0, 1, 1]\<rparr>"

definition exTook :: "nat Raft" where
  "exTook = resetTime 0 (persist ((exPeer 1 3 [exEntry 7 1])\<lparr>log := [dummy_entry, exEntry 7 1, exEntry 8 3]\<rparr>))"

lemma exEarly_Start: "Start exEarly (OpCommand 8) = Inr (exStarted, 2, 3, True)"
proof -
  have "apps exEarly = [0, 0, 0]" by (simp add: exEarly_def exPeer_def persist_def)
  then have "wake_apps 0 (apps exEarly) = [0, 1, 1]" by (simp add: wake_apps_def)
  then show ?thesis
    by (simp add: Start_def with_lock_def killed_def exStarted_def exEarly_def set_index_def Let_def exEntry_def
      numeral_eq_Suc)
qed

lemma exEarly_requests:
  "appendRequest exEarly \<lparr>termTemp = 3, count = 0\<rparr> 1 = Inr (\<lparr>termTemp = 3, count = 1\<rparr>, Some exHeartbeat)"
  "appendRequest exStarted \<lparr>termTemp = 3, count = 1\<rparr> 1 = Inr (\<lparr>termTemp = 3, count = 2\<rparr>, Some exAppend)"
  by (simp_all add: appendRequest_def with_lock_def exEarly_def exStarted_def index_def slice_from_def Let_def
      numeral_eq_Suc)

lemma exTook_append:
  "AppendEntries 0 (exPeer 1 3 [exEntry 7 1]) exAppend = Inr (exTook, zero_AppendReply\<lparr>ar_Term := 3, ar_Success := True\<rparr>)"
  by (simp add: AppendEntries_def with_lock_def adoptTerm_def prevMatches_def appendAfterPrev_def followCommit_def
      slice_to_def exTook_def Let_def numeral_eq_Suc)

lemma exSort: "sort_key ((!) [2, 2, 0::int]) [0..<3] = [2, 0, 1]"
  by (simp add: upt_rec sort_key_def)

lemma exStarted_reply:
  "\<exists>L2. appendReply 0 exStarted \<lparr>termTemp = 3, count = 2\<rparr> 1 2 exAppend True (zero_AppendReply\<lparr>ar_Term := 3, ar_Success := True\<rparr>)
     = Inr L2 \<and> commitIndex L2 = 2"
  by (simp add: appendReply_def with_lock_def killed_def appendAccepted_def index_def set_index_def Let_def
      exStarted_def exEarly_def updateCommit_def applyLoop_eq zero_AppendReply_def exSort)

text \<open>
  C39. A heartbeat that arrives late removes entries the follower has acknowledged. Whenever a
  request without entries is not older than the follower's term, names an entry of the
  follower's log with its term, and that term is not the request's own, the follower answers
  with success and cuts its log after that entry: everything after it is gone, also entries
  that are committed, and a commit index that follows the leader's may even move back to it.
  The witness is a run in which the leader has committed the entry that is lost.
\<close>

theorem stale_heartbeat_drops_committed_entry:
  assumes "raft_wf F" and "currentTerm F \<le> aa_Term args" and "aa_Entries args = []"
    and "entry_at F (aa_PrevLogIndex args) = Some e" and "Term e = aa_PrevLogTerm args" and "Term e \<noteq> aa_Term args"
    and "aa_PrevLogIndex args < 2 ^ 63"
  shows "\<exists>F' reply. AppendEntries r F args = Inr (F', reply) \<and> ar_Success reply \<and>
    lastIndex F' = aa_PrevLogIndex args \<and> (\<forall>i. aa_PrevLogIndex args < i \<longrightarrow> entry_at F' i = None) \<and>
    commitIndex F' = (if aa_LeaderCommit args > commitIndex F then min (aa_LeaderCommit args) (aa_PrevLogIndex args)
                      else commitIndex F)"
proof -
  let ?p = "aa_PrevLogIndex args"
  have p: "snapshotIndex F < ?p" "?p \<le> lastIndex F" "e = log F ! nat (?p - snapshotIndex F)"
    using assms(4) by (auto simp: entry_at_def split: if_split_asm)
  have acc: "accepts F args" "indices_fit F args"
    using assms p by (auto simp: accepts_def prevMatches_def indices_fit_def lastIndex_def)
  have cut: "len (logAfter F args) - 1 + snapshotIndex F = ?p"
    using assms p by (auto simp: logAfter_def alreadyHas_def spliced_def lastIndex_def len_take)
  obtain F' reply where F': "AppendEntries r F args = Inr (F', reply)" "ar_Success reply" "log F' = logAfter F args"
    "snapshotIndex F' = snapshotIndex F" "commitIndex F' = commitAfter F args"
    using AppendEntries_accepts [OF assms(1) acc, of r] by blast
  have "lastIndex F' = ?p" using F'(3,4) cut by (simp add: lastIndex_def)
  then show ?thesis using F' cut by (auto simp: commitAfter_def entry_at_def)
qed

theorem stale_heartbeat_drops_committed_entry_witness:
  "\<exists>L1 L2 F1 F2 reply1 reply2.
     appendRequest exEarly \<lparr>termTemp = 3, count = 0\<rparr> 1 = Inr (\<lparr>termTemp = 3, count = 1\<rparr>, Some exHeartbeat) \<and>
     Start exEarly (OpCommand 8) = Inr (L1, 2, 3, True) \<and>
     appendRequest L1 \<lparr>termTemp = 3, count = 1\<rparr> 1 = Inr (\<lparr>termTemp = 3, count = 2\<rparr>, Some exAppend) \<and>
     AppendEntries 0 (exPeer 1 3 [exEntry 7 1]) exAppend = Inr (F1, reply1) \<and> ar_Success reply1 \<and>
     entry_at F1 2 = Some (exEntry 8 3) \<and>
     appendReply 0 L1 \<lparr>termTemp = 3, count = 2\<rparr> 1 2 exAppend True reply1 = Inr L2 \<and> commitIndex L2 = 2 \<and>
     AppendEntries 0 F1 exHeartbeat = Inr (F2, reply2) \<and> ar_Success reply2 \<and> entry_at F2 2 = None"
proof -
  have two: "entry_at exTook 2 = Some (exEntry 8 3)" and one: "entry_at exTook 1 = Some (exEntry 7 1)"
    and cur: "currentTerm exTook = 3"
    by (simp_all add: entry_at_def lastIndex_def exTook_def numeral_eq_Suc)
  have "raft_wf exTook" using exPeer_wf [of 1 3 "[exEntry 7 1]"] by (simp add: exTook_def raft_wf_def)
  from stale_heartbeat_drops_committed_entry [OF this, of exHeartbeat "exEntry 7 1" 0] one cur
  have "\<exists>F2 reply2. AppendEntries 0 exTook exHeartbeat = Inr (F2, reply2) \<and> ar_Success reply2 \<and> entry_at F2 2 = None"
    by fastforce
  with two show ?thesis
    using exEarly_Start exEarly_requests exTook_append exStarted_reply by fastforce
qed


subsection \<open>Commitment without a majority of the current term\<close>

lemma exSorts:
  "sort_key ((!) [1, 1, 0::int]) [0..<3] = [2, 0, 1]"
  "sort_key ((!) [1, 1, 0, 0::int]) [0..<4] = [2, 3, 0, 1]"
  by (simp_all add: upt_rec sort_key_def)

text \<open>
  \<^verbatim>\<open>updateCommit\<close> has no test of the entry's term and takes the element at \<open>n div 2\<close> of the
  sorted \<^verbatim>\<open>matchIndex\<close>: a leader of term 3 commits an entry of term 1 as soon as two of three
  peers have it, and in a cluster of four it commits an entry that only two have.
\<close>

theorem commits_old_term_and_half:
  "\<exists>rf' rf4.
     updateCommit (exEarly\<lparr>matchIndex := [1, 1, 0]\<rparr>) = Inr rf' \<and> commitIndex rf' = 1 \<and>
     entry_at rf' 1 = Some (exEntry 7 1) \<and> currentTerm rf' = 3 \<and>
     updateCommit (exEarly\<lparr>peers := 4, matchIndex := [1, 1, 0, 0]\<rparr>) = Inr rf4 \<and> commitIndex rf4 = 1 \<and>
     card {p. p < peers rf4 \<and> commitIndex rf4 \<le> matchIndex rf4 ! p} = 2"
proof -
  have "{p. p < 4 \<and> 1 \<le> [1, 1, 0, 0::int] ! p} = {0, 1}"
  proof
    show "{p. p < 4 \<and> 1 \<le> [1, 1, 0, 0::int] ! p} \<subseteq> {0, 1}"
      by (auto simp: less_Suc_eq numeral_eq_Suc)
  qed (auto simp: numeral_eq_Suc)
  then have "card {p. p < 4 \<and> 1 \<le> [1, 1, 0, 0::int] ! p} = 2" by simp
  then show ?thesis
    by (simp add: updateCommit_def index_def exSorts exEarly_def Let_def applyLoop_eq entry_at_def lastIndex_def)
qed

text \<open>
  The condition of the candidate's loop is read without the lock, and two peers can lead the
  same term. Peer 0 has its majority for term 1 and passes the two reads. Before it takes the
  lock, peer 1 is elected for term 2 by peer 2, and its \<^verbatim>\<open>AppendEntries\<close> makes peer 0 a
  follower of term 2. The critical section of peer 0 only looks at \<^verbatim>\<open>voteCount\<close> and makes it a
  second leader of term 2, for which it asked for no vote.
\<close>

definition exSecondCandidate :: "nat Raft" where
  "exSecondCandidate = (persist (exVoter\<lparr>currentTerm := 2, votedFor := 1\<rparr>))\<lparr>tp := 1, voteCount := 1\<rparr>"

definition exSecondVoter :: "nat Raft" where
  "exSecondVoter = resetTime 0 (persist ((persist ((exPeer 2 0 [])\<lparr>currentTerm := 2, tp := 0, votedFor := -1\<rparr>))
     \<lparr>votedFor := 1\<rparr>))"

definition exSecondLeader :: "nat Raft" where
  "exSecondLeader = exSecondCandidate\<lparr>voteCount := 2, tp := 2, nextIndex := [1, 1, 1], matchIndex := [0, 0, 0],
     commitCount := [0], startAppend := False\<rparr>"

lemma exSecondElection:
  "startElection exVoter = Inr (exSecondCandidate, 2)"
  "voteRequest exSecondCandidate 2 =
     Inr \<lparr>va_Term = 2, va_CandidateId = 1, va_LastLogIndex = 0, va_LastLogTerm = 0\<rparr>"
  "RequestVote 0 (exPeer 2 0 [])
     \<lparr>va_Term = 2, va_CandidateId = 1, va_LastLogIndex = 0, va_LastLogTerm = 0\<rparr> =
     Inr (exSecondVoter, \<lparr>vr_Term = 0, vr_VoteGranted = True\<rparr>)"
  "voteReply 0 exSecondCandidate 2 True \<lparr>vr_Term = 0, vr_VoteGranted = True\<rparr> =
     Inr (exSecondCandidate\<lparr>voteCount := 2\<rparr>)"
  "electionTerm (exSecondCandidate\<lparr>voteCount := 2\<rparr>) 2" "electionRole (exSecondCandidate\<lparr>voteCount := 2\<rparr>)"
  "electionCheck (exSecondCandidate\<lparr>voteCount := 2\<rparr>) = Inr (exSecondLeader, ElectionWon)"
  by (simp_all add: startElection_def voteRequest_def RequestVote_def voteReply_def electionTerm_def electionRole_def
      electionCheck_def with_lock_def killed_def lastLogTerm_def exSecondCandidate_def exVoter_def exSecondVoter_def
      exSecondLeader_def for_peers_def Let_def)

lemma exSteppedDown:
  "\<exists>rf1 rf2 reply. AppendEntries 0 (exCandidate\<lparr>voteCount := 2\<rparr>)
       \<lparr>aa_Term = 2, aa_LeaderId = 1, aa_PrevLogIndex = 0, aa_PrevLogTerm = 0, aa_Entries = [], aa_LeaderCommit = 0\<rparr>
       = Inr (rf1, reply) \<and> tp rf1 = 0 \<and> currentTerm rf1 = 2 \<and>
     electionCheck rf1 = Inr (rf2, ElectionWon) \<and> tp rf2 = 2 \<and> currentTerm rf2 = 2 \<and> votedFor rf2 = -1"
  by (simp add: AppendEntries_def with_lock_def adoptTerm_def termUpdate_def prevMatches_def
      appendAfterSnapshot_def followCommit_def electionCheck_def killed_def for_peers_def Let_def exCandidate_def)

theorem election_race:
  "\<exists>s :: nat cluster. cluster_reach 3 s \<and> {j. j < 3 \<and> tp (nodes s j) = 2 \<and> currentTerm (nodes s j) = 2} = {0, 1} \<and>
     raced s = {(0, 2)}"
proof -
  obtain s :: "nat cluster" where s: "cluster_reach 3 s" "nodes s 0 = exCandidate\<lparr>voteCount := 2\<rparr>" "nodes s 1 = exVoter"
    "nodes s 2 = exPeer 2 0 []" "(0, 1, AtLock) \<in> looping s" "raced s = {}" using exVotes by blast
  have "startElection (nodes s 1) = Inr (exSecondCandidate, 2)" "RequestVote 0 (nodes s 2)
     \<lparr>va_Term = 2, va_CandidateId = 1, va_LastLogIndex = 0, va_LastLogTerm = 0\<rparr> =
     Inr (exSecondVoter, \<lparr>vr_Term = 0, vr_VoteGranted = True\<rparr>)" using exSecondElection(1,3) s(3,4) by simp_all
  from cluster_election [OF s(1) _ _ _ this(1) exSecondElection(2) this(2) exSecondElection(4-6)]
  obtain s1 where s1: "cluster_reach 3 s1" "nodes s1 = (nodes s)(1 := exSecondCandidate\<lparr>voteCount := 2\<rparr>, 2 := exSecondVoter)"
    "(1, 2, AtLock) \<in> looping s1" "(0, 1, AtLock) \<in> looping s1" "raced s1 = {}"
    using s(5,6) by auto
  have role: "tp (nodes s1 1) = 1" by (simp add: s1(2) exSecondCandidate_def)
  obtain s2 where s2: "cluster_reach 3 s2" "nodes s2 = (nodes s1)(1 := exSecondLeader)" "(0, 1, AtLock) \<in> looping s2" "raced s2 = {}"
    using cluster_won [OF s1(1,3), of exSecondLeader] exSecondElection(7) s1(2,4,5) role by auto
  obtain rf1 rf2 reply where r: "AppendEntries 0 (exCandidate\<lparr>voteCount := 2\<rparr>)
       \<lparr>aa_Term = 2, aa_LeaderId = 1, aa_PrevLogIndex = 0, aa_PrevLogTerm = 0, aa_Entries = [], aa_LeaderCommit = 0\<rparr>
       = Inr (rf1, reply)" "tp rf1 = 0" "currentTerm rf1 = 2" "electionCheck rf1 = Inr (rf2, ElectionWon)"
    "tp rf2 = 2" "currentTerm rf2 = 2" using exSteppedDown by blast
  have n0: "nodes s2 0 = exCandidate\<lparr>voteCount := 2\<rparr>" using s2(2) s1(2) s(2) by simp
  have "cluster_reach 3 (set_node s2 0 rf1)"
    by (rule cluster_reach.step [OF s2(1) cluster_step.other [OF _ other_step.append_entries]]) (use r(1) n0 in simp_all)
  from cluster_won [OF this, of 0 1 rf2]
  obtain s3 where s3: "cluster_reach 3 s3" "nodes s3 = (nodes s2)(0 := rf2)" "raced s3 = {(0, 2)}"
    using r s2(3,4) by auto
  have "tp (nodes s3 1) = 2" "currentTerm (nodes s3 1) = 2" "tp (nodes s3 2) = 0" "tp (nodes s3 0) = 2" "currentTerm (nodes s3 0) = 2"
    using s3(2) s2(2) s1(2) r(5,6) by (simp_all add: exSecondLeader_def exSecondCandidate_def exSecondVoter_def)
  then have "{j. j < 3 \<and> tp (nodes s3 j) = 2 \<and> currentTerm (nodes s3 j) = 2} = {0, 1}"
    by (auto simp: less_Suc_eq numeral_eq_Suc)
  with s3 show ?thesis by blast
qed

end
