(* ===== verification/Raft_Broadcast.thy ===== *)
theory Raft_Broadcast
  imports Raft_Leader Raft_Node
begin

section \<open>Raft: the loops that Append2 replaced\<close>

text \<open>
  Models \<^verbatim>\<open>Append\<close> and \<^verbatim>\<open>heartbeat\<close> of \<^verbatim>\<open>src/raft/raft.go\<close>, loops over all peers that nothing calls
  any more. A turn of a loop starts one goroutine per other peer; its critical sections are the operations here, with
  \<^verbatim>\<open>termTemp\<close>, the term in which the loop was started, as the argument \<open>t0\<close>. The request of \<^verbatim>\<open>Append\<close> is the one
  of \<^verbatim>\<open>Append2\<close> as long as no snapshot has been taken.
\<close>

subsection \<open>The operations\<close>

text \<open>One turn of either loop: \<open>None\<close> if it returns, else the peers it starts a goroutine for.\<close>

definition broadcast_turn :: "'c Raft \<Rightarrow> int list option go" where
  "broadcast_turn rf = with_lock rf (\<lambda>rf.
     if tp rf \<noteq> 2 then Inr None
     else Inr (Some (filter (\<lambda>i. i \<noteq> me rf) [0..int (peers rf) - 1])))"

definition Append_request :: "'c Raft \<Rightarrow> int \<Rightarrow> 'c RequestAppendArgs go" where
  "Append_request rf server = with_lock rf (\<lambda>rf.
     bindE (index (nextIndex rf) server) (\<lambda>next.
     bindE (slice_from (log rf) next) (\<lambda>entries.
     bindE (index (log rf) (next - 1)) (\<lambda>e.
     Inr \<lparr>aa_Term = currentTerm rf, aa_LeaderId = me rf, aa_PrevLogIndex = next - 1, aa_PrevLogTerm = Term e,
          aa_Entries = entries, aa_LeaderCommit = commitIndex rf\<rparr>))))"

text \<open>
  The reply, handled without the lock; the flag says whether it starts \<^verbatim>\<open>oscillator\<close> in a new goroutine.
\<close>

definition Append_reply ::
  "int \<Rightarrow> int \<Rightarrow> 'c Raft \<Rightarrow> int \<Rightarrow> bool \<Rightarrow> RequestAppendReply \<Rightarrow> ('c Raft \<times> bool) go" where
  "Append_reply r t0 rf server ok reply =
     (if t0 < currentTerm rf then Inr (rf, False)
      else if ok \<and> ar_Term reply > currentTerm rf then
        Inr (resetTime r (termUpdate rf (ar_Term reply) 0 (-1)), True)
      else if ok \<and> ar_Success reply = False then
        bindE (index (nextIndex rf) server) (\<lambda>next.
        bindE (set_index (nextIndex rf) server (next - 1)) (\<lambda>ni. Inr (rf\<lparr>nextIndex := ni\<rparr>, False)))
      else Inr (rf, False))"

definition heartbeat_request :: "'c Raft \<Rightarrow> int \<Rightarrow> 'c RequestAppendArgs go" where
  "heartbeat_request rf server = with_lock rf (\<lambda>rf.
     bindE (index (nextIndex rf) server) (\<lambda>next.
     bindE (index (log rf) (next - 1)) (\<lambda>e.
     Inr \<lparr>aa_Term = currentTerm rf, aa_LeaderId = me rf, aa_PrevLogIndex = next - 1, aa_PrevLogTerm = Term e,
          aa_Entries = [], aa_LeaderCommit = commitIndex rf\<rparr>)))"

definition heartbeat_reply ::
  "int \<Rightarrow> int \<Rightarrow> 'c Raft \<Rightarrow> bool \<Rightarrow> RequestAppendReply \<Rightarrow> ('c Raft \<times> bool) go" where
  "heartbeat_reply r t0 rf ok reply = with_lock rf (\<lambda>rf.
     if t0 < currentTerm rf then Inr (rf, False)
     else if ok \<and> ar_Term reply > currentTerm rf then
       Inr (resetTime r (termUpdate rf (ar_Term reply) 0 (-1)), True)
     else Inr (rf, False))"

subsection \<open>Lemmas\<close>

text \<open>
  A leader that has never taken a snapshot, with the entry 0 of term 0 (the snapshot's): its request is the
  one \<^verbatim>\<open>Append2\<close> sends, and a heartbeat is that request without the entries.
\<close>

lemma Append_request_eq:
  assumes "snapshotIndex rf = 0" "tp rf = 2" "log rf \<noteq> []" "Term (log rf ! 0) = snapshotTerm rf"
    and "index (nextIndex rf) server = Inr next" "0 < next"
  shows "appendRequest rf a2 server =
      bindE (Append_request rf server) (\<lambda>args. Inr (a2\<lparr>count := count a2 + 1\<rparr>, Some args))" (is ?append)
    and "Append_request rf server = Inr args \<Longrightarrow> heartbeat_request rf server = Inr (args\<lparr>aa_Entries := []\<rparr>)"
proof -
  have e: "(if next = 1 then Inr (snapshotTerm rf) else bindE (index (log rf) (next - 1)) (\<lambda>e. Inr (Term e)))
      = bindE (index (log rf) (next - 1)) (\<lambda>e. Inr (Term e))"
    using assms(3,4) by (simp add: index_def len_def)
  then show ?append
    using assms(1,2,5,6) by (simp add: appendRequest_def Append_request_def with_lock_def Let_def bindE_assoc)
  show "Append_request rf server = Inr args \<Longrightarrow> heartbeat_request rf server = Inr (args\<lparr>aa_Entries := []\<rparr>)"
    using assms(5) by (auto simp: Append_request_def heartbeat_request_def with_lock_def bindE_eq_Inr split: if_split_asm)
qed

text \<open>Replies keep what a peer has to keep: its vote changes only with its term, and what it has is saved.\<close>

lemma broadcast_term_ok:
  assumes "persisted rf"
  shows "Append_reply r t rf server ok reply = Inr (rf', b) \<Longrightarrow> term_ok rf rf' \<and> persisted rf'"
    and "heartbeat_reply r t rf ok reply = Inr (rf', b) \<Longrightarrow> term_ok rf rf' \<and> persisted rf'"
  using assms
  by (auto simp: Append_reply_def heartbeat_reply_def with_lock_eq_Inr bindE_eq_Inr term_ok_def termUpdate_def resetTime_def
      persist_def persisted_def persister_defs split: if_split_asm)

text \<open>A reply of a later term makes a leader of the loop's term a follower, and the next turn of its loop returns.\<close>

lemma later_term_ends_broadcast:
  assumes "currentTerm rf \<le> t" "ar_Term reply > currentTerm rf" "\<not> mu rf"
  shows "\<exists>rf'. Append_reply r t rf server True reply = Inr (rf', True) \<and> heartbeat_reply r t rf True reply = Inr (rf', True) \<and>
    currentTerm rf' = ar_Term reply \<and> broadcast_turn rf' = Inr None"
  using assms
  by (simp add: Append_reply_def heartbeat_reply_def broadcast_turn_def with_lock_def termUpdate_def resetTime_def persist_def Let_def)

end
