(* ===== verification/Kv_Server.thy ===== *)
theory Kv_Server
  imports Raft_Leader
begin

section \<open>The key/value service: the server\<close>

text \<open>
  Models \<^verbatim>\<open>src/kvraft/server.go\<close> and \<^verbatim>\<open>src/kvraft/common.go\<close>: the database and the table of the
  clients' latest request numbers, the two RPC handlers, the applier goroutine that consumes
  what Raft commits, and the goroutine that takes snapshots. Each goroutine is split where
  another may run: \<^verbatim>\<open>Get\<close> and \<^verbatim>\<open>PutAppend\<close> into submitting the command to Raft, registering
  a channel for its index, and using what the applier sent on it.

  A channel made with \<^verbatim>\<open>make(chan Op)\<close> is a number. It has no buffer: a send succeeds when a
  handler receives on it, and each handler receives once, so the record keeps the set of
  channels that a handler still receives on (\<open>readers\<close>) and the sequence of values handed
  over (\<open>delivered\<close>); a send to any other channel waits for ever. The two mutexes that
  some paths never release are the fields \<open>mumap\<close> and \<open>mucli\<close>. Fields of the Go struct that
  nothing reads (\<^verbatim>\<open>mu\<close>, \<^verbatim>\<open>applier\<close>, \<^verbatim>\<open>consumers\<close>, \<^verbatim>\<open>consumers2\<close>, \<^verbatim>\<open>clientNum\<close>, \<^verbatim>\<open>snapshotIndex\<close>,
  \<^verbatim>\<open>snapshotTerm\<close>) are left out, and \<^verbatim>\<open>kv.persister\<close> is the persister of \<^verbatim>\<open>kv.rf\<close>.
\<close>

subsection \<open>The data\<close>

record Op =
  OpId :: int
  Num :: int
  Type :: int                   \<comment> \<open>0: get, 1: put, 2: append, -1: no such key, -2: no-op, -3: snapshot\<close>
  Key :: string
  Value :: string

record PutAppendArgs =
  pa_Key :: string
  pa_Value :: string
  pa_Op :: string
  pa_Num :: int
  pa_ClientId :: int

record GetArgs =
  ga_Key :: string
  ga_Num :: int
  ga_ClientId :: int

record PutAppendReply =
  pr_Err :: string

record GetReply =
  gr_Err :: string
  gr_Value :: string

record KVServer =
  kv_me :: int
  kv_rf :: "Op Raft"
  kv_dead :: int
  maxraftstate :: int
  kv_mp :: "(string, string) gomap"
  ClientCh :: "int \<rightharpoonup> nat list"
  mucli :: bool
  kv_CliMap :: "(int, int) gomap"
  kv_lastApplied :: int
  mumap :: bool
  nextCh :: nat                 \<comment> \<open>the next number \<^verbatim>\<open>make(chan Op)\<close> gives out\<close>
  readers :: "nat set"
  delivered :: "(nat \<times> Op) list"

text \<open>\<^verbatim>\<open>var cm Op\<close>, \<^verbatim>\<open>Op{Id: -1, Type: -2}\<close> and \<^verbatim>\<open>Op{Id: -2, Type: -3}\<close>.\<close>

definition zero_Op :: Op where
  "zero_Op = \<lparr>OpId = 0, Num = 0, Type = 0, Key = '''', Value = ''''\<rparr>"

definition noop_Op :: Op where
  "noop_Op = zero_Op\<lparr>OpId := -1, Type := -2\<rparr>"

definition snapshot_Op :: Op where
  "snapshot_Op = zero_Op\<lparr>OpId := -2, Type := -3\<rparr>"

definition kv_Kill :: "KVServer \<Rightarrow> KVServer" where
  "kv_Kill kv = (let kv = kv\<lparr>kv_dead := 1\<rparr> in kv\<lparr>kv_rf := Kill (kv_rf kv)\<rparr>)"

definition kv_killed :: "KVServer \<Rightarrow> bool" where
  "kv_killed kv = (let z = kv_dead kv in z = 1)"

subsection \<open>The channels of the waiting handlers\<close>

definition chan_send :: "KVServer \<Rightarrow> nat \<Rightarrow> Op \<Rightarrow> KVServer go" where
  "chan_send kv ch cm =
     (if ch \<in> readers kv
      then Inr (kv\<lparr>readers := readers kv - {ch}, delivered := delivered kv @ [(ch, cm)]\<rparr>)
      else Inl Blocked)"

text \<open>The part of both handlers that makes a channel and registers it under the index.\<close>

definition register_ch :: "KVServer \<Rightarrow> int \<Rightarrow> KVServer \<times> nat" where
  "register_ch kv i =
     (let ch = nextCh kv;
          kv = kv\<lparr>nextCh := ch + 1, readers := insert ch (readers kv)\<rparr>
      in
      case ClientCh kv i of
        Some item \<Rightarrow> (kv\<lparr>ClientCh := (ClientCh kv)(i \<mapsto> item @ [ch])\<rparr>, ch)
      | None \<Rightarrow> (kv\<lparr>ClientCh := (ClientCh kv)(i \<mapsto> [ch])\<rparr>, ch))"

subsection \<open>Get\<close>

text \<open>
  What a handler has done when it stops: it replied, or it goes on to the next part. A killed
  server returns with the reply as the RPC library made it, all zero.
\<close>

datatype ('r, 'a) handler = Replied 'r | GoesOn 'a

definition zero_GetReply :: GetReply where
  "zero_GetReply = \<lparr>gr_Err = '''', gr_Value = ''''\<rparr>"

definition get_command :: "GetArgs \<Rightarrow> Op" where
  "get_command args = \<lparr>OpId = ga_ClientId args, Num = ga_Num args, Type = 0, Key = ga_Key args, Value = ''''\<rparr>"

definition Get_submit :: "KVServer \<Rightarrow> GetArgs \<Rightarrow> (KVServer \<times> (GetReply, int) handler) go" where
  "Get_submit kv args =
     (let command = get_command args; reply = zero_GetReply in
      if kv_killed kv then Inr (kv, Replied reply)
      else
        bindE (Start (kv_rf kv) (OpCommand command)) (\<lambda>(r, i, t, isLeader).
        let kv = kv\<lparr>kv_rf := r\<rparr> in
        if \<not> isLeader then Inr (kv, Replied (reply\<lparr>gr_Err := ''ErrWrongLeader''\<rparr>))
        else Inr (kv, GoesOn i)))"

definition Get_register :: "KVServer \<Rightarrow> GetArgs \<Rightarrow> int \<Rightarrow> (KVServer \<times> (GetReply, nat) handler) go" where
  "Get_register kv args i =
     (let reply = zero_GetReply in
      if mucli kv then Inl Blocked
      else if mumap kv then Inl Blocked
      else
        case map_get (kv_CliMap kv) (ga_ClientId args) of
          Some info \<Rightarrow>
            if info \<ge> ga_Num args then
              Inr (kv, Replied (reply\<lparr>gr_Err := ''OK'',
                gr_Value := (case map_get (kv_mp kv) (ga_Key args) of Some s \<Rightarrow> s | None \<Rightarrow> '''')\<rparr>))
            else (let (kv, ch) = register_ch kv i in Inr (kv, GoesOn ch))
        | None \<Rightarrow> (let (kv, ch) = register_ch kv i in Inr (kv, GoesOn ch)))"

definition Get_receive :: "KVServer \<Rightarrow> GetArgs \<Rightarrow> Op \<Rightarrow> GetReply" where
  "Get_receive kv args cm =
     (let command = get_command args; reply = zero_GetReply in
      if kv_killed kv then reply
      else if Type cm = -1 then reply\<lparr>gr_Err := ''ErrNoKey''\<rparr>
      else if Type cm \<noteq> Type command \<or> OpId cm \<noteq> ga_ClientId args \<or> Num cm \<noteq> ga_Num args
      then reply\<lparr>gr_Err := ''command fail''\<rparr>
      else reply\<lparr>gr_Err := ''OK'', gr_Value := Value cm\<rparr>)"

subsection \<open>PutAppend\<close>

definition zero_PutAppendReply :: PutAppendReply where
  "zero_PutAppendReply = \<lparr>pr_Err = ''''\<rparr>"

definition putappend_command :: "PutAppendArgs \<Rightarrow> Op" where
  "putappend_command args =
     (if pa_Op args = ''Put''
      then \<lparr>OpId = pa_ClientId args, Num = pa_Num args, Type = 1, Key = pa_Key args, Value = pa_Value args\<rparr>
      else \<lparr>OpId = pa_ClientId args, Num = pa_Num args, Type = 2, Key = pa_Key args, Value = pa_Value args\<rparr>)"

definition PutAppend_submit ::
  "KVServer \<Rightarrow> PutAppendArgs \<Rightarrow> (KVServer \<times> (PutAppendReply, int) handler) go" where
  "PutAppend_submit kv args =
     (let command = putappend_command args; reply = zero_PutAppendReply in
      if kv_killed kv then Inr (kv, Replied reply)
      else
        bindE (Start (kv_rf kv) (OpCommand command)) (\<lambda>(r, i, t, isLeader).
        let kv = kv\<lparr>kv_rf := r\<rparr> in
        if \<not> isLeader then Inr (kv, Replied (reply\<lparr>pr_Err := ''ErrWrongLeader''\<rparr>))
        else Inr (kv, GoesOn i)))"

definition PutAppend_register ::
  "KVServer \<Rightarrow> PutAppendArgs \<Rightarrow> int \<Rightarrow> (KVServer \<times> (PutAppendReply, nat) handler) go" where
  "PutAppend_register kv args i =
     (let reply = zero_PutAppendReply in
      if mucli kv then Inl Blocked
      else if mumap kv then Inl Blocked
      else
        case map_get (kv_CliMap kv) (pa_ClientId args) of
          Some info \<Rightarrow>
            if info \<ge> pa_Num args then Inr (kv, Replied (reply\<lparr>pr_Err := ''OK''\<rparr>))
            else (let (kv, ch) = register_ch kv i in Inr (kv, GoesOn ch))
        | None \<Rightarrow> (let (kv, ch) = register_ch kv i in Inr (kv, GoesOn ch)))"

definition PutAppend_receive :: "KVServer \<Rightarrow> PutAppendArgs \<Rightarrow> Op \<Rightarrow> PutAppendReply go" where
  "PutAppend_receive kv args cm =
     (let command = putappend_command args; reply = zero_PutAppendReply in
      if kv_killed kv then Inr reply
      else if Type cm = -3 then
        if mumap kv then Inl Blocked
        else
          case map_get (kv_CliMap kv) (pa_ClientId args) of
            Some info \<Rightarrow>
              if info \<ge> pa_Num args then Inr (reply\<lparr>pr_Err := ''OK''\<rparr>)
              else Inr (reply\<lparr>pr_Err := ''discarded''\<rparr>)
          | None \<Rightarrow> Inr (reply\<lparr>pr_Err := ''discarded''\<rparr>)
      else if Type cm \<noteq> Type command \<or> OpId cm \<noteq> pa_ClientId args \<or> Num cm \<noteq> pa_Num args
      then Inr (reply\<lparr>pr_Err := ''command fail''\<rparr>)
      else Inr (reply\<lparr>pr_Err := ''OK''\<rparr>))"

subsection \<open>The applier\<close>

text \<open>The switch on the type of \<^verbatim>\<open>msg.Command\<close>: anything that is neither a string nor an \<^verbatim>\<open>Op\<close> leaves \<^verbatim>\<open>cm\<close> zero.\<close>

fun msg_Op :: "Op payload \<Rightarrow> Op" where
  "msg_Op (CommandPayload (StringCommand s)) = noop_Op"
| "msg_Op (CommandPayload (OpCommand op)) = op"
| "msg_Op (CommandPayload NilCommand) = zero_Op"
| "msg_Op (DataPayload d) = zero_Op"

text \<open>
  The critical section under \<^verbatim>\<open>mumap\<close>, on the database and the client table alone: what the
  command does to them, and the command with its result filled in.
\<close>

type_synonym kv_data = "(string, string) gomap \<times> (int, int) gomap"

definition apply_Op :: "kv_data \<Rightarrow> Op \<Rightarrow> (kv_data \<times> Op) go" where
  "apply_Op d cm =
     (let (mp, cli) = d;
          done = (case map_get cli (OpId cm) of Some info \<Rightarrow> info \<ge> Num cm | None \<Rightarrow> False)
      in
      if Type cm = 0 then
        let cm' = (case map_get mp (Key cm) of None \<Rightarrow> cm\<lparr>Type := -1\<rparr> | Some s \<Rightarrow> cm\<lparr>Value := s\<rparr>) in
        bindE (map_set cli (OpId cm) (Num cm)) (\<lambda>cli. Inr ((mp, cli), cm'))
      else if Type cm = 1 then
        if done then Inr ((mp, cli), cm)
        else
          bindE (map_set mp (Key cm) (Value cm)) (\<lambda>mp.
          bindE (map_set cli (OpId cm) (Num cm)) (\<lambda>cli. Inr ((mp, cli), cm)))
      else if Type cm = 2 then
        if done then Inr ((mp, cli), cm)
        else
          bindE (case map_get mp (Key cm) of
                   None \<Rightarrow> map_set mp (Key cm) (Value cm)
                 | Some s \<Rightarrow> map_set mp (Key cm) (s @ Value cm)) (\<lambda>mp.
          bindE (map_set cli (OpId cm) (Num cm)) (\<lambda>cli. Inr ((mp, cli), cm)))
      else Inr ((mp, cli), cm))"

text \<open>
  The loops that send on channels. A killed server leaves the first one with \<^verbatim>\<open>mucli\<close> locked
  (the Boolean is False when \<^verbatim>\<open>Applier\<close> returns).
\<close>

primrec give_clients :: "KVServer \<Rightarrow> nat list \<Rightarrow> Op \<Rightarrow> (KVServer \<times> bool) go" where
  "give_clients kv [] cm = Inr (kv, True)"
| "give_clients kv (ch # chs) cm =
     (if kv_killed kv then Inr (kv\<lparr>mucli := True\<rparr>, False)
      else bindE (chan_send kv ch cm) (\<lambda>kv. give_clients kv chs cm))"

primrec send_all :: "KVServer \<Rightarrow> nat list \<Rightarrow> Op \<Rightarrow> KVServer go" where
  "send_all kv [] cm = Inr kv"
| "send_all kv (ch # chs) cm = bindE (chan_send kv ch cm) (\<lambda>kv. send_all kv chs cm)"

text \<open>\<open>ks\<close> is the order in which \<^verbatim>\<open>range kv.ClientCh\<close> visits the keys.\<close>

primrec discard_clients :: "KVServer \<Rightarrow> int list \<Rightarrow> int \<Rightarrow> KVServer go" where
  "discard_clients kv [] i = Inr kv"
| "discard_clients kv (k # ks) i =
     (if k \<le> i then
        bindE (case ClientCh kv k of Some v \<Rightarrow> send_all kv v snapshot_Op | None \<Rightarrow> Inr kv)
          (\<lambda>kv. discard_clients kv ks i)
      else discard_clients kv ks i)"

definition install_snapshot :: "KVServer \<Rightarrow> int list \<Rightarrow> Op bytes \<Rightarrow> KVServer go" where
  "install_snapshot kv ks sn =
     (let snap = read_snapshot sn;
          kv = kv\<lparr>kv_mp := Mp snap, kv_CliMap := CliMap snap\<rparr>;
          kv = (if LastIndex snap > kv_lastApplied kv then kv\<lparr>kv_lastApplied := LastIndex snap\<rparr> else kv)
      in if mucli kv then Inl Blocked else discard_clients kv ks (LastIndex snap))"

definition apply_command :: "KVServer \<Rightarrow> Op ApplyMsg \<Rightarrow> (KVServer \<times> Op) go" where
  "apply_command kv msg =
     (if mumap kv then Inl Blocked
      else
        let cm = msg_Op (MsgCommand msg); kv = kv\<lparr>kv_lastApplied := CommandIndex msg\<rparr> in
        bindE (apply_Op (kv_mp kv, kv_CliMap kv) cm) (\<lambda>((mp, cli), cm).
        Inr (kv\<lparr>kv_mp := mp, kv_CliMap := cli\<rparr>, cm)))"

definition answer_clients :: "KVServer \<Rightarrow> int \<Rightarrow> Op \<Rightarrow> (KVServer \<times> bool) go" where
  "answer_clients kv i cm =
     (if kv_killed kv then Inr (kv, False)
      else if mucli kv then Inl Blocked
      else
        case ClientCh kv i of
          Some chs \<Rightarrow>
            bindE (give_clients kv chs cm) (\<lambda>(kv, goes_on).
            if goes_on then Inr (kv\<lparr>ClientCh := (ClientCh kv)(i := None)\<rparr>, True)
            else Inr (kv, False))
        | None \<Rightarrow> Inr (kv, True))"

text \<open>
  One turn of the loop of \<^verbatim>\<open>Applier\<close> with the message it receives; the Boolean says whether
  the loop goes on. After a snapshot it sends on \<^verbatim>\<open>SnapSync2\<close>, where the \<^verbatim>\<open>InstallSnapshot\<close> that
  sent the message waits.
\<close>

definition Applier :: "KVServer \<Rightarrow> int list \<Rightarrow> Op ApplyMsg \<Rightarrow> (KVServer \<times> bool) go" where
  "Applier kv ks msg =
     (if \<not> CommandValid msg then
        case MsgCommand msg of
          DataPayload sn \<Rightarrow> bindE (install_snapshot kv ks sn) (\<lambda>kv. Inr (kv, True))
        | CommandPayload c \<Rightarrow> Inl TypeAssertion
      else
        bindE (apply_command kv msg) (\<lambda>(kv, cm).
        answer_clients kv (CommandIndex msg) cm))"

subsection \<open>Snapshots and starting a server\<close>

text \<open>Go's integer division truncates toward zero.\<close>

definition go_div :: "int \<Rightarrow> int \<Rightarrow> int" where
  "go_div a b = (if a \<ge> 0 then a div b else - ((- a) div b))"

definition snapshot_due :: "(Op bytes \<Rightarrow> int) \<Rightarrow> KVServer \<Rightarrow> bool" where
  "snapshot_due bytelen kv =
     (maxraftstate kv \<noteq> -1 \<and>
      RaftStateSize bytelen (persister (kv_rf kv)) > go_div (maxraftstate kv) 3 * 2)"

text \<open>A copy of a map made entry by entry: a new map, also of a \<^verbatim>\<open>nil\<close> one.\<close>

definition copy_map :: "('k, 'v) gomap \<Rightarrow> ('k, 'v) gomap" where
  "copy_map m = Some (map_get m)"

text \<open>
  One turn of the snapshot goroutine of \<^verbatim>\<open>StartKVServer\<close> up to the wait on \<^verbatim>\<open>snapsync\<close>: the
  snapshot it hands to Raft, if any; a killed server returns with \<^verbatim>\<open>mumap\<close> locked. Raft's side
  is \<^verbatim>\<open>persistV2\<close>, run by the goroutine that \<^verbatim>\<open>Make\<close> starts.
\<close>

definition take_snapshot :: "(Op bytes \<Rightarrow> int) \<Rightarrow> KVServer \<Rightarrow> (KVServer \<times> SnapShot option) go" where
  "take_snapshot bytelen kv =
     (if snapshot_due bytelen kv then
        if mumap kv then Inl Blocked
        else
          let mmap = copy_map (kv_mp kv); climap = copy_map (kv_CliMap kv) in
          if kv_killed kv then Inr (kv\<lparr>mumap := True\<rparr>, None)
          else Inr (kv, Some \<lparr>Mp = mmap, LastIndex = kv_lastApplied kv, LastTerm = 0, CliMap = climap\<rparr>)
      else Inr (kv, None))"

definition save_snapshot :: "KVServer \<Rightarrow> SnapShot \<Rightarrow> KVServer go" where
  "save_snapshot kv ss = bindE (persistV2 (kv_rf kv) ss) (\<lambda>r. Inr (kv\<lparr>kv_rf := r\<rparr>))"

text \<open>\<^verbatim>\<open>checkSnapBytes\<close>, an earlier version that keeps \<^verbatim>\<open>mumap\<close> locked until Raft is done.\<close>

definition checkSnapBytes :: "(Op bytes \<Rightarrow> int) \<Rightarrow> KVServer \<Rightarrow> KVServer go" where
  "checkSnapBytes bytelen kv =
     (if maxraftstate kv \<noteq> -1 \<and>
         RaftStateSize bytelen (GetPersister (kv_rf kv)) > go_div (maxraftstate kv) 3 * 2
      then
        if mumap kv then Inl Blocked
        else save_snapshot kv
          \<lparr>Mp = kv_mp kv, LastIndex = kv_lastApplied kv, LastTerm = 0, CliMap = kv_CliMap kv\<rparr>
      else Inr kv)"

definition readSnap :: "KVServer \<Rightarrow> Op bytes \<Rightarrow> KVServer" where
  "readSnap kv data =
     (let snap = read_snapshot data;
          kv = (if Mp snap \<noteq> None then kv\<lparr>kv_mp := Mp snap\<rparr> else kv);
          kv = (if CliMap snap \<noteq> None then kv\<lparr>kv_CliMap := CliMap snap\<rparr> else kv)
      in kv\<lparr>kv_lastApplied := LastIndex snap\<rparr>)"

definition StartKVServer :: "int \<Rightarrow> nat \<Rightarrow> int \<Rightarrow> Op Persister \<Rightarrow> int \<Rightarrow> KVServer go" where
  "StartKVServer r n i ps maxstate =
     bindE (Make r n i ps) (\<lambda>raft.
     let raft = raft\<lparr>Noop := True\<rparr>;
         kv = \<lparr>kv_me = i, kv_rf = raft, kv_dead = 0, maxraftstate = maxstate,
               kv_mp = Some Map.empty, ClientCh = Map.empty, mucli = False,
               kv_CliMap = Some Map.empty, kv_lastApplied = 0, mumap = False,
               nextCh = 0, readers = {}, delivered = []\<rparr>
     in Inr (readSnap kv (ReadSnapshot (persister (kv_rf kv)))))"

end
