(* ===== verification/Kv_Apply.thy ===== *)
theory Kv_Apply
  imports Kv_Server Raft_Node Raft_Replication
begin

section \<open>The key/value service: what applying the log does\<close>

text \<open>
  Lemmas about the applier of \<^verbatim>\<open>src/kvraft/server.go\<close>. On maps that are not \<^verbatim>\<open>nil\<close> the critical
  section is a pure step on the database and the client table; that step is idempotent,
  executes each request once, and can be resumed from a snapshot.
\<close>

subsection \<open>The pure step\<close>

type_synonym kv_maps = "(string \<rightharpoonup> string) \<times> (int \<rightharpoonup> int)"

text \<open>A request that the client table says has been executed.\<close>

definition executed :: "(int \<rightharpoonup> int) \<Rightarrow> Op \<Rightarrow> bool" where
  "executed cli op = (case cli (OpId op) of Some info \<Rightarrow> Num op \<le> info | None \<Rightarrow> False)"

text \<open>The specification of one command on the database alone.\<close>

definition exec :: "(string \<rightharpoonup> string) \<Rightarrow> Op \<Rightarrow> (string \<rightharpoonup> string)" where
  "exec mp op =
     (if Type op = 1 then mp(Key op \<mapsto> Value op)
      else if Type op = 2 then mp(Key op \<mapsto> (case mp (Key op) of None \<Rightarrow> '''' | Some s \<Rightarrow> s) @ Value op)
      else mp)"

definition kv_step :: "kv_maps \<Rightarrow> Op \<Rightarrow> kv_maps" where
  "kv_step d op =
     (if Type op = 0 then (fst d, (snd d)(OpId op \<mapsto> Num op))
      else if Type op = 1 \<or> Type op = 2 then
        if executed (snd d) op then d else (exec (fst d) op, (snd d)(OpId op \<mapsto> Num op))
      else d)"

definition kv_result :: "(string \<rightharpoonup> string) \<Rightarrow> Op \<Rightarrow> Op" where
  "kv_result mp op =
     (if Type op = 0 then (case mp (Key op) of None \<Rightarrow> op\<lparr>Type := -1\<rparr> | Some s \<Rightarrow> op\<lparr>Value := s\<rparr>) else op)"

lemma apply_Op_eq:
  "apply_Op (Some mp, Some cli) op =
     (let (mp', cli') = kv_step (mp, cli) op in Inr ((Some mp', Some cli'), kv_result mp op))"
  by (simp add: apply_Op_def kv_step_def kv_result_def exec_def executed_def Let_def split: option.split)

subsection \<open>Duplicates\<close>

text \<open>
  A consumer that may get every message several times in a row. The interface is one law:
  taking a message a second time changes nothing.
\<close>

inductive stutter :: "'m list \<Rightarrow> 'm list \<Rightarrow> bool" where
  stutter_Nil: "stutter [] []"
| stutter_Cons: "stutter xs ys \<Longrightarrow> stutter (x # xs) (replicate (Suc n) x @ ys)"

locale idempotent_consumer =
  fixes consume :: "'s \<Rightarrow> 'm \<Rightarrow> 's"
  assumes consume_twice: "consume (consume s m) m = consume s m"
begin

lemma consume_replicate: "foldl consume s (replicate (Suc n) m) = consume s m"
  by (induction n arbitrary: s) (simp_all add: consume_twice)

lemma consume_stutter: "stutter xs ys \<Longrightarrow> foldl consume s ys = foldl consume s xs"
  by (induction arbitrary: s rule: stutter.induct) (simp_all only: foldl_append foldl.simps consume_replicate)

end

lemma kv_step_twice: "kv_step (kv_step d op) op = kv_step d op"
  by (auto simp: kv_step_def executed_def)

interpretation kv_consumer: idempotent_consumer kv_step
  by unfold_locales (rule kv_step_twice)

lemma stutter_replicate: "stutter xs (concat (map (replicate (Suc n)) xs))"
  by (induction xs) (auto intro: stutter.intros simp del: replicate_Suc)

subsection \<open>Exactly once\<close>

text \<open>The requests that clients make, as opposed to no-ops.\<close>

definition is_request :: "Op \<Rightarrow> bool" where
  "is_request op = (Type op = 0 \<or> Type op = 1 \<or> Type op = 2)"

text \<open>The first occurrence in the log of a number that is new for its client.\<close>

definition effective :: "Op list \<Rightarrow> nat \<Rightarrow> bool" where
  "effective ops i =
     ((Type (ops ! i) = 1 \<or> Type (ops ! i) = 2) \<and>
      (\<forall>j < i. is_request (ops ! j) \<and> OpId (ops ! j) = OpId (ops ! i) \<longrightarrow> Num (ops ! j) < Num (ops ! i)))"

text \<open>No read is repeated in the log after a later request of the same client.\<close>

definition gets_in_order :: "Op list \<Rightarrow> bool" where
  "gets_in_order ops =
     (\<forall>i < length ops. Type (ops ! i) = 0 \<longrightarrow>
        (\<forall>j < i. is_request (ops ! j) \<and> OpId (ops ! j) = OpId (ops ! i) \<longrightarrow> Num (ops ! j) \<le> Num (ops ! i)))"

definition effective_ops :: "Op list \<Rightarrow> Op list" where
  "effective_ops ops = map ((!) ops) (filter (effective ops) [0..<length ops])"

text \<open>The client table holds, for each client, the highest number among its requests.\<close>

definition nums :: "Op list \<Rightarrow> int \<Rightarrow> int set" where
  "nums ops c = {Num op | op. op \<in> set ops \<and> is_request op \<and> OpId op = c}"

fun highest :: "int set \<Rightarrow> int option \<Rightarrow> bool" where
  "highest S None = (S = {})"
| "highest S (Some n) = (n \<in> S \<and> (\<forall>m \<in> S. m \<le> n))"

definition table_of :: "Op list \<Rightarrow> (int \<rightharpoonup> int) \<Rightarrow> bool" where
  "table_of ops cli = (\<forall>c. highest (nums ops c) (cli c))"

lemma nums_Nil [simp]: "nums [] c = {}"
  by (simp add: nums_def)

lemma nums_snoc:
  "nums (ops @ [op]) c = nums ops c \<union> (if is_request op \<and> OpId op = c then {Num op} else {})"
  by (auto simp: nums_def)

lemma executed_iff:
  assumes "table_of ops cli"
  shows "executed cli op \<longleftrightarrow> (\<exists>n \<in> nums ops (OpId op). Num op \<le> n)"
proof -
  have "highest (nums ops (OpId op)) (cli (OpId op))" using assms by (simp add: table_of_def)
  then show ?thesis by (cases "cli (OpId op)") (auto simp: executed_def intro: order_trans)
qed

lemma table_of_step:
  assumes "table_of ops (snd d)" and "Type op = 0 \<Longrightarrow> \<forall>n \<in> nums ops (OpId op). n \<le> Num op"
  shows "table_of (ops @ [op]) (snd (kv_step d op))"
proof -
  have h: "highest (nums ops c) (snd d c)" for c using assms(1) by (simp add: table_of_def)
  have "highest (nums (ops @ [op]) c) (snd (kv_step d op) c)" for c
  proof (cases "is_request op \<and> OpId op = c")
    case False
    then have "snd (kv_step d op) c = snd d c" by (auto simp: kv_step_def is_request_def)
    with False h [of c] show ?thesis by (auto simp: nums_snoc)
  next
    case True
    show ?thesis
    proof (cases "executed (snd d) op \<and> Type op \<noteq> 0")
      case ex: True
      then have "snd (kv_step d op) c = snd d c" by (simp add: kv_step_def)
      with ex True h [of c] show ?thesis
        by (cases "snd d c") (auto simp: nums_snoc executed_def)
    next
      case new: False
      have "snd (kv_step d op) c = Some (Num op)"
        using new True by (auto simp: kv_step_def is_request_def)
      moreover have "\<forall>n \<in> nums ops c. n \<le> Num op"
        using new assms(2) executed_iff [OF assms(1), of op] True by fastforce
      ultimately show ?thesis using True by (simp add: nums_snoc)
    qed
  qed
  then show ?thesis by (simp add: table_of_def)
qed

lemma effective_append: "i < length ops \<Longrightarrow> effective (ops @ [op]) i = effective ops i"
  by (simp add: effective_def nth_append)

lemma nums_iff: "(\<forall>n \<in> nums ops c. P n) \<longleftrightarrow> (\<forall>i < length ops. is_request (ops ! i) \<and> OpId (ops ! i) = c \<longrightarrow> P (Num (ops ! i)))"
  by (force simp: nums_def in_set_conv_nth)

lemma effective_last:
  "effective (ops @ [op]) (length ops) \<longleftrightarrow>
     (Type op = 1 \<or> Type op = 2) \<and> (\<forall>n \<in> nums ops (OpId op). n < Num op)"
  by (simp add: effective_def nth_append nums_iff cong: conj_cong)

lemma effective_ops_snoc:
  "effective_ops (ops @ [op]) =
     effective_ops ops @ (if effective (ops @ [op]) (length ops) then [op] else [])"
proof -
  have "filter (effective (ops @ [op])) [0..<length ops] = filter (effective ops) [0..<length ops]"
    by (rule filter_cong) (simp_all add: effective_append)
  moreover have "map ((!) (ops @ [op])) (filter (effective ops) [0..<length ops])
    = map ((!) ops) (filter (effective ops) [0..<length ops])"
    by (rule map_cong) (auto simp: nth_append)
  ultimately show ?thesis by (simp add: effective_ops_def)
qed

lemma gets_in_order_snoc:
  assumes "gets_in_order (ops @ [op])"
  shows "gets_in_order ops" and "Type op = 0 \<Longrightarrow> \<forall>n \<in> nums ops (OpId op). n \<le> Num op"
proof -
  have *: "\<forall>j < i. is_request ((ops @ [op]) ! j) \<and> OpId ((ops @ [op]) ! j) = OpId ((ops @ [op]) ! i) \<longrightarrow>
      Num ((ops @ [op]) ! j) \<le> Num ((ops @ [op]) ! i)"
    if "i \<le> length ops" "Type ((ops @ [op]) ! i) = 0" for i
    using assms that by (simp add: gets_in_order_def)
  show "gets_in_order ops" unfolding gets_in_order_def
  proof (intro allI impI)
    fix i j assume "i < length ops" "Type (ops ! i) = 0" "j < i"
      "is_request (ops ! j) \<and> OpId (ops ! j) = OpId (ops ! i)"
    with * [of i] show "Num (ops ! j) \<le> Num (ops ! i)" by (simp add: nth_append)
  qed
  show "\<forall>n \<in> nums ops (OpId op). n \<le> Num op" if "Type op = 0"
    using * [of "length ops"] that by (simp add: nums_iff nth_append)
qed

lemma exactly_once_inv:
  "gets_in_order ops \<Longrightarrow>
   fst (foldl kv_step (Map.empty, Map.empty) ops) = foldl exec Map.empty (effective_ops ops) \<and>
   table_of ops (snd (foldl kv_step (Map.empty, Map.empty) ops))"
proof (induction ops rule: rev_induct)
  case Nil
  then show ?case by (simp add: effective_ops_def table_of_def)
next
  case (snoc op ops)
  let ?d = "foldl kv_step (Map.empty, Map.empty) ops"
  note ord = gets_in_order_snoc [OF snoc.prems]
  from snoc.IH [OF ord(1)] have IH: "fst ?d = foldl exec Map.empty (effective_ops ops)" "table_of ops (snd ?d)" by auto
  have t: "table_of (ops @ [op]) (snd (kv_step ?d op))"
    by (rule table_of_step [OF IH(2) ord(2)])
  have "fst (kv_step ?d op) = (if effective (ops @ [op]) (length ops) then exec (fst ?d) op else fst ?d)"
  proof (cases "Type op = 1 \<or> Type op = 2")
    case True
    with executed_iff [OF IH(2), of op] show ?thesis
      by (auto simp: kv_step_def effective_last not_le)
  next
    case False
    then show ?thesis by (auto simp: kv_step_def effective_last)
  qed
  with t IH(1) show ?case by (simp add: effective_ops_snoc)
qed

subsection \<open>The applier and the waiting handlers\<close>

text \<open>A server whose maps are not \<^verbatim>\<open>nil\<close>, whose locks are free and which has not been killed.\<close>

definition kv_ready :: "KVServer \<Rightarrow> bool" where
  "kv_ready kv =
     (kv_mp kv \<noteq> None \<and> kv_CliMap kv \<noteq> None \<and> \<not> mumap kv \<and> \<not> mucli kv \<and> \<not> kv_killed kv)"

definition kv_maps :: "KVServer \<Rightarrow> kv_maps" where
  "kv_maps kv = (map_get (kv_mp kv), map_get (kv_CliMap kv))"

definition waiting_at :: "KVServer \<Rightarrow> int \<Rightarrow> nat list" where
  "waiting_at kv i = (case ClientCh kv i of Some chs \<Rightarrow> chs | None \<Rightarrow> [])"

text \<open>Every registered channel has a handler that receives on it, and no channel is registered twice.\<close>

definition channels_ok :: "KVServer \<Rightarrow> bool" where
  "channels_ok kv =
     ((\<forall>i. distinct (waiting_at kv i) \<and> set (waiting_at kv i) \<subseteq> readers kv) \<and>
      (\<forall>i j. i \<noteq> j \<longrightarrow> set (waiting_at kv i) \<inter> set (waiting_at kv j) = {}) \<and>
      (\<forall>ch \<in> readers kv. ch < nextCh kv))"

lemma waiting_at_simps [simp]:
  "waiting_at (kv\<lparr>ClientCh := (ClientCh kv)(i := None)\<rparr>) j = (if j = i then [] else waiting_at kv j)"
  "waiting_at (kv\<lparr>ClientCh := (ClientCh kv)(i \<mapsto> chs)\<rparr>) j = (if j = i then chs else waiting_at kv j)"
  "waiting_at (kv\<lparr>readers := rs\<rparr>) j = waiting_at kv j"
  "waiting_at (kv\<lparr>delivered := ds\<rparr>) j = waiting_at kv j"
  "waiting_at (kv\<lparr>kv_mp := mp\<rparr>) j = waiting_at kv j"
  "waiting_at (kv\<lparr>kv_CliMap := cli\<rparr>) j = waiting_at kv j"
  "waiting_at (kv\<lparr>kv_lastApplied := la\<rparr>) j = waiting_at kv j"
  "waiting_at (kv\<lparr>nextCh := n\<rparr>) j = waiting_at kv j"
  "waiting_at (kv\<lparr>kv_rf := r\<rparr>) j = waiting_at kv j"
  by (simp_all add: waiting_at_def)

lemma map_get_Some_iff: "m \<noteq> None \<Longrightarrow> Some (map_get m) = m"
  by (cases m) (auto simp: map_get_def)

lemma kv_ready_maps:
  "kv_ready kv \<Longrightarrow> kv_mp kv = Some (fst (kv_maps kv)) \<and> kv_CliMap kv = Some (snd (kv_maps kv))"
  by (auto simp: kv_ready_def kv_maps_def map_get_Some_iff)

lemma give_clients_eq:
  "distinct chs \<Longrightarrow> set chs \<subseteq> readers kv \<Longrightarrow> \<not> kv_killed kv \<Longrightarrow>
   give_clients kv chs cm =
     Inr (kv\<lparr>readers := readers kv - set chs, delivered := delivered kv @ map (\<lambda>ch. (ch, cm)) chs\<rparr>, True)"
proof (induction chs arbitrary: kv)
  case (Cons ch chs)
  let ?kv = "kv\<lparr>readers := readers kv - {ch}, delivered := delivered kv @ [(ch, cm)]\<rparr>"
  have "give_clients ?kv chs cm = Inr (?kv\<lparr>readers := readers ?kv - set chs,
      delivered := delivered ?kv @ map (\<lambda>ch. (ch, cm)) chs\<rparr>, True)"
    by (rule Cons.IH) (use Cons.prems in \<open>auto simp: kv_killed_def\<close>)
  moreover have "readers kv - {ch} - set chs = readers kv - insert ch (set chs)" by blast
  ultimately show ?case using Cons.prems by (simp add: chan_send_def)
qed simp

lemma send_all_eq:
  "distinct chs \<Longrightarrow> set chs \<subseteq> readers kv \<Longrightarrow>
   send_all kv chs cm =
     Inr (kv\<lparr>readers := readers kv - set chs, delivered := delivered kv @ map (\<lambda>ch. (ch, cm)) chs\<rparr>)"
proof (induction chs arbitrary: kv)
  case (Cons ch chs)
  let ?kv = "kv\<lparr>readers := readers kv - {ch}, delivered := delivered kv @ [(ch, cm)]\<rparr>"
  have "send_all ?kv chs cm = Inr (?kv\<lparr>readers := readers ?kv - set chs,
      delivered := delivered ?kv @ map (\<lambda>ch. (ch, cm)) chs\<rparr>)"
    by (rule Cons.IH) (use Cons.prems in auto)
  moreover have "readers kv - {ch} - set chs = readers kv - insert ch (set chs)" by blast
  ultimately show ?case using Cons.prems by (simp add: chan_send_def)
qed simp

lemma channels_ok_at: "channels_ok kv \<Longrightarrow> distinct (waiting_at kv i) \<and> set (waiting_at kv i) \<subseteq> readers kv"
  by (simp add: channels_ok_def)

definition answered :: "KVServer \<Rightarrow> int \<Rightarrow> Op \<Rightarrow> KVServer" where
  "answered kv i cm =
     kv\<lparr>readers := readers kv - set (waiting_at kv i),
        delivered := delivered kv @ map (\<lambda>ch. (ch, cm)) (waiting_at kv i),
        ClientCh := (ClientCh kv)(i := None)\<rparr>"

lemma answered_simps [simp]:
  "kv_mp (answered kv i cm) = kv_mp kv" "kv_CliMap (answered kv i cm) = kv_CliMap kv"
  "kv_lastApplied (answered kv i cm) = kv_lastApplied kv" "kv_rf (answered kv i cm) = kv_rf kv"
  "mumap (answered kv i cm) = mumap kv" "mucli (answered kv i cm) = mucli kv"
  "kv_killed (answered kv i cm) = kv_killed kv" "nextCh (answered kv i cm) = nextCh kv"
  "waiting_at (answered kv i cm) j = (if j = i then [] else waiting_at kv j)"
  "delivered (answered kv i cm) = delivered kv @ map (\<lambda>ch. (ch, cm)) (waiting_at kv i)"
  "readers (answered kv i cm) = readers kv - set (waiting_at kv i)"
  by (simp_all add: answered_def kv_killed_def waiting_at_def)

lemma channels_ok_answered: "channels_ok kv \<Longrightarrow> channels_ok (answered kv i cm)"
  unfolding channels_ok_def by (auto simp: disjoint_iff)

lemma answer_clients_eq:
  assumes "channels_ok kv" "\<not> kv_killed kv" "\<not> mucli kv"
  shows "answer_clients kv i cm = Inr (answered kv i cm, True)"
proof (cases "ClientCh kv i")
  case None
  then have "(ClientCh kv)(i := None) = ClientCh kv" by (simp add: fun_upd_idem)
  with None assms(2,3) show ?thesis by (simp add: answer_clients_def answered_def waiting_at_def)
next
  case (Some chs)
  then have "give_clients kv chs cm = Inr (kv\<lparr>readers := readers kv - set chs,
      delivered := delivered kv @ map (\<lambda>ch. (ch, cm)) chs\<rparr>, True)"
    using channels_ok_at [OF assms(1), of i] assms(2) by (intro give_clients_eq) (simp_all add: waiting_at_def)
  with Some assms(2,3) show ?thesis by (simp add: answer_clients_def answered_def waiting_at_def)
qed

text \<open>One committed command: the step on the maps, and everyone waiting for the index gets the result.\<close>

lemma Applier_command:
  assumes "kv_ready kv" "channels_ok kv" "CommandValid msg"
  defines "op \<equiv> msg_Op (MsgCommand msg)"
  shows "\<exists>kv'. Applier kv ks msg = Inr (kv', True) \<and> kv_ready kv' \<and> channels_ok kv' \<and>
    kv_maps kv' = kv_step (kv_maps kv) op \<and> kv_lastApplied kv' = CommandIndex msg \<and> kv_rf kv' = kv_rf kv \<and>
    delivered kv' = delivered kv @
      map (\<lambda>ch. (ch, kv_result (fst (kv_maps kv)) op)) (waiting_at kv (CommandIndex msg)) \<and>
    waiting_at kv' (CommandIndex msg) = [] \<and>
    (\<forall>i. i \<noteq> CommandIndex msg \<longrightarrow> waiting_at kv' i = waiting_at kv i)"
proof -
  let ?i = "CommandIndex msg"
  obtain mp cli where d: "kv_mp kv = Some mp" "kv_CliMap kv = Some cli" "kv_maps kv = (mp, cli)"
    using kv_ready_maps [OF assms(1)] by (cases "kv_maps kv") auto
  obtain mp' cli' where s: "kv_step (mp, cli) op = (mp', cli')" by fastforce
  let ?k = "kv\<lparr>kv_lastApplied := ?i, kv_mp := Some mp', kv_CliMap := Some cli'\<rparr>"
  have a: "apply_command kv msg = Inr (?k, kv_result mp op)"
    using assms(1) s by (simp add: apply_command_def kv_ready_def op_def [symmetric] d apply_Op_eq Let_def)
  have k: "channels_ok ?k" "\<not> kv_killed ?k" "\<not> mucli ?k"
    using assms(1,2) by (auto simp: kv_ready_def kv_killed_def channels_ok_def)
  then have "Applier kv ks msg = Inr (answered ?k ?i (kv_result mp op), True)"
    using assms(3) a answer_clients_eq [OF k] by (simp add: Applier_def)
  moreover have "kv_ready (answered ?k ?i cm)" for cm
    using assms(1) k(2) by (simp add: kv_ready_def)
  moreover have "kv_maps (answered ?k ?i cm) = (mp', cli')" for cm by (simp add: kv_maps_def fun_eq_iff)
  ultimately show ?thesis using s d(3) channels_ok_answered [OF k(1)] by simp
qed

text \<open>The loop of \<^verbatim>\<open>Applier\<close> over a sequence of messages, each with an iteration order.\<close>

primrec Applier_run :: "KVServer \<Rightarrow> (int list \<times> Op ApplyMsg) list \<Rightarrow> KVServer go" where
  "Applier_run kv [] = Inr kv"
| "Applier_run kv (m # ms) =
     bindE (Applier kv (fst m) (snd m)) (\<lambda>(kv, goes_on). if goes_on then Applier_run kv ms else Inr kv)"

definition msg_ops :: "(int list \<times> Op ApplyMsg) list \<Rightarrow> Op list" where
  "msg_ops ms = map (\<lambda>m. msg_Op (MsgCommand (snd m))) ms"

lemma Applier_run_commands:
  "kv_ready kv \<Longrightarrow> channels_ok kv \<Longrightarrow> \<forall>m \<in> set ms. CommandValid (snd m) \<Longrightarrow>
   \<exists>kv'. Applier_run kv ms = Inr kv' \<and> kv_ready kv' \<and> channels_ok kv' \<and>
     kv_maps kv' = foldl kv_step (kv_maps kv) (msg_ops ms) \<and>
     kv_lastApplied kv' = (if ms = [] then kv_lastApplied kv else CommandIndex (snd (last ms))) \<and>
     kv_rf kv' = kv_rf kv"
proof (induction ms arbitrary: kv)
  case Nil
  then show ?case by (simp add: msg_ops_def)
next
  case (Cons m ms)
  obtain kv1 where 1: "Applier kv (fst m) (snd m) = Inr (kv1, True)" "kv_ready kv1" "channels_ok kv1"
    "kv_maps kv1 = kv_step (kv_maps kv) (msg_Op (MsgCommand (snd m)))"
    "kv_lastApplied kv1 = CommandIndex (snd m)" "kv_rf kv1 = kv_rf kv"
    using Applier_command [OF Cons.prems(1,2), of "snd m" "fst m"] Cons.prems(3) by auto
  obtain kv2 where "Applier_run kv1 ms = Inr kv2" "kv_ready kv2" "channels_ok kv2"
    "kv_maps kv2 = foldl kv_step (kv_maps kv1) (msg_ops ms)"
    "kv_lastApplied kv2 = (if ms = [] then kv_lastApplied kv1 else CommandIndex (snd (last ms)))"
    "kv_rf kv2 = kv_rf kv1"
    using Cons.IH [OF 1(2,3)] Cons.prems(3) by auto
  with 1 show ?case by (simp add: msg_ops_def)
qed


subsection \<open>Registering a handler\<close>

lemma register_ch_effect:
  assumes "channels_ok kv" "register_ch kv i = (kv', ch)"
  shows "channels_ok kv'" "ch = nextCh kv" "waiting_at kv' j = (if j = i then waiting_at kv i @ [ch] else waiting_at kv j)"
    "kv_ready kv' = kv_ready kv" "kv_maps kv' = kv_maps kv" "delivered kv' = delivered kv" "kv_rf kv' = kv_rf kv"
proof -
  have e: "kv' = kv\<lparr>nextCh := nextCh kv + 1, readers := insert (nextCh kv) (readers kv),
      ClientCh := (ClientCh kv)(i \<mapsto> waiting_at kv i @ [nextCh kv])\<rparr>" and ch: "ch = nextCh kv"
    using assms(2) by (cases "ClientCh kv i"; simp add: register_ch_def Let_def waiting_at_def)+
  have w: "waiting_at kv' j = (if j = i then waiting_at kv i @ [ch] else waiting_at kv j)" for j
    unfolding e ch by (simp add: waiting_at_def)
  then show "waiting_at kv' j = (if j = i then waiting_at kv i @ [ch] else waiting_at kv j)" .
  show "ch = nextCh kv" by fact
  have n: "nextCh kv \<notin> set (waiting_at kv k)" for k using channels_ok_at [OF assms(1), of k] assms(1) unfolding channels_ok_def by blast
  have c: "distinct (waiting_at kv k)" "set (waiting_at kv k) \<subseteq> readers kv"
    "k \<noteq> k' \<Longrightarrow> set (waiting_at kv k) \<inter> set (waiting_at kv k') = {}"
    "ch' \<in> readers kv \<Longrightarrow> ch' < nextCh kv" for k k' ch'
    using assms(1) unfolding channels_ok_def by blast+
  have rd: "readers kv' = insert ch (readers kv)" "nextCh kv' = Suc (nextCh kv)" by (simp_all add: e ch)
  show "channels_ok kv'" unfolding channels_ok_def
  proof (intro conjI allI impI)
    show "distinct (waiting_at kv' k)" for k using c(1) n by (simp add: w ch)
    show "set (waiting_at kv' k) \<subseteq> readers kv'" for k using c(2) [of k] by (auto simp: w rd)
    show "set (waiting_at kv' k) \<inter> set (waiting_at kv' k') = {}" if "k \<noteq> k'" for k k'
      using c(3) [OF that] n [of k] n [of k'] that by (auto simp: w ch)
    show "\<forall>ch' \<in> readers kv'. ch' < nextCh kv'" using c(4) by (auto simp: rd ch less_Suc_eq)
  qed
  show "kv_ready kv' = kv_ready kv" "kv_maps kv' = kv_maps kv" "delivered kv' = delivered kv" "kv_rf kv' = kv_rf kv"
    by (simp_all add: e kv_ready_def kv_maps_def kv_killed_def)
qed

subsection \<open>Servers at work\<close>

text \<open>
  The states of a server between its start, from any persister, and its \<^verbatim>\<open>Kill\<close>, as long as no
  snapshot is installed: handlers submit commands and register, committed commands are
  applied, snapshots are taken, and Raft changes its own state.
\<close>

inductive serving :: "KVServer \<Rightarrow> bool" where
  started: "StartKVServer r n i ps mx = Inr kv \<Longrightarrow> serving kv"
| get_submits: "serving kv \<Longrightarrow> Get_submit kv gargs = Inr (kv', gres) \<Longrightarrow> serving kv'"
| get_registers: "serving kv \<Longrightarrow> Get_register kv gargs j = Inr (kv', gch) \<Longrightarrow> serving kv'"
| put_submits: "serving kv \<Longrightarrow> PutAppend_submit kv pargs = Inr (kv', pres) \<Longrightarrow> serving kv'"
| put_registers: "serving kv \<Longrightarrow> PutAppend_register kv pargs j = Inr (kv', pch) \<Longrightarrow> serving kv'"
| applies: "serving kv \<Longrightarrow> CommandValid msg \<Longrightarrow> Applier kv ks msg = Inr (kv', b) \<Longrightarrow> serving kv'"
| snapshots: "serving kv \<Longrightarrow> take_snapshot bytelen kv = Inr (kv', ss) \<Longrightarrow> serving kv'"
| raft_steps: "serving kv \<Longrightarrow> serving (kv\<lparr>kv_rf := rf\<rparr>)"

lemma kv_ready_raft [simp]: "kv_ready (kv\<lparr>kv_rf := rf\<rparr>) = kv_ready kv" "channels_ok (kv\<lparr>kv_rf := rf\<rparr>) = channels_ok kv"
  by (simp_all add: kv_ready_def kv_killed_def channels_ok_def waiting_at_def)

lemma registered:
  "Get_register kv gargs j = Inr (kv', gch) \<Longrightarrow> kv' = kv \<or> kv' = fst (register_ch kv j)"
  "PutAppend_register kv pargs j = Inr (kv', pch) \<Longrightarrow> kv' = kv \<or> kv' = fst (register_ch kv j)"
  by (auto simp: Get_register_def PutAppend_register_def Let_def split: option.splits if_splits prod.splits)

lemma readSnap_ok: "kv_ready kv \<Longrightarrow> channels_ok kv \<Longrightarrow> kv_ready (readSnap kv d) \<and> channels_ok (readSnap kv d)"
  by (auto simp: readSnap_def Let_def kv_ready_def kv_killed_def channels_ok_def)

lemma serving_ok: "serving kv \<Longrightarrow> kv_ready kv \<and> channels_ok kv"
proof (induction rule: serving.induct)
  case (started r n i ps mx kv)
  then obtain raft d where kv: "kv = readSnap \<lparr>kv_me = i, kv_rf = raft, kv_dead = 0, maxraftstate = mx,
      kv_mp = Some Map.empty, ClientCh = Map.empty, mucli = False, kv_CliMap = Some Map.empty, kv_lastApplied = 0,
      mumap = False, nextCh = 0, readers = {}, delivered = []\<rparr> d"
    by (auto simp: StartKVServer_def bindE_eq_Inr Let_def)
  show ?case unfolding kv
    by (rule readSnap_ok) (simp_all add: kv_ready_def kv_killed_def channels_ok_def waiting_at_def)
next
  case (get_registers kv gargs j kv' gch)
  then show ?case using registered(1) register_ch_effect(1,4) [of kv j] by (metis prod.collapse)
next
  case (put_registers kv pargs j kv' pch)
  then show ?case using registered(2) register_ch_effect(1,4) [of kv j] by (metis prod.collapse)
next
  case (applies kv msg ks kv' b)
  then show ?case using Applier_command [of kv msg ks] by auto
next
  case (snapshots kv bytelen kv' ss)
  then show ?case by (auto simp: take_snapshot_def kv_ready_def Let_def split: if_splits)
qed (auto simp: Get_submit_def PutAppend_submit_def Let_def bindE_eq_Inr split: if_splits)

subsection \<open>Installing a snapshot\<close>

definition discarded :: "KVServer \<Rightarrow> int \<Rightarrow> int list \<Rightarrow> nat list" where
  "discarded kv i ks = concat (map (\<lambda>k. if k \<le> i then waiting_at kv k else []) ks)"

lemma discard_clients_eq:
  assumes "distinct ks"
    and "\<forall>k. distinct (waiting_at kv k)"
    and "\<forall>k \<in> set ks. k \<le> i \<longrightarrow> set (waiting_at kv k) \<subseteq> readers kv"
    and "\<forall>k k'. k \<noteq> k' \<longrightarrow> set (waiting_at kv k) \<inter> set (waiting_at kv k') = {}"
  shows "discard_clients kv ks i =
    Inr (kv\<lparr>readers := readers kv - set (discarded kv i ks),
            delivered := delivered kv @ map (\<lambda>ch. (ch, snapshot_Op)) (discarded kv i ks)\<rparr>)"
  using assms
proof (induction ks arbitrary: kv)
  case (Cons k ks)
  show ?case
  proof (cases "k \<le> i")
    case False
    with Cons show ?thesis by (simp add: discarded_def)
  next
    case True
    let ?kv = "kv\<lparr>readers := readers kv - set (waiting_at kv k),
        delivered := delivered kv @ map (\<lambda>ch. (ch, snapshot_Op)) (waiting_at kv k)\<rparr>"
    have "send_all kv (waiting_at kv k) snapshot_Op = Inr ?kv"
      using Cons.prems True by (intro send_all_eq) auto
    then have 1: "(case ClientCh kv k of Some v \<Rightarrow> send_all kv v snapshot_Op | None \<Rightarrow> Inr kv) = Inr ?kv"
      by (cases "ClientCh kv k") (simp_all add: waiting_at_def)
    have d: "discarded ?kv i ks = discarded kv i ks" by (simp add: discarded_def cong: if_cong)
    have "discard_clients ?kv ks i = Inr (?kv\<lparr>readers := readers ?kv - set (discarded ?kv i ks),
        delivered := delivered ?kv @ map (\<lambda>ch. (ch, snapshot_Op)) (discarded ?kv i ks)\<rparr>)"
    proof (rule Cons.IH)
      show "\<forall>k' \<in> set ks. k' \<le> i \<longrightarrow> set (waiting_at ?kv k') \<subseteq> readers ?kv"
      proof (intro ballI impI)
        fix k' assume k': "k' \<in> set ks" "k' \<le> i"
        then have "k' \<noteq> k" "set (waiting_at kv k') \<subseteq> readers kv" using Cons.prems(1,3) by auto
        moreover have "set (waiting_at kv k') \<inter> set (waiting_at kv k) = {}"
          using Cons.prems(4) \<open>k' \<noteq> k\<close> by blast
        ultimately show "set (waiting_at ?kv k') \<subseteq> readers ?kv" by auto
      qed
    qed (use Cons.prems in simp_all)
    moreover have "readers kv - set (waiting_at kv k) - set (discarded kv i ks) = readers kv - set (discarded kv i (k # ks))"
      using True by (auto simp: discarded_def)
    ultimately show ?thesis using True 1 unfolding d by (simp add: discarded_def)
  qed
qed (simp add: discarded_def)

lemma install_snapshot_effect:
  assumes "channels_ok kv" "\<not> mucli kv" "distinct ks" "Mp (read_snapshot sn) \<noteq> None" "CliMap (read_snapshot sn) \<noteq> None"
  shows "\<exists>kv'. install_snapshot kv ks sn = Inr kv' \<and> kv_mp kv' = Mp (read_snapshot sn) \<and>
    kv_CliMap kv' = CliMap (read_snapshot sn) \<and>
    kv_lastApplied kv' = max (kv_lastApplied kv) (LastIndex (read_snapshot sn)) \<and>
    ClientCh kv' = ClientCh kv \<and> readers kv' = readers kv - set (discarded kv (LastIndex (read_snapshot sn)) ks) \<and>
    kv_dead kv' = kv_dead kv \<and> mumap kv' = mumap kv \<and> mucli kv' = mucli kv"
proof -
  let ?s = "read_snapshot sn"
  let ?kv = "kv\<lparr>kv_mp := Mp ?s, kv_CliMap := CliMap ?s, kv_lastApplied := max (kv_lastApplied kv) (LastIndex ?s)\<rparr>"
  have e: "(if LastIndex ?s > kv_lastApplied (kv\<lparr>kv_mp := Mp ?s, kv_CliMap := CliMap ?s\<rparr>)
      then (kv\<lparr>kv_mp := Mp ?s, kv_CliMap := CliMap ?s\<rparr>)\<lparr>kv_lastApplied := LastIndex ?s\<rparr>
      else kv\<lparr>kv_mp := Mp ?s, kv_CliMap := CliMap ?s\<rparr>) = ?kv"
    by (auto simp: max_def)
  have "discard_clients ?kv ks (LastIndex ?s) = Inr (?kv\<lparr>readers := readers ?kv - set (discarded ?kv (LastIndex ?s) ks),
            delivered := delivered ?kv @ map (\<lambda>ch. (ch, snapshot_Op)) (discarded ?kv (LastIndex ?s) ks)\<rparr>)"
    using assms(1,3) by (intro discard_clients_eq) (auto simp: channels_ok_def)
  then have "install_snapshot kv ks sn = Inr (?kv\<lparr>readers := readers ?kv - set (discarded ?kv (LastIndex ?s) ks),
            delivered := delivered ?kv @ map (\<lambda>ch. (ch, snapshot_Op)) (discarded ?kv (LastIndex ?s) ks)\<rparr>)"
    using assms(2) unfolding install_snapshot_def Let_def e by simp
  then show ?thesis by (simp add: discarded_def cong: if_cong)
qed

subsection \<open>Taking a snapshot and restarting from it\<close>

lemma take_snapshot_eq:
  assumes "kv_ready kv" "snapshot_due bytelen kv"
  shows "take_snapshot bytelen kv =
    Inr (kv, Some \<lparr>Mp = kv_mp kv, LastIndex = kv_lastApplied kv, LastTerm = 0, CliMap = kv_CliMap kv\<rparr>)"
  using assms by (simp add: take_snapshot_def kv_ready_def copy_map_def Let_def map_get_Some_iff)

lemma snapshot_restart:
  assumes kv: "kv_ready kv" and wf: "raft_wf (kv_rf kv)"
    and i: "snapshotIndex (kv_rf kv) < kv_lastApplied kv" "kv_lastApplied kv \<le> lastIndex (kv_rf kv)"
    and save: "save_snapshot kv \<lparr>Mp = kv_mp kv, LastIndex = kv_lastApplied kv, LastTerm = 0, CliMap = kv_CliMap kv\<rparr> = Inr kv1"
  shows "\<exists>kv2. StartKVServer r (peers (kv_rf kv)) (me (kv_rf kv)) (persister (kv_rf kv1)) mx = Inr kv2 \<and>
    kv_mp kv2 = kv_mp kv \<and> kv_CliMap kv2 = kv_CliMap kv \<and> kv_lastApplied kv2 = kv_lastApplied kv \<and>
    snapshotIndex (kv_rf kv2) = kv_lastApplied kv \<and> commitIndex (kv_rf kv2) = kv_lastApplied kv \<and>
    lastIndex (kv_rf kv2) = lastIndex (kv_rf kv) \<and>
    (\<forall>j. kv_lastApplied kv < j \<longrightarrow> entry_at (kv_rf kv2) j = entry_at (kv_rf kv) j) \<and>
    kv_ready kv2 \<and> channels_ok kv2"
proof -
  let ?ss = "\<lparr>Mp = kv_mp kv, LastIndex = kv_lastApplied kv, LastTerm = 0, CliMap = kv_CliMap kv\<rparr>"
  obtain r1 :: "Op Raft" and e :: "Op Log" where r1: "persistV2 (kv_rf kv) ?ss = Inr r1" "persisted r1"
    "read_snapshot (snapshot (persister r1)) = ?ss\<lparr>LastTerm := Term e\<rparr>" "lastIndex r1 = lastIndex (kv_rf kv)"
    "snapshotIndex r1 = kv_lastApplied kv"
    "\<forall>j. kv_lastApplied kv < j \<longrightarrow> entry_at r1 j = entry_at (kv_rf kv) j"
    using persistV2_effect [OF wf, of ?ss] i by simp blast
  have kv1: "kv_rf kv1 = r1" using save r1(1) by (simp add: save_snapshot_def bindE_eq_Inr) auto
  have ne: "log r1 \<noteq> []" using r1(4,5) i(2) by (auto simp: lastIndex_def)
  have saved: "raftstate (persister r1) = encode_state (currentTerm r1) (votedFor r1) (log r1)"
    using r1(2) by (simp add: persisted_def)
  obtain r2 where r2: "Make r (peers (kv_rf kv)) (me (kv_rf kv)) (persister r1) = Inr r2"
    using Make_returns [OF saved, of "me (kv_rf kv)" "peers (kv_rf kv)" r] wf by (auto simp: raft_wf_def)
  note m = Make_effect [OF r2 saved]
  have l: "log r2 = log r1" "snapshotIndex r2 = snapshotIndex r1" "commitIndex r2 = snapshotIndex r2"
    "snapshot (persister r2) = snapshot (persister r1)"
    using m ne r1(3,5) by simp_all
  have "lastIndex r2 = lastIndex r1" "entry_at r2 j = entry_at r1 j" for j
    using l by (simp_all add: lastIndex_def entry_at_def)
  moreover have "kv_mp kv \<noteq> None" "kv_CliMap kv \<noteq> None" using kv by (simp_all add: kv_ready_def)
  ultimately show ?thesis using r1 l r2
    by (auto simp: StartKVServer_def kv1 readSnap_def ReadSnapshot_def Let_def kv_ready_def channels_ok_def
        waiting_at_def kv_killed_def lastIndex_def entry_at_def)
qed


end
