(* ===== verification/Kv_Clerk.thy ===== *)
theory Kv_Clerk
  imports Kv_Server
begin

section \<open>The key/value service: the clerk\<close>

text \<open>
  Models \<^verbatim>\<open>src/kvraft/client.go\<close>: a clerk numbers its requests and repeats each one, moving on
  to the next server when the one it asked is not the leader, until a server answers. What
  the network and the servers do is the argument \<open>net\<close>: what \<^verbatim>\<open>Call\<close> returns at each attempt for the
  server asked. The loop has no bound in the code; here it has fuel, and \<open>None\<close> means that it
  is still trying after that many attempts. The reply variable is one for all attempts: a
  decoder leaves a field alone when the value sent for it is the zero value.
\<close>

subsection \<open>The data\<close>

record Clerk =
  ck_servers :: nat             \<comment> \<open>\<^verbatim>\<open>len(ck.servers)\<close>\<close>
  ck_number :: int
  ck_leader :: int
  ck_me :: int

text \<open>\<^verbatim>\<open>MakeClerk\<close> with the counter \<^verbatim>\<open>id\<close> of the package before and after.\<close>

definition MakeClerk :: "int \<Rightarrow> nat \<Rightarrow> int \<times> Clerk" where
  "MakeClerk ident n =
     (let ident = ident + 1
      in (ident, \<lparr>ck_servers = n, ck_number = 0, ck_leader = 0, ck_me = ident - 1\<rparr>))"

definition decode_field :: "string \<Rightarrow> string \<Rightarrow> string" where
  "decode_field old sent = (if sent = '''' then old else sent)"

definition decode_GetReply :: "GetReply \<Rightarrow> GetReply \<Rightarrow> GetReply" where
  "decode_GetReply reply sent =
     \<lparr>gr_Err = decode_field (gr_Err reply) (gr_Err sent),
      gr_Value = decode_field (gr_Value reply) (gr_Value sent)\<rparr>"

definition decode_PutAppendReply :: "PutAppendReply \<Rightarrow> PutAppendReply \<Rightarrow> PutAppendReply" where
  "decode_PutAppendReply reply sent = \<lparr>pr_Err = decode_field (pr_Err reply) (pr_Err sent)\<rparr>"

subsection \<open>Get\<close>

fun Get_loop ::
  "(nat \<Rightarrow> int \<Rightarrow> bool \<times> GetReply) \<Rightarrow> nat \<Rightarrow> nat \<Rightarrow> int \<Rightarrow> GetReply \<Rightarrow> nat \<Rightarrow> (int \<times> string) option go" where
  "Get_loop net n k l reply 0 = Inr None"
| "Get_loop net n k l reply (Suc fuel) =
     (if \<not> (0 \<le> l \<and> l < int n) then Inl IndexOutOfRange
      else
        let (ok, sent) = net k l;
            reply = (if ok then decode_GetReply reply sent else reply)
        in
        if \<not> ok \<or> gr_Err reply = ''ErrWrongLeader'' \<or> gr_Err reply = ''command fail'' then
          Get_loop net n (k + 1) ((l + 1) mod int n) reply fuel
        else if ok \<and> gr_Err reply = ''ErrNoKey'' then Inr (Some (l, ''''))
        else if ok \<and> gr_Err reply = ''OK'' then Inr (Some (l, gr_Value reply))
        else Get_loop net n (k + 1) l reply fuel)"

definition Clerk_Get ::
  "(GetArgs \<Rightarrow> nat \<Rightarrow> int \<Rightarrow> bool \<times> GetReply) \<Rightarrow> nat \<Rightarrow> Clerk \<Rightarrow> string \<Rightarrow> (Clerk \<times> string option) go" where
  "Clerk_Get net fuel ck key =
     (let ck = ck\<lparr>ck_number := ck_number ck + 1\<rparr>;
          arg = \<lparr>ga_Key = key, ga_Num = ck_number ck, ga_ClientId = ck_me ck\<rparr>
      in
      bindE (Get_loop (net arg) (ck_servers ck) 0 (ck_leader ck) zero_GetReply fuel) (\<lambda>res.
      case res of
        None \<Rightarrow> Inr (ck, None)
      | Some (l, v) \<Rightarrow> Inr (ck\<lparr>ck_leader := l\<rparr>, Some v)))"

subsection \<open>Put and Append\<close>

fun PutAppend_loop ::
  "(nat \<Rightarrow> int \<Rightarrow> bool \<times> PutAppendReply) \<Rightarrow> nat \<Rightarrow> nat \<Rightarrow> int \<Rightarrow> PutAppendReply \<Rightarrow> nat \<Rightarrow> int option go" where
  "PutAppend_loop net n k l reply 0 = Inr None"
| "PutAppend_loop net n k l reply (Suc fuel) =
     (if \<not> (0 \<le> l \<and> l < int n) then Inl IndexOutOfRange
      else
        let (ok, sent) = net k l;
            reply = (if ok then decode_PutAppendReply reply sent else reply)
        in
        if \<not> ok \<or> pr_Err reply = ''ErrWrongLeader'' then
          PutAppend_loop net n (k + 1) ((l + 1) mod int n) reply fuel
        else if pr_Err reply = ''command fail'' then
          PutAppend_loop net n (k + 1) ((l + 1) mod int n) reply fuel
        else if pr_Err reply = ''Already'' then Inr (Some l)
        else if ok \<and> pr_Err reply = ''OK'' then Inr (Some l)
        else PutAppend_loop net n (k + 1) l reply fuel)"

definition Clerk_PutAppend ::
  "(PutAppendArgs \<Rightarrow> nat \<Rightarrow> int \<Rightarrow> bool \<times> PutAppendReply) \<Rightarrow> nat \<Rightarrow> Clerk \<Rightarrow> string \<Rightarrow> string \<Rightarrow> string
     \<Rightarrow> (Clerk \<times> bool) go" where
  "Clerk_PutAppend net fuel ck key val opr =
     (let ck = ck\<lparr>ck_number := ck_number ck + 1\<rparr>;
          arg = \<lparr>pa_Key = key, pa_Value = val, pa_Op = opr, pa_Num = ck_number ck, pa_ClientId = ck_me ck\<rparr>
      in
      bindE (PutAppend_loop (net arg) (ck_servers ck) 0 (ck_leader ck) zero_PutAppendReply fuel) (\<lambda>res.
      case res of
        None \<Rightarrow> Inr (ck, False)
      | Some l \<Rightarrow> Inr (ck\<lparr>ck_leader := l\<rparr>, True)))"

definition Clerk_Put where
  "Clerk_Put net fuel ck key val = Clerk_PutAppend net fuel ck key val ''Put''"

definition Clerk_Append where
  "Clerk_Append net fuel ck key val = Clerk_PutAppend net fuel ck key val ''Append''"

subsection \<open>Rotation\<close>

text \<open>
  The two loops search the servers in a ring. The interface of such a search: an attempt at
  server \<open>l\<close> ends it with a result or moves on to the next server. Its client lemma: a
  server that always ends the search is found within one round.
\<close>

locale ring_search =
  fixes search :: "nat \<Rightarrow> int \<Rightarrow> 'r \<Rightarrow> nat \<Rightarrow> 'a option go"
    and n :: nat
    and moves_on :: "nat \<Rightarrow> int \<Rightarrow> 'r \<Rightarrow> 'r \<Rightarrow> bool"
    and found :: "nat \<Rightarrow> int \<Rightarrow> 'r \<Rightarrow> 'a \<Rightarrow> bool"
  assumes search_moves: "0 \<le> l \<Longrightarrow> l < int n \<Longrightarrow> moves_on k l r r' \<Longrightarrow>
      search k l r (Suc fuel) = search (k + 1) ((l + 1) mod int n) r' fuel"
    and search_found: "0 \<le> l \<Longrightarrow> l < int n \<Longrightarrow> found k l r a \<Longrightarrow> search k l r (Suc fuel) = Inr (Some a)"
begin

lemma search_ring:
  assumes "0 \<le> l" "l < int n" "0 \<le> s" "s < int n"
    and move: "\<And>k l r. 0 \<le> l \<Longrightarrow> l < int n \<Longrightarrow> l \<noteq> s \<Longrightarrow> \<exists>r'. moves_on k l r r'"
    and stop: "\<And>k r. \<exists>a. found k s r a \<and> P a"
    and fuel: "(s - l) mod int n < int fuel"
  shows "\<exists>a. search k l r fuel = Inr (Some a) \<and> P a"
  using assms(1,2) fuel
proof (induction fuel arbitrary: k l r)
  case 0
  have "0 \<le> (s - l) mod int n" using assms(3,4) by (intro pos_mod_sign) linarith
  with 0 show ?case by linarith
next
  case (Suc fuel)
  show ?case
  proof (cases "l = s")
    case True
    then show ?thesis using stop search_found [OF Suc.prems(1,2)] by metis
  next
    case False
    obtain r' where m: "moves_on k l r r'" using move [OF Suc.prems(1,2) False] by blast
    let ?l = "(l + 1) mod int n"
    have n: "0 < int n" using assms(3,4) by linarith
    have "(s - l) mod int n \<noteq> 0"
    proof
      assume "(s - l) mod int n = 0"
      then have "int n dvd (s - l)" by (simp add: mod_eq_0_iff_dvd)
      moreover have "abs (s - l) < int n" using Suc.prems(1,2) assms(3,4) by linarith
      ultimately show False using False zdvd_imp_le [of "int n" "abs (s - l)"] by force
    qed
    moreover have "(s - ?l) mod int n = ((s - l) mod int n - 1) mod int n"
      by (simp add: mod_simps algebra_simps)
    moreover have "0 \<le> (s - l) mod int n" "(s - l) mod int n < int n" using n by simp_all
    ultimately have "(s - ?l) mod int n = (s - l) mod int n - 1" by (simp add: mod_pos_pos_trivial)
    then have "(s - ?l) mod int n < int fuel" using Suc.prems(3) by linarith
    then show ?thesis using Suc.IH [of ?l "k + 1" r'] n search_moves [OF Suc.prems(1,2) m] by simp
  qed
qed

end

text \<open>What makes \<^verbatim>\<open>Get\<close> move on and what ends it, and the same for \<^verbatim>\<open>PutAppend\<close>.\<close>

definition get_moves :: "(nat \<Rightarrow> int \<Rightarrow> bool \<times> GetReply) \<Rightarrow> nat \<Rightarrow> int \<Rightarrow> GetReply \<Rightarrow> GetReply \<Rightarrow> bool" where
  "get_moves net k l r r' =
     (let (ok, sent) = net k l in
      r' = (if ok then decode_GetReply r sent else r) \<and>
      (\<not> ok \<or> gr_Err sent = ''ErrWrongLeader'' \<or> gr_Err sent = ''command fail''))"

definition get_found :: "(nat \<Rightarrow> int \<Rightarrow> bool \<times> GetReply) \<Rightarrow> nat \<Rightarrow> int \<Rightarrow> GetReply \<Rightarrow> int \<times> string \<Rightarrow> bool" where
  "get_found net k l r a =
     (let (ok, sent) = net k l in
      ok \<and> (gr_Err sent = ''OK'' \<and> a = (l, gr_Value (decode_GetReply r sent)) \<or>
            gr_Err sent = ''ErrNoKey'' \<and> a = (l, '''')))"

definition put_moves :: "(nat \<Rightarrow> int \<Rightarrow> bool \<times> PutAppendReply) \<Rightarrow> nat \<Rightarrow> int \<Rightarrow> PutAppendReply \<Rightarrow> PutAppendReply \<Rightarrow> bool" where
  "put_moves net k l r r' =
     (let (ok, sent) = net k l in
      r' = (if ok then decode_PutAppendReply r sent else r) \<and>
      (\<not> ok \<or> pr_Err sent = ''ErrWrongLeader'' \<or> pr_Err sent = ''command fail''))"

definition put_found :: "(nat \<Rightarrow> int \<Rightarrow> bool \<times> PutAppendReply) \<Rightarrow> nat \<Rightarrow> int \<Rightarrow> PutAppendReply \<Rightarrow> int \<Rightarrow> bool" where
  "put_found net k l r a = (let (ok, sent) = net k l in ok \<and> pr_Err sent = ''OK'' \<and> a = l)"

interpretation get_ring: ring_search "Get_loop net n" n "get_moves net" "get_found net" for net n
  by unfold_locales
    (auto simp: get_moves_def get_found_def decode_GetReply_def decode_field_def Let_def split: prod.splits)

interpretation put_ring: ring_search "PutAppend_loop net n" n "put_moves net" "put_found net" for net n
  by unfold_locales
    (auto simp: put_moves_def put_found_def decode_PutAppendReply_def decode_field_def Let_def split: prod.splits)

end
