(* ===== verification/Porcupine_Model.thy ===== *)
theory Porcupine_Model
  imports Prelude
begin

section \<open>The linearizability checker: histories and models\<close>

text \<open>
  Models \<^verbatim>\<open>src/porcupine/model.go\<close>. The \<^verbatim>\<open>interface{}\<close> values of a history are the inputs
  and outputs of its operations; a value used as the other kind fails the type assertion in
  the model's \<^verbatim>\<open>Step\<close>. A function field of \<^verbatim>\<open>Model\<close> that may be \<^verbatim>\<open>nil\<close> is an option. The two
  fields that describe operations and states in words are arguments of the definitions of the theory \<open>Porcupine_Visual\<close>.
\<close>

record ('i, 'o) Operation =
  ClientId :: int
  Input :: 'i
  Call :: int
  Output :: 'o
  Return :: int

datatype ('i, 'o) anyval = InputValue 'i | OutputValue 'o

datatype EventKind = CallEvent | ReturnEvent

record ('i, 'o) Event =
  ev_ClientId :: int
  ev_Kind :: EventKind
  ev_Value :: "('i, 'o) anyval"
  ev_Id :: int

record ('s, 'i, 'o) Model =
  Partition :: "(('i, 'o) Operation list \<Rightarrow> ('i, 'o) Operation list list) option"
  PartitionEvent :: "(('i, 'o) Event list \<Rightarrow> ('i, 'o) Event list list) option"
  Init :: 's
  Step :: "'s \<Rightarrow> 'i \<Rightarrow> 'o \<Rightarrow> bool \<times> 's"
  Equal :: "('s \<Rightarrow> 's \<Rightarrow> bool) option"

definition NoPartition :: "('i, 'o) Operation list \<Rightarrow> ('i, 'o) Operation list list" where
  "NoPartition history = [history]"

definition NoPartitionEvent :: "('i, 'o) Event list \<Rightarrow> ('i, 'o) Event list list" where
  "NoPartitionEvent history = [history]"

definition ShallowEqual :: "'s \<Rightarrow> 's \<Rightarrow> bool" where
  "ShallowEqual state1 state2 = (state1 = state2)"

datatype CheckResult = Unknown | Ok | Illegal

text \<open>\<^verbatim>\<open>fillDefault\<close>, and the fields it leaves defined.\<close>

definition fillDefault :: "('s, 'i, 'o) Model \<Rightarrow> ('s, 'i, 'o) Model" where
  "fillDefault model =
     (let model = (if Partition model = None then model\<lparr>Partition := Some NoPartition\<rparr> else model);
          model = (if PartitionEvent model = None then model\<lparr>PartitionEvent := Some NoPartitionEvent\<rparr> else model)
      in (if Equal model = None then model\<lparr>Equal := Some ShallowEqual\<rparr> else model))"

text \<open>
  The default descriptions, with what the format \<^verbatim>\<open>%v\<close> writes for a value as an argument, and the last two tests of \<^verbatim>\<open>fillDefault\<close>,
  for the fields that describe.
\<close>

definition DefaultDescribeOperation :: "('i \<Rightarrow> string) \<Rightarrow> ('o \<Rightarrow> string) \<Rightarrow> 'i \<Rightarrow> 'o \<Rightarrow> string" where
  "DefaultDescribeOperation show_i show_o inp out = show_i inp @ '' -> '' @ show_o out"

definition DefaultDescribeState :: "('s \<Rightarrow> string) \<Rightarrow> 's \<Rightarrow> string" where
  "DefaultDescribeState show_s state = show_s state"

definition fill_describe :: "'d \<Rightarrow> 'd option \<Rightarrow> 'd" where
  "fill_describe default_describe d = (if d = None then default_describe else the d)"

end
