(* ===== verification/Kv_Model.thy ===== *)
theory Kv_Model
  imports Porcupine_Model "HOL-Library.List_Lexorder" "HOL-Library.Char_ord"
begin

section \<open>The sequential key/value model\<close>

text \<open>
  Models \<^verbatim>\<open>src/models/kv.go\<close>, the specification that the tests check the service's histories
  against: the history is partitioned by key, and the state of one key is its value, the
  empty string at first.
\<close>

record KvInput =
  kv_Op :: int                  \<comment> \<open>0: get, 1: put, 2: append\<close>
  kv_Key :: string
  kv_Value :: string

record KvOutput =
  kvo_Value :: string

type_synonym kv_operation = "(KvInput, KvOutput) Operation"

text \<open>The map from keys to the operations on them, in the order of the history.\<close>

definition by_key :: "kv_operation list \<Rightarrow> string \<rightharpoonup> kv_operation list" where
  "by_key history =
     foldl (\<lambda>m v. let key = kv_Key (Input v) in
              m(key \<mapsto> (case m key of None \<Rightarrow> [] | Some ops \<Rightarrow> ops) @ [v]))
       Map.empty history"

text \<open>
  \<^verbatim>\<open>range m\<close> visits every key of the map once in some order and \<^verbatim>\<open>sort.Strings\<close> puts them in
  order, so the keys that come out are the sorted distinct keys of the history.
\<close>

definition KvModel_Partition :: "kv_operation list \<Rightarrow> kv_operation list list" where
  "KvModel_Partition history =
     (let m = by_key history;
          keys = sort (remdups (map (\<lambda>v. kv_Key (Input v)) history))
      in map (\<lambda>k. case m k of None \<Rightarrow> [] | Some ops \<Rightarrow> ops) keys)"

definition KvModel_Init :: string where
  "KvModel_Init = ''''"

definition KvModel_Step :: "string \<Rightarrow> KvInput \<Rightarrow> KvOutput \<Rightarrow> bool \<times> string" where
  "KvModel_Step st inp out =
     (if kv_Op inp = 0 then (kvo_Value out = st, st)
      else if kv_Op inp = 1 then (True, kv_Value inp)
      else (True, st @ kv_Value inp))"

definition KvModel :: "(string, KvInput, KvOutput) Model" where
  "KvModel =
     \<lparr>Partition = Some KvModel_Partition, PartitionEvent = None, Init = KvModel_Init, Step = KvModel_Step,
      Equal = None\<rparr>"

subsection \<open>What the partition is\<close>

lemma by_key_filter:
  "(case by_key history k of None \<Rightarrow> [] | Some ops \<Rightarrow> ops) = filter (\<lambda>v. kv_Key (Input v) = k) history"
proof (induction history rule: rev_induct)
  case Nil
  then show ?case by (simp add: by_key_def)
next
  case (snoc v history)
  have "by_key (history @ [v]) =
    (by_key history)(kv_Key (Input v) \<mapsto> (case by_key history (kv_Key (Input v)) of None \<Rightarrow> [] | Some ops \<Rightarrow> ops) @ [v])"
    by (simp add: by_key_def Let_def)
  with snoc show ?case by auto
qed

lemma KvModel_Partition_eq:
  "KvModel_Partition history =
     map (\<lambda>k. filter (\<lambda>v. kv_Key (Input v) = k) history) (sort (remdups (map (\<lambda>v. kv_Key (Input v)) history)))"
  by (simp add: KvModel_Partition_def by_key_filter Let_def)

subsection \<open>Descriptions\<close>

text \<open>A string between single quotes, as the formats have them.\<close>

definition quoted :: "string \<Rightarrow> string" where
  "quoted s = CHR 0x27 # s @ [CHR 0x27]"

definition KvModel_DescribeOperation :: "KvInput \<Rightarrow> KvOutput \<Rightarrow> string" where
  "KvModel_DescribeOperation inp out =
     (if kv_Op inp = 0 then ''get('' @ quoted (kv_Key inp) @ '') -> '' @ quoted (kvo_Value out)
      else if kv_Op inp = 1 then ''put('' @ quoted (kv_Key inp) @ '', '' @ quoted (kv_Value inp) @ '')''
      else if kv_Op inp = 2 then ''append('' @ quoted (kv_Key inp) @ '', '' @ quoted (kv_Value inp) @ '')''
      else ''<invalid>'')"

text \<open>Without quotes in keys and values a description tells the operation, its key and its value.\<close>

lemma quoted_append:
  assumes "quoted s @ xs = quoted t @ ys" "CHR 0x27 \<notin> set s" "CHR 0x27 \<notin> set t"
  shows "s = t \<and> xs = ys"
  using dash_split [of s "CHR 0x27" xs t ys] assms by (simp add: quoted_def)

lemma KvModel_DescribeOperation_inject:
  assumes "KvModel_DescribeOperation inp out = KvModel_DescribeOperation inp' out'"
    and "kv_Op inp \<in> {0, 1, 2}" "kv_Op inp' \<in> {0, 1, 2}"
    and q: "\<And>x. x \<in> {kv_Key inp, kv_Value inp, kvo_Value out, kv_Key inp', kv_Value inp', kvo_Value out'} \<Longrightarrow> CHR 0x27 \<notin> set x"
  shows "kv_Op inp = kv_Op inp' \<and> kv_Key inp = kv_Key inp' \<and>
    (if kv_Op inp = 0 then kvo_Value out = kvo_Value out' else kv_Value inp = kv_Value inp')"
proof -
  have op: "kv_Op inp = kv_Op inp'"
    using assms(1-3) by (auto simp: KvModel_DescribeOperation_def)
  have same: "s = s' \<and> v = v'" if "quoted s @ xs @ quoted v @ ys = quoted s' @ xs @ quoted v' @ ys"
    "CHR 0x27 \<notin> set s" "CHR 0x27 \<notin> set s'" "CHR 0x27 \<notin> set v" "CHR 0x27 \<notin> set v'" for s s' v v' xs ys
    using quoted_append [OF that(1-3)] quoted_append [of v ys v' ys] that(4,5) by simp
  show ?thesis
  proof (cases "kv_Op inp = 0")
    case True
    then have "quoted (kv_Key inp) @ '') -> '' @ quoted (kvo_Value out) @ [] = quoted (kv_Key inp') @ '') -> '' @ quoted (kvo_Value out') @ []"
      using assms(1) op by (simp add: KvModel_DescribeOperation_def)
    from same [OF this] show ?thesis using True op q by simp
  next
    case False
    then have "quoted (kv_Key inp) @ '', '' @ quoted (kv_Value inp) @ '')'' = quoted (kv_Key inp') @ '', '' @ quoted (kv_Value inp') @ '')''"
      using assms(1-3) op by (auto simp: KvModel_DescribeOperation_def)
    from same [OF this] show ?thesis using False op q by simp
  qed
qed

end
