(* ===== verification/Kv_Properties.thy ===== *)
theory Kv_Properties
  imports Kv_Apply Kv_Clerk Kv_Model
begin

section \<open>The key/value service: the properties\<close>

text \<open>
  The statements about \<^verbatim>\<open>src/kvraft\<close>, each with a witness on a concrete server.
\<close>

subsection \<open>Concrete servers and commands\<close>

definition exOp :: "int \<Rightarrow> int \<Rightarrow> int \<Rightarrow> string \<Rightarrow> string \<Rightarrow> Op" where
  "exOp c n t k v = \<lparr>OpId = c, Num = n, Type = t, Key = k, Value = v\<rparr>"

definition exMsg :: "int \<Rightarrow> Op \<Rightarrow> int list \<times> Op ApplyMsg" where
  "exMsg i op = ([], \<lparr>CommandValid = True, MsgCommand = CommandPayload (OpCommand op), CommandIndex = i\<rparr>)"

definition exServer :: KVServer where
  "exServer =
     \<lparr>kv_me = 0, kv_rf = (new_Raft 3 0 MakePersister)\<lparr>log := [dummy_entry]\<rparr>, kv_dead = 0, maxraftstate = -1,
      kv_mp = Some Map.empty, ClientCh = Map.empty, mucli = False, kv_CliMap = Some Map.empty,
      kv_lastApplied = 0, mumap = False, nextCh = 0, readers = {}, delivered = []\<rparr>"

lemma exServer_ok: "kv_ready exServer" "channels_ok exServer" "kv_maps exServer = (Map.empty, Map.empty)"
  by (simp_all add: exServer_def kv_ready_def channels_ok_def waiting_at_def kv_maps_def kv_killed_def fun_eq_iff)

lemma exOp_simps [simp]:
  "OpId (exOp c n t k v) = c" "Num (exOp c n t k v) = n" "Type (exOp c n t k v) = t"
  "Key (exOp c n t k v) = k" "Value (exOp c n t k v) = v"
  by (simp_all add: exOp_def)

lemma exMsg_simps [simp]:
  "CommandValid (snd (exMsg i op))" "msg_Op (MsgCommand (snd (exMsg i op))) = op"
  "CommandIndex (snd (exMsg i op)) = i"
  by (simp_all add: exMsg_def)

lemma msg_ops_exMsg [simp]: "msg_ops (exMsg i op # ms) = op # msg_ops ms" "msg_ops [] = []"
  by (simp_all add: msg_ops_def)

lemma exStartedServer:
  "\<exists>kv. StartKVServer 0 3 0 MakePersister (-1) = Inr kv \<and> ClientCh kv = Map.empty \<and> nextCh kv = 0 \<and> delivered kv = [] \<and>
     kv_mp kv = Some Map.empty \<and> kv_CliMap kv = Some Map.empty \<and> \<not> mucli kv \<and> \<not> mumap kv"
proof -
  obtain r :: "Op Raft" where "Make 0 3 0 MakePersister = Inr r" "snapshot (persister r) = []"
    by (simp add: Make_def new_Raft_def readPersist_def Let_def set_index_def len_def readSnapRaft_def persist_def
        persister_defs resetTime_def zero_SnapShot_def numeral_eq_Suc list_update_code)
  then show ?thesis
    by (simp add: StartKVServer_def readSnap_def ReadSnapshot_def Let_def zero_SnapShot_def)
qed

subsection \<open>Applying the log\<close>

text \<open>
  C6. Exactly once: on a log in which no read is repeated after a later request of the same
  client, a new server ends with the database that executes each put and append once, at
  the first place where its number is new for its client, however often the log repeats it.
\<close>

theorem applied_exactly_once:
  assumes "kv_ready kv" and "channels_ok kv" and "kv_maps kv = (Map.empty, Map.empty)"
    and "\<forall>m \<in> set ms. CommandValid (snd m)" and "gets_in_order (msg_ops ms)"
  shows "\<exists>kv'. Applier_run kv ms = Inr kv' \<and>
    kv_mp kv' = Some (foldl exec Map.empty (effective_ops (msg_ops ms)))"
proof -
  obtain kv' where kv': "Applier_run kv ms = Inr kv'" "kv_ready kv'"
    "kv_maps kv' = foldl kv_step (kv_maps kv) (msg_ops ms)"
    using Applier_run_commands [OF assms(1,2,4)] by blast
  with exactly_once_inv [OF assms(5)] kv_ready_maps [OF kv'(2)] assms(3) show ?thesis by auto
qed

definition exLog :: "(int list \<times> Op ApplyMsg) list" where
  "exLog = [exMsg 1 (exOp 5 1 2 ''k'' ''a''), exMsg 2 (exOp 5 2 2 ''k'' ''b''), exMsg 3 (exOp 5 1 2 ''k'' ''a''),
            exMsg 4 (exOp 5 2 2 ''k'' ''b'')]"

theorem applied_exactly_once_witness:
  "\<exists>kv'. Applier_run exServer exLog = Inr kv' \<and> kv_mp kv' = Some [''k'' \<mapsto> ''ab'']"
proof -
  have "gets_in_order (msg_ops exLog)" by (auto simp: gets_in_order_def exLog_def less_Suc_eq)
  moreover have "\<forall>m \<in> set exLog. CommandValid (snd m)" by (auto simp: exLog_def)
  moreover have "effective_ops (msg_ops exLog) = [exOp 5 1 2 ''k'' ''a'', exOp 5 2 2 ''k'' ''b'']"
    by (simp add: effective_ops_def exLog_def effective_def is_request_def upt_rec less_Suc_eq numeral_eq_Suc
        all_conj_distrib)
  ultimately show ?thesis using applied_exactly_once [OF exServer_ok, of exLog]
    by (auto simp: exec_def)
qed

text \<open>
  C7. Replicas agree: two servers with the same database and client table, of which one gets
  a sequence of committed commands and the other the same with every message repeated any
  number of times in a row (followers get each one twice), end with the same database and
  client table.
\<close>

theorem replicas_agree:
  assumes "kv_ready kv1" and "channels_ok kv1" and "kv_ready kv2" and "channels_ok kv2"
    and "kv_maps kv1 = kv_maps kv2" and "\<forall>m \<in> set ms. CommandValid (snd m)" and "\<forall>m \<in> set ms'. CommandValid (snd m)"
    and "stutter (msg_ops ms) (msg_ops ms')"
  shows "\<exists>kv1' kv2'. Applier_run kv1 ms = Inr kv1' \<and> Applier_run kv2 ms' = Inr kv2' \<and>
    kv_mp kv1' = kv_mp kv2' \<and> kv_CliMap kv1' = kv_CliMap kv2'"
proof -
  obtain kv1' where 1: "Applier_run kv1 ms = Inr kv1'" "kv_ready kv1'"
    "kv_maps kv1' = foldl kv_step (kv_maps kv1) (msg_ops ms)"
    using Applier_run_commands [OF assms(1,2,6)] by blast
  obtain kv2' where 2: "Applier_run kv2 ms' = Inr kv2'" "kv_ready kv2'"
    "kv_maps kv2' = foldl kv_step (kv_maps kv2) (msg_ops ms')"
    using Applier_run_commands [OF assms(3,4,7)] by blast
  have "kv_maps kv1' = kv_maps kv2'"
    using 1(3) 2(3) assms(5) kv_consumer.consume_stutter [OF assms(8)] by simp
  then show ?thesis using 1 2 kv_ready_maps [OF 1(2)] kv_ready_maps [OF 2(2)] by auto
qed

theorem replicas_agree_witness:
  "\<exists>kv1' kv2'. Applier_run exServer [exMsg 1 (exOp 5 1 2 ''k'' ''a''), exMsg 2 (exOp 6 1 2 ''k'' ''b'')] = Inr kv1' \<and>
     Applier_run exServer [exMsg 1 (exOp 5 1 2 ''k'' ''a''), exMsg 1 (exOp 5 1 2 ''k'' ''a''),
       exMsg 2 (exOp 6 1 2 ''k'' ''b''), exMsg 2 (exOp 6 1 2 ''k'' ''b'')] = Inr kv2' \<and> kv_mp kv1' = kv_mp kv2'"
proof -
  let ?a = "exOp 5 1 2 ''k'' ''a''" and ?b = "exOp 6 1 2 ''k'' ''b''"
  have "stutter [?a, ?b] [?a, ?a, ?b, ?b]"
    using stutter_replicate [of "[?a, ?b]" 1] by (simp add: numeral_eq_Suc)
  then show ?thesis
    using replicas_agree [OF exServer_ok(1,2) exServer_ok(1,2), of "[exMsg 1 ?a, exMsg 2 ?b]"
        "[exMsg 1 ?a, exMsg 1 ?a, exMsg 2 ?b, exMsg 2 ?b]"] by auto
qed

text \<open>
  C26. Snapshots lose nothing: a server that hands its state to Raft as a snapshot, crashes and
  is started again from the persister has the database, client table and applied index it
  had, and Raft still has every later entry, so applying the same later commands gives the
  same state.
\<close>

theorem restart_from_snapshot:
  assumes "kv_ready kv" and "channels_ok kv" and "raft_wf (kv_rf kv)" and "snapshot_due bytelen kv"
    and "snapshotIndex (kv_rf kv) < kv_lastApplied kv" and "kv_lastApplied kv \<le> lastIndex (kv_rf kv)"
    and "\<forall>m \<in> set ms. CommandValid (snd m)"
  shows "\<exists>ss kv1 kv2 kva kvb. take_snapshot bytelen kv = Inr (kv, Some ss) \<and> save_snapshot kv ss = Inr kv1 \<and>
    StartKVServer r (peers (kv_rf kv)) (me (kv_rf kv)) (persister (kv_rf kv1)) mx = Inr kv2 \<and>
    kv_lastApplied kv2 = kv_lastApplied kv \<and>
    (\<forall>j. kv_lastApplied kv < j \<longrightarrow> entry_at (kv_rf kv2) j = entry_at (kv_rf kv) j) \<and>
    Applier_run kv ms = Inr kva \<and> Applier_run kv2 ms = Inr kvb \<and>
    kv_mp kvb = kv_mp kva \<and> kv_CliMap kvb = kv_CliMap kva"
proof -
  let ?ss = "\<lparr>Mp = kv_mp kv, LastIndex = kv_lastApplied kv, LastTerm = 0, CliMap = kv_CliMap kv\<rparr>"
  obtain r1 where "persistV2 (kv_rf kv) ?ss = Inr r1"
    using persistV2_effect [OF assms(3), of ?ss] assms(5,6) by auto
  then have 1: "save_snapshot kv ?ss = Inr (kv\<lparr>kv_rf := r1\<rparr>)" by (simp add: save_snapshot_def)
  obtain kv2 where 2: "StartKVServer r (peers (kv_rf kv)) (me (kv_rf kv)) (persister (kv_rf (kv\<lparr>kv_rf := r1\<rparr>))) mx = Inr kv2"
    "kv_mp kv2 = kv_mp kv" "kv_CliMap kv2 = kv_CliMap kv" "kv_lastApplied kv2 = kv_lastApplied kv"
    "\<forall>j. kv_lastApplied kv < j \<longrightarrow> entry_at (kv_rf kv2) j = entry_at (kv_rf kv) j" "kv_ready kv2" "channels_ok kv2"
    using snapshot_restart [OF assms(1,3,5,6) 1] by blast
  obtain kva where a: "Applier_run kv ms = Inr kva" "kv_ready kva" "kv_maps kva = foldl kv_step (kv_maps kv) (msg_ops ms)"
    using Applier_run_commands [OF assms(1,2,7)] by blast
  obtain kvb where b: "Applier_run kv2 ms = Inr kvb" "kv_ready kvb" "kv_maps kvb = foldl kv_step (kv_maps kv2) (msg_ops ms)"
    using Applier_run_commands [OF 2(6,7) assms(7)] by blast
  have "kv_maps kva = kv_maps kvb" using a(3) b(3) 2(2,3) by (simp add: kv_maps_def)
  then have "kv_mp kvb = kv_mp kva \<and> kv_CliMap kvb = kv_CliMap kva"
    using kv_ready_maps [OF a(2)] kv_ready_maps [OF b(2)] by simp
  with take_snapshot_eq [OF assms(1,4)] 1 2 a(1) b(1) show ?thesis by blast
qed

subsection \<open>The clients' view\<close>

definition exSnapServer :: KVServer where
  "exSnapServer = exServer\<lparr>kv_rf := (kv_rf exServer)\<lparr>log := [dummy_entry, \<lparr>Command = OpCommand (exOp 5 1 1 ''k'' ''a''), Term = 1\<rparr>,
       \<lparr>Command = OpCommand (exOp 5 2 1 ''k'' ''b''), Term = 1\<rparr>], nextIndex := [3, 3, 3], matchIndex := [0, 0, 0], commitIndex := 2\<rparr>,
     kv_mp := Some [''k'' \<mapsto> ''a''], kv_CliMap := Some [5 \<mapsto> 1], kv_lastApplied := 1, maxraftstate := 3\<rparr>"

theorem restart_from_snapshot_witness:
  "\<exists>ss kv1 kv2 kva kvb. take_snapshot (\<lambda>_. 100) exSnapServer = Inr (exSnapServer, Some ss) \<and>
     save_snapshot exSnapServer ss = Inr kv1 \<and> StartKVServer 0 3 0 (persister (kv_rf kv1)) 3 = Inr kv2 \<and>
     Applier_run exSnapServer [exMsg 2 (exOp 5 2 1 ''k'' ''b'')] = Inr kva \<and>
     Applier_run kv2 [exMsg 2 (exOp 5 2 1 ''k'' ''b'')] = Inr kvb \<and> kv_mp kvb = kv_mp kva"
proof -
  have "kv_ready exSnapServer" "channels_ok exSnapServer" "snapshot_due (\<lambda>_. 100) exSnapServer"
    "raft_wf (kv_rf exSnapServer)" "snapshotIndex (kv_rf exSnapServer) < kv_lastApplied exSnapServer"
    "kv_lastApplied exSnapServer \<le> lastIndex (kv_rf exSnapServer)"
    "peers (kv_rf exSnapServer) = 3" "me (kv_rf exSnapServer) = 0"
    by (simp_all add: exSnapServer_def exServer_def kv_ready_def kv_killed_def channels_ok_def waiting_at_def
        snapshot_due_def RaftStateSize_def go_div_def raft_wf_def new_Raft_def lastIndex_def)
  with restart_from_snapshot [of exSnapServer "\<lambda>_. 100" "[exMsg 2 (exOp 5 2 1 ''k'' ''b'')]" 0 3]
  show ?thesis by auto
qed

text \<open>The value of a key that a client sees: the empty string when there is none.\<close>

definition value_of :: "KVServer \<Rightarrow> string \<Rightarrow> string" where
  "value_of kv k = (case map_get (kv_mp kv) k of None \<Rightarrow> '''' | Some s \<Rightarrow> s)"

text \<open>
  C27. A read follows the model: when a server registers a \<^verbatim>\<open>Get\<close> for the index where its command
  is committed and the applier applies it, the handler's channel gets the result, and what
  the clerk returns for the reply is the step of \<^verbatim>\<open>KvModel\<close> on the key's value; the database is
  unchanged.
\<close>

theorem get_follows_model:
  assumes "kv_ready kv" and "channels_ok kv" and "Get_register kv args i = Inr (kv1, GoesOn ch)"
    and "CommandValid msg" and "MsgCommand msg = CommandPayload (OpCommand (get_command args))" and "CommandIndex msg = i"
  shows "\<exists>kv2 cm reply. Applier kv1 ks msg = Inr (kv2, True) \<and> (ch, cm) \<in> set (delivered kv2) \<and>
    Get_receive kv2 args cm = reply \<and> gr_Err reply \<in> {''OK'', ''ErrNoKey''} \<and> kv_mp kv2 = kv_mp kv \<and>
    KvModel_Step (value_of kv (ga_Key args)) \<lparr>kv_Op = 0, kv_Key = ga_Key args, kv_Value = ''''\<rparr>
      \<lparr>kvo_Value = (if gr_Err reply = ''OK'' then gr_Value reply else '''')\<rparr> = (True, value_of kv2 (ga_Key args))"
proof -
  have reg: "register_ch kv i = (kv1, ch)"
    using assms(3) by (auto simp: Get_register_def Let_def split: option.splits if_splits prod.splits)
  note r = register_ch_effect [OF assms(2) reg]
  have "kv_ready kv1" using r(4) assms(1) by simp
  from Applier_command [OF this r(1) assms(4), of ks] obtain kv2 where
    2: "Applier kv1 ks msg = Inr (kv2, True)" "kv_ready kv2" "kv_maps kv2 = kv_step (kv_maps kv1) (get_command args)"
      "delivered kv2 = delivered kv1 @ map (\<lambda>ch. (ch, kv_result (fst (kv_maps kv1)) (get_command args))) (waiting_at kv1 i)"
    unfolding assms(5,6) by auto
  have mp: "kv_mp kv2 = kv_mp kv"
    using kv_ready_maps [OF 2(2)] kv_ready_maps [OF assms(1)] 2(3) r(5) by (simp add: kv_step_def get_command_def)
  let ?cm = "kv_result (fst (kv_maps kv)) (get_command args)"
  have "(ch, ?cm) \<in> set (delivered kv2)" using 2(4) r(3) [of i] r(5) by simp
  moreover have "\<not> kv_killed kv2" using 2(2) by (simp add: kv_ready_def)
  ultimately show ?thesis using 2(1) mp
    by (cases "map_get (kv_mp kv) (ga_Key args)")
      (auto simp: Get_receive_def Let_def kv_result_def get_command_def kv_maps_def zero_GetReply_def
        KvModel_Step_def value_of_def intro!: exI [of _ kv2] exI [of _ ?cm])
qed

theorem get_follows_model_witness:
  "\<exists>kv1 kv2 cm. Get_register (exServer\<lparr>kv_mp := Some [''k'' \<mapsto> ''v'']\<rparr>) \<lparr>ga_Key = ''k'', ga_Num = 1, ga_ClientId = 5\<rparr> 1 = Inr (kv1, GoesOn 0) \<and>
     Applier kv1 [] (snd (exMsg 1 (get_command \<lparr>ga_Key = ''k'', ga_Num = 1, ga_ClientId = 5\<rparr>))) = Inr (kv2, True) \<and>
     (0, cm) \<in> set (delivered kv2)"
proof -
  let ?kv = "exServer\<lparr>kv_mp := Some [''k'' \<mapsto> ''v'']\<rparr>" and ?a = "\<lparr>ga_Key = ''k'', ga_Num = 1, ga_ClientId = 5\<rparr>"
  have ok: "kv_ready ?kv" "channels_ok ?kv"
    by (simp_all add: exServer_def kv_ready_def channels_ok_def waiting_at_def kv_killed_def)
  obtain kv1 where "Get_register ?kv ?a 1 = Inr (kv1, GoesOn 0)"
    by (simp add: Get_register_def exServer_def register_ch_def Let_def)
  with get_follows_model [OF ok this, of "snd (exMsg 1 (get_command ?a))" "[]"] show ?thesis
    by (auto simp: exMsg_def)
qed


subsection \<open>Writes, waiting handlers, clerks\<close>

text \<open>
  C28. A write follows the model: when a server registers a \<^verbatim>\<open>PutAppend\<close> that has not been executed
  and the applier applies its command at that index, the handler replies OK, the key's value
  is the step of \<^verbatim>\<open>KvModel\<close>, every other key keeps its value, and the client table has the
  request's number.
\<close>

theorem putappend_follows_model:
  assumes "kv_ready kv" and "channels_ok kv" and "PutAppend_register kv args i = Inr (kv1, GoesOn ch)"
    and "CommandValid msg" and "MsgCommand msg = CommandPayload (OpCommand (putappend_command args))" and "CommandIndex msg = i"
  shows "\<exists>kv2 cm. Applier kv1 ks msg = Inr (kv2, True) \<and> (ch, cm) \<in> set (delivered kv2) \<and>
    PutAppend_receive kv2 args cm = Inr \<lparr>pr_Err = ''OK''\<rparr> \<and>
    KvModel_Step (value_of kv (pa_Key args))
      \<lparr>kv_Op = (if pa_Op args = ''Put'' then 1 else 2), kv_Key = pa_Key args, kv_Value = pa_Value args\<rparr> out
      = (True, value_of kv2 (pa_Key args)) \<and>
    (\<forall>k. k \<noteq> pa_Key args \<longrightarrow> value_of kv2 k = value_of kv k) \<and>
    map_get (kv_CliMap kv2) (pa_ClientId args) = Some (pa_Num args)"
proof -
  let ?c = "putappend_command args"
  have reg: "register_ch kv i = (kv1, ch)"
    using assms(3) by (auto simp: PutAppend_register_def Let_def split: option.splits if_splits prod.splits)
  note r = register_ch_effect [OF assms(2) reg]
  have "kv_ready kv1" using r(4) assms(1) by simp
  from Applier_command [OF this r(1) assms(4), of ks] obtain kv2 where
    2: "Applier kv1 ks msg = Inr (kv2, True)" "kv_ready kv2" "kv_maps kv2 = kv_step (kv_maps kv1) ?c"
      "delivered kv2 = delivered kv1 @ map (\<lambda>ch. (ch, kv_result (fst (kv_maps kv1)) ?c)) (waiting_at kv1 i)"
    unfolding assms(5,6) by auto
  have new: "\<not> executed (snd (kv_maps kv)) ?c"
    using assms(3) by (auto simp: PutAppend_register_def executed_def kv_maps_def putappend_command_def Let_def
        split: option.splits if_splits prod.splits)
  have t: "Type ?c = 1 \<or> Type ?c = 2" by (simp add: putappend_command_def)
  have maps: "kv_maps kv2 = (exec (fst (kv_maps kv)) ?c, (snd (kv_maps kv))(OpId ?c \<mapsto> Num ?c))"
    using 2(3) r(5) new t by (auto simp: kv_step_def)
  have "(ch, ?c) \<in> set (delivered kv2)" using 2(4) r(3) [of i] t by (auto simp: kv_result_def)
  moreover have "PutAppend_receive kv2 args ?c = Inr \<lparr>pr_Err = ''OK''\<rparr>"
    using 2(2) by (simp add: PutAppend_receive_def kv_ready_def putappend_command_def zero_PutAppendReply_def Let_def)
  moreover have "map_get (kv_CliMap kv2) (pa_ClientId args) = Some (pa_Num args)"
    using maps by (simp add: kv_maps_def putappend_command_def)
  moreover have v: "value_of kv2 k = (case exec (map_get (kv_mp kv)) ?c k of None \<Rightarrow> '''' | Some s \<Rightarrow> s)" for k
    using maps by (simp add: kv_maps_def value_of_def)
  ultimately show ?thesis using 2(1)
    by (auto simp: v exec_def putappend_command_def KvModel_Step_def value_of_def split: option.split)
qed

theorem putappend_follows_model_witness:
  "\<exists>kv1 kv2. PutAppend_register exServer \<lparr>pa_Key = ''k'', pa_Value = ''v'', pa_Op = ''Append'', pa_Num = 1, pa_ClientId = 5\<rparr> 1 = Inr (kv1, GoesOn 0) \<and>
     Applier kv1 [] (snd (exMsg 1 (exOp 5 1 2 ''k'' ''v''))) = Inr (kv2, True) \<and> value_of kv2 ''k'' = ''v''"
proof -
  let ?a = "\<lparr>pa_Key = ''k'', pa_Value = ''v'', pa_Op = ''Append'', pa_Num = 1, pa_ClientId = 5\<rparr>"
  obtain kv1 where 1: "PutAppend_register exServer ?a 1 = Inr (kv1, GoesOn 0)"
    by (simp add: PutAppend_register_def exServer_def register_ch_def Let_def)
  have "MsgCommand (snd (exMsg 1 (exOp 5 1 2 ''k'' ''v''))) = CommandPayload (OpCommand (putappend_command ?a))"
    by (simp add: exMsg_def putappend_command_def exOp_def)
  from putappend_follows_model [OF exServer_ok(1,2) 1 _ this, of "[]" out] 1 show ?thesis
    by (auto simp: KvModel_Step_def value_of_def exServer_def)
qed

text \<open>
  C29. The applier answers everyone: in every state of a server between its start and its \<^verbatim>\<open>Kill\<close>,
  as long as no snapshot was installed, a committed command never blocks the applier; every
  handler registered for its index gets the command itself, for a read with the key's value
  filled in or marked as a miss; nobody else gets anything, and the other handlers stay
  registered. (A snapshot that is installed leaves channels behind that nobody receives on:
  \<^verbatim>\<open>second_snapshot_blocks\<close> below.)
\<close>

theorem applier_answers_waiting:
  assumes "serving kv" and "CommandValid msg" and "op = msg_Op (MsgCommand msg)"
  shows "\<exists>kv' cm. Applier kv ks msg = Inr (kv', True) \<and> serving kv' \<and>
    cm = (if Type op = 0
          then (case map_get (kv_mp kv) (Key op) of None \<Rightarrow> op\<lparr>Type := -1\<rparr> | Some v \<Rightarrow> op\<lparr>Value := v\<rparr>)
          else op) \<and>
    delivered kv' = delivered kv @ map (\<lambda>ch. (ch, cm)) (waiting_at kv (CommandIndex msg)) \<and>
    waiting_at kv' (CommandIndex msg) = [] \<and>
    (\<forall>i. i \<noteq> CommandIndex msg \<longrightarrow> waiting_at kv' i = waiting_at kv i) \<and>
    kv_lastApplied kv' = CommandIndex msg"
proof -
  have ok: "kv_ready kv" "channels_ok kv" using serving_ok [OF assms(1)] by simp_all
  obtain kv' where kv': "Applier kv ks msg = Inr (kv', True)" "kv_lastApplied kv' = CommandIndex msg"
    "delivered kv' = delivered kv @ map (\<lambda>ch. (ch, kv_result (fst (kv_maps kv)) op)) (waiting_at kv (CommandIndex msg))"
    "waiting_at kv' (CommandIndex msg) = []" "\<forall>i. i \<noteq> CommandIndex msg \<longrightarrow> waiting_at kv' i = waiting_at kv i"
    using Applier_command [OF ok assms(2), of ks] assms(3) by blast
  have "serving kv'" using assms(1,2) kv'(1) by (rule serving.applies)
  with kv' show ?thesis
    by (intro exI [of _ kv'] exI [of _ "kv_result (fst (kv_maps kv)) op"]) (simp add: kv_result_def kv_maps_def)
qed

theorem applier_answers_waiting_witness:
  "\<exists>kv kv1 kv'. StartKVServer 0 3 0 MakePersister (-1) = Inr kv \<and>
     Get_register kv \<lparr>ga_Key = ''k'', ga_Num = 1, ga_ClientId = 5\<rparr> 1 = Inr (kv1, GoesOn 0) \<and>
     Applier kv1 [] (snd (exMsg 1 (exOp 5 1 0 ''k'' ''''))) = Inr (kv', True) \<and>
     delivered kv' = [(0, exOp 5 1 (-1) ''k'' '''')]"
proof -
  let ?op = "exOp 5 1 0 ''k'' ''''" and ?args = "\<lparr>ga_Key = ''k'', ga_Num = 1, ga_ClientId = 5\<rparr>"
  obtain kv where kv: "StartKVServer 0 3 0 MakePersister (-1) = Inr kv" "ClientCh kv = Map.empty" "nextCh kv = 0"
    "delivered kv = []" "kv_mp kv = Some Map.empty" "kv_CliMap kv = Some Map.empty" "\<not> mucli kv" "\<not> mumap kv"
    using exStartedServer by blast
  obtain kv1 where kv1: "Get_register kv ?args 1 = Inr (kv1, GoesOn 0)" "waiting_at kv1 1 = [0]" "delivered kv1 = []"
    "kv_mp kv1 = Some Map.empty"
    using kv by (simp add: Get_register_def register_ch_def waiting_at_def Let_def)
  have "serving kv1" using serving.get_registers [OF serving.started [OF kv(1)] kv1(1)] .
  from applier_answers_waiting [OF this _ refl, of "snd (exMsg 1 ?op)" "[]"] kv kv1
  show ?thesis by (auto simp: exOp_def)
qed

text \<open>
  C30. A clerk finds the leader: if one server answers whenever it is asked and every other
  fails or says it is not the leader, \<^verbatim>\<open>Put\<close> and \<^verbatim>\<open>Append\<close> return within one round of the servers
  and remember the server that answered; the request number has gone up by one.
\<close>

theorem clerk_finds_leader:
  assumes "0 \<le> ck_leader ck" and "ck_leader ck < int (ck_servers ck)" and "0 \<le> s" and "s < int (ck_servers ck)"
    and "\<And>a k l. l \<noteq> s \<Longrightarrow> \<not> fst (net a k l) \<or> pr_Err (snd (net a k l)) = ''ErrWrongLeader''"
    and "\<And>a k. fst (net a k s) \<and> pr_Err (snd (net a k s)) = ''OK''"
    and "ck_servers ck \<le> fuel"
  shows "Clerk_PutAppend net fuel ck key val opr = Inr (ck\<lparr>ck_number := ck_number ck + 1, ck_leader := s\<rparr>, True)"
proof -
  let ?arg = "\<lparr>pa_Key = key, pa_Value = val, pa_Op = opr, pa_Num = ck_number ck + 1, pa_ClientId = ck_me ck\<rparr>"
  have "\<exists>a. PutAppend_loop (net ?arg) (ck_servers ck) 0 (ck_leader ck) zero_PutAppendReply fuel = Inr (Some a) \<and> a = s"
  proof (rule put_ring.search_ring [OF assms(1-4)])
    show "\<exists>r'. put_moves (net ?arg) k l r r'" if "l \<noteq> s" for k l r
      using assms(5) [OF that, of ?arg k] by (cases "net ?arg k l") (auto simp: put_moves_def)
    show "\<exists>a. put_found (net ?arg) k s r a \<and> a = s" for k r
      using assms(6) [of ?arg k] by (cases "net ?arg k s") (auto simp: put_found_def)
    have "(s - ck_leader ck) mod int (ck_servers ck) < int (ck_servers ck)" using assms(1,2) by simp
    then show "(s - ck_leader ck) mod int (ck_servers ck) < int fuel" using assms(7) by linarith
  qed
  then show ?thesis by (simp add: Clerk_PutAppend_def Let_def)
qed

theorem clerk_finds_leader_witness:
  "Clerk_PutAppend (\<lambda>a k l. if l = 1 then (True, \<lparr>pr_Err = ''OK''\<rparr>) else (True, \<lparr>pr_Err = ''ErrWrongLeader''\<rparr>)) 3
     \<lparr>ck_servers = 3, ck_number = 4, ck_leader = 2, ck_me = 7\<rparr> ''k'' ''v'' ''Put''
   = Inr (\<lparr>ck_servers = 3, ck_number = 5, ck_leader = 1, ck_me = 7\<rparr>, True)"
  by (subst clerk_finds_leader [where s = 1]) auto


subsection \<open>Where the service departs from its specification\<close>

text \<open>The state and the reply that a failing run of the service is told by.\<close>

definition exMiss :: GetArgs where
  "exMiss = \<lparr>ga_Key = ''k'', ga_Num = 1, ga_ClientId = 5\<rparr>"

text \<open>
  \<^verbatim>\<open>Get\<close> answers with another client's miss. A server registers client 5's read of a key
  that has the value v; it loses the leadership, and the command that gets committed at
  that index is client 6's read of a missing key; the handler looks at the type before it
  looks at whose command it is and replies that there is no such key.
\<close>

theorem get_answers_foreign_miss:
  "\<exists>kv1 kv2 cm.
     Get_register (exServer\<lparr>kv_mp := Some [''k'' \<mapsto> ''v'']\<rparr>) exMiss 1 = Inr (kv1, GoesOn 0) \<and>
     Applier kv1 [] (snd (exMsg 1 (exOp 6 1 0 ''other'' ''''))) = Inr (kv2, True) \<and>
     delivered kv2 = [(0, cm)] \<and> OpId cm \<noteq> ga_ClientId exMiss \<and>
     gr_Err (Get_receive kv2 exMiss cm) = ''ErrNoKey'' \<and> value_of kv2 ''k'' = ''v''"
  by (simp add: exMiss_def exMsg_def Get_register_def exServer_def register_ch_def Let_def Applier_def apply_command_def
      apply_Op_def answer_clients_def kv_killed_def chan_send_def Get_receive_def zero_GetReply_def value_of_def)

text \<open>
  Installing a snapshot wakes the handlers it covers but leaves their channels registered,
  so a second snapshot sends to channels that nobody reads: the applier stops for ever, with
  \<^verbatim>\<open>mucli\<close> locked.
\<close>

theorem second_snapshot_blocks:
  assumes "channels_ok kv" and "\<not> mucli kv" and "distinct ks" and "ch \<in> set (waiting_at kv k)" and "k \<in> set ks"
    and "Mp s1 \<noteq> None" and "CliMap s1 \<noteq> None" and "k \<le> LastIndex s1" and "k \<le> LastIndex s2"
  shows "\<exists>kv1. install_snapshot kv ks (encode_snapshot s1) = Inr kv1 \<and> ch \<notin> readers kv1 \<and>
    ch \<in> set (waiting_at kv1 k) \<and> install_snapshot kv1 [k] (encode_snapshot s2) = Inl Blocked"
proof -
  obtain kv1 where 1: "install_snapshot kv ks (encode_snapshot s1) = Inr kv1" "ClientCh kv1 = ClientCh kv"
    "readers kv1 = readers kv - set (discarded kv (LastIndex s1) ks)"
    using install_snapshot_effect [OF assms(1-3), of "encode_snapshot s1"] assms(6,7) by auto
  have "set (waiting_at kv k) \<subseteq> set (discarded kv (LastIndex s1) ks)"
    using assms(5,8) by (auto simp: discarded_def)
  with 1(3) have none: "set (waiting_at kv k) \<inter> readers kv1 = {}" by blast
  obtain c cs where w: "ClientCh kv1 k = Some (c # cs)" "c \<in> set (waiting_at kv k)"
    using assms(4) 1(2) by (cases "waiting_at kv k") (auto simp: waiting_at_def split: option.splits)
  have "send_all kv' (c # cs) snapshot_Op = Inl Blocked" if "readers kv' = readers kv1" for kv'
    using none w(2) that by (auto simp: chan_send_def)
  then have "install_snapshot kv1 [k] (encode_snapshot s2) = Inl Blocked"
    using w(1) assms(9) by (simp add: install_snapshot_def Let_def)
  moreover have "waiting_at kv1 k = waiting_at kv k" using 1(2) by (simp add: waiting_at_def)
  ultimately show ?thesis using 1(1) assms(4) none by auto
qed

theorem second_snapshot_blocks_witness:
  "\<exists>kv1. install_snapshot (fst (register_ch exServer 1)) [1] (encode_snapshot \<lparr>Mp = Some Map.empty, LastIndex = 3, LastTerm = 1, CliMap = Some Map.empty\<rparr>) = Inr kv1 \<and>
     install_snapshot kv1 [1] (encode_snapshot \<lparr>Mp = Some Map.empty, LastIndex = 5, LastTerm = 1, CliMap = Some Map.empty\<rparr>) = Inl Blocked"
proof -
  let ?kv = "fst (register_ch exServer 1)"
  have r: "register_ch exServer 1 = (?kv, snd (register_ch exServer 1))" by simp
  have "channels_ok ?kv" using register_ch_effect(1) [OF exServer_ok(2) r] .
  moreover have "waiting_at ?kv 1 = [0]" "\<not> mucli ?kv"
    by (simp_all add: register_ch_def exServer_def waiting_at_def Let_def)
  ultimately show ?thesis
    using second_snapshot_blocks [of ?kv "[1]" 0 1 "\<lparr>Mp = Some Map.empty, LastIndex = 3, LastTerm = 1, CliMap = Some Map.empty\<rparr>"
        "\<lparr>Mp = Some Map.empty, LastIndex = 5, LastTerm = 1, CliMap = Some Map.empty\<rparr>"] by auto
qed

text \<open>
  C40. A repeated read undoes the duplicate detection. Applying a read sets the client's entry
  to its number even when the entry is higher already; so an append of the same client that
  the table says has been executed, and that leaves the database alone when it is applied
  again, is executed once more when a read with a lower number is applied before it.
\<close>

theorem repeated_get_reexecutes:
  assumes "kv_ready kv" and "channels_ok kv"
    and g: "CommandValid gm" "g = msg_Op (MsgCommand gm)" "Type g = 0"
    and a: "CommandValid am" "a = msg_Op (MsgCommand am)" "Type a = 2" "OpId a = OpId g"
    and c: "map_get (kv_CliMap kv) (OpId g) = Some c" "Num g < Num a" "Num a \<le> c"
  shows "\<exists>kv1 kv2 kv3. Applier kv ks gm = Inr (kv1, True) \<and>
    map_get (kv_CliMap kv1) (OpId g) = Some (Num g) \<and> kv_mp kv1 = kv_mp kv \<and>
    Applier kv1 ks' am = Inr (kv2, True) \<and> value_of kv2 (Key a) = value_of kv (Key a) @ Value a \<and>
    Applier kv ks' am = Inr (kv3, True) \<and> kv_mp kv3 = kv_mp kv"
proof -
  let ?d = "kv_maps kv"
  have old: "snd ?d (OpId g) = Some c" using c(1) by (simp add: kv_maps_def)
  obtain kv1 where 1: "Applier kv ks gm = Inr (kv1, True)" "kv_ready kv1" "channels_ok kv1" "kv_maps kv1 = kv_step ?d g"
    using Applier_command [OF assms(1,2) g(1), of ks] g(2) by blast
  obtain kv2 where 2: "Applier kv1 ks' am = Inr (kv2, True)" "kv_maps kv2 = kv_step (kv_step ?d g) a"
    using Applier_command [OF 1(2,3) a(1), of ks'] a(2) 1(4) by auto
  obtain kv3 where 3: "Applier kv ks' am = Inr (kv3, True)" "kv_ready kv3" "kv_maps kv3 = kv_step ?d a"
    using Applier_command [OF assms(1,2) a(1), of ks'] a(2) by blast
  have step: "kv_step ?d g = (fst ?d, (snd ?d)(OpId g \<mapsto> Num g))" using g(3) by (simp add: kv_step_def)
  have again: "kv_step (kv_step ?d g) a = (exec (fst ?d) a, (snd ?d)(OpId g \<mapsto> Num a))"
    using a(3,4) c(2) unfolding step by (simp add: kv_step_def executed_def)
  have dup: "kv_step ?d a = ?d" using a(3,4) old c(3) by (simp add: kv_step_def executed_def)
  have "map_get (kv_CliMap kv1) (OpId g) = Some (Num g)" using 1(4) step by (simp add: kv_maps_def)
  moreover have "kv_mp kv1 = kv_mp kv" using kv_ready_maps [OF 1(2)] kv_ready_maps [OF assms(1)] 1(4) step by simp
  moreover have "kv_mp kv3 = kv_mp kv" using kv_ready_maps [OF 3(2)] kv_ready_maps [OF assms(1)] 3(3) dup by simp
  moreover have "map_get (kv_mp kv2) = exec (map_get (kv_mp kv)) a" using 2(2) again by (simp add: kv_maps_def)
  then have "value_of kv2 (Key a) = value_of kv (Key a) @ Value a" using a(3) by (simp add: value_of_def exec_def)
  ultimately show ?thesis using 1(1) 2(1) 3(1) by blast
qed

theorem repeated_get_reexecutes_witness:
  "\<exists>kv kv1 kv2. Applier_run exServer [exMsg 1 (exOp 5 1 0 ''k'' ''''), exMsg 2 (exOp 5 2 2 ''k'' ''a'')] = Inr kv \<and>
     value_of kv ''k'' = ''a'' \<and> Applier kv [] (snd (exMsg 3 (exOp 5 1 0 ''k'' ''''))) = Inr (kv1, True) \<and>
     Applier kv1 [] (snd (exMsg 4 (exOp 5 2 2 ''k'' ''a''))) = Inr (kv2, True) \<and> value_of kv2 ''k'' = ''aa''"
proof -
  let ?ms = "[exMsg 1 (exOp 5 1 0 ''k'' ''''), exMsg 2 (exOp 5 2 2 ''k'' ''a'')]"
  obtain kv where kv: "Applier_run exServer ?ms = Inr kv" "kv_ready kv" "channels_ok kv"
    "kv_maps kv = foldl kv_step (kv_maps exServer) (msg_ops ?ms)"
    using Applier_run_commands [OF exServer_ok(1,2), of ?ms] by auto
  have "kv_maps kv = ([''k'' \<mapsto> ''a''], [5 \<mapsto> 2])"
    using kv(4) by (simp add: exServer_ok kv_step_def exec_def executed_def)
  then have "value_of kv ''k'' = ''a''" "map_get (kv_CliMap kv) 5 = Some 2" by (simp_all add: value_of_def kv_maps_def)
  with repeated_get_reexecutes [OF kv(2,3) _ refl _ _ refl, of "snd (exMsg 3 (exOp 5 1 0 ''k'' ''''))"
      "snd (exMsg 4 (exOp 5 2 2 ''k'' ''a''))" 2 "[]" "[]"] kv(1) show ?thesis by auto
qed


end
