(* ===== verification/Labgob.thy ===== *)
theory Labgob
  imports Prelude "HOL-Library.Word"
begin

section \<open>The checking wrapper around gob\<close>

text \<open>
  Models \<^verbatim>\<open>src/labgob/labgob.go\<close>. Its encoders and decoders hand values to \<^verbatim>\<open>encoding/gob\<close>; what it
  adds are two checks, which walk the type of the value and the variable that is decoded
  into, print complaints and count them. A \<^verbatim>\<open>reflect.Type\<close> is a value of some type \<open>'t\<close> whose
  description the argument \<open>info\<close> gives, so types may refer to themselves through pointers.
  Field names are ASCII. What gob itself makes of a value is an argument.
\<close>

subsection \<open>Types\<close>

datatype kind =
    KBool | KInt | KInt8 | KInt16 | KInt32 | KInt64 | KUint | KUint8 | KUint16 | KUint32 | KUint64
  | KUintptr | KFloat32 | KFloat64 | KComplex64 | KComplex128 | KArray | KChan | KFunc
  | KInterface | KMap | KPtr | KSlice | KString | KStruct | KUnsafePointer

record 't Type =
  Kind :: kind
  Name :: string
  Fields :: "(string \<times> 't) list"
  Elem :: 't
  Key :: 't

text \<open>What is printed: a lower-case field of a type, a variable that is not zero.\<close>

datatype complaint = LowerCase string string | NonDefault string

record 't labgob =
  errorCount :: int
  checked :: "'t set"
  printed :: "complaint list"

definition IsUpper_first :: "string \<Rightarrow> bool" where
  "IsUpper_first s = (case s of [] \<Rightarrow> False | c # _ \<Rightarrow> 65 \<le> (of_char c :: nat) \<and> (of_char c :: nat) \<le> 90)"

definition complain :: "complaint \<Rightarrow> 't labgob \<Rightarrow> 't labgob" where
  "complain c st = st\<lparr>errorCount := errorCount st + 1, printed := printed st @ [c]\<rparr>"

subsection \<open>checkType\<close>

text \<open>
  The loop over the fields of a struct, then the function. Its recursion follows the graph of
  types, which may have cycles; the fuel bounds its depth, and \<open>None\<close> means that it was too
  small.
\<close>

primrec check_fields ::
  "('t \<Rightarrow> 't labgob \<Rightarrow> 't labgob option) \<Rightarrow> string \<Rightarrow> (string \<times> 't) list \<Rightarrow> 't labgob \<Rightarrow> 't labgob option" where
  "check_fields check tname [] st = Some st"
| "check_fields check tname (f # fs) st =
     (let st = (if \<not> IsUpper_first (fst f) then complain (LowerCase (fst f) tname) st else st)
      in case check (snd f) st of None \<Rightarrow> None | Some st \<Rightarrow> check_fields check tname fs st)"

primrec checkType :: "('t \<Rightarrow> 't Type) \<Rightarrow> nat \<Rightarrow> 't \<Rightarrow> 't labgob \<Rightarrow> 't labgob option" where
  "checkType info 0 t st = None"
| "checkType info (Suc fuel) t st =
     (let k = Kind (info t) in
      if t \<in> checked st then Some st
      else
        let st = st\<lparr>checked := insert t (checked st)\<rparr> in
        if k = KStruct then check_fields (checkType info fuel) (Name (info t)) (Fields (info t)) st
        else if k = KSlice \<or> k = KArray \<or> k = KPtr then checkType info fuel (Elem (info t)) st
        else if k = KMap then
          (case checkType info fuel (Elem (info t)) st of
             None \<Rightarrow> None
           | Some st \<Rightarrow> checkType info fuel (Key (info t)) st)
        else Some st)"

text \<open>
  An \<^verbatim>\<open>interface{}\<close> value is \<^verbatim>\<open>nil\<close> or a value with its type; \<^verbatim>\<open>reflect.TypeOf(nil)\<close> is a \<^verbatim>\<open>nil\<close>
  interface, whose \<^verbatim>\<open>Kind\<close> method cannot be called.
\<close>

type_synonym ('t, 'v) dynamic = "('t \<times> 'v) option"

definition checkValue ::
  "('t \<Rightarrow> 't Type) \<Rightarrow> nat \<Rightarrow> ('t, 'v) dynamic \<Rightarrow> 't labgob \<Rightarrow> 't labgob option go" where
  "checkValue info fuel value st =
     (case value of None \<Rightarrow> Inl NilDereference | Some (t, v) \<Rightarrow> Inr (checkType info fuel t st))"

subsection \<open>checkDefault\<close>

text \<open>
  Values as \<^verbatim>\<open>reflect\<close> shows them: basic values with the name of their type, structs, pointers,
  and the kinds that \<^verbatim>\<open>checkDefault1\<close> does not look into. Floats are their bits.
\<close>

datatype basic =
    BBool bool | BInt int | BUint nat | BFloat32 "32 word" | BFloat64 "64 word" | BString string

datatype gvalue =
    VBasic string basic
  | VStruct "gfield list"
  | VPtr "gvalue option"
  | VOther
and gfield = GField string bool gvalue  \<comment> \<open>name, whether embedded, value\<close>

fun is_zero :: "basic \<Rightarrow> bool" where
  "is_zero (BBool b) \<longleftrightarrow> \<not> b"
| "is_zero (BInt i) \<longleftrightarrow> i = 0"
| "is_zero (BUint n) \<longleftrightarrow> n = 0"
| "is_zero (BFloat32 w) \<longleftrightarrow> w = 0 \<or> w = 0x80000000"
| "is_zero (BFloat64 w) \<longleftrightarrow> w = 0 \<or> w = 0x8000000000000000"
| "is_zero (BString s) \<longleftrightarrow> s = []"

text \<open>
  \<^verbatim>\<open>reflect\<close> marks a value that was reached through an unexported field: the mark of an
  unexported field stays on everything below it, the mark of an unexported embedded struct is
  dropped at its exported fields. \<^verbatim>\<open>Interface()\<close> panics on a marked value.
\<close>

datatype ro = RW | EmbedRO | StickyRO

definition field_ro :: "ro \<Rightarrow> string \<Rightarrow> bool \<Rightarrow> ro" where
  "field_ro r fname embedded =
     (if r = StickyRO then StickyRO
      else if IsUpper_first fname then RW
      else if embedded then EmbedRO
      else StickyRO)"

definition warn_default :: "string \<Rightarrow> string \<Rightarrow> 't labgob \<Rightarrow> 't labgob" where
  "warn_default tname name st =
     (let st = (if errorCount st < 1
                then st\<lparr>printed := printed st @ [NonDefault (if name = [] then tname else name)]\<rparr>
                else st)
      in st\<lparr>errorCount := errorCount st + 1\<rparr>)"

fun checkDefault1 :: "ro \<Rightarrow> gvalue \<Rightarrow> int \<Rightarrow> string \<Rightarrow> 't labgob \<Rightarrow> 't labgob go"
  and checkDefault_fields :: "ro \<Rightarrow> gfield list \<Rightarrow> int \<Rightarrow> string \<Rightarrow> 't labgob \<Rightarrow> 't labgob go" where
  "checkDefault1 r (VBasic tname b) depth name st =
     (if depth > 3 then Inr st
      else if r \<noteq> RW then Inl (Panic ''reflect.Value.Interface'')
      else if \<not> is_zero b then Inr (warn_default tname name st)
      else Inr st)"
| "checkDefault1 r (VStruct fs) depth name st =
     (if depth > 3 then Inr st else checkDefault_fields r fs depth name st)"
| "checkDefault1 r (VPtr None) depth name st = Inr st"
| "checkDefault1 r (VPtr (Some v)) depth name st =
     (if depth > 3 then Inr st else checkDefault1 r v (depth + 1) name st)"
| "checkDefault1 r VOther depth name st = Inr st"
| "checkDefault_fields r [] depth name st = Inr st"
| "checkDefault_fields r (GField fname embedded v # fs) depth name st =
     (let name1 = (if name \<noteq> [] then name @ ''.'' @ fname else fname)
      in bindE (checkDefault1 (field_ro r fname embedded) v (depth + 1) name1 st)
           (checkDefault_fields r fs depth name))"

definition checkDefault :: "('t, gvalue) dynamic \<Rightarrow> 't labgob \<Rightarrow> 't labgob go" where
  "checkDefault value st =
     (case value of None \<Rightarrow> Inr st | Some (t, v) \<Rightarrow> checkDefault1 RW v 1 [] st)"

subsection \<open>Encoders and decoders\<close>

text \<open>
  \<open>gob\<close> stands for the method of the wrapped encoder or decoder. \<^verbatim>\<open>EncodeValue\<close>, \<^verbatim>\<open>Register\<close> and
  \<^verbatim>\<open>RegisterName\<close> check the same way as \<^verbatim>\<open>Encode\<close>.
\<close>

definition gob_Encode ::
  "('t \<Rightarrow> 't Type) \<Rightarrow> nat \<Rightarrow> (('t, 'v) dynamic \<Rightarrow> 'r) \<Rightarrow> ('t, 'v) dynamic \<Rightarrow> 't labgob
     \<Rightarrow> ('t labgob \<times> 'r) option go" where
  "gob_Encode info fuel gob e st =
     bindE (checkValue info fuel e st) (\<lambda>st. Inr (map_option (\<lambda>st. (st, gob e)) st))"

definition gob_Decode ::
  "('t \<Rightarrow> 't Type) \<Rightarrow> nat \<Rightarrow> (('t, gvalue) dynamic \<Rightarrow> 'r) \<Rightarrow> ('t, gvalue) dynamic \<Rightarrow> 't labgob
     \<Rightarrow> ('t labgob \<times> 'r) option go" where
  "gob_Decode info fuel gob e st =
     bindE (checkValue info fuel e st) (\<lambda>st.
     case st of
       None \<Rightarrow> Inr None
     | Some st \<Rightarrow> bindE (checkDefault e st) (\<lambda>st. Inr (Some (st, gob e))))"

definition gob_Register ::
  "('t \<Rightarrow> 't Type) \<Rightarrow> nat \<Rightarrow> ('t, 'v) dynamic \<Rightarrow> 't labgob \<Rightarrow> 't labgob option go" where
  "gob_Register info fuel e st = checkValue info fuel e st"

subsection \<open>What checkType visits\<close>

definition children :: "('t \<Rightarrow> 't Type) \<Rightarrow> 't \<Rightarrow> 't set" where
  "children info t =
     (let k = Kind (info t) in
      if k = KStruct then snd ` set (Fields (info t))
      else if k = KSlice \<or> k = KArray \<or> k = KPtr then {Elem (info t)}
      else if k = KMap then {Elem (info t), Key (info t)}
      else {})"

inductive_set parts :: "('t \<Rightarrow> 't Type) \<Rightarrow> 't set \<Rightarrow> 't set"
  for info :: "'t \<Rightarrow> 't Type" and T :: "'t set" where
  parts_base: "t \<in> T \<Longrightarrow> t \<in> parts info T"
| parts_step: "t \<in> parts info T \<Longrightarrow> u \<in> children info t \<Longrightarrow> u \<in> parts info T"

definition lower_case :: "(string \<times> 't) list \<Rightarrow> nat" where
  "lower_case fs = length (filter (\<lambda>f. \<not> IsUpper_first (fst f)) fs)"

definition bad_fields :: "('t \<Rightarrow> 't Type) \<Rightarrow> 't \<Rightarrow> nat" where
  "bad_fields info t = (if Kind (info t) = KStruct then lower_case (Fields (info t)) else 0)"

text \<open>
  \<open>visits info T st st'\<close>: from \<open>st\<close> to \<open>st'\<close> the types \<open>T\<close> were checked: the types added are parts
  of \<open>T\<close>, their own parts are checked too, and each lower-case field in them counted once.
\<close>

definition visits :: "('t \<Rightarrow> 't Type) \<Rightarrow> 't set \<Rightarrow> 't labgob \<Rightarrow> 't labgob \<Rightarrow> bool" where
  "visits info T st st' \<longleftrightarrow>
     checked st \<subseteq> checked st' \<and> T \<subseteq> checked st' \<and> finite (checked st' - checked st) \<and>
     checked st' - checked st \<subseteq> parts info T \<and>
     (\<forall>u \<in> checked st' - checked st. children info u \<subseteq> checked st') \<and>
     errorCount st' = errorCount st + int (\<Sum>u \<in> checked st' - checked st. bad_fields info u)"

lemma parts_mono: "u \<in> parts info T \<Longrightarrow> T \<subseteq> parts info T' \<Longrightarrow> u \<in> parts info T'"
  by (induction rule: parts.induct) (auto intro: parts.intros)

lemma visits_refl: "T \<subseteq> checked st \<Longrightarrow> visits info T st st"
  by (simp add: visits_def)

lemma sum_stages:
  fixes f :: "'a \<Rightarrow> nat"
  assumes "A \<subseteq> B" "B \<subseteq> C" "finite (B - A)" "finite (C - B)"
  shows "(\<Sum>u \<in> C - A. f u) = (\<Sum>u \<in> B - A. f u) + (\<Sum>u \<in> C - B. f u)"
proof -
  have "C - A = (B - A) \<union> (C - B)" using assms(1,2) by blast
  then show ?thesis using assms(3,4) sum.union_disjoint [of "B - A" "C - B" f] by auto
qed

lemma visits_trans:
  assumes "visits info T st st'" "visits info U st' st''"
  shows "visits info (T \<union> U) st st''"
proof -
  note a = assms [unfolded visits_def]
  let ?A = "checked st" and ?B = "checked st'" and ?C = "checked st''"
  have split: "?C - ?A = (?B - ?A) \<union> (?C - ?B)" using a by blast
  have "parts info T \<subseteq> parts info (T \<union> U)" "parts info U \<subseteq> parts info (T \<union> U)"
    by (auto elim!: parts_mono intro: parts_base)
  then have "?C - ?A \<subseteq> parts info (T \<union> U)" using a unfolding split by blast
  moreover have "\<forall>u \<in> ?C - ?A. children info u \<subseteq> ?C" using a unfolding split by blast
  moreover have "finite (?C - ?A)" using a unfolding split by blast
  moreover have "errorCount st'' = errorCount st + int (\<Sum>u \<in> ?C - ?A. bad_fields info u)"
    using a sum_stages [of ?A ?B ?C "bad_fields info"] by simp
  ultimately show ?thesis using a unfolding visits_def by blast
qed

subsection \<open>checkType is exact\<close>

text \<open>Marking the type and counting its own fields comes before the visits of its parts.\<close>

lemma visits_mark:
  assumes "t \<notin> checked st" "visits info T st1 st'" "T = children info t"
    and "checked st1 = insert t (checked st)"
    and "errorCount st1 = errorCount st + int (bad_fields info t)"
  shows "visits info {t} st st'"
proof -
  note v = assms(2) [unfolded visits_def]
  let ?A = "checked st" and ?C = "checked st'"
  have t: "t \<in> ?C" "t \<notin> ?C - checked st1" using v assms(4) by auto
  have new: "?C - ?A = insert t (?C - checked st1)" using v assms(1,4) by auto
  have "parts info T \<subseteq> parts info {t}"
    by (auto elim!: parts_mono intro: parts.intros simp: assms(3))
  then have "?C - ?A \<subseteq> parts info {t}" using v unfolding new by (auto intro: parts_base)
  moreover have "(\<Sum>u \<in> ?C - ?A. bad_fields info u)
      = bad_fields info t + (\<Sum>u \<in> ?C - checked st1. bad_fields info u)"
    unfolding new using v t(2) by simp
  ultimately show ?thesis
    using v assms(3-5) t unfolding visits_def new by auto
qed

lemma check_fields_visits:
  assumes "check_fields check tname fs st = Some st'"
    and check: "\<And>t st st'. check t st = Some st' \<Longrightarrow> visits info {t} st st'"
  shows "visits info (snd ` set fs) (st\<lparr>errorCount := errorCount st + int (lower_case fs)\<rparr>) st'"
  using assms(1)
proof (induction fs arbitrary: st)
  case Nil
  then show ?case by (simp add: visits_refl lower_case_def)
next
  case (Cons f fs)
  define st1 where "st1 = (if \<not> IsUpper_first (fst f) then complain (LowerCase (fst f) tname) st else st)"
  obtain st2 where st2: "check (snd f) st1 = Some st2" "check_fields check tname fs st2 = Some st'"
    using Cons.prems by (auto simp: st1_def Let_def split: option.splits)
  let ?k = "int (lower_case fs)"
  have st1: "checked st1 = checked st"
    "errorCount st1 + ?k = errorCount st + int (lower_case (f # fs))"
    by (auto simp: st1_def complain_def lower_case_def)
  have "visits info {snd f} (st\<lparr>errorCount := errorCount st + int (lower_case (f # fs))\<rparr>)
      (st2\<lparr>errorCount := errorCount st2 + ?k\<rparr>)"
    using check [OF st2(1)] st1 by (auto simp: visits_def)
  from visits_trans [OF this Cons.IH [OF st2(2)]] show ?case by simp
qed

lemma checkType_visits: "checkType info fuel t st = Some st' \<Longrightarrow> visits info {t} st st'"
proof (induction fuel arbitrary: t st st')
  case (Suc fuel)
  show ?case
  proof (cases "t \<in> checked st")
    case True
    then show ?thesis using Suc.prems by (simp add: Let_def visits_refl)
  next
    case False
    let ?k = "Kind (info t)" and ?st = "st\<lparr>checked := insert t (checked st)\<rparr>"
    consider (struct) "?k = KStruct" | (elem) "?k = KSlice \<or> ?k = KArray \<or> ?k = KPtr"
      | (map) "?k = KMap" | (leaf) "?k \<noteq> KStruct" "?k \<noteq> KSlice" "?k \<noteq> KArray" "?k \<noteq> KPtr" "?k \<noteq> KMap"
      by blast
    then show ?thesis
    proof cases
      case struct
      then have "check_fields (checkType info fuel) (Name (info t)) (Fields (info t)) ?st = Some st'"
        using Suc.prems False by (simp add: Let_def)
      from check_fields_visits [OF this Suc.IH] show ?thesis
        by (rule visits_mark [OF False]) (auto simp: children_def bad_fields_def struct)
    next
      case elem
      then have "checkType info fuel (Elem (info t)) ?st = Some st'"
        using Suc.prems False by (auto simp: Let_def)
      from Suc.IH [OF this] show ?thesis
        by (rule visits_mark [OF False]) (use elem in \<open>auto simp: children_def bad_fields_def\<close>)
    next
      case map
      then obtain st2 where "checkType info fuel (Elem (info t)) ?st = Some st2"
        "checkType info fuel (Key (info t)) st2 = Some st'"
        using Suc.prems False by (auto simp: Let_def split: option.splits)
      from visits_trans [OF this [THEN Suc.IH]] show ?thesis
        by (rule visits_mark [OF False]) (auto simp: children_def bad_fields_def map)
    next
      case leaf
      then have "st' = ?st" using Suc.prems False by (simp add: Let_def)
      then have "visits info {} ?st st'" by (simp add: visits_refl)
      then show ?thesis
        by (rule visits_mark [OF False]) (auto simp: children_def bad_fields_def leaf)
    qed
  qed
qed simp

subsection \<open>checkType returns\<close>

lemma check_fields_returns:
  assumes "\<And>t st. t \<in> snd ` set fs \<Longrightarrow> C \<subseteq> checked st \<Longrightarrow>
      \<exists>st'. check t st = Some st' \<and> checked st \<subseteq> checked st'"
    and "C \<subseteq> checked st"
  shows "\<exists>st'. check_fields check tname fs st = Some st' \<and> checked st \<subseteq> checked st'"
  using assms
proof (induction fs arbitrary: st)
  case (Cons f fs)
  define st1 where "st1 = (if \<not> IsUpper_first (fst f) then complain (LowerCase (fst f) tname) st else st)"
  have st1: "checked st1 = checked st" by (simp add: st1_def complain_def)
  obtain st2 where st2: "check (snd f) st1 = Some st2" "checked st \<subseteq> checked st2"
    using Cons.prems(1) [of "snd f" st1] Cons.prems(2) st1 by auto
  obtain st3 where "check_fields check tname fs st2 = Some st3" "checked st2 \<subseteq> checked st3"
    using Cons.IH [OF Cons.prems(1) order_trans [OF Cons.prems(2) st2(2)]] by auto
  then show ?case using st2 by (auto simp: st1_def Let_def)
qed simp

lemma checkType_returns:
  assumes "finite R" "\<And>u. u \<in> R \<Longrightarrow> children info u \<subseteq> R"
  shows "t \<in> R \<Longrightarrow> card (R - checked st) < fuel \<Longrightarrow>
    \<exists>st'. checkType info fuel t st = Some st' \<and> checked st \<subseteq> checked st'"
proof (induction fuel arbitrary: t st)
  case (Suc fuel)
  show ?case
  proof (cases "t \<in> checked st")
    case True
    then show ?thesis by (simp add: Let_def)
  next
    case False
    let ?st = "st\<lparr>checked := insert t (checked st)\<rparr>"
    have "R - checked ?st = (R - checked st) - {t}" "t \<in> R - checked st" using Suc.prems False by auto
    then have less: "card (R - checked ?st) < fuel"
      using Suc.prems(2) assms(1) card_Diff1_less [of "R - checked st" t] by simp
    have go: "\<exists>st'. checkType info fuel u st1 = Some st' \<and> checked st1 \<subseteq> checked st'"
      if "u \<in> children info t" "checked ?st \<subseteq> checked st1" for u st1
    proof (rule Suc.IH)
      show "u \<in> R" using that(1) assms(2) Suc.prems(1) by blast
      have "card (R - checked st1) \<le> card (R - checked ?st)"
        by (rule card_mono) (use assms(1) that(2) in auto)
      then show "card (R - checked st1) < fuel" using less by linarith
    qed
    show ?thesis
    proof (cases "Kind (info t) = KStruct")
      case True
      then show ?thesis
        using check_fields_returns [of "Fields (info t)" "checked ?st" "checkType info fuel" ?st] go False
        by (fastforce simp: children_def Let_def)
    next
      case nostruct: False
      show ?thesis
      proof (cases "Kind (info t) = KMap")
        case True
        then have c: "Elem (info t) \<in> children info t" "Key (info t) \<in> children info t"
          by (simp_all add: children_def)
        obtain st1 where st1: "checkType info fuel (Elem (info t)) ?st = Some st1" "checked ?st \<subseteq> checked st1"
          using go [OF c(1)] by blast
        from go [OF c(2) this(2)] st1 show ?thesis using True False by (auto simp: Let_def)
      next
        case nomap: False
        then show ?thesis
          using go [of "Elem (info t)" ?st] nostruct False by (auto simp: children_def Let_def)
      qed
    qed
  qed
qed simp

lemma parts_closed: "u \<in> parts info T \<Longrightarrow> children info u \<subseteq> parts info T"
  by (auto intro: parts_step)

lemma visits_closed:
  assumes "visits info {t} st st'" "\<And>u. u \<in> checked st \<Longrightarrow> children info u \<subseteq> checked st"
  shows "checked st' = checked st \<union> parts info {t}"
    and "\<And>u. u \<in> checked st' \<Longrightarrow> children info u \<subseteq> checked st'"
proof -
  note v = assms(1) [unfolded visits_def]
  show closed: "children info u \<subseteq> checked st'" if "u \<in> checked st'" for u
    using that v assms(2) by blast
  have "u \<in> checked st'" if "u \<in> parts info {t}" for u
    using that by (induction rule: parts.induct) (use v closed in blast)+
  then show "checked st' = checked st \<union> parts info {t}" using v by blast
qed

subsection \<open>What checkDefault counts\<close>

text \<open>
  The number of basic values that are not zero, down to depth 3, and that every field on the
  way is exported.
\<close>

fun nondefault :: "gvalue \<Rightarrow> int \<Rightarrow> nat"
  and nondefault_fields :: "gfield list \<Rightarrow> int \<Rightarrow> nat" where
  "nondefault (VBasic tname b) depth = (if depth \<le> 3 \<and> \<not> is_zero b then 1 else 0)"
| "nondefault (VStruct fs) depth = (if depth \<le> 3 then nondefault_fields fs (depth + 1) else 0)"
| "nondefault (VPtr None) depth = 0"
| "nondefault (VPtr (Some v)) depth = (if depth \<le> 3 then nondefault v (depth + 1) else 0)"
| "nondefault VOther depth = 0"
| "nondefault_fields [] depth = 0"
| "nondefault_fields (GField fname embedded v # fs) depth = nondefault v depth + nondefault_fields fs depth"

fun exported :: "gvalue \<Rightarrow> bool" and exported_field :: "gfield \<Rightarrow> bool" where
  "exported (VBasic tname b) \<longleftrightarrow> True"
| "exported (VStruct fs) \<longleftrightarrow> (\<forall>f \<in> set fs. exported_field f)"
| "exported (VPtr None) \<longleftrightarrow> True"
| "exported (VPtr (Some v)) \<longleftrightarrow> exported v"
| "exported VOther \<longleftrightarrow> True"
| "exported_field (GField fname embedded v) \<longleftrightarrow> IsUpper_first fname \<and> exported v"

definition warned :: "nat \<Rightarrow> 't labgob \<Rightarrow> 't labgob \<Rightarrow> bool" where
  "warned n st st' \<longleftrightarrow>
     checked st' = checked st \<and> errorCount st' = errorCount st + int n \<and>
     length (printed st') = length (printed st) + (if errorCount st < 1 \<and> 0 < n then 1 else 0)"

lemma warned_trans:
  "0 \<le> errorCount st \<Longrightarrow> warned m st st' \<Longrightarrow> warned n st' st'' \<Longrightarrow> warned (m + n) st st''"
  by (auto simp: warned_def)

lemma checkDefault1_warned:
  fixes st :: "'t labgob"
  shows "r = RW \<Longrightarrow> exported v \<Longrightarrow> 0 \<le> errorCount st \<Longrightarrow>
    returns (checkDefault1 r v depth name st) (warned (nondefault v depth) st)"
  and "r = RW \<Longrightarrow> \<forall>f \<in> set fs. exported_field f \<Longrightarrow> 0 \<le> errorCount st \<Longrightarrow>
    returns (checkDefault_fields r fs depth name st) (warned (nondefault_fields fs (depth + 1)) st)"
proof (induction r v depth name st and r fs depth name st rule: checkDefault1_checkDefault_fields.induct)
  case (7 r fname embedded v fs depth name st)
  define name1 where "name1 = (if name \<noteq> [] then name @ ''.'' @ fname else fname)"
  have r: "field_ro r fname embedded = RW" using 7 by (simp add: field_ro_def)
  obtain st1 where st1: "checkDefault1 RW v (depth + 1) name1 st = Inr st1"
    "warned (nondefault v (depth + 1)) st st1"
    using 7(1) [OF name1_def r] 7(4,5) by (auto simp: returns_iff r)
  moreover have "0 \<le> errorCount st1" using st1(2) 7(5) by (simp add: warned_def)
  ultimately obtain st2 where st2: "checkDefault_fields RW fs depth name st1 = Inr st2"
    "warned (nondefault_fields fs (depth + 1)) st1 st2"
    using 7(2) [OF name1_def 7(3), of st1] 7(3,4) by (auto simp: returns_iff)
  from warned_trans [OF 7(5) st1(2) st2(2)] show ?case
    using st1(1) st2(1) 7(3) r by (simp add: name1_def [symmetric] Let_def)
qed (auto simp: warned_def warn_default_def)

end
