(* ===== verification/Labrpc.thy ===== *)
theory Labrpc
  imports Labgob
begin

section \<open>The simulated network\<close>

text \<open>
  Models \<^verbatim>\<open>src/labrpc/labrpc.go\<close>: client ends, the network that carries their requests, servers
  and services. End names, server names, types and values are type parameters; a server is
  referred to by its address, because \<^verbatim>\<open>isServerDead\<close> compares pointers. What the code draws at
  random is an argument, and so is \<^verbatim>\<open>labgob\<close>'s translation between values and bytes. The one goroutine per request that runs \<^verbatim>\<open>processReq\<close>
  is modelled by its phases, one definition for each stretch of code between two points
  where it waits or takes the lock of the network; how the goroutines interleave is the step
  relation of the theory \<^verbatim>\<open>Labrpc_Steps\<close>.
\<close>

subsection \<open>Messages and the codec\<close>

type_synonym rpc_bytes = "8 word list"

record ('e, 't) reqMsg =
  rq_endname :: 'e
  rq_svcMeth :: string
  rq_argsType :: 't
  rq_args :: rpc_bytes

record replyMsg =
  rp_ok :: bool
  rp_reply :: rpc_bytes

definition failed :: replyMsg where
  "failed = \<lparr>rp_ok = False, rp_reply = []\<rparr>"

text \<open>
  \<^verbatim>\<open>reflect.New\<close> of a type (the zero value), a labgob encoder, and a labgob decoder, which is given the variable
  to decode into and leaves it changed, with whether it reported no error.
\<close>

record ('t, 'v) codec =
  New :: "'t \<Rightarrow> 'v"
  encode :: "'v \<Rightarrow> rpc_bytes"
  decode :: "'v \<Rightarrow> rpc_bytes \<Rightarrow> 'v \<times> bool"

subsection \<open>Call\<close>

record 'e ClientEnd =
  ce_endname :: 'e

definition Call_request ::
  "('t, 'v) codec \<Rightarrow> 'e ClientEnd \<Rightarrow> string \<Rightarrow> 't \<times> 'v \<Rightarrow> ('e, 't) reqMsg" where
  "Call_request cd e svcMeth args =
     \<lparr>rq_endname = ce_endname e, rq_svcMeth = svcMeth, rq_argsType = fst args, rq_args = encode cd (snd args)\<rparr>"

text \<open>What \<^verbatim>\<open>Call\<close> does with the message it receives, with the reply variable before and after.\<close>

definition Call_reply :: "('t, 'v) codec \<Rightarrow> replyMsg \<Rightarrow> 'v \<Rightarrow> (bool \<times> 'v) go" where
  "Call_reply cd rep reply =
     (if rp_ok rep then
        let (v, ok) = decode cd reply (rp_reply rep)
        in if \<not> ok then Inl (Fatal ''decode reply'') else Inr (True, v)
      else Inr (False, reply))"

subsection \<open>The network\<close>

record ('e, 's) Network =
  reliable :: bool
  longDelays :: bool
  longReordering :: bool
  ends :: "'e \<rightharpoonup> 'e ClientEnd"
  enabled :: "'e \<rightharpoonup> bool"
  servers :: "'s \<rightharpoonup> nat option"
  connections :: "'e \<rightharpoonup> 's option"
  closed :: bool
  rn_count :: "32 word"
  rn_bytes :: "64 word"

definition MakeNetwork :: "('e, 's) Network" where
  "MakeNetwork =
     \<lparr>reliable = True, longDelays = False, longReordering = False, ends = Map.empty, enabled = Map.empty,
      servers = Map.empty, connections = Map.empty, closed = False, rn_count = 0, rn_bytes = 0\<rparr>"

definition add_bytes :: "rpc_bytes \<Rightarrow> ('e, 's) Network \<Rightarrow> ('e, 's) Network" where
  "add_bytes bs rn = rn\<lparr>rn_bytes := rn_bytes rn + of_nat (length bs)\<rparr>"

text \<open>
  One turn of the goroutine that \<^verbatim>\<open>MakeNetwork\<close> starts, when it takes a request: the counters. Once the
  network is cleaned up it may have stopped, and \<^verbatim>\<open>Call\<close> returns \<^verbatim>\<open>false\<close> instead of sending.
\<close>

definition accept_req :: "('e, 's) Network \<Rightarrow> ('e, 't) reqMsg \<Rightarrow> ('e, 's) Network" where
  "accept_req rn req = add_bytes (rq_args req) (rn\<lparr>rn_count := rn_count rn + 1\<rparr>)"

definition Cleanup :: "('e, 's) Network \<Rightarrow> ('e, 's) Network go" where
  "Cleanup rn = (if closed rn then Inl (Panic ''close of closed channel'') else Inr (rn\<lparr>closed := True\<rparr>))"

definition Reliable :: "bool \<Rightarrow> ('e, 's) Network \<Rightarrow> ('e, 's) Network" where
  "Reliable yes rn = rn\<lparr>reliable := yes\<rparr>"

definition LongReordering :: "bool \<Rightarrow> ('e, 's) Network \<Rightarrow> ('e, 's) Network" where
  "LongReordering yes rn = rn\<lparr>longReordering := yes\<rparr>"

definition LongDelays :: "bool \<Rightarrow> ('e, 's) Network \<Rightarrow> ('e, 's) Network" where
  "LongDelays yes rn = rn\<lparr>longDelays := yes\<rparr>"

text \<open>Reading a map whose values have a zero value: \<^verbatim>\<open>false\<close> or \<^verbatim>\<open>nil\<close> where there is no entry.\<close>

definition is_enabled :: "('e, 's) Network \<Rightarrow> 'e \<Rightarrow> bool" where
  "is_enabled rn e = (enabled rn e = Some True)"

definition server_at :: "('e, 's) Network \<Rightarrow> 's \<Rightarrow> nat option" where
  "server_at rn s = Option.bind (servers rn s) id"

definition connection :: "('e, 's) Network \<Rightarrow> 'e \<Rightarrow> 's option" where
  "connection rn e = Option.bind (connections rn e) id"

definition readEndnameInfo ::
  "('e, 's) Network \<Rightarrow> 'e \<Rightarrow> bool \<times> 's option \<times> nat option \<times> bool \<times> bool" where
  "readEndnameInfo rn endname =
     (let servername = connection rn endname in
      (is_enabled rn endname, servername,
       case servername of None \<Rightarrow> None | Some s \<Rightarrow> server_at rn s,
       reliable rn, longReordering rn))"

definition isServerDead :: "('e, 's) Network \<Rightarrow> 'e \<Rightarrow> 's \<Rightarrow> nat \<Rightarrow> bool" where
  "isServerDead rn endname servername server \<longleftrightarrow>
     \<not> is_enabled rn endname \<or> server_at rn servername \<noteq> Some server"

definition MakeEnd :: "'e \<Rightarrow> ('e, 's) Network \<Rightarrow> (('e, 's) Network \<times> 'e ClientEnd) go" where
  "MakeEnd endname rn =
     (if ends rn endname \<noteq> None then Inl (Fatal ''MakeEnd: already exists'')
      else
        let e = \<lparr>ce_endname = endname\<rparr>
        in Inr (rn\<lparr>ends := (ends rn)(endname \<mapsto> e), enabled := (enabled rn)(endname \<mapsto> False),
                  connections := (connections rn)(endname \<mapsto> None)\<rparr>, e))"

definition AddServer :: "'s \<Rightarrow> nat \<Rightarrow> ('e, 's) Network \<Rightarrow> ('e, 's) Network" where
  "AddServer servername rs rn = rn\<lparr>servers := (servers rn)(servername \<mapsto> Some rs)\<rparr>"

definition DeleteServer :: "'s \<Rightarrow> ('e, 's) Network \<Rightarrow> ('e, 's) Network" where
  "DeleteServer servername rn = rn\<lparr>servers := (servers rn)(servername \<mapsto> None)\<rparr>"

definition Connect :: "'e \<Rightarrow> 's \<Rightarrow> ('e, 's) Network \<Rightarrow> ('e, 's) Network" where
  "Connect endname servername rn = rn\<lparr>connections := (connections rn)(endname \<mapsto> Some servername)\<rparr>"

definition Enable :: "'e \<Rightarrow> bool \<Rightarrow> ('e, 's) Network \<Rightarrow> ('e, 's) Network" where
  "Enable endname b rn = rn\<lparr>enabled := (enabled rn)(endname \<mapsto> b)\<rparr>"

definition GetTotalCount :: "('e, 's) Network \<Rightarrow> int" where
  "GetTotalCount rn = sint (rn_count rn)"

definition GetTotalBytes :: "('e, 's) Network \<Rightarrow> int" where
  "GetTotalBytes rn = sint (rn_bytes rn)"

subsection \<open>Services and servers\<close>

text \<open>
  A method as \<^verbatim>\<open>reflect\<close> shows it, and its function: on the state of the program, the argument
  and the reply variable it is handed. The receiver's own parameter is the first of \<open>m_In\<close>.
\<close>

record ('t, 'v, 'w) rpc_method =
  m_Name :: string
  m_PkgPath :: string
  m_In :: "'t list"
  m_NumOut :: nat
  m_Func :: "'w \<Rightarrow> 'v \<Rightarrow> 'v \<Rightarrow> 'w \<times> 'v"

record ('t, 'v, 'w) Service =
  svc_name :: string
  methods :: "string \<rightharpoonup> ('t, 'v, 'w) rpc_method"

definition add_method ::
  "('t \<Rightarrow> 't Type) \<Rightarrow> ('t, 'v, 'w) rpc_method \<Rightarrow> ('t, 'v, 'w) Service \<Rightarrow> ('t, 'v, 'w) Service" where
  "add_method info m svc =
     (if m_PkgPath m \<noteq> [] \<or> length (m_In m) \<noteq> 3 \<or> Kind (info (m_In m ! 2)) \<noteq> KPtr \<or> m_NumOut m \<noteq> 0
      then svc
      else svc\<lparr>methods := (methods svc)(m_Name m \<mapsto> m)\<rparr>)"

definition MakeService ::
  "('t \<Rightarrow> 't Type) \<Rightarrow> string \<Rightarrow> ('t, 'v, 'w) rpc_method list \<Rightarrow> ('t, 'v, 'w) Service" where
  "MakeService info tname ms = fold (add_method info) ms \<lparr>svc_name = tname, methods = Map.empty\<rparr>"

definition Service_dispatch ::
  "('t \<Rightarrow> 't Type) \<Rightarrow> ('t, 'v) codec \<Rightarrow> ('t, 'v, 'w) Service \<Rightarrow> string \<Rightarrow> ('e, 't) reqMsg \<Rightarrow> 'w
     \<Rightarrow> ('w \<times> replyMsg) go" where
  "Service_dispatch info cd svc methname req w =
     (case methods svc methname of
        Some m \<Rightarrow>
          let args = fst (decode cd (New cd (rq_argsType req)) (rq_args req));
              replyv = New cd (Elem (info (m_In m ! 2)));
              (w, replyv) = m_Func m w args replyv
          in Inr (w, \<lparr>rp_ok = True, rp_reply = encode cd replyv\<rparr>)
      | None \<Rightarrow> Inl (Fatal ''labrpc.Service.dispatch(): unknown method''))"

record ('t, 'v, 'w) Server =
  services :: "string \<rightharpoonup> ('t, 'v, 'w) Service"
  sv_count :: int

definition MakeServer :: "('t, 'v, 'w) Server" where
  "MakeServer = \<lparr>services = Map.empty, sv_count = 0\<rparr>"

definition AddService :: "('t, 'v, 'w) Service \<Rightarrow> ('t, 'v, 'w) Server \<Rightarrow> ('t, 'v, 'w) Server" where
  "AddService svc rs = rs\<lparr>services := (services rs)(svc_name svc \<mapsto> svc)\<rparr>"

text \<open>\<^verbatim>\<open>strings.LastIndex\<close> of a dot.\<close>

definition LastIndex_dot :: "string \<Rightarrow> int" where
  "LastIndex_dot s =
     (if CHR ''.'' \<in> set s then len s - 1 - len (takeWhile (\<lambda>c. c \<noteq> CHR ''.'') (rev s)) else - 1)"

text \<open>\<^verbatim>\<open>Server.dispatch\<close> up to where it releases the lock, and all of it.\<close>

definition Server_lookup ::
  "('t, 'v, 'w) Server \<Rightarrow> ('e, 't) reqMsg
     \<Rightarrow> (('t, 'v, 'w) Server \<times> ('t, 'v, 'w) Service \<times> string) go" where
  "Server_lookup rs req =
     (let rs = rs\<lparr>sv_count := sv_count rs + 1\<rparr>;
          dot = LastIndex_dot (rq_svcMeth req)
      in
      bindE (slice_to (rq_svcMeth req) dot) (\<lambda>serviceName.
      bindE (slice_from (rq_svcMeth req) (dot + 1)) (\<lambda>methodName.
      case services rs serviceName of
        None \<Rightarrow> Inl (Fatal ''labrpc.Server.dispatch(): unknown service'')
      | Some service \<Rightarrow> Inr (rs, service, methodName))))"

definition Server_dispatch ::
  "('t \<Rightarrow> 't Type) \<Rightarrow> ('t, 'v) codec \<Rightarrow> ('t, 'v, 'w) Server \<Rightarrow> ('e, 't) reqMsg \<Rightarrow> 'w
     \<Rightarrow> (('t, 'v, 'w) Server \<times> 'w \<times> replyMsg) go" where
  "Server_dispatch info cd rs req w =
     bindE (Server_lookup rs req) (\<lambda>(rs, service, methodName).
     bindE (Service_dispatch info cd service methodName req w) (\<lambda>(w, rep). Inr (rs, w, rep)))"

definition Server_GetCount :: "('t, 'v, 'w) Server \<Rightarrow> int" where
  "Server_GetCount rs = sv_count rs"

definition Network_GetCount ::
  "(nat \<Rightarrow> ('t, 'v, 'w) Server) \<Rightarrow> 's \<Rightarrow> ('e, 's) Network \<Rightarrow> int go" where
  "Network_GetCount heap servername rn =
     (case server_at rn servername of
        None \<Rightarrow> Inl NilDereference
      | Some svr \<Rightarrow> Inr (Server_GetCount (heap svr)))"

subsection \<open>processReq\<close>

text \<open>
  Where the goroutine of a request is: it has not looked at the network yet, it waits for the
  handler it started, it took the handler's reply, it gave up because the server is dead, it
  set a timer for the reply or for a failure, it has replied.
\<close>

datatype 's phase =
    Arrived
  | Waiting 's nat bool bool            \<comment> \<open>servername, server, reliable, longreordering\<close>
  | Received 's nat bool bool replyMsg
  | GaveUp
  | Delayed replyMsg
  | NoReply
  | Replied replyMsg

definition processReq_start :: "('e, 's) Network \<Rightarrow> ('e, 't) reqMsg \<Rightarrow> int \<Rightarrow> 's phase" where
  "processReq_start rn req rnd =
     (let (en, servername, server, rel, longreordering) = readEndnameInfo rn (rq_endname req) in
      case (servername, server) of
        (Some s, Some a) \<Rightarrow>
          if en then
            if \<not> rel \<and> rnd mod 1000 < 100 then Replied failed
            else Waiting s a rel longreordering
          else NoReply
      | _ \<Rightarrow> NoReply)"

text \<open>The turn of the loop after 100 milliseconds without a reply.\<close>

definition processReq_poll :: "('e, 's) Network \<Rightarrow> ('e, 't) reqMsg \<Rightarrow> 's \<Rightarrow> nat \<Rightarrow> bool \<Rightarrow> bool \<Rightarrow> 's phase" where
  "processReq_poll rn req s a rel longreordering =
     (if isServerDead rn (rq_endname req) s a then GaveUp else Waiting s a rel longreordering)"

text \<open>After the loop, with a reply.\<close>

definition processReq_reply ::
  "('e, 's) Network \<Rightarrow> ('e, 't) reqMsg \<Rightarrow> 's \<Rightarrow> nat \<Rightarrow> bool \<Rightarrow> bool \<Rightarrow> replyMsg \<Rightarrow> int \<Rightarrow> int
     \<Rightarrow> ('e, 's) Network \<times> 's phase" where
  "processReq_reply rn req s a rel longreordering rep rnd1 rnd2 =
     (let serverDead = isServerDead rn (rq_endname req) s a in
      if serverDead then (rn, Replied failed)
      else if \<not> rel \<and> rnd1 mod 1000 < 100 then (rn, Replied failed)
      else if longreordering \<and> rnd2 mod 900 < 600 then (rn, Delayed rep)
      else (add_bytes (rp_reply rep) rn, Replied rep))"

text \<open>After the loop without a reply, and the two timers.\<close>

fun processReq_late :: "('e, 's) Network \<Rightarrow> 's phase \<Rightarrow> (('e, 's) Network \<times> 's phase) option" where
  "processReq_late rn GaveUp = Some (rn, Replied failed)"
| "processReq_late rn (Delayed rep) = Some (add_bytes (rp_reply rep) rn, Replied rep)"
| "processReq_late rn NoReply = Some (rn, Replied failed)"
| "processReq_late rn _ = None"

end
