(* ===== verification/Labrpc_Steps.thy ===== *)
theory Labrpc_Steps
  imports Labrpc
begin

section \<open>Requests in flight\<close>

text \<open>
  The interleavings of the simulated network: the tester changes the network at any moment,
  requests arrive, and for each of them the goroutine of \<^verbatim>\<open>processReq\<close> and the goroutine that it
  starts to run the handler make progress independently. A handler runs in one step, after the
  step that looks it up. A failure of the code stops the whole program, so there is no step
  for it.
\<close>

subsection \<open>The system\<close>

text \<open>What the tester may do to the network.\<close>

datatype ('e, 's) net_op =
    OpMakeEnd 'e
  | OpAddServer 's nat
  | OpDeleteServer 's
  | OpConnect 'e 's
  | OpEnable 'e bool
  | OpReliable bool
  | OpLongReordering bool
  | OpLongDelays bool
  | OpCleanup

primrec net_apply :: "('e, 's) net_op \<Rightarrow> ('e, 's) Network \<Rightarrow> ('e, 's) Network go" where
  "net_apply (OpMakeEnd e) rn = bindE (MakeEnd e rn) (\<lambda>(rn, _). Inr rn)"
| "net_apply (OpAddServer s a) rn = Inr (AddServer s a rn)"
| "net_apply (OpDeleteServer s) rn = Inr (DeleteServer s rn)"
| "net_apply (OpConnect e s) rn = Inr (Connect e s rn)"
| "net_apply (OpEnable e b) rn = Inr (Enable e b rn)"
| "net_apply (OpReliable b) rn = Inr (Reliable b rn)"
| "net_apply (OpLongReordering b) rn = Inr (LongReordering b rn)"
| "net_apply (OpLongDelays b) rn = Inr (LongDelays b rn)"
| "net_apply OpCleanup rn = Cleanup rn"

text \<open>
  The goroutine that runs the handler of a request: not started, about to look up the service
  at a server, about to run the method, blocked with the reply on \<^verbatim>\<open>ech\<close>, ended.
\<close>

datatype ('t, 'v, 'w) handler =
    Idle
  | Started nat
  | Running nat "('t, 'v, 'w) Service" string
  | Offering nat replyMsg
  | Ended nat replyMsg

record ('e, 's, 't, 'v, 'w) call =
  c_req :: "('e, 't) reqMsg"
  c_phase :: "'s phase"
  c_handler :: "('t, 'v, 'w) handler"

text \<open>\<open>runs\<close> records every execution of a handler: the request, the server and the reply.\<close>

record ('e, 's, 't, 'v, 'w) rpc_sys =
  net :: "('e, 's) Network"
  heap :: "nat \<Rightarrow> ('t, 'v, 'w) Server"
  world :: 'w
  calls :: "nat \<rightharpoonup> ('e, 's, 't, 'v, 'w) call"
  runs :: "(nat \<times> nat \<times> replyMsg) list"

definition rpc_init ::
  "(nat \<Rightarrow> ('t, 'v, 'w) Server) \<Rightarrow> 'w \<Rightarrow> ('e, 's, 't, 'v, 'w) rpc_sys" where
  "rpc_init h w = \<lparr>net = MakeNetwork, heap = h, world = w, calls = Map.empty, runs = []\<rparr>"

definition starts_handler :: "'s phase \<Rightarrow> ('t, 'v, 'w) handler" where
  "starts_handler p = (case p of Waiting s a rel lr \<Rightarrow> Started a | _ \<Rightarrow> Idle)"

datatype ('e, 's) rpc_event = Tester "('e, 's) net_op" | Progress nat

inductive rpc_step ::
  "('t \<Rightarrow> 't Type) \<Rightarrow> ('t, 'v) codec \<Rightarrow> ('e, 's) rpc_event
     \<Rightarrow> ('e, 's, 't, 'v, 'w) rpc_sys \<Rightarrow> ('e, 's, 't, 'v, 'w) rpc_sys \<Rightarrow> bool"
  for info :: "'t \<Rightarrow> 't Type" and cd :: "('t, 'v) codec" where
  tester: "net_apply opr (net s) = Inr rn \<Longrightarrow> rpc_step info cd (Tester opr) s (s\<lparr>net := rn\<rparr>)"
| send: "calls s i = None \<Longrightarrow> ends (net s) (ce_endname e) = Some e \<Longrightarrow>
    req = Call_request cd e svcMeth args \<Longrightarrow>
    rpc_step info cd (Progress i) s
      (s\<lparr>net := accept_req (net s) req,
         calls := (calls s)(i \<mapsto> \<lparr>c_req = req, c_phase = Arrived, c_handler = Idle\<rparr>)\<rparr>)"
| start: "calls s i = Some c \<Longrightarrow> c_phase c = Arrived \<Longrightarrow>
    p = processReq_start (net s) (c_req c) rnd \<Longrightarrow>
    rpc_step info cd (Progress i) s
      (s\<lparr>calls := (calls s)(i \<mapsto> c\<lparr>c_phase := p, c_handler := starts_handler p\<rparr>)\<rparr>)"
| lookup: "calls s i = Some c \<Longrightarrow> c_handler c = Started a \<Longrightarrow>
    Server_lookup (heap s a) (c_req c) = Inr (rs, svc, meth) \<Longrightarrow>
    rpc_step info cd (Progress i) s
      (s\<lparr>heap := (heap s)(a := rs), calls := (calls s)(i \<mapsto> c\<lparr>c_handler := Running a svc meth\<rparr>)\<rparr>)"
| run: "calls s i = Some c \<Longrightarrow> c_handler c = Running a svc meth \<Longrightarrow>
    Service_dispatch info cd svc meth (c_req c) (world s) = Inr (w, rep) \<Longrightarrow>
    rpc_step info cd (Progress i) s
      (s\<lparr>world := w, calls := (calls s)(i \<mapsto> c\<lparr>c_handler := Offering a rep\<rparr>),
         runs := runs s @ [(i, a, rep)]\<rparr>)"
| take: "calls s i = Some c \<Longrightarrow> c_handler c = Offering a rep \<Longrightarrow> c_phase c = Waiting sn a rel lr \<Longrightarrow>
    rpc_step info cd (Progress i) s
      (s\<lparr>calls := (calls s)(i \<mapsto> c\<lparr>c_phase := Received sn a rel lr rep, c_handler := Ended a rep\<rparr>)\<rparr>)"
| poll: "calls s i = Some c \<Longrightarrow> c_phase c = Waiting sn a rel lr \<Longrightarrow>
    p = processReq_poll (net s) (c_req c) sn a rel lr \<Longrightarrow>
    rpc_step info cd (Progress i) s (s\<lparr>calls := (calls s)(i \<mapsto> c\<lparr>c_phase := p\<rparr>)\<rparr>)"
| drain: "calls s i = Some c \<Longrightarrow> c_handler c = Offering a rep \<Longrightarrow>
    c_phase c = GaveUp \<or> c_phase c = Replied failed \<Longrightarrow>
    rpc_step info cd (Progress i) s (s\<lparr>calls := (calls s)(i \<mapsto> c\<lparr>c_handler := Ended a rep\<rparr>)\<rparr>)"
| reply: "calls s i = Some c \<Longrightarrow> c_phase c = Received sn a rel lr rep \<Longrightarrow>
    processReq_reply (net s) (c_req c) sn a rel lr rep rnd1 rnd2 = (rn, p) \<Longrightarrow>
    rpc_step info cd (Progress i) s (s\<lparr>net := rn, calls := (calls s)(i \<mapsto> c\<lparr>c_phase := p\<rparr>)\<rparr>)"
| late: "calls s i = Some c \<Longrightarrow> processReq_late (net s) (c_phase c) = Some (rn, p) \<Longrightarrow>
    rpc_step info cd (Progress i) s (s\<lparr>net := rn, calls := (calls s)(i \<mapsto> c\<lparr>c_phase := p\<rparr>)\<rparr>)"

inductive rpc_steps ::
  "('t \<Rightarrow> 't Type) \<Rightarrow> ('t, 'v) codec \<Rightarrow> ('e, 's) rpc_event list
     \<Rightarrow> ('e, 's, 't, 'v, 'w) rpc_sys \<Rightarrow> ('e, 's, 't, 'v, 'w) rpc_sys \<Rightarrow> bool"
  for info :: "'t \<Rightarrow> 't Type" and cd :: "('t, 'v) codec" where
  rpc_none: "rpc_steps info cd [] s s"
| rpc_more: "rpc_steps info cd evs s s' \<Longrightarrow> rpc_step info cd ev s' s'' \<Longrightarrow> rpc_steps info cd (evs @ [ev]) s s''"

inductive_cases rpc_step_Tester: "rpc_step info cd (Tester opr) s s'"
inductive_cases rpc_step_Progress: "rpc_step info cd (Progress i) s s'"

subsection \<open>Replies come from one run of the handler\<close>

text \<open>
  For a request: whether its handler ran, as its goroutine says, agrees with the record, and a
  reply on its way is a failure or the one recorded.
\<close>

type_synonym run_log = "(nat \<times> nat \<times> replyMsg) list"

fun handler_ok :: "run_log \<Rightarrow> nat \<Rightarrow> ('t, 'v, 'w) handler \<Rightarrow> bool" where
  "handler_ok R i (Offering a rep) \<longleftrightarrow> (i, a, rep) \<in> set R"
| "handler_ok R i (Ended a rep) \<longleftrightarrow> (i, a, rep) \<in> set R"
| "handler_ok R i h \<longleftrightarrow> i \<notin> fst ` set R"

fun phase_ok :: "run_log \<Rightarrow> nat \<Rightarrow> ('t, 'v, 'w) handler \<Rightarrow> 's phase \<Rightarrow> bool" where
  "phase_ok R i h Arrived \<longleftrightarrow> h = Idle"
| "phase_ok R i h (Received sn a rel lr rep) \<longleftrightarrow> (i, a, rep) \<in> set R"
| "phase_ok R i h (Delayed rep) \<longleftrightarrow> (\<exists>a. (i, a, rep) \<in> set R)"
| "phase_ok R i h (Replied rep) \<longleftrightarrow> rep = failed \<or> (\<exists>a. (i, a, rep) \<in> set R)"
| "phase_ok R i h p \<longleftrightarrow> True"

definition call_ok :: "run_log \<Rightarrow> nat \<Rightarrow> ('e, 's, 't, 'v, 'w) call \<Rightarrow> bool" where
  "call_ok R i c \<longleftrightarrow> handler_ok R i (c_handler c) \<and> phase_ok R i (c_handler c) (c_phase c)"

definition calls_ok :: "run_log \<Rightarrow> (nat \<rightharpoonup> ('e, 's, 't, 'v, 'w) call) \<Rightarrow> bool" where
  "calls_ok R cs \<longleftrightarrow>
     distinct (map fst R) \<and> fst ` set R \<subseteq> dom cs \<and> (\<forall>i c. cs i = Some c \<longrightarrow> call_ok R i c)"

definition rpc_inv :: "('e, 's, 't, 'v, 'w) rpc_sys \<Rightarrow> bool" where
  "rpc_inv s \<longleftrightarrow> calls_ok (runs s) (calls s)"

lemma calls_ok_upd: "calls_ok R cs \<Longrightarrow> call_ok R i c \<Longrightarrow> calls_ok R (cs(i \<mapsto> c))"
  by (auto simp: calls_ok_def)

lemma calls_okD: "calls_ok R cs \<Longrightarrow> cs i = Some c \<Longrightarrow> call_ok R i c"
  by (simp add: calls_ok_def)

lemma ok_other_run:
  "j \<noteq> i \<Longrightarrow> handler_ok (R @ [(i, a, rep)]) j h = handler_ok R j h"
  "j \<noteq> i \<Longrightarrow> phase_ok (R @ [(i, a, rep)]) j h p = phase_ok R j h p"
  by (cases h; simp) (cases p; simp)

lemma calls_ok_run:
  assumes ok: "calls_ok R cs" and c: "cs i = Some c" and r: "c_handler c = Running a svc meth"
  shows "calls_ok (R @ [(i, a, rep)]) (cs(i \<mapsto> c\<lparr>c_handler := Offering a rep\<rparr>))"
proof -
  have i: "i \<notin> fst ` set R" "phase_ok R i (Running a svc meth) (c_phase c)"
    using calls_okD [OF ok c] r by (simp_all add: call_ok_def)
  then have "call_ok (R @ [(i, a, rep)]) i (c\<lparr>c_handler := Offering a rep\<rparr>)"
    by (cases "c_phase c") (auto simp: call_ok_def)
  then show ?thesis using ok c i(1) by (auto simp: calls_ok_def call_ok_def ok_other_run)
qed

lemma processReq_start_eq:
  "processReq_start rn req rnd =
     (case connection rn (rq_endname req) of
        None \<Rightarrow> NoReply
      | Some s \<Rightarrow>
        case server_at rn s of
          None \<Rightarrow> NoReply
        | Some a \<Rightarrow>
          if \<not> is_enabled rn (rq_endname req) then NoReply
          else if \<not> reliable rn \<and> rnd mod 1000 < 100 then Replied failed
          else Waiting s a (reliable rn) (longReordering rn))"
  by (simp add: processReq_start_def readEndnameInfo_def Let_def split: option.splits)

lemma call_ok_start:
  assumes "call_ok R i c" "c_phase c = Arrived" "p = processReq_start rn req rnd"
  shows "call_ok R i (c\<lparr>c_phase := p, c_handler := starts_handler p\<rparr>)"
proof -
  have i: "i \<notin> fst ` set R"
    using assms(1,2) by (metis call_ok_def handler_ok.simps(3) phase_ok.simps(1))
  consider (wait) s a rel lr where "p = Waiting s a rel lr" | (noreply) "p = NoReply" | (fail) "p = Replied failed"
    using assms(3) by (simp add: processReq_start_eq split: option.splits if_splits)
  then show ?thesis using i by cases (simp_all add: call_ok_def starts_handler_def)
qed

lemma call_ok_reply:
  "call_ok R i c \<Longrightarrow> c_phase c = Received sn a rel lr rep \<Longrightarrow>
   processReq_reply rn req sn a rel lr rep rnd1 rnd2 = (rn', p) \<Longrightarrow> call_ok R i (c\<lparr>c_phase := p\<rparr>)"
  by (auto simp: call_ok_def processReq_reply_def Let_def split: if_splits)

lemma call_ok_late:
  "call_ok R i c \<Longrightarrow> processReq_late rn (c_phase c) = Some (rn', p) \<Longrightarrow> call_ok R i (c\<lparr>c_phase := p\<rparr>)"
  by (cases "c_phase c") (auto simp: call_ok_def)

lemma rpc_step_inv: "rpc_step info cd ev s s' \<Longrightarrow> rpc_inv s \<Longrightarrow> rpc_inv s'"
proof (induction rule: rpc_step.induct)
  case (send s i e req svcMeth args)
  then have "i \<notin> fst ` set (runs s)" by (auto simp: rpc_inv_def calls_ok_def)
  with send show ?case by (simp add: rpc_inv_def calls_ok_upd call_ok_def)
next
  case (start s i c p rnd)
  then show ?case using call_ok_start calls_okD by (fastforce simp: rpc_inv_def intro!: calls_ok_upd)
next
  case (run s i c a svc meth w rep)
  then show ?case by (simp add: rpc_inv_def calls_ok_run)
next
  case (reply s i c sn a rel lr rep rnd1 rnd2 rn p)
  then show ?case using call_ok_reply calls_okD by (fastforce simp: rpc_inv_def intro!: calls_ok_upd)
next
  case (late s i c rn p)
  then show ?case using call_ok_late calls_okD by (fastforce simp: rpc_inv_def intro!: calls_ok_upd)
next
  case (poll s i c sn a rel lr p)
  then have "call_ok (runs s) i c" by (auto simp: rpc_inv_def dest: calls_okD)
  with poll show ?case
    by (simp add: rpc_inv_def, intro calls_ok_upd) (simp_all add: call_ok_def processReq_poll_def)
next
  case (take s i c a rep sn rel lr)
  then have "call_ok (runs s) i c" by (auto simp: rpc_inv_def dest: calls_okD)
  with take show ?case
    by (simp add: rpc_inv_def, intro calls_ok_upd) (simp_all add: call_ok_def)
next
  case (lookup s i c a rs svc meth)
  then have "call_ok (runs s) i c" by (auto simp: rpc_inv_def dest: calls_okD)
  with lookup show ?case
    by (simp add: rpc_inv_def, intro calls_ok_upd)
      (simp, cases "c_phase c", simp_all add: call_ok_def)
next
  case (drain s i c a rep)
  then have "call_ok (runs s) i c" by (auto simp: rpc_inv_def dest: calls_okD)
  with drain show ?case
    by (simp add: rpc_inv_def, intro calls_ok_upd) (auto simp: call_ok_def)
qed (simp add: rpc_inv_def)

lemma rpc_steps_inv: "rpc_steps info cd evs s s' \<Longrightarrow> rpc_inv s \<Longrightarrow> rpc_inv s'"
  by (induction rule: rpc_steps.induct) (auto intro: rpc_step_inv)

lemma rpc_init_inv: "rpc_inv (rpc_init h w)"
  by (simp add: rpc_inv_def rpc_init_def calls_ok_def)

subsection \<open>A dead server answers nothing more\<close>

text \<open>
  The requests whose server is no longer registered under the name it was found by: they are
  still waiting, or they end with a failure.
\<close>

fun doomed :: "'s \<Rightarrow> nat \<Rightarrow> 's phase \<Rightarrow> bool" where
  "doomed sn a (Waiting sn' a' rel lr) \<longleftrightarrow> sn' = sn \<and> a' = a"
| "doomed sn a (Received sn' a' rel lr rep) \<longleftrightarrow> sn' = sn \<and> a' = a"
| "doomed sn a GaveUp \<longleftrightarrow> True"
| "doomed sn a (Replied rep) \<longleftrightarrow> rep = failed"
| "doomed sn a p \<longleftrightarrow> False"

definition dead_call :: "nat \<Rightarrow> 's \<Rightarrow> nat \<Rightarrow> ('e, 's, 't, 'v, 'w) rpc_sys \<Rightarrow> bool" where
  "dead_call i sn a s \<longleftrightarrow>
     server_at (net s) sn \<noteq> Some a \<and> (\<exists>c. calls s i = Some c \<and> doomed sn a (c_phase c))"

lemma server_at_simps [simp]:
  "server_at (accept_req rn req) sn = server_at rn sn"
  "server_at (add_bytes bs rn) sn = server_at rn sn"
  by (simp_all add: server_at_def accept_req_def add_bytes_def)

lemma net_apply_server_at:
  "net_apply opr rn = Inr rn' \<Longrightarrow> opr \<noteq> OpAddServer sn a \<Longrightarrow> server_at rn' sn = Some a
    \<Longrightarrow> server_at rn sn = Some a"
  by (cases opr)
    (auto simp: server_at_def MakeEnd_def AddServer_def DeleteServer_def Connect_def Enable_def
      Reliable_def LongReordering_def LongDelays_def Cleanup_def Let_def split: if_splits)

lemma reply_dead:
  assumes "server_at rn sn \<noteq> Some a"
  shows "processReq_reply rn req sn a rel lr rep rnd1 rnd2 = (rn, Replied failed)"
  using assms by (simp add: processReq_reply_def isServerDead_def)

lemma dead_step:
  "rpc_step info cd ev s s' \<Longrightarrow> ev \<noteq> Tester (OpAddServer sn a) \<Longrightarrow> dead_call i sn a s \<Longrightarrow> dead_call i sn a s'"
proof (induction rule: rpc_step.induct)
  case (tester opr s rn)
  then show ?case using net_apply_server_at by (fastforce simp: dead_call_def)
next
  case (late s j c rn p)
  have "server_at rn sn = server_at (net s) sn" "doomed sn a (c_phase c) \<Longrightarrow> doomed sn a p"
    using late(2) by (cases "c_phase c"; auto)+
  with late show ?case by (auto simp: dead_call_def)
next
  case (reply s j c sn' a' rel lr rep rnd1 rnd2 rn p)
  have "server_at rn sn = server_at (net s) sn"
    using reply(3) by (auto simp: processReq_reply_def Let_def split: if_splits)
  with reply show ?case by (auto simp: dead_call_def reply_dead)
next
  case (poll s j c sn' a' rel lr p)
  then show ?case by (auto simp: dead_call_def processReq_poll_def)
qed (auto simp: dead_call_def)

lemma dead_steps:
  "rpc_steps info cd evs s s' \<Longrightarrow> Tester (OpAddServer sn a) \<notin> set evs \<Longrightarrow> dead_call i sn a s
    \<Longrightarrow> dead_call i sn a s'"
  by (induction rule: rpc_steps.induct) (auto intro: dead_step)

subsection \<open>A request that is served\<close>

lemma LastIndex_dot_last:
  assumes "CHR ''.'' \<notin> set m"
  shows "LastIndex_dot (sv @ CHR ''.'' # m) = len sv"
proof -
  have "takeWhile (\<lambda>c. c \<noteq> CHR ''.'') (rev (sv @ CHR ''.'' # m)) = rev m"
    using assms by (auto simp: takeWhile_append intro: takeWhile_eq_all_conv [THEN iffD2])
  then show ?thesis by (simp add: LastIndex_dot_def) (simp add: len_def)
qed

lemma Server_lookup_named:
  assumes "rq_svcMeth req = sv @ CHR ''.'' # m" "CHR ''.'' \<notin> set m" "services rs sv = Some svc"
  shows "Server_lookup rs req = Inr (rs\<lparr>sv_count := sv_count rs + 1\<rparr>, svc, m)"
proof -
  have "nat (len sv + 1) = Suc (length sv)" by (simp add: len_def)
  then show ?thesis
    using assms by (simp add: Server_lookup_def LastIndex_dot_last slice_to_def slice_from_def)
qed

lemma rpc_steps_Cons:
  "rpc_steps info cd evs s' s'' \<Longrightarrow> rpc_step info cd ev s s' \<Longrightarrow> rpc_steps info cd (ev # evs) s s''"
  by (induction rule: rpc_steps.induct)
    (auto intro: rpc_more [of info cd "[]", simplified] rpc_none rpc_more [of info cd "_ # _", simplified])

lemma rpc_steps_append:
  "rpc_steps info cd evs' s' s'' \<Longrightarrow> rpc_steps info cd evs s s' \<Longrightarrow> rpc_steps info cd (evs @ evs') s s''"
  by (induction rule: rpc_steps.induct) (auto intro: rpc_more simp flip: append_assoc)

text \<open>A sequence of the tester's operations.\<close>

primrec net_ops :: "('e, 's) net_op list \<Rightarrow> ('e, 's) Network \<Rightarrow> ('e, 's) Network go" where
  "net_ops [] rn = Inr rn"
| "net_ops (opr # ops) rn = bindE (net_apply opr rn) (net_ops ops)"

lemma net_ops_steps:
  "net_ops ops (net s) = Inr rn \<Longrightarrow> rpc_steps info cd (map Tester ops) s (s\<lparr>net := rn\<rparr>)"
proof (induction ops arbitrary: s)
  case Nil
  then have "s\<lparr>net := rn\<rparr> = s" by (cases s) simp
  then show ?case by (simp add: rpc_none)
next
  case (Cons opr ops)
  then obtain rn1 where rn1: "net_apply opr (net s) = Inr rn1" "net_ops ops rn1 = Inr rn"
    by (auto simp: bindE_eq_Inr)
  from Cons.IH [of "s\<lparr>net := rn1\<rparr>"] rn1(2)
  have "rpc_steps info cd (map Tester ops) (s\<lparr>net := rn1\<rparr>) (s\<lparr>net := rn\<rparr>)" by simp
  from rpc_steps_Cons [OF this rpc_step.tester [OF rn1(1)]] show ?case by simp
qed

text \<open>
  Nothing interferes: the request is sent, finds its server, the handler is looked up and run,
  its reply is taken and passed on.
\<close>

lemma rpc_served:
  fixes s :: "('e, 's, 't, 'v, 'w) rpc_sys"
  assumes i: "calls s i = None" and e: "ends (net s) (ce_endname e) = Some e"
    and en: "is_enabled (net s) (ce_endname e)" and co: "connection (net s) (ce_endname e) = Some sn"
    and sv: "server_at (net s) sn = Some a" and re: "reliable (net s)" "\<not> longReordering (net s)"
    and req: "req = Call_request cd e svcMeth args"
    and disp: "Server_dispatch info cd (heap s a) req (world s) = Inr (rs, w, rep)"
  shows "\<exists>s'. rpc_steps info cd (replicate 6 (Progress i)) s s' \<and>
    calls s' i = Some \<lparr>c_req = req, c_phase = Replied rep, c_handler = Ended a rep\<rparr> \<and>
    world s' = w \<and> heap s' = (heap s)(a := rs) \<and> runs s' = runs s @ [(i, a, rep)] \<and>
    net s' = add_bytes (rp_reply rep) (accept_req (net s) req)"
proof -
  obtain svc m where look: "Server_lookup (heap s a) req = Inr (rs, svc, m)"
    and run: "Service_dispatch info cd svc m req (world s) = Inr (w, rep)"
    using disp by (auto simp: Server_dispatch_def bindE_eq_Inr)
  define rn where "rn = accept_req (net s) req"
  have rn: "is_enabled rn (rq_endname req)" "connection rn (rq_endname req) = Some sn"
    "server_at rn sn = Some a" "reliable rn" "\<not> longReordering rn"
    using en co sv re unfolding rn_def req
    by (simp_all add: is_enabled_def connection_def server_at_def accept_req_def add_bytes_def Call_request_def)
  define s1 where "s1 = s\<lparr>net := rn, calls := (calls s)(i \<mapsto> \<lparr>c_req = req, c_phase = Arrived, c_handler = Idle\<rparr>)\<rparr>"
  let ?W = "Waiting sn a True False" and ?hp = "(heap s)(a := rs)"
  let ?c = "\<lambda>p h. (calls s)(i \<mapsto> \<lparr>c_req = req, c_phase = p, c_handler = h\<rparr>)"
  let ?s2 = "s\<lparr>net := rn, calls := ?c ?W (Started a)\<rparr>"
  let ?s3 = "s\<lparr>net := rn, heap := ?hp, calls := ?c ?W (Running a svc m)\<rparr>"
  let ?s4 = "s\<lparr>net := rn, heap := ?hp, world := w, calls := ?c ?W (Offering a rep), runs := runs s @ [(i, a, rep)]\<rparr>"
  let ?s5 = "?s4\<lparr>calls := ?c (Received sn a True False rep) (Ended a rep)\<rparr>"
  let ?s6 = "?s4\<lparr>net := add_bytes (rp_reply rep) rn, calls := ?c (Replied rep) (Ended a rep)\<rparr>"
  have 1: "rpc_step info cd (Progress i) s s1"
    using rpc_step.send [OF i e req, of info] by (simp add: s1_def rn_def)
  have 2: "rpc_step info cd (Progress i) s1 ?s2"
    using rpc_step.start [of s1 i _ _ 0 info cd, OF _ _ refl] rn
    by (simp add: s1_def processReq_start_eq starts_handler_def)
  have 3: "rpc_step info cd (Progress i) ?s2 ?s3"
    using rpc_step.lookup [of ?s2 i _ a rs svc m info cd] look by simp
  have 4: "rpc_step info cd (Progress i) ?s3 ?s4"
    using rpc_step.run [of ?s3 i _ a svc m info cd w rep] run by simp
  have 5: "rpc_step info cd (Progress i) ?s4 ?s5"
    using rpc_step.take [of ?s4 i _ a rep sn True False info cd] by simp
  have 6: "rpc_step info cd (Progress i) ?s5 ?s6"
    using rpc_step.reply [of ?s5 i _ sn a True False rep 0 0 "add_bytes (rp_reply rep) rn" "Replied rep" info cd] rn
    by (simp add: processReq_reply_def isServerDead_def)
  have "rpc_steps info cd (replicate 6 (Progress i)) s ?s6"
    using rpc_steps_Cons [OF rpc_steps_Cons [OF rpc_steps_Cons [OF rpc_steps_Cons
      [OF rpc_steps_Cons [OF rpc_steps_Cons [OF rpc_none 6] 5] 4] 3] 2] 1]
    by (simp add: numeral_eq_Suc)
  then show ?thesis by (intro exI [of _ ?s6]) (simp add: rn_def)
qed

subsection \<open>The counter of requests\<close>

lemma rn_count_simps [simp]:
  "rn_count (add_bytes bs rn) = rn_count rn"
  "rn_count (accept_req rn req) = rn_count rn + 1"
  by (simp_all add: accept_req_def add_bytes_def)

lemma net_apply_count: "net_apply opr rn = Inr rn' \<Longrightarrow> rn_count rn' = rn_count rn"
  by (cases opr)
    (auto simp: MakeEnd_def AddServer_def DeleteServer_def Connect_def Enable_def
      Reliable_def LongReordering_def LongDelays_def Cleanup_def Let_def split: if_splits)

definition requests_counted :: "('e, 's, 't, 'v, 'w) rpc_sys \<Rightarrow> bool" where
  "requests_counted s \<longleftrightarrow> finite (dom (calls s)) \<and> rn_count (net s) = of_nat (card (dom (calls s)))"

lemma counted_same:
  "requests_counted s \<Longrightarrow> calls s i = Some c \<Longrightarrow> calls s' = (calls s)(i \<mapsto> c') \<Longrightarrow>
   rn_count (net s') = rn_count (net s) \<Longrightarrow> requests_counted s'"
  by (simp add: requests_counted_def insert_absorb domI)

lemma processReq_late_count: "processReq_late rn p = Some (rn', p') \<Longrightarrow> rn_count rn' = rn_count rn"
  by (cases p) auto

lemma processReq_reply_count:
  "processReq_reply rn req sn a rel lr rep r1 r2 = (rn', p') \<Longrightarrow> rn_count rn' = rn_count rn"
  by (auto simp: processReq_reply_def Let_def split: if_splits)

lemma rpc_step_counted: "rpc_step info cd ev s s' \<Longrightarrow> requests_counted s \<Longrightarrow> requests_counted s'"
proof (induction rule: rpc_step.induct)
  case (tester opr s rn)
  then show ?case by (simp add: requests_counted_def net_apply_count)
next
  case (send s i e req svcMeth args)
  then show ?case by (simp add: requests_counted_def domIff)
qed (erule counted_same, assumption, simp, simp add: processReq_late_count processReq_reply_count)+

lemma rpc_steps_counted: "rpc_steps info cd evs s s' \<Longrightarrow> requests_counted s \<Longrightarrow> requests_counted s'"
  by (induction rule: rpc_steps.induct) (auto intro: rpc_step_counted)

lemma rpc_init_counted: "requests_counted (rpc_init h w)"
  by (simp add: requests_counted_def rpc_init_def MakeNetwork_def)


end
