(* ===== verification/Rpc_Properties.thy ===== *)
theory Rpc_Properties
  imports Labrpc_Steps
begin

section \<open>Properties of the network and the codec checks\<close>

text \<open>
  What \<^verbatim>\<open>Raft\<close>, the key/value service and their testers rely on: how often a handler runs for a
  call, what a killed server can still answer, that a call over a healthy connection is the
  handler's result, and what the check of message types reports.
\<close>

subsection \<open>An example\<close>

text \<open>
  One server with a service \<^verbatim>\<open>Adder\<close> whose method \<^verbatim>\<open>Add\<close> adds its argument to the state of the program
  and replies with the sum; values are numbers below 256 sent as one byte.
\<close>

definition exInfo :: "bool \<Rightarrow> bool Type" where
  "exInfo t = \<lparr>Kind = (if t then KPtr else KInt), Name = [], Fields = [], Elem = False, Key = False\<rparr>"

definition exCodec :: "(bool, nat) codec" where
  "exCodec = \<lparr>New = (\<lambda>t. 0), encode = (\<lambda>v. [of_nat v]),
     decode = (\<lambda>old bs. case bs of [b] \<Rightarrow> (unat b, True) | _ \<Rightarrow> (old, False))\<rparr>"

definition exAdd :: "(bool, nat, nat) rpc_method" where
  "exAdd = \<lparr>m_Name = ''Add'', m_PkgPath = [], m_In = [True, False, True], m_NumOut = 0,
     m_Func = (\<lambda>w x r. (w + x, w + x))\<rparr>"

definition exServers :: "nat \<Rightarrow> (bool, nat, nat) Server" where
  "exServers a = AddService (MakeService exInfo ''Adder'' [exAdd]) MakeServer"

definition exOps :: "(nat, string) net_op list" where
  "exOps = [OpMakeEnd 3, OpAddServer ''s'' 7, OpConnect 3 ''s'', OpEnable 3 True]"

definition exNet :: "(nat, string) Network" where
  "exNet = MakeNetwork
     \<lparr>ends := [3 \<mapsto> \<lparr>ce_endname = 3\<rparr>], enabled := [3 \<mapsto> True], servers := [''s'' \<mapsto> Some 7],
      connections := [3 \<mapsto> Some ''s'']\<rparr>"

definition exSys :: "(nat, string, bool, nat, nat) rpc_sys" where
  "exSys = (rpc_init exServers 10)\<lparr>net := exNet\<rparr>"

lemma exOps_run: "net_ops exOps MakeNetwork = Inr exNet"
  by (simp add: exOps_def exNet_def MakeNetwork_def MakeEnd_def AddServer_def Connect_def Enable_def Let_def)

lemma exSys_steps: "rpc_steps exInfo exCodec (map Tester exOps) (rpc_init exServers 10) exSys"
  using net_ops_steps [of exOps "rpc_init exServers 10" exNet exInfo exCodec] exOps_run
  by (simp add: exSys_def rpc_init_def)

lemma exSys_simps [simp]:
  "calls exSys = Map.empty" "runs exSys = []" "world exSys = 10" "heap exSys = exServers"
  "ends (net exSys) 3 = Some \<lparr>ce_endname = 3\<rparr>" "is_enabled (net exSys) 3"
  "connection (net exSys) 3 = Some ''s''" "server_at (net exSys) ''s'' = Some 7"
  "reliable (net exSys)" "\<not> longReordering (net exSys)"
  by (simp_all add: exSys_def rpc_init_def exNet_def MakeNetwork_def is_enabled_def connection_def server_at_def)

lemma exServers_Adder: "services (exServers a) ''Adder'' = Some (MakeService exInfo ''Adder'' [exAdd])"
  by (simp add: exServers_def AddService_def MakeService_def add_method_def exAdd_def exInfo_def)

lemma exAdder_Add: "methods (MakeService exInfo ''Adder'' [exAdd]) ''Add'' = Some exAdd"
  by (simp add: MakeService_def add_method_def exAdd_def exInfo_def)

definition exReq :: "(nat, bool) reqMsg" where
  "exReq = Call_request exCodec \<lparr>ce_endname = 3\<rparr> (''Adder'' @ ''.'' @ ''Add'') (False, 5)"

definition exSum :: replyMsg where
  "exSum = \<lparr>rp_ok = True, rp_reply = [15]\<rparr>"

lemma exSys_served:
  "\<exists>s. rpc_steps exInfo exCodec (replicate 6 (Progress 0)) exSys s \<and>
     calls s 0 = Some \<lparr>c_req = exReq, c_phase = Replied exSum, c_handler = Ended 7 exSum\<rparr> \<and> runs s = [(0, 7, exSum)]"
proof -
  have name: "rq_svcMeth exReq = ''Adder'' @ CHR ''.'' # ''Add''" by (simp add: exReq_def Call_request_def)
  have "Server_dispatch exInfo exCodec (heap exSys 7) exReq (world exSys)
      = Inr ((exServers 7)\<lparr>sv_count := 1\<rparr>, 15, exSum)"
    using Server_lookup_named [OF name _ exServers_Adder, of 7] exAdder_Add
    by (simp add: Server_dispatch_def Service_dispatch_def exServers_def MakeServer_def AddService_def)
      (simp add: exReq_def Call_request_def exCodec_def exAdd_def exSum_def)
  from rpc_served [of exSys 0 "\<lparr>ce_endname = 3\<rparr>" "''s''" 7, OF _ _ _ _ _ _ _ exReq_def this]
  show ?thesis by auto
qed

text \<open>The same request while it waits for its handler, then with its server deleted, and the end of it.\<close>

definition exCall :: "string phase \<Rightarrow> (nat, string, bool, nat, nat) call" where
  "exCall p = \<lparr>c_req = exReq, c_phase = p, c_handler = Started 7\<rparr>"

definition exWaiting :: "(nat, string, bool, nat, nat) rpc_sys" where
  "exWaiting = exSys\<lparr>calls := [0 \<mapsto> exCall (Waiting ''s'' 7 True False)]\<rparr>"

definition exDeleted :: "string phase \<Rightarrow> (nat, string, bool, nat, nat) rpc_sys" where
  "exDeleted p = exSys\<lparr>net := DeleteServer ''s'' exNet, calls := [0 \<mapsto> exCall p]\<rparr>"

lemma exDeleted_steps:
  "rpc_step exInfo exCodec (Tester (OpDeleteServer ''s'')) exWaiting (exDeleted (Waiting ''s'' 7 True False))"
  "rpc_steps exInfo exCodec [Progress 0, Progress 0] (exDeleted (Waiting ''s'' 7 True False)) (exDeleted (Replied failed))"
proof -
  show "rpc_step exInfo exCodec (Tester (OpDeleteServer ''s'')) exWaiting (exDeleted (Waiting ''s'' 7 True False))"
    using rpc_step.tester [of "OpDeleteServer ''s''" exWaiting]
    by (simp add: exWaiting_def exDeleted_def exSys_def rpc_init_def)
  have 1: "rpc_step exInfo exCodec (Progress 0) (exDeleted (Waiting ''s'' 7 True False)) (exDeleted GaveUp)"
    using rpc_step.poll [of "exDeleted (Waiting ''s'' 7 True False)" 0
        "exCall (Waiting ''s'' 7 True False)" "''s''" 7 True False, OF _ _ refl, of exInfo exCodec]
    by (simp add: exDeleted_def exCall_def processReq_poll_def isServerDead_def server_at_def DeleteServer_def)
  have 2: "rpc_step exInfo exCodec (Progress 0) (exDeleted GaveUp) (exDeleted (Replied failed))"
    using rpc_step.late [of "exDeleted GaveUp" 0 "exCall GaveUp", of _ _ exInfo exCodec] by (simp add: exDeleted_def exCall_def)
  show "rpc_steps exInfo exCodec [Progress 0, Progress 0] (exDeleted (Waiting ''s'' 7 True False)) (exDeleted (Replied failed))"
    by (rule rpc_steps_Cons [OF rpc_steps_Cons [OF rpc_none 2] 1])
qed

subsection \<open>Calls\<close>

text \<open>
  C10. However requests, handlers, timers and changes of the network interleave, the handler
  of a request runs at most once, the network counts every request once (in 32 bits), and a
  call that is answered positively is answered with the reply of its one run; a call
  that fails may have been executed or not.
\<close>

theorem rpc_reply_of_one_run:
  fixes h :: "nat \<Rightarrow> ('t, 'v, 'w) Server"
  assumes "rpc_steps info cd evs (rpc_init h w) s"
  shows "distinct (map fst (runs s)) \<and> rn_count (net s) = of_nat (card (dom (calls s))) \<and>
    (\<forall>i c rep. calls s i = Some c \<and> c_phase c = Replied rep \<and> rp_ok rep \<longrightarrow>
       (\<exists>!r. r \<in> set (runs s) \<and> fst r = i) \<and> (\<exists>a. (i, a, rep) \<in> set (runs s)))"
proof -
  have inv: "calls_ok (runs s) (calls s)"
    using rpc_steps_inv [OF assms rpc_init_inv] by (simp add: rpc_inv_def)
  have "requests_counted s" by (rule rpc_steps_counted [OF assms rpc_init_counted])
  moreover have "(\<exists>!r. r \<in> set (runs s) \<and> fst r = i) \<and> (\<exists>a. (i, a, rep) \<in> set (runs s))"
    if c: "calls s i = Some c" "c_phase c = Replied rep" "rp_ok rep" for i c rep
  proof -
    have "\<exists>a. (i, a, rep) \<in> set (runs s)"
      using calls_okD [OF inv c(1)] c(2,3) by (auto simp: call_ok_def failed_def)
    moreover have "r = r'" if "r \<in> set (runs s)" "r' \<in> set (runs s)" "fst r = fst r'" for r r'
      using that inv by (auto simp: calls_ok_def distinct_map dest: inj_onD)
    ultimately show ?thesis by (metis fst_conv)
  qed
  ultimately show ?thesis using inv by (auto simp: requests_counted_def calls_ok_def)
qed

theorem rpc_reply_of_one_run_witness:
  "\<exists>evs (s :: (nat, string, bool, nat, nat) rpc_sys) c. rpc_steps exInfo exCodec evs (rpc_init exServers 10) s \<and> calls s 0 = Some c \<and>
     c_phase c = Replied \<lparr>rp_ok = True, rp_reply = [15]\<rparr> \<and> runs s = [(0, 7, \<lparr>rp_ok = True, rp_reply = [15]\<rparr>)] \<and>
     (\<exists>!r. r \<in> set (runs s) \<and> fst r = 0)"
proof -
  obtain s where s: "rpc_steps exInfo exCodec (replicate 6 (Progress 0)) exSys s"
    "calls s 0 = Some \<lparr>c_req = exReq, c_phase = Replied exSum, c_handler = Ended 7 exSum\<rparr>" "runs s = [(0, 7, exSum)]"
    using exSys_served by blast
  have steps: "rpc_steps exInfo exCodec (map Tester exOps @ replicate 6 (Progress 0)) (rpc_init exServers 10) s"
    by (rule rpc_steps_append [OF s(1) exSys_steps])
  have "rp_ok exSum" by (simp add: exSum_def)
  then have one: "\<exists>!r. r \<in> set (runs s) \<and> fst r = 0"
    using rpc_reply_of_one_run [OF steps] s(2) by fastforce
  show ?thesis
    by (intro exI [of _ "map Tester exOps @ replicate 6 (Progress 0)"] exI [of _ s]
        exI [of _ "\<lparr>c_req = exReq, c_phase = Replied exSum, c_handler = Ended 7 exSum\<rparr>"], intro conjI steps s(2) one)
      (simp_all add: s(3) exSum_def)
qed

text \<open>
  Once a server has been deleted, no request that it was handling is answered positively
  any more, whatever happens later, unless the same server object is registered again under
  that name: the caller gets \<^verbatim>\<open>false\<close>, and its reply variable is untouched.
\<close>

theorem rpc_deleted_server_silent:
  assumes "rpc_step info cd (Tester (OpDeleteServer sn)) s s1"
    and "calls s i = Some c" "c_phase c = Waiting sn a rel lr \<or> c_phase c = Received sn a rel lr rep"
    and "rpc_steps info cd evs s1 s2" "Tester (OpAddServer sn a) \<notin> set evs"
  shows "\<exists>c'. calls s2 i = Some c' \<and>
    (\<forall>rep. c_phase c' = Delayed rep \<or> c_phase c' = Replied rep \<longrightarrow>
       rep = failed \<and> Call_reply cd rep reply = Inr (False, reply))"
proof -
  have "s1 = s\<lparr>net := DeleteServer sn (net s)\<rparr>"
    using assms(1) by (auto elim: rpc_step_Tester)
  then have "dead_call i sn a s1"
    using assms(2,3) by (auto simp: dead_call_def server_at_def DeleteServer_def)
  from dead_steps [OF assms(4,5) this] obtain c' where "calls s2 i = Some c'" "doomed sn a (c_phase c')"
    by (auto simp: dead_call_def)
  then show ?thesis by (intro exI [of _ c']) (auto simp: Call_reply_def failed_def)
qed

theorem rpc_deleted_server_silent_witness:
  "\<exists>c'. calls (exDeleted (Replied failed)) 0 = Some c' \<and> c_phase c' = Replied failed \<and>
     Call_reply exCodec failed 9 = Inr (False, 9)"
  using rpc_deleted_server_silent [OF exDeleted_steps(1) _ _ exDeleted_steps(2), of 0 "exCall (Waiting ''s'' 7 True False)"
      7 True False failed 9]
  by (simp add: exWaiting_def exDeleted_def exCall_def)

text \<open>
  C22. Over an enabled connection of a reliable network a call reaches the method that its
  service and method name select: six steps after it was sent the method has run once on the decoded
  arguments, on the state of the program, and the caller has \<^verbatim>\<open>true\<close> and the method's reply. The codec is only
  asked to give back the two values that are sent.
\<close>

theorem rpc_call_served:
  fixes s :: "('e, 's, 't, 'v, 'w) rpc_sys"
  assumes "calls s i = None" "ends (net s) (ce_endname e) = Some e"
    and "is_enabled (net s) (ce_endname e)" "connection (net s) (ce_endname e) = Some sn"
    and "server_at (net s) sn = Some a" "reliable (net s)" "\<not> longReordering (net s)"
    and svc: "services (heap s a) sv = Some svc" "methods svc m = Some meth" "CHR ''.'' \<notin> set m"
    and args: "decode cd (New cd t) (encode cd args) = (args, True)"
    and res: "m_Func meth (world s) args (New cd (Elem (info (m_In meth ! 2)))) = (w, res)"
      "decode cd reply (encode cd res) = (res, True)"
  shows "\<exists>s' c rep. rpc_steps info cd (replicate 6 (Progress i)) s s' \<and> calls s' i = Some c \<and>
    c_req c = Call_request cd e (sv @ ''.'' @ m) (t, args) \<and> c_phase c = Replied rep \<and>
    Call_reply cd rep reply = Inr (True, res) \<and> world s' = w \<and> runs s' = runs s @ [(i, a, rep)] \<and>
    sv_count (heap s' a) = sv_count (heap s a) + 1"
proof -
  define req where "req = Call_request cd e (sv @ ''.'' @ m) (t, args)"
  let ?rep = "\<lparr>rp_ok = True, rp_reply = encode cd res\<rparr>"
  have "rq_svcMeth req = sv @ CHR ''.'' # m" by (simp add: req_def Call_request_def)
  note look = Server_lookup_named [OF this svc(3) svc(1)]
  have "Service_dispatch info cd svc m req (world s) = Inr (w, ?rep)"
    using svc(2) args res(1) by (simp add: Service_dispatch_def req_def Call_request_def)
  then have "Server_dispatch info cd (heap s a) req (world s)
      = Inr ((heap s a)\<lparr>sv_count := sv_count (heap s a) + 1\<rparr>, w, ?rep)"
    by (simp add: Server_dispatch_def look)
  from rpc_served [OF assms(1-7) req_def this] obtain s' where s':
    "rpc_steps info cd (replicate 6 (Progress i)) s s'"
    "calls s' i = Some \<lparr>c_req = req, c_phase = Replied ?rep, c_handler = Ended a ?rep\<rparr>" "world s' = w"
    "heap s' = (heap s)(a := (heap s a)\<lparr>sv_count := sv_count (heap s a) + 1\<rparr>)" "runs s' = runs s @ [(i, a, ?rep)]"
    by blast
  then show ?thesis using res(2) by (intro exI [of _ s'] exI [of _ ?rep] exI) (auto simp: Call_reply_def req_def)
qed

theorem rpc_call_served_witness:
  "\<exists>s' c rep. rpc_steps exInfo exCodec (replicate 6 (Progress 0)) exSys s' \<and> calls s' 0 = Some c \<and>
    c_phase c = Replied rep \<and> Call_reply exCodec rep 0 = Inr (True, 15) \<and> world s' = 15 \<and> runs s' = [(0, 7, rep)]"
proof -
  have "services (heap exSys 7) ''Adder'' = Some (MakeService exInfo ''Adder'' [exAdd])"
    by (simp add: exServers_Adder)
  from rpc_call_served [of exSys 0 "\<lparr>ce_endname = 3\<rparr>" "''s''" 7 "''Adder''" _ "''Add''" exAdd exCodec False 5
      exInfo 15 15 0, OF _ _ _ _ _ _ _ this exAdder_Add]
  show ?thesis by (auto simp: exCodec_def exAdd_def)
qed

subsection \<open>The check of message types\<close>

text \<open>
  C38. \<^verbatim>\<open>checkType\<close> ends on every finite graph of types, cyclic or not, with enough fuel for one
  level per type. When the types checked before are complete, it then has checked exactly all parts of
  the type, has counted every lower-case field of every struct it had not seen before exactly
  once, and checking the type again changes nothing.
\<close>

theorem checkType_reports_each_field_once:
  assumes "finite (parts info {t})" "card (parts info {t}) < fuel"
    and "\<And>u. u \<in> checked st \<Longrightarrow> children info u \<subseteq> checked st"
  shows "\<exists>st'. checkType info fuel t st = Some st' \<and> checked st' = checked st \<union> parts info {t} \<and>
    errorCount st' = errorCount st + int (\<Sum>u \<in> parts info {t} - checked st. bad_fields info u) \<and>
    checkType info fuel t st' = Some st'"
proof -
  let ?P = "parts info {t}"
  have t: "t \<in> ?P" by (simp add: parts_base)
  have "card (?P - checked st) < fuel" using assms(1,2) card_mono [of ?P "?P - checked st"] by auto
  with checkType_returns [OF assms(1) parts_closed t] obtain st' where st': "checkType info fuel t st = Some st'"
    by blast
  note v = checkType_visits [OF st']
  have ch: "checked st' = checked st \<union> ?P" by (rule visits_closed(1) [OF v assms(3)])
  then have "checked st' - checked st = ?P - checked st" by blast
  then have "errorCount st' = errorCount st + int (\<Sum>u \<in> ?P - checked st. bad_fields info u)"
    using v by (simp add: visits_def)
  moreover have "checkType info fuel t st' = Some st'" using ch t assms(2) by (cases fuel) (simp_all add: Let_def)
  ultimately show ?thesis using st' ch by blast
qed

text \<open>A list cell: a struct with an exported pointer to its own type and a lower-case number.\<close>

definition exCell :: "nat \<Rightarrow> nat Type" where
  "exCell t =
     (if t = 0 then \<lparr>Kind = KStruct, Name = ''cell'', Fields = [(''Next'', 1), (''val'', 2)], Elem = 0, Key = 0\<rparr>
      else if t = 1 then \<lparr>Kind = KPtr, Name = [], Fields = [], Elem = 0, Key = 0\<rparr>
      else \<lparr>Kind = KInt, Name = ''int'', Fields = [], Elem = 0, Key = 0\<rparr>)"

lemma exCell_parts: "parts exCell {0} = {0, 1, 2}"
proof (rule set_eqI, rule iffI)
  fix u assume "u \<in> parts exCell {0}"
  then show "u \<in> {0, 1, 2}"
    by (induction rule: parts.induct) (auto simp: children_def exCell_def split: if_splits)
next
  fix u :: nat assume "u \<in> {0, 1, 2}"
  moreover have "0 \<in> parts exCell {0}" by (simp add: parts_base)
  ultimately show "u \<in> parts exCell {0}"
    by (auto intro: parts_step [of 0] simp: children_def exCell_def)
qed

theorem checkType_reports_each_field_once_witness:
  "\<exists>st'. checkType exCell 4 0 \<lparr>errorCount = 0, checked = {}, printed = []\<rparr> = Some st' \<and>
     checked st' = {0, 1, 2} \<and> errorCount st' = 1 \<and> checkType exCell 4 0 st' = Some st'"
  using checkType_reports_each_field_once [of exCell 0 4 "\<lparr>errorCount = 0, checked = {}, printed = []\<rparr>"]
  by (simp add: exCell_parts bad_fields_def lower_case_def exCell_def IsUpper_first_def)

end
