(* ===== verification/Raft_Config.thy ===== *)
theory Raft_Config
  imports Raft_Election Labrpc
begin

section \<open>The Raft test harness\<close>

text \<open>
  Models \<^verbatim>\<open>src/raft/config.go\<close>: the configuration a Raft test works on, which owns the simulated network, one
  peer and one persister per server, and a copy of what every server has applied. A failure
  of a test is a \<open>Fatal\<close> result. The endpoints' random names and the addresses of new server objects are
  arguments, and so are the states the harness finds when it looks at the peers again after it has waited. Times
  and the begin/end statistics that are only printed are left out.
\<close>

subsection \<open>The configuration\<close>

text \<open>
  \<^verbatim>\<open>cfg.saved[i]\<close> is the persister that was handed to the peer \<^verbatim>\<open>cfg.rafts[i]\<close>, which writes to it: while
  the peer exists its \<open>persister\<close> is the content of \<^verbatim>\<open>cfg.saved[i]\<close>.
\<close>

record 'c config =
  cfg_net :: "(string, int) Network"
  cfg_n :: int
  rafts :: "'c Raft option list"
  connected :: "bool list"
  saved :: "'c Persister option list"
  endnames :: "string list option list"
  logs :: "(int, 'c payload) gomap list"
  maxIndex :: int

definition saved_content :: "'c config \<Rightarrow> int \<Rightarrow> 'c Persister option go" where
  "saved_content cfg i =
     bindE (index (saved cfg) i) (\<lambda>p.
     bindE (index (rafts cfg) i) (\<lambda>rf.
     Inr (case (p, rf) of (Some _, Some rf) \<Rightarrow> Some (persister rf) | _ \<Rightarrow> p)))"

definition set_net :: "(string, int) Network \<Rightarrow> 'c config \<Rightarrow> 'c config" where
  "set_net rn cfg = cfg\<lparr>cfg_net := rn\<rparr>"

definition endname :: "'c config \<Rightarrow> int \<Rightarrow> int \<Rightarrow> string go" where
  "endname cfg i j =
     bindE (index (endnames cfg) i) (\<lambda>row. index (case row of None \<Rightarrow> [] | Some r \<Rightarrow> r) j)"

subsection \<open>Connecting\<close>

definition servers_of :: "'c config \<Rightarrow> int list" where
  "servers_of cfg = [0..cfg_n cfg - 1]"

definition connect_end :: "'c config \<Rightarrow> int \<Rightarrow> int \<Rightarrow> int \<Rightarrow> (string, int) Network \<Rightarrow> (string, int) Network go" where
  "connect_end cfg j a b rn =
     bindE (index (connected cfg) j) (\<lambda>c.
     if c then bindE (endname cfg a b) (\<lambda>e. Inr (Enable e True rn)) else Inr rn)"

definition connect :: "int \<Rightarrow> 'c config \<Rightarrow> 'c config go" where
  "connect i cfg =
     bindE (set_index (connected cfg) i True) (\<lambda>cs.
     let cfg = cfg\<lparr>connected := cs\<rparr> in
     bindE (foldE (\<lambda>j. connect_end cfg j i j) (servers_of cfg) (cfg_net cfg)) (\<lambda>rn.
     bindE (foldE (\<lambda>j. connect_end cfg j j i) (servers_of cfg) rn) (\<lambda>rn.
     Inr (set_net rn cfg))))"

definition disconnect_end :: "'c config \<Rightarrow> int \<Rightarrow> int \<Rightarrow> int \<Rightarrow> (string, int) Network \<Rightarrow> (string, int) Network go" where
  "disconnect_end cfg j a b rn =
     bindE (index (endnames cfg) j) (\<lambda>row.
     if row \<noteq> None then bindE (endname cfg a b) (\<lambda>e. Inr (Enable e False rn)) else Inr rn)"

definition disconnect :: "int \<Rightarrow> 'c config \<Rightarrow> 'c config go" where
  "disconnect i cfg =
     bindE (set_index (connected cfg) i False) (\<lambda>cs.
     let cfg = cfg\<lparr>connected := cs\<rparr> in
     bindE (foldE (\<lambda>j. disconnect_end cfg i i j) (servers_of cfg) (cfg_net cfg)) (\<lambda>rn.
     bindE (foldE (\<lambda>j. disconnect_end cfg j j i) (servers_of cfg) rn) (\<lambda>rn.
     Inr (set_net rn cfg))))"

definition setunreliable :: "bool \<Rightarrow> 'c config \<Rightarrow> 'c config" where
  "setunreliable unrel cfg = set_net (Reliable (\<not> unrel) (cfg_net cfg)) cfg"

definition setlongreordering :: "bool \<Rightarrow> 'c config \<Rightarrow> 'c config" where
  "setlongreordering longrel cfg = set_net (LongReordering longrel (cfg_net cfg)) cfg"

subsection \<open>Crashing and starting a server\<close>

text \<open>
  \<^verbatim>\<open>crash1\<close>: the peer is told to stop and forgotten; it may go on, but with a persister that is no
  longer the one of the configuration.
\<close>

definition crash1 :: "int \<Rightarrow> 'c config \<Rightarrow> 'c config go" where
  "crash1 i cfg =
     bindE (disconnect i cfg) (\<lambda>cfg.
     let cfg = set_net (DeleteServer i (cfg_net cfg)) cfg in
     bindE (saved_content cfg i) (\<lambda>p.
     let p = map_option Copy p in
     bindE (set_index (rafts cfg) i None) (\<lambda>rfs.
     let p = map_option (\<lambda>p. SaveRaftState MakePersister (ReadRaftState p)) p in
     bindE (set_index (saved cfg) i p) (\<lambda>ps.
     Inr (cfg\<lparr>rafts := rfs, saved := ps\<rparr>)))))"

text \<open>The ends of one server: made and connected one after the other.\<close>

definition make_end :: "string list \<Rightarrow> int \<Rightarrow> (string, int) Network \<Rightarrow> (string, int) Network go" where
  "make_end names j rn =
     bindE (index names j) (\<lambda>e.
     bindE (MakeEnd e rn) (\<lambda>(rn, _). Inr (Connect e j rn)))"

text \<open>
  \<^verbatim>\<open>start1\<close> with the random names of the ends, the random number the new peer draws, and the
  address of the new server object.
\<close>

definition start1 :: "string list \<Rightarrow> int \<Rightarrow> nat \<Rightarrow> int \<Rightarrow> 'c config \<Rightarrow> 'c config go" where
  "start1 names r srv i cfg =
     bindE (crash1 i cfg) (\<lambda>cfg.
     bindE (set_index (endnames cfg) i (Some names)) (\<lambda>rows.
     let cfg = cfg\<lparr>endnames := rows\<rparr> in
     bindE (foldE (make_end names) (servers_of cfg) (cfg_net cfg)) (\<lambda>rn.
     let cfg = set_net rn cfg in
     bindE (index (saved cfg) i) (\<lambda>p.
     let p = (case p of Some p \<Rightarrow> Copy p | None \<Rightarrow> MakePersister) in
     bindE (set_index (saved cfg) i (Some p)) (\<lambda>ps.
     bindE (Make r (nat (cfg_n cfg)) i p) (\<lambda>rf.
     bindE (set_index (rafts cfg) i (Some rf)) (\<lambda>rfs.
     Inr (set_net (AddServer i srv (cfg_net cfg)) (cfg\<lparr>saved := ps, rafts := rfs\<rparr>)))))))))"

text \<open>\<^verbatim>\<open>make_config\<close>, with what each \<^verbatim>\<open>start1\<close> draws.\<close>

definition new_config :: "int \<Rightarrow> bool \<Rightarrow> 'c config" where
  "new_config n unreliable =
     (let cfg = \<lparr>cfg_net = MakeNetwork, cfg_n = n, rafts = replicate (nat n) None,
                 connected = replicate (nat n) False, saved = replicate (nat n) None,
                 endnames = replicate (nat n) None, logs = replicate (nat n) None, maxIndex = 0\<rparr>;
          cfg = setunreliable unreliable cfg
      in set_net (LongDelays True (cfg_net cfg)) cfg)"

definition make_server :: "(int \<Rightarrow> string list) \<Rightarrow> (int \<Rightarrow> int) \<Rightarrow> (int \<Rightarrow> nat) \<Rightarrow> int \<Rightarrow> 'c config \<Rightarrow> 'c config go" where
  "make_server names r srv i cfg =
     bindE (set_index (logs cfg) i (Some Map.empty)) (\<lambda>ls.
     start1 (names i) (r i) (srv i) i (cfg\<lparr>logs := ls\<rparr>))"

definition make_config ::
  "(int \<Rightarrow> string list) \<Rightarrow> (int \<Rightarrow> int) \<Rightarrow> (int \<Rightarrow> nat) \<Rightarrow> int \<Rightarrow> bool \<Rightarrow> 'c config go" where
  "make_config names r srv n unreliable =
     (let cfg = new_config n unreliable in
      bindE (foldE (make_server names r srv) (servers_of cfg) cfg) (\<lambda>cfg.
      foldE connect (servers_of cfg) cfg))"

definition cleanup :: "'c config \<Rightarrow> 'c config go" where
  "cleanup cfg =
     (let cfg = cfg\<lparr>rafts := map (map_option Kill) (rafts cfg)\<rparr>
      in bindE (Cleanup (cfg_net cfg)) (\<lambda>rn. Inr (set_net rn cfg)))"

subsection \<open>What the servers apply\<close>

text \<open>Comparing two interface values that both hold byte slices panics.\<close>

fun iface_eq :: "'c payload \<Rightarrow> 'c payload \<Rightarrow> bool go" where
  "iface_eq (DataPayload a) (DataPayload b) = Inl (Panic ''comparing uncomparable type'')"
| "iface_eq a b = Inr (a = b)"

text \<open>Whether some server has another value at the index of a message.\<close>

primrec differs :: "int \<Rightarrow> 'c payload \<Rightarrow> (int, 'c payload) gomap list \<Rightarrow> bool go" where
  "differs ix v [] = Inr False"
| "differs ix v (l # ls) =
     (case map_get l ix of
        None \<Rightarrow> differs ix v ls
      | Some old \<Rightarrow>
          bindE (iface_eq old v) (\<lambda>same.
          bindE (differs ix v ls) (\<lambda>d. Inr (\<not> same \<or> d))))"

text \<open>
  The goroutine that reads the apply channel of server \<open>i\<close>, for one message. \<^verbatim>\<open>log.Fatalf\<close> ends the
  program, so nothing is ever stored in \<^verbatim>\<open>cfg.applyErr\<close>.
\<close>

definition read_apply :: "int \<Rightarrow> 'c ApplyMsg \<Rightarrow> 'c config \<Rightarrow> 'c config go" where
  "read_apply i m cfg =
     (if \<not> CommandValid m then Inr cfg
      else
        let v = MsgCommand m; ix = CommandIndex m in
        bindE (differs ix v (logs cfg)) (\<lambda>different.
        bindE (index (logs cfg) i) (\<lambda>l.
        let prevok = (map_get l (ix - 1) \<noteq> None) in
        bindE (map_set l ix v) (\<lambda>l.
        bindE (set_index (logs cfg) i l) (\<lambda>ls.
        let cfg = cfg\<lparr>logs := ls, maxIndex := (if ix > maxIndex cfg then ix else maxIndex cfg)\<rparr> in
        if ix > 1 \<and> \<not> prevok then Inl (Fatal ''apply error: apply out of order'')
        else if different then Inl (Fatal ''apply error: commit index'')
        else Inr cfg)))))"

subsection \<open>Checks\<close>

definition nil_GetState :: "'c Raft option \<Rightarrow> (int \<times> bool) go" where
  "nil_GetState rf = (case rf of None \<Rightarrow> Inl NilDereference | Some rf \<Rightarrow> GetState rf)"

text \<open>
  One round of \<^verbatim>\<open>checkOneLeader\<close>: the leaders with their terms, in the order of the servers;
  \<open>con\<close> and \<open>rf\<close> are what it finds at each server. The map from terms to lists of leaders is read through \<open>leaders_in\<close>.
\<close>

primrec find_leaders :: "(int \<Rightarrow> bool) \<Rightarrow> (int \<Rightarrow> 'c Raft option) \<Rightarrow> int list \<Rightarrow> (int \<times> int) list go" where
  "find_leaders con rf [] = Inr []"
| "find_leaders con rf (i # is) =
     (if con i then
        bindE (nil_GetState (rf i)) (\<lambda>(term, leader).
        bindE (find_leaders con rf is) (\<lambda>ls. Inr (if leader then (term, i) # ls else ls)))
      else find_leaders con rf is)"

definition leaders_in :: "(int \<times> int) list \<Rightarrow> int \<Rightarrow> int list" where
  "leaders_in ls term = map snd (filter (\<lambda>x. fst x = term) ls)"

definition leader_round :: "(int \<Rightarrow> bool) \<Rightarrow> (int \<Rightarrow> 'c Raft option) \<Rightarrow> int \<Rightarrow> int option go" where
  "leader_round con rf n =
     bindE (find_leaders con rf [0..n - 1]) (\<lambda>ls.
     if list_ex (\<lambda>term. length (leaders_in ls term) > 1) (map fst ls)
     then Inl (Fatal ''term has more than one leader'')
     else
       let lastTermWithLeader = foldl max (-1) (map fst ls) in
       if ls \<noteq> [] then bindE (index (leaders_in ls lastTermWithLeader) 0) (\<lambda>l. Inr (Some l))
       else Inr None)"

primrec checkOneLeader_rounds ::
  "(nat \<Rightarrow> int \<Rightarrow> bool) \<Rightarrow> (nat \<Rightarrow> int \<Rightarrow> 'c Raft option) \<Rightarrow> int \<Rightarrow> nat list \<Rightarrow> int go" where
  "checkOneLeader_rounds con rf n [] = Inl (Fatal ''expected one leader, got none'')"
| "checkOneLeader_rounds con rf n (k # ks) =
     bindE (leader_round (con k) (rf k) n) (\<lambda>res.
     case res of Some l \<Rightarrow> Inr l | None \<Rightarrow> checkOneLeader_rounds con rf n ks)"

definition checkOneLeader :: "(nat \<Rightarrow> int \<Rightarrow> bool) \<Rightarrow> (nat \<Rightarrow> int \<Rightarrow> 'c Raft option) \<Rightarrow> int \<Rightarrow> int go" where
  "checkOneLeader con rf n = checkOneLeader_rounds con rf n [0..<10]"

primrec checkTerms_loop :: "'c config \<Rightarrow> int \<Rightarrow> int list \<Rightarrow> int go" where
  "checkTerms_loop cfg term [] = Inr term"
| "checkTerms_loop cfg term (i # is) =
     bindE (index (connected cfg) i) (\<lambda>c.
     if c then
       bindE (index (rafts cfg) i) (\<lambda>rf.
       bindE (nil_GetState rf) (\<lambda>(xterm, _).
       if term = -1 then checkTerms_loop cfg xterm is
       else if term \<noteq> xterm then Inl (Fatal ''servers disagree on term'')
       else checkTerms_loop cfg term is))
     else checkTerms_loop cfg term is)"

definition checkTerms :: "'c config \<Rightarrow> int go" where
  "checkTerms cfg = checkTerms_loop cfg (-1) (servers_of cfg)"

definition check_no_leader :: "'c config \<Rightarrow> int \<Rightarrow> unit \<Rightarrow> unit go" where
  "check_no_leader cfg i u =
     bindE (index (connected cfg) i) (\<lambda>c.
     if c then
       bindE (index (rafts cfg) i) (\<lambda>rf.
       bindE (nil_GetState rf) (\<lambda>(_, is_leader).
       if is_leader then Inl (Fatal ''expected no leader'') else Inr u))
     else Inr u)"

definition checkNoLeader :: "'c config \<Rightarrow> unit go" where
  "checkNoLeader cfg = foldE (check_no_leader cfg) (servers_of cfg) ()"

text \<open>\<^verbatim>\<open>nCommitted\<close>: the loop over the servers' logs, with the count and the command so far.\<close>

primrec nCommitted_loop ::
  "int \<Rightarrow> int \<times> 'c payload option \<Rightarrow> (int, 'c payload) gomap list \<Rightarrow> (int \<times> 'c payload option) go" where
  "nCommitted_loop ix acc [] = Inr acc"
| "nCommitted_loop ix acc (l # ls) =
     (case map_get l ix of
        None \<Rightarrow> nCommitted_loop ix acc ls
      | Some cmd1 \<Rightarrow>
          bindE (if fst acc > 0 then case snd acc of None \<Rightarrow> Inr False | Some cmd \<Rightarrow> iface_eq cmd cmd1 else Inr True)
            (\<lambda>same.
             if \<not> same then Inl (Fatal ''committed values do not match'')
             else nCommitted_loop ix (fst acc + 1, Some cmd1) ls))"

definition nCommitted :: "'c config \<Rightarrow> int \<Rightarrow> (int \<times> 'c payload option) go" where
  "nCommitted cfg ix = nCommitted_loop ix (0, None) (logs cfg)"

text \<open>
  \<^verbatim>\<open>wait\<close>: \<open>cfgs\<close> is what it finds at each turn of its loop, \<open>cfg\<close> at the end. The result \<open>None\<close> is
  the \<^verbatim>\<open>-1\<close> it returns when some peer has moved on to a later term.
\<close>

primrec moved_on :: "int \<Rightarrow> 'c Raft option list \<Rightarrow> bool go" where
  "moved_on startTerm [] = Inr False"
| "moved_on startTerm (rf # rfs) =
     bindE (nil_GetState rf) (\<lambda>(t, _). if t > startTerm then Inr True else moved_on startTerm rfs)"

definition wait_end :: "'c config \<Rightarrow> int \<Rightarrow> int \<Rightarrow> 'c payload option option go" where
  "wait_end cfg ix n =
     bindE (nCommitted cfg ix) (\<lambda>(nd, cmd).
     if nd < n then Inl (Fatal ''only some decided'') else Inr (Some cmd))"

primrec wait_loop ::
  "'c config \<Rightarrow> int \<Rightarrow> int \<Rightarrow> int \<Rightarrow> 'c config list \<Rightarrow> 'c payload option option go" where
  "wait_loop cfg ix n startTerm [] = wait_end cfg ix n"
| "wait_loop cfg ix n startTerm (c # cs) =
     bindE (nCommitted c ix) (\<lambda>(nd, _).
     if nd \<ge> n then wait_end cfg ix n
     else if startTerm > -1 then
       bindE (moved_on startTerm (rafts c)) (\<lambda>m.
       if m then Inr None else wait_loop cfg ix n startTerm cs)
     else wait_loop cfg ix n startTerm cs)"

definition wait :: "(nat \<Rightarrow> 'c config) \<Rightarrow> 'c config \<Rightarrow> int \<Rightarrow> int \<Rightarrow> int \<Rightarrow> 'c payload option option go" where
  "wait cfgs cfg ix n startTerm = wait_loop cfg ix n startTerm (map cfgs [0..<30])"

subsection \<open>A complete agreement\<close>

text \<open>
  \<^verbatim>\<open>one\<close>: the loop that asks every server in turn to start agreement; the result is the index that
  the first leader gave, or \<open>-1\<close>. Calling \<^verbatim>\<open>Start\<close> changes the peer.
\<close>

fun try_start :: "'c command \<Rightarrow> nat \<Rightarrow> int \<Rightarrow> 'c config \<Rightarrow> (int \<times> 'c config \<times> int) go" where
  "try_start cmd 0 starts cfg = Inr (starts, cfg, -1)"
| "try_start cmd (Suc k) starts cfg =
     (if cfg_n cfg = 0 then Inl DivideByZero
      else
        let starts = (starts + 1) mod cfg_n cfg in
        bindE (index (connected cfg) starts) (\<lambda>c.
        bindE (if c then index (rafts cfg) starts else Inr None) (\<lambda>rf.
        case rf of
          None \<Rightarrow> try_start cmd k starts cfg
        | Some rf \<Rightarrow>
            bindE (Start rf cmd) (\<lambda>(rf, index1, _, ok).
            let cfg = cfg\<lparr>rafts := (rafts cfg)[nat starts := Some rf]\<rparr> in
            if ok then Inr (starts, cfg, index1) else try_start cmd k starts cfg))))"

text \<open>The loop that waits for agreement, over what it finds every 20 milliseconds.\<close>

primrec agreed :: "'c command \<Rightarrow> int \<Rightarrow> int \<Rightarrow> 'c config list \<Rightarrow> bool go" where
  "agreed cmd expectedServers ix [] = Inr False"
| "agreed cmd expectedServers ix (c # cs) =
     bindE (nCommitted c ix) (\<lambda>(nd, cmd1).
     if nd > 0 \<and> nd \<ge> expectedServers \<and> cmd1 = Some (CommandPayload cmd) then Inr True
     else agreed cmd expectedServers ix cs)"

text \<open>
  \<open>env\<close>: what the peers make of the configuration while \<^verbatim>\<open>one\<close> waits, as the configurations its
  inner loop finds and the one at the next turn; \<open>rounds\<close>: the turns that fit into ten seconds.
\<close>

primrec one ::
  "(nat \<Rightarrow> 'c config \<Rightarrow> 'c config list \<times> 'c config) \<Rightarrow> 'c command \<Rightarrow> int \<Rightarrow> bool \<Rightarrow> nat \<Rightarrow> int \<Rightarrow> 'c config \<Rightarrow> int go" where
  "one env cmd expectedServers retry 0 starts cfg = Inl (Fatal ''failed to reach agreement'')"
| "one env cmd expectedServers retry (Suc rounds) starts cfg =
     bindE (try_start cmd (nat (cfg_n cfg)) starts cfg) (\<lambda>(starts, cfg, ix).
     let (seen, later) = env rounds cfg in
     if ix \<noteq> -1 then
       bindE (agreed cmd expectedServers ix seen) (\<lambda>a.
       if a then Inr ix
       else if \<not> retry then Inl (Fatal ''failed to reach agreement'')
       else one env cmd expectedServers retry rounds starts later)
     else one env cmd expectedServers retry rounds starts later)"

end
