(* ===== verification/Raft_Harness.thy ===== *)
theory Raft_Harness
  imports Raft_Config
begin

section \<open>The Raft test harness: what it keeps and what its checks mean\<close>

text \<open>
  About the definitions of the theory \<^verbatim>\<open>Raft_Config\<close>: the ends of the network are enabled exactly
  between connected servers, and a restarted peer has the saved state.
\<close>

subsection \<open>Sets of ends\<close>

definition set_enabled :: "'e set \<Rightarrow> bool \<Rightarrow> ('e, 's) Network \<Rightarrow> ('e, 's) Network" where
  "set_enabled E b rn = rn\<lparr>enabled := (\<lambda>e. if e \<in> E then Some b else enabled rn e)\<rparr>"

lemma Enable_set: "Enable e b rn = set_enabled {e} b rn"
  by (auto simp: Enable_def set_enabled_def fun_upd_def intro!: arg_cong [of _ _ "\<lambda>f. rn\<lparr>enabled := f\<rparr>"])

lemma set_enabled_empty [simp]: "set_enabled {} b rn = rn"
  by (simp add: set_enabled_def)

lemma set_enabled_Un: "set_enabled E b (set_enabled F b rn) = set_enabled (E \<union> F) b rn"
  by (auto simp: set_enabled_def intro!: arg_cong [of _ _ "\<lambda>f. rn\<lparr>enabled := f\<rparr>"])

lemma set_enabled_simps [simp]:
  "is_enabled (set_enabled E b rn) e \<longleftrightarrow> (if e \<in> E then b else is_enabled rn e)"
  "ends (set_enabled E b rn) = ends rn" "servers (set_enabled E b rn) = servers rn"
  "connections (set_enabled E b rn) = connections rn"
  by (simp_all add: set_enabled_def is_enabled_def)

lemma foldE_enable:
  assumes "\<And>j rn. j \<in> set js \<Longrightarrow> f j rn = Inr (if P j then Enable (E j) b rn else rn)"
  shows "foldE f js rn = Inr (set_enabled (E ` {j \<in> set js. P j}) b rn)"
  using assms
proof (induction js arbitrary: rn)
  case (Cons j js)
  have "foldE f (j # js) rn = foldE f js (if P j then Enable (E j) b rn else rn)"
    using Cons.prems [of j rn] by simp
  also have "\<dots> = Inr (set_enabled (E ` {j \<in> set js. P j}) b (if P j then Enable (E j) b rn else rn))"
    using Cons by simp
  also have "\<dots> = Inr (set_enabled (E ` {k \<in> set (j # js). P k}) b rn)"
    by (cases "P j") (auto simp: Enable_set set_enabled_Un intro!: arg_cong [of _ _ "\<lambda>E. set_enabled E b rn"])
  finally show ?case .
qed simp

subsection \<open>The configuration's network\<close>

definition server :: "'c config \<Rightarrow> int \<Rightarrow> bool" where
  "server cfg i \<longleftrightarrow> 0 \<le> i \<and> i < cfg_n cfg"

definition has_ends :: "'c config \<Rightarrow> int \<Rightarrow> bool" where
  "has_ends cfg i \<longleftrightarrow> endnames cfg ! nat i \<noteq> None"

definition name :: "'c config \<Rightarrow> int \<Rightarrow> int \<Rightarrow> string" where
  "name cfg i j = the (endnames cfg ! nat i) ! nat j"

definition is_connected :: "'c config \<Rightarrow> int \<Rightarrow> bool" where
  "is_connected cfg i \<longleftrightarrow> connected cfg ! nat i"

text \<open>Well-formed: one entry per server in every slice, and complete rows of end names.\<close>

definition sized :: "'c config \<Rightarrow> bool" where
  "sized cfg \<longleftrightarrow> 0 \<le> cfg_n cfg \<and> len (rafts cfg) = cfg_n cfg \<and> len (connected cfg) = cfg_n cfg \<and>
     len (saved cfg) = cfg_n cfg \<and> len (endnames cfg) = cfg_n cfg \<and> len (logs cfg) = cfg_n cfg \<and>
     (\<forall>i. server cfg i \<and> has_ends cfg i \<longrightarrow> len (the (endnames cfg ! nat i)) = cfg_n cfg)"

text \<open>
  The names in use are distinct and belong to made ends, each end leads to its server, and an end is enabled
  exactly when it is one of a connected server to a connected server.
\<close>

definition ports_ok :: "'c config \<Rightarrow> bool" where
  "ports_ok cfg \<longleftrightarrow>
     (\<forall>i j i' j'. server cfg i \<and> server cfg j \<and> server cfg i' \<and> server cfg j' \<and> has_ends cfg i \<and>
        has_ends cfg i' \<and> name cfg i j = name cfg i' j' \<longrightarrow> i = i' \<and> j = j') \<and>
     (\<forall>i j. server cfg i \<and> server cfg j \<and> has_ends cfg i \<longrightarrow>
        ends (cfg_net cfg) (name cfg i j) \<noteq> None \<and> connection (cfg_net cfg) (name cfg i j) = Some j) \<and>
     (\<forall>i. server cfg i \<and> is_connected cfg i \<longrightarrow> has_ends cfg i) \<and>
     (\<forall>e. is_enabled (cfg_net cfg) e \<longleftrightarrow>
        (\<exists>i j. server cfg i \<and> server cfg j \<and> is_connected cfg i \<and> is_connected cfg j \<and> name cfg i j = e))"

lemma server_index:
  "sized cfg \<Longrightarrow> server cfg i \<Longrightarrow> index (rafts cfg) i = Inr (rafts cfg ! nat i)"
  "sized cfg \<Longrightarrow> server cfg i \<Longrightarrow> index (connected cfg) i = Inr (is_connected cfg i)"
  "sized cfg \<Longrightarrow> server cfg i \<Longrightarrow> index (saved cfg) i = Inr (saved cfg ! nat i)"
  "sized cfg \<Longrightarrow> server cfg i \<Longrightarrow> index (logs cfg) i = Inr (logs cfg ! nat i)"
  "sized cfg \<Longrightarrow> server cfg i \<Longrightarrow> index (endnames cfg) i = Inr (endnames cfg ! nat i)"
  by (simp_all add: sized_def server_def index_def is_connected_def)

lemma server_set_index:
  "sized cfg \<Longrightarrow> server cfg i \<Longrightarrow> set_index (rafts cfg) i rf = Inr ((rafts cfg)[nat i := rf])"
  "sized cfg \<Longrightarrow> server cfg i \<Longrightarrow> set_index (connected cfg) i b = Inr ((connected cfg)[nat i := b])"
  "sized cfg \<Longrightarrow> server cfg i \<Longrightarrow> set_index (saved cfg) i p = Inr ((saved cfg)[nat i := p])"
  "sized cfg \<Longrightarrow> server cfg i \<Longrightarrow> set_index (logs cfg) i l = Inr ((logs cfg)[nat i := l])"
  "sized cfg \<Longrightarrow> server cfg i \<Longrightarrow> set_index (endnames cfg) i r = Inr ((endnames cfg)[nat i := r])"
  by (simp_all add: sized_def server_def set_index_def)

lemma endname_ok:
  assumes "sized cfg" "server cfg i" "server cfg j" "has_ends cfg i"
  shows "endname cfg i j = Inr (name cfg i j)"
proof -
  obtain r where "endnames cfg ! nat i = Some r" using assms(4) by (auto simp: has_ends_def)
  moreover from this have "len r = cfg_n cfg" using assms by (force simp: sized_def has_ends_def)
  ultimately show ?thesis using assms(1-3)
    by (simp add: endname_def name_def index_def server_def sized_def)
qed

lemma servers_of_set [simp]: "set (servers_of cfg) = {i. server cfg i}"
  by (auto simp: servers_of_def server_def)

lemma nth_upd_server:
  "server cfg i \<Longrightarrow> server cfg j \<Longrightarrow> len xs = cfg_n cfg \<Longrightarrow> xs[nat i := v] ! nat j = (if j = i then v else xs ! nat j)"
  by (auto simp: server_def nth_list_update len_def)

subsection \<open>connect and disconnect\<close>

lemma with_connected:
  "server (cfg\<lparr>connected := cs\<rparr>) = server cfg" "has_ends (cfg\<lparr>connected := cs\<rparr>) = has_ends cfg"
  "name (cfg\<lparr>connected := cs\<rparr>) = name cfg" "servers_of (cfg\<lparr>connected := cs\<rparr>) = servers_of cfg"
  "sized cfg \<Longrightarrow> len cs = cfg_n cfg \<Longrightarrow> sized (cfg\<lparr>connected := cs\<rparr>)"
  by (simp_all add: fun_eq_iff server_def has_ends_def name_def servers_of_def sized_def)

lemma with_net:
  "server (set_net rn cfg) = server cfg" "has_ends (set_net rn cfg) = has_ends cfg"
  "name (set_net rn cfg) = name cfg" "servers_of (set_net rn cfg) = servers_of cfg"
  "is_connected (set_net rn cfg) = is_connected cfg" "cfg_net (set_net rn cfg) = rn"
  "sized (set_net rn cfg) = sized cfg" "set_net rn (set_net rn' cfg) = set_net rn cfg"
  "rafts (set_net rn cfg) = rafts cfg" "saved (set_net rn cfg) = saved cfg" "endnames (set_net rn cfg) = endnames cfg"
  by (simp_all add: fun_eq_iff server_def has_ends_def name_def servers_of_def sized_def is_connected_def set_net_def)

lemma connect_eq:
  assumes wf: "sized cfg" and i: "server cfg i" and he: "has_ends cfg i"
    and all: "\<And>j. server cfg j \<Longrightarrow> is_connected cfg j \<Longrightarrow> has_ends cfg j"
  defines "cfg1 \<equiv> cfg\<lparr>connected := (connected cfg)[nat i := True]\<rparr>"
  defines "C \<equiv> {j. server cfg j \<and> (j = i \<or> is_connected cfg j)}"
  shows "connect i cfg = Inr (set_net (set_enabled (name cfg i ` C \<union> (\<lambda>j. name cfg j i) ` C) True (cfg_net cfg)) cfg1)"
proof -
  have wf1: "sized cfg1" unfolding cfg1_def by (rule with_connected(5) [OF wf]) (use wf in \<open>simp add: sized_def\<close>)
  have con: "is_connected cfg1 j \<longleftrightarrow> j \<in> C" if "server cfg j" for j
    using nth_upd_server [OF i that, of "connected cfg" True] wf that
    by (auto simp: cfg1_def C_def is_connected_def sized_def)
  note simps = with_connected(1-4) [of "(connected cfg)[nat i := True]" cfg, folded cfg1_def]
  have out: "connect_end cfg1 j i j rn = Inr (if j \<in> C then Enable (name cfg i j) True rn else rn)"
    if "j \<in> set (servers_of cfg1)" for j rn
    using that con [of j] server_index(2) [OF wf1, of j] endname_ok [OF wf1, of i j] i he
    by (simp add: connect_end_def simps)
  have inc: "connect_end cfg1 j j i rn = Inr (if j \<in> C then Enable (name cfg j i) True rn else rn)"
    if "j \<in> set (servers_of cfg1)" for j rn
    using that con [of j] server_index(2) [OF wf1, of j] endname_ok [OF wf1, of j i] i he all
    by (auto simp: connect_end_def simps C_def)
  have C: "{j. server cfg1 j \<and> j \<in> C} = C" by (auto simp: simps C_def)
  have "connect i cfg = bindE (foldE (\<lambda>j. connect_end cfg1 j i j) (servers_of cfg1) (cfg_net cfg)) (\<lambda>rn.
      bindE (foldE (\<lambda>j. connect_end cfg1 j j i) (servers_of cfg1) rn) (\<lambda>rn. Inr (set_net rn cfg1)))"
    by (simp add: connect_def server_set_index(2) [OF wf i] cfg1_def Let_def)
  then show ?thesis
    using foldE_enable [OF out, of "servers_of cfg1"] foldE_enable [OF inc, of "servers_of cfg1"]
    by (simp add: C set_enabled_Un Un_commute)
qed

lemma disconnect_eq:
  assumes wf: "sized cfg" and i: "server cfg i"
  defines "cfg1 \<equiv> cfg\<lparr>connected := (connected cfg)[nat i := False]\<rparr>"
  defines "S \<equiv> {e. \<exists>j k. server cfg j \<and> server cfg k \<and> has_ends cfg j \<and> (j = i \<or> k = i) \<and> e = name cfg j k}"
  shows "disconnect i cfg = Inr (set_net (set_enabled S False (cfg_net cfg)) cfg1)"
proof -
  have wf1: "sized cfg1" unfolding cfg1_def by (rule with_connected(5) [OF wf]) (use wf in \<open>simp add: sized_def\<close>)
  note simps = with_connected(1-4) [of "(connected cfg)[nat i := False]" cfg, folded cfg1_def]
  have out: "disconnect_end cfg1 i i j rn = Inr (if has_ends cfg i then Enable (name cfg i j) False rn else rn)"
    if "j \<in> set (servers_of cfg1)" for j rn
    using that server_index(5) [OF wf1, of i] endname_ok [OF wf1, of i j] i
    by (simp add: disconnect_end_def simps) (auto simp: has_ends_def cfg1_def)
  have inc: "disconnect_end cfg1 j j i rn = Inr (if has_ends cfg j then Enable (name cfg j i) False rn else rn)"
    if "j \<in> set (servers_of cfg1)" for j rn
    using that server_index(5) [OF wf1, of j] endname_ok [OF wf1, of j i] i
    by (simp add: disconnect_end_def simps) (auto simp: has_ends_def cfg1_def)
  have S: "(\<lambda>j. name cfg j i) ` {j. server cfg j \<and> has_ends cfg j} \<union> name cfg i ` {j. server cfg j \<and> has_ends cfg i} = S"
    using i by (auto simp: S_def)
  have "disconnect i cfg = bindE (foldE (\<lambda>j. disconnect_end cfg1 i i j) (servers_of cfg1) (cfg_net cfg)) (\<lambda>rn.
      bindE (foldE (\<lambda>j. disconnect_end cfg1 j j i) (servers_of cfg1) rn) (\<lambda>rn. Inr (set_net rn cfg1)))"
    by (simp add: disconnect_def server_set_index(2) [OF wf i] cfg1_def Let_def)
  then show ?thesis
    using foldE_enable [OF out, of "servers_of cfg1"] foldE_enable [OF inc, of "servers_of cfg1"]
    by (simp add: simps set_enabled_Un S)
qed

text \<open>The two operations keep the invariant of the ends.\<close>

lemma ports_okD:
  assumes "ports_ok cfg"
  shows "\<And>i j i' j'. server cfg i \<Longrightarrow> server cfg j \<Longrightarrow> server cfg i' \<Longrightarrow> server cfg j' \<Longrightarrow> has_ends cfg i \<Longrightarrow>
      has_ends cfg i' \<Longrightarrow> name cfg i j = name cfg i' j' \<Longrightarrow> i = i' \<and> j = j'"
    and "\<And>i j. server cfg i \<Longrightarrow> server cfg j \<Longrightarrow> has_ends cfg i \<Longrightarrow>
      ends (cfg_net cfg) (name cfg i j) \<noteq> None \<and> connection (cfg_net cfg) (name cfg i j) = Some j"
    and "\<And>i. server cfg i \<Longrightarrow> is_connected cfg i \<Longrightarrow> has_ends cfg i"
    and "\<And>e. is_enabled (cfg_net cfg) e \<longleftrightarrow>
      (\<exists>i j. server cfg i \<and> server cfg j \<and> is_connected cfg i \<and> is_connected cfg j \<and> name cfg i j = e)"
  using assms unfolding ports_ok_def by blast+

lemma connection_set_enabled [simp]: "connection (set_enabled E b rn) e = connection rn e"
  by (simp add: connection_def)

lemma is_connected_upd:
  assumes "sized cfg" "server cfg i" "server cfg j"
  shows "is_connected (cfg\<lparr>connected := (connected cfg)[nat i := b]\<rparr>) j = (if j = i then b else is_connected cfg j)"
  using nth_upd_server [OF assms(2,3), of "connected cfg" b] assms(1) by (simp add: is_connected_def sized_def)

lemma ports_okI:
  assumes "ports_ok cfg" "server cfg' = server cfg" "has_ends cfg' = has_ends cfg" "name cfg' = name cfg"
    and "ends (cfg_net cfg') = ends (cfg_net cfg)" "connection (cfg_net cfg') = connection (cfg_net cfg)"
    and "\<And>i. server cfg i \<Longrightarrow> is_connected cfg' i \<Longrightarrow> has_ends cfg i"
    and "\<And>e. is_enabled (cfg_net cfg') e \<longleftrightarrow>
      (\<exists>i j. server cfg i \<and> server cfg j \<and> is_connected cfg' i \<and> is_connected cfg' j \<and> name cfg i j = e)"
  shows "ports_ok cfg'"
  unfolding ports_ok_def assms(2-6) using ports_okD(1,2) [OF assms(1)] assms(7,8) by blast

lemma connect_ports:
  assumes wf: "sized cfg" and ok: "ports_ok cfg" and i: "server cfg i" and he: "has_ends cfg i"
  shows "returns (connect i cfg) (\<lambda>cfg'. sized cfg' \<and> ports_ok cfg' \<and> cfg_n cfg' = cfg_n cfg \<and>
    cfg' = set_net (cfg_net cfg') (cfg\<lparr>connected := (connected cfg)[nat i := True]\<rparr>))"
proof -
  let ?cfg1 = "cfg\<lparr>connected := (connected cfg)[nat i := True]\<rparr>"
  let ?C = "{j. server cfg j \<and> (j = i \<or> is_connected cfg j)}"
  let ?E = "name cfg i ` ?C \<union> (\<lambda>j. name cfg j i) ` ?C"
  let ?cfg' = "set_net (set_enabled ?E True (cfg_net cfg)) ?cfg1"
  have eq: "connect i cfg = Inr ?cfg'" by (rule connect_eq [OF wf i he]) (use ports_okD(3) [OF ok] in blast)
  have con: "is_connected ?cfg' j \<longleftrightarrow> j \<in> ?C" if "server cfg j" for j
    using is_connected_upd [OF wf i that, of True] that by (simp add: with_net)
  have "ports_ok ?cfg'"
  proof (rule ports_okI [OF ok])
    show "\<And>j. server cfg j \<Longrightarrow> is_connected ?cfg' j \<Longrightarrow> has_ends cfg j"
      using con he ports_okD(3) [OF ok] by blast
    show "is_enabled (cfg_net ?cfg') e \<longleftrightarrow>
      (\<exists>j k. server cfg j \<and> server cfg k \<and> is_connected ?cfg' j \<and> is_connected ?cfg' k \<and> name cfg j k = e)" for e
      using con i ports_okD(4) [OF ok, of e] by (simp add: with_net) blast
  qed (simp_all add: with_net with_connected fun_eq_iff)
  moreover have "sized ?cfg'"
    by (simp only: with_net, rule with_connected(5) [OF wf]) (use wf in \<open>simp add: sized_def\<close>)
  ultimately show ?thesis using eq by (simp add: set_net_def)
qed

lemma disconnect_ports:
  assumes wf: "sized cfg" and ok: "ports_ok cfg" and i: "server cfg i"
  shows "returns (disconnect i cfg) (\<lambda>cfg'. sized cfg' \<and> ports_ok cfg' \<and> cfg_n cfg' = cfg_n cfg \<and> ends (cfg_net cfg') = ends (cfg_net cfg) \<and>
    cfg' = set_net (cfg_net cfg') (cfg\<lparr>connected := (connected cfg)[nat i := False]\<rparr>))"
proof -
  let ?cfg1 = "cfg\<lparr>connected := (connected cfg)[nat i := False]\<rparr>"
  let ?E = "{e. \<exists>j k. server cfg j \<and> server cfg k \<and> has_ends cfg j \<and> (j = i \<or> k = i) \<and> e = name cfg j k}"
  let ?cfg' = "set_net (set_enabled ?E False (cfg_net cfg)) ?cfg1"
  have eq: "disconnect i cfg = Inr ?cfg'" by (rule disconnect_eq [OF wf i])
  have con: "is_connected ?cfg' j \<longleftrightarrow> j \<noteq> i \<and> is_connected cfg j" if "server cfg j" for j
    using is_connected_upd [OF wf i that, of False] that by (simp add: with_net)
  have "ports_ok ?cfg'"
  proof (rule ports_okI [OF ok])
    show "\<And>j. server cfg j \<Longrightarrow> is_connected ?cfg' j \<Longrightarrow> has_ends cfg j"
      using con ports_okD(3) [OF ok] by blast
    fix e
    have "e \<notin> ?E" if e: "server cfg j" "server cfg k" "is_connected cfg j" "j \<noteq> i" "k \<noteq> i" "name cfg j k = e" for j k
      using ports_okD(1) [OF ok e(1,2)] ports_okD(3) [OF ok e(1,3)] e(4-6) by blast
    note keep = this
    show "is_enabled (cfg_net ?cfg') e \<longleftrightarrow>
      (\<exists>j k. server cfg j \<and> server cfg k \<and> is_connected ?cfg' j \<and> is_connected ?cfg' k \<and> name cfg j k = e)" (is "?L \<longleftrightarrow> ?R")
    proof
      assume ?L
      then have e: "e \<notin> ?E" "is_enabled (cfg_net cfg) e" by (simp_all add: with_net split: if_splits)
      then obtain j k where jk: "server cfg j" "server cfg k" "is_connected cfg j" "is_connected cfg k" "name cfg j k = e"
        using ports_okD(4) [OF ok, of e] by blast
      with e(1) ports_okD(3) [OF ok jk(1,3)] have "j \<noteq> i" "k \<noteq> i" by blast+
      with jk con show ?R by blast
    next
      assume ?R
      then obtain j k where jk: "server cfg j" "server cfg k" "is_connected cfg j" "is_connected cfg k" "name cfg j k = e"
        "j \<noteq> i" "k \<noteq> i" using con by blast
      with keep [of j k] ports_okD(4) [OF ok, of e] have "e \<notin> ?E" "is_enabled (cfg_net cfg) e" by blast+
      then show ?L by (simp add: with_net)
    qed
  qed (simp_all add: with_net with_connected fun_eq_iff)
  moreover have "sized ?cfg'"
    by (simp only: with_net, rule with_connected(5) [OF wf]) (use wf in \<open>simp add: sized_def\<close>)
  ultimately show ?thesis using eq by (simp add: set_net_def)
qed

subsection \<open>Crash and restart\<close>

text \<open>What \<^verbatim>\<open>crash1\<close> keeps of a persister: the state of Raft, not the snapshot.\<close>

definition crashed_copy :: "'c Persister \<Rightarrow> 'c Persister" where
  "crashed_copy p = \<lparr>raftstate = raftstate p, snapshot = []\<rparr>"

definition stored :: "'c config \<Rightarrow> int \<Rightarrow> 'c Persister option" where
  "stored cfg i =
     (case (saved cfg ! nat i, rafts cfg ! nat i) of
        (Some _, Some rf) \<Rightarrow> Some (persister rf) | (p, _) \<Rightarrow> p)"

definition crashed :: "'c config \<Rightarrow> int \<Rightarrow> (string, int) Network \<Rightarrow> 'c config" where
  "crashed cfg i rn =
     (set_net (DeleteServer i rn) (cfg\<lparr>connected := (connected cfg)[nat i := False]\<rparr>))
       \<lparr>rafts := (rafts cfg)[nat i := None],
         saved := (saved cfg)[nat i := map_option crashed_copy (stored cfg i)]\<rparr>"

lemma saved_content_eq: "sized cfg \<Longrightarrow> server cfg i \<Longrightarrow> saved_content cfg i = Inr (stored cfg i)"
  by (simp add: saved_content_def server_index stored_def split: option.splits)

lemma crashed_facts:
  "server (crashed cfg i rn) = server cfg" "has_ends (crashed cfg i rn) = has_ends cfg"
  "name (crashed cfg i rn) = name cfg" "servers_of (crashed cfg i rn) = servers_of cfg"
  "cfg_net (crashed cfg i rn) = DeleteServer i rn"
  "is_connected (crashed cfg i rn) = is_connected (cfg\<lparr>connected := (connected cfg)[nat i := False]\<rparr>)"
  "endnames (crashed cfg i rn) = endnames cfg" "cfg_n (crashed cfg i rn) = cfg_n cfg"
  "sized cfg \<Longrightarrow> sized (crashed cfg i rn)"
  by (simp_all add: crashed_def set_net_def fun_eq_iff server_def has_ends_def name_def servers_of_def is_connected_def sized_def)

lemma delete_facts:
  "ends (DeleteServer i rn) = ends rn" "connection (DeleteServer i rn) = connection rn"
  "is_enabled (DeleteServer i rn) = is_enabled rn" "server_at (DeleteServer i rn) i = None"
  by (simp_all add: DeleteServer_def fun_eq_iff connection_def is_enabled_def server_at_def)

lemma crash1_ports:
  assumes wf: "sized cfg" and ok: "ports_ok cfg" and i: "server cfg i"
  shows "\<exists>rn. crash1 i cfg = Inr (crashed cfg i rn) \<and> ends rn = ends (cfg_net cfg) \<and> sized (crashed cfg i rn) \<and> ports_ok (crashed cfg i rn)"
proof -
  let ?cfg1 = "cfg\<lparr>connected := (connected cfg)[nat i := False]\<rparr>"
  obtain rn where d: "disconnect i cfg = Inr (set_net rn ?cfg1)" "sized (set_net rn ?cfg1)" "ports_ok (set_net rn ?cfg1)"
    "ends rn = ends (cfg_net cfg)"
    using disconnect_ports [OF assms] unfolding returns_iff by metis
  let ?cfg2 = "set_net (DeleteServer i rn) ?cfg1"
  have s2: "sized ?cfg2" "server ?cfg2 i" using d(2) i by (simp_all add: with_net with_connected)
  have st: "stored ?cfg2 i = stored cfg i" by (simp add: stored_def set_net_def)
  have "crash1 i cfg = Inr (crashed cfg i rn)"
    using d(1) saved_content_eq [OF s2] st server_set_index(1,3) [OF s2]
    by (simp add: crash1_def Let_def with_net crashed_def crashed_copy_def [abs_def] persister_defs
        option.map_comp comp_def)
  moreover have "ports_ok (crashed cfg i rn)"
    by (rule ports_okI [OF d(3)])
      (use ports_okD(3,4) [OF d(3)] in \<open>simp_all add: crashed_facts with_net with_connected delete_facts\<close>)
  ultimately show ?thesis using crashed_facts(9) [OF wf] d(4) by blast
qed

definition ends_made ::
  "string list \<Rightarrow> int list \<Rightarrow> (string, int) Network \<Rightarrow> (string, int) Network \<Rightarrow> bool" where
  "ends_made names js rn rn' \<longleftrightarrow>
     (let N = (\<lambda>j. names ! nat j) ` set js in
      servers rn' = servers rn \<and>
      (\<forall>e. ends rn' e \<noteq> None \<longleftrightarrow> ends rn e \<noteq> None \<or> e \<in> N) \<and>
      (\<forall>e. is_enabled rn' e \<longleftrightarrow> is_enabled rn e \<and> e \<notin> N) \<and>
      (\<forall>j \<in> set js. connection rn' (names ! nat j) = Some j) \<and>
      (\<forall>e. e \<notin> N \<longrightarrow> connection rn' e = connection rn e))"

lemma make_ends:
  assumes "distinct (map (\<lambda>j. names ! nat j) js)" "\<And>j. j \<in> set js \<Longrightarrow> 0 \<le> j \<and> j < len names"
    and "\<And>j. j \<in> set js \<Longrightarrow> ends rn (names ! nat j) = None"
  shows "\<exists>rn'. foldE (make_end names) js rn = Inr rn' \<and> ends_made names js rn rn'"
  using assms
proof (induction js arbitrary: rn)
  case (Cons j js)
  let ?e = "names ! nat j"
  let ?rn = "Connect ?e j (rn\<lparr>ends := (ends rn)(?e \<mapsto> \<lparr>ce_endname = ?e\<rparr>), enabled := (enabled rn)(?e \<mapsto> False),
      connections := (connections rn)(?e \<mapsto> None)\<rparr>)"
  have step: "make_end names j rn = Inr ?rn"
    using Cons.prems(2,3) [of j] by (simp add: make_end_def index_def MakeEnd_def Let_def)
  have new: "?e \<notin> (\<lambda>j. names ! nat j) ` set js" using Cons.prems(1) by simp
  have "ends ?rn (names ! nat k) = None" if "k \<in> set js" for k
  proof -
    have "names ! nat k \<noteq> ?e" using new imageI [OF that, of "\<lambda>j. names ! nat j"] by metis
    then show ?thesis using Cons.prems(3) that by (simp add: Connect_def)
  qed
  then have "\<exists>rn'. foldE (make_end names) js ?rn = Inr rn' \<and> ends_made names js ?rn rn'"
    using Cons.prems(1,2) by (intro Cons.IH) simp_all
  then obtain rn' where rn': "foldE (make_end names) js ?rn = Inr rn'" "ends_made names js ?rn rn'" by blast
  note made = rn'(2) [unfolded ends_made_def Let_def]
  have "ends_made names (j # js) rn rn'"
    unfolding ends_made_def Let_def
  proof (intro conjI)
    show "\<forall>k \<in> set (j # js). connection rn' (names ! nat k) = Some k"
      using made new by (simp add: Connect_def connection_def)
  qed (use made in \<open>simp_all add: Connect_def is_enabled_def connection_def\<close>)
  then show ?case using step rn'(1) by simp
qed (simp add: ends_made_def)

lemma add_facts:
  "ends (AddServer i srv rn) = ends rn" "connection (AddServer i srv rn) = connection rn"
  "is_enabled (AddServer i srv rn) = is_enabled rn" "server_at (AddServer i srv rn) i = Some srv"
  by (simp_all add: AddServer_def fun_eq_iff connection_def is_enabled_def server_at_def)

lemma name_in: "len names = cfg_n cfg \<Longrightarrow> server cfg k \<Longrightarrow> names ! nat k \<in> set names"
  by (auto simp: server_def len_def)

text \<open>A new row of fresh end names for a server that is not connected.\<close>

text \<open>Names stay different when the row \<open>i\<close> of a table of names is replaced by one with new names.\<close>

lemma replaced_row_inject:
  assumes "\<And>j. S j \<Longrightarrow> H' j \<longleftrightarrow> j = i \<or> H j" "\<And>j k. S j \<Longrightarrow> N' j k = (if j = i then f k else N j k)"
    and "\<And>k k'. f k = f k' \<Longrightarrow> S k \<Longrightarrow> S k' \<Longrightarrow> k = k'" "\<And>k. S k \<Longrightarrow> f k \<in> F" "\<And>j k. S j \<Longrightarrow> S k \<Longrightarrow> H j \<Longrightarrow> N j k \<notin> F"
    and "\<And>j k j' k'. S j \<Longrightarrow> S k \<Longrightarrow> S j' \<Longrightarrow> S k' \<Longrightarrow> H j \<Longrightarrow> H j' \<Longrightarrow> N j k = N j' k' \<Longrightarrow> j = j' \<and> k = k'"
    and j: "S j" "S k" "S j'" "S k'" "H' j" "H' j'" "N' j k = N' j' k'"
  shows "j = j' \<and> k = k'"
proof (cases "j = i"; cases "j' = i")
  assume "j = i" "j' \<noteq> i"
  then have "f k = N j' k'" "H j'" using assms(1,2) j by simp_all
  then show ?thesis using assms(4) [OF j(2)] assms(5) [OF j(3,4)] by simp
next
  assume "j \<noteq> i" "j' = i"
  then have "N j k = f k'" "H j" using assms(1,2) j by simp_all
  then show ?thesis using assms(4) [OF j(4)] assms(5) [OF j(1,2)] by simp
next
  assume "j \<noteq> i" "j' \<noteq> i"
  then show ?thesis using assms(6) [OF j(1-4)] assms(1,2) j by simp
qed (use assms(2) assms(3) [of k k'] j in simp)

lemma ports_ok_restart:
  assumes wf: "sized cfg" and ok: "ports_ok cfg" and i: "server cfg i" "\<not> is_connected cfg i"
    and names: "len names = cfg_n cfg" "distinct names" "\<And>e. e \<in> set names \<Longrightarrow> ends (cfg_net cfg) e = None"
    and made: "ends_made names (servers_of cfg) (cfg_net cfg) rn"
    and new: "server cfg' = server cfg" "is_connected cfg' = is_connected cfg"
      "endnames cfg' = (endnames cfg)[nat i := Some names]" "cfg_net cfg' = AddServer i srv rn"
  shows "ports_ok cfg'"
proof -
  have row: "endnames cfg' ! nat j = (if j = i then Some names else endnames cfg ! nat j)" if "server cfg j" for j
    using nth_upd_server [OF i(1) that, of "endnames cfg" "Some names"] wf new(3) by (simp add: sized_def)
  have he: "has_ends cfg' j \<longleftrightarrow> j = i \<or> has_ends cfg j" if "server cfg j" for j
    using row [OF that] by (auto simp: has_ends_def)
  have nm: "name cfg' j k = (if j = i then names ! nat k else name cfg j k)" if "server cfg j" for j k
    using row [OF that] by (simp add: name_def)
  let ?N = "(\<lambda>j. names ! nat j) ` set (servers_of cfg)"
  note N = name_in [OF names(1)]
  have inj: "k = k'" if "names ! nat k = names ! nat k'" "server cfg k" "server cfg k'" for k k'
    using that names(1,2) by (auto simp: server_def len_def nth_eq_iff_index_eq)
  have old: "name cfg j k \<notin> ?N" "name cfg j k \<notin> set names" if "server cfg j" "server cfg k" "has_ends cfg j" for j k
    using ports_okD(2) [OF ok that] names(3) N by fastforce+
  note m = made [unfolded ends_made_def Let_def]
  have 1: "j = j' \<and> k = k'"
    if "server cfg j" "server cfg k" "server cfg j'" "server cfg k'" "has_ends cfg' j" "has_ends cfg' j'"
      "name cfg' j k = name cfg' j' k'" for j k j' k'
    by (rule replaced_row_inject [where S = "server cfg" and H = "has_ends cfg" and H' = "has_ends cfg'" and N = "name cfg"
          and N' = "name cfg'" and f = "\<lambda>k. names ! nat k" and F = "set names" and i = i, OF _ _ _ _ _ _ that])
      (fact he, fact nm, fact inj, fact N, fact old(2), fact ports_okD(1) [OF ok])
  have 2: "ends rn (name cfg' j k) \<noteq> None \<and> connection rn (name cfg' j k) = Some k"
    if j: "server cfg j" "server cfg k" "has_ends cfg' j" for j k
  proof (cases "j = i")
    case True
    then show ?thesis using m nm j by simp
  next
    case False
    then have h: "has_ends cfg j" using he j by simp
    then show ?thesis using ports_okD(2) [OF ok j(1,2) h] old(1) [OF j(1,2) h] m nm [OF j(1)] False by auto
  qed
  have 3: "has_ends cfg' j" if "server cfg j" "is_connected cfg j" for j
    using ports_okD(3) [OF ok that] he that by simp
  have 4: "is_enabled rn e \<longleftrightarrow>
    (\<exists>j k. server cfg j \<and> server cfg k \<and> is_connected cfg j \<and> is_connected cfg k \<and> name cfg' j k = e)" (is "?L \<longleftrightarrow> ?R") for e
  proof
    assume ?L
    then obtain j k where jk: "server cfg j" "server cfg k" "is_connected cfg j" "is_connected cfg k" "name cfg j k = e"
      using m ports_okD(4) [OF ok, of e] by blast
    then have "name cfg' j k = e" using nm i(2) by auto
    with jk show ?R by blast
  next
    assume ?R
    then obtain j k where jk: "server cfg j" "server cfg k" "is_connected cfg j" "is_connected cfg k" "name cfg' j k = e" by blast
    then have e: "name cfg j k = e" using nm i(2) by auto
    then have "e \<notin> ?N" using old(1) jk ports_okD(3) [OF ok jk(1,3)] by blast
    moreover have "is_enabled (cfg_net cfg) e" using ports_okD(4) [OF ok, of e] jk e by blast
    ultimately show ?L using m by blast
  qed
  show ?thesis unfolding ports_ok_def new add_facts using 1 2 3 4 by blast
qed

text \<open>The persister a restarted peer is given, and the configuration afterwards.\<close>

definition restart_persister :: "'c config \<Rightarrow> int \<Rightarrow> 'c Persister" where
  "restart_persister cfg i = (case stored cfg i of None \<Rightarrow> MakePersister | Some p \<Rightarrow> crashed_copy p)"

definition started ::
  "'c config \<Rightarrow> int \<Rightarrow> string list \<Rightarrow> 'c Raft \<Rightarrow> (string, int) Network \<Rightarrow> 'c config" where
  "started cfg i names rf rn =
     set_net rn
       (cfg\<lparr>connected := (connected cfg)[nat i := False], endnames := (endnames cfg)[nat i := Some names],
            saved := (saved cfg)[nat i := Some (restart_persister cfg i)], rafts := (rafts cfg)[nat i := Some rf]\<rparr>)"

definition fresh_names :: "string list \<Rightarrow> 'c config \<Rightarrow> bool" where
  "fresh_names names cfg \<longleftrightarrow> len names = cfg_n cfg \<and> distinct names \<and> (\<forall>e \<in> set names. ends (cfg_net cfg) e = None)"

lemma started_facts:
  "server (started cfg i names rf rn) = server cfg" "cfg_net (started cfg i names rf rn) = rn"
  "is_connected (started cfg i names rf rn) = is_connected (cfg\<lparr>connected := (connected cfg)[nat i := False]\<rparr>)"
  "endnames (started cfg i names rf rn) = (endnames cfg)[nat i := Some names]"
  "servers_of (started cfg i names rf rn) = servers_of cfg" "cfg_n (started cfg i names rf rn) = cfg_n cfg"
  "logs (started cfg i names rf rn) = logs cfg"
  by (simp_all add: started_def set_net_def fun_eq_iff server_def is_connected_def servers_of_def)

lemma sized_started:
  assumes "sized cfg" "server cfg i" "len names = cfg_n cfg"
  shows "sized (started cfg i names rf rn)"
  using assms nth_upd_server [OF assms(2), of _ "endnames cfg" "Some names"]
  by (auto simp: sized_def started_def set_net_def server_def has_ends_def split: if_splits)

lemma names_distinct:
  "distinct names \<Longrightarrow> len names = cfg_n cfg \<Longrightarrow> distinct (map (\<lambda>j. names ! nat j) (servers_of cfg))"
  by (auto simp: distinct_map servers_of_def inj_on_def nth_eq_iff_index_eq len_def)

lemma start1_ports:
  assumes wf: "sized cfg" and ok: "ports_ok cfg" and i: "server cfg i" and names: "fresh_names names cfg"
  shows "\<exists>rn. server_at rn i = Some srv \<and>
    start1 names r srv i cfg =
      bindE (Make r (nat (cfg_n cfg)) i (restart_persister cfg i)) (\<lambda>rf. Inr (started cfg i names rf rn)) \<and>
    (\<forall>rf. sized (started cfg i names rf rn) \<and> ports_ok (started cfg i names rf rn))"
proof -
  obtain rn where c: "crash1 i cfg = Inr (crashed cfg i rn)" "sized (crashed cfg i rn)" "ports_ok (crashed cfg i rn)"
    and ends: "ends rn = ends (cfg_net cfg)"
    using crash1_ports [OF wf ok i] by blast
  note cf = crashed_facts(1-8) [of cfg i rn]
  note n = names [unfolded fresh_names_def]
  obtain rn' where e: "foldE (make_end names) (servers_of cfg) (DeleteServer i rn) = Inr rn'"
    "ends_made names (servers_of cfg) (DeleteServer i rn) rn'"
    using make_ends [of names "servers_of cfg" "DeleteServer i rn"] n names_distinct [of names cfg] name_in [of names cfg]
    by (simp add: delete_facts ends) (auto simp: server_def)
  let ?c = "(crashed cfg i rn)\<lparr>endnames := (endnames cfg)[nat i := Some names]\<rparr>"
  have sv: "index (saved ?c) i = Inr (map_option crashed_copy (stored cfg i))"
    using nth_upd_server [OF i i, of "saved cfg"] wf i by (simp add: crashed_def index_def sized_def server_def)
  have p: "(case map_option crashed_copy (stored cfg i) of None \<Rightarrow> MakePersister | Some p \<Rightarrow> Copy p) = restart_persister cfg i"
    by (simp add: restart_persister_def persister_defs crashed_copy_def split: option.splits)
  have si: "server (crashed cfg i rn) i" by (simp add: cf i)
  have "servers_of ?c = servers_of cfg" by (simp add: servers_of_def cf)
  then have eq: "start1 names r srv i cfg =
      bindE (Make r (nat (cfg_n cfg)) i (restart_persister cfg i)) (\<lambda>rf. Inr (started cfg i names rf (AddServer i srv rn')))"
    using c(1) e(1) p sv server_set_index(1,3,5) [OF c(2) si]
    by (simp add: start1_def cf Let_def crashed_def started_def set_net_def)
  have "ports_ok (started cfg i names rf (AddServer i srv rn'))" for rf
    by (rule ports_ok_restart [OF c(2,3) si, of names rn' _ srv])
      (use n e(2) is_connected_upd [OF wf i i] in \<open>simp_all add: cf started_facts delete_facts ends\<close>)
  moreover have "sized (started cfg i names rf (AddServer i srv rn'))" for rf
    using n by (intro sized_started [OF wf i]) simp
  ultimately show ?thesis using add_facts(4) eq by (intro exI [of _ "AddServer i srv rn'"]) simp
qed

subsection \<open>Runs of the harness\<close>

text \<open>
  What a test may do to the configuration after \<^verbatim>\<open>make_config\<close> has filled in the slices: start, crash, connect and disconnect servers,
  while the peers change their states and the network its modes. A server that has no ends yet is not connected.
\<close>

inductive config_reach :: "int \<Rightarrow> 'c config \<Rightarrow> bool" for n :: int where
  reach_new: "0 \<le> n \<Longrightarrow> config_reach n (new_config n unreliable)"
| reach_log: "config_reach n cfg \<Longrightarrow> server cfg i \<Longrightarrow> config_reach n (cfg\<lparr>logs := (logs cfg)[nat i := l], maxIndex := m\<rparr>)"
| reach_peers: "config_reach n cfg \<Longrightarrow> len rfs = n \<Longrightarrow> config_reach n (cfg\<lparr>rafts := rfs\<rparr>)"
| reach_start: "config_reach n cfg \<Longrightarrow> server cfg i \<Longrightarrow> fresh_names names cfg \<Longrightarrow>
    start1 names r srv i cfg = Inr cfg' \<Longrightarrow> config_reach n cfg'"
| reach_crash: "config_reach n cfg \<Longrightarrow> server cfg i \<Longrightarrow> crash1 i cfg = Inr cfg' \<Longrightarrow> config_reach n cfg'"
| reach_connect: "config_reach n cfg \<Longrightarrow> server cfg i \<Longrightarrow> has_ends cfg i \<Longrightarrow> connect i cfg = Inr cfg' \<Longrightarrow> config_reach n cfg'"
| reach_disconnect: "config_reach n cfg \<Longrightarrow> server cfg i \<Longrightarrow> disconnect i cfg = Inr cfg' \<Longrightarrow> config_reach n cfg'"
| reach_unreliable: "config_reach n cfg \<Longrightarrow> config_reach n (setunreliable b cfg)"
| reach_reordering: "config_reach n cfg \<Longrightarrow> config_reach n (setlongreordering b cfg)"

lemma nth_replicate_nat: "0 \<le> i \<Longrightarrow> i < n \<Longrightarrow> replicate (nat n) x ! nat i = x"
  by (simp add: nth_replicate)

lemma ports_ok_new: "0 \<le> n \<Longrightarrow> sized (new_config n u) \<and> ports_ok (new_config n u) \<and> cfg_n (new_config n u) = n"
  by (auto simp: sized_def ports_ok_def new_config_def setunreliable_def set_net_def Let_def server_def has_ends_def
      is_connected_def MakeNetwork_def Reliable_def LongDelays_def is_enabled_def len_def nth_replicate_nat)

lemma ports_frame:
  assumes "ports_ok cfg" "server cfg' = server cfg" "has_ends cfg' = has_ends cfg" "name cfg' = name cfg"
    "is_connected cfg' = is_connected cfg" "ends (cfg_net cfg') = ends (cfg_net cfg)"
    "connection (cfg_net cfg') = connection (cfg_net cfg)" "is_enabled (cfg_net cfg') = is_enabled (cfg_net cfg)"
  shows "ports_ok cfg'"
  using assms(1) unfolding ports_ok_def assms(2-8) .

lemma sized_frame:
  assumes "sized cfg" "cfg_n cfg' = cfg_n cfg" "endnames cfg' = endnames cfg" "len (rafts cfg') = len (rafts cfg)"
    "len (connected cfg') = len (connected cfg)" "len (saved cfg') = len (saved cfg)" "len (logs cfg') = len (logs cfg)"
  shows "sized cfg'"
  using assms by (simp add: sized_def server_def has_ends_def)

lemma config_frame:
  assumes "sized cfg \<and> ports_ok cfg \<and> cfg_n cfg = n"
    "cfg_n cfg' = cfg_n cfg" "endnames cfg' = endnames cfg" "connected cfg' = connected cfg" "saved cfg' = saved cfg"
    "len (rafts cfg') = len (rafts cfg)" "len (logs cfg') = len (logs cfg)"
    "ends (cfg_net cfg') = ends (cfg_net cfg)" "connections (cfg_net cfg') = connections (cfg_net cfg)"
    "enabled (cfg_net cfg') = enabled (cfg_net cfg)"
  shows "sized cfg' \<and> ports_ok cfg' \<and> cfg_n cfg' = n"
proof -
  have "ports_ok cfg'"
    by (rule ports_frame [of cfg])
      (use assms in \<open>simp_all add: server_def has_ends_def name_def is_connected_def connection_def is_enabled_def fun_eq_iff\<close>)
  moreover have "sized cfg'" by (rule sized_frame [of cfg]) (use assms in simp_all)
  ultimately show ?thesis using assms(1,2) by simp
qed

lemma config_reach_ok: "config_reach n cfg \<Longrightarrow> sized cfg \<and> ports_ok cfg \<and> cfg_n cfg = n"
proof (induction rule: config_reach.induct)
  case (reach_new unreliable)
  then show ?case by (rule ports_ok_new)
next
  case (reach_start cfg i names r srv cfg')
  then obtain rn where eq: "start1 names r srv i cfg =
      bindE (Make r (nat (cfg_n cfg)) i (restart_persister cfg i)) (\<lambda>rf. Inr (started cfg i names rf rn))"
    "\<forall>rf. sized (started cfg i names rf rn) \<and> ports_ok (started cfg i names rf rn)"
    using start1_ports [of cfg i names srv r] by blast
  obtain rf where "cfg' = started cfg i names rf rn"
    using reach_start.hyps(4) unfolding eq(1) bindE_eq_Inr by blast
  then show ?case using eq(2) reach_start.IH by (simp add: started_facts)
next
  case (reach_crash cfg i cfg')
  then show ?case using crash1_ports [of cfg i] by (auto simp: crashed_facts)
next
  case (reach_connect cfg i cfg')
  then show ?case using connect_ports [of cfg i] by (simp add: returns_iff)
next
  case (reach_disconnect cfg i cfg')
  then show ?case using disconnect_ports [of cfg i] by (simp add: returns_iff)
next
  case (reach_log cfg i l m)
  show ?case by (rule config_frame [of cfg n, OF reach_log.IH]) simp_all
next
  case (reach_peers cfg rfs)
  then have "len rfs = len (rafts cfg)" by (simp add: sized_def)
  then show ?case by (intro config_frame [of cfg n, OF reach_peers.IH]) simp_all
next
  case (reach_unreliable cfg b)
  show ?case by (rule config_frame [of cfg n, OF reach_unreliable.IH]) (simp_all add: setunreliable_def set_net_def Reliable_def)
next
  case (reach_reordering cfg b)
  show ?case by (rule config_frame [of cfg n, OF reach_reordering.IH]) (simp_all add: setlongreordering_def set_net_def LongReordering_def)
qed

subsection \<open>The ends of an earlier incarnation\<close>

lemma endname_name:
  assumes "endname cfg i j = Inr e"
  shows "has_ends cfg i" "name cfg i j = e"
  using assms by (auto simp: endname_def bindE_eq_Inr index_def has_ends_def name_def split: if_splits option.splits)

lemma restart_silent:
  fixes cfg :: "'c config"
  assumes new: "cfg' = started cfg i names rf rn" and ok: "sized cfg" "ports_ok cfg" and i: "server cfg i" and j: "server cfg j"
    and ok': "sized cfg'" "ports_ok cfg'"
    and e: "endname cfg i j = Inr e \<or> endname cfg' i j = Inr e"
  shows "\<not> is_enabled rn e"
proof
  assume "is_enabled rn e"
  then obtain k l where k: "server cfg k" "server cfg l" "is_connected cfg' k" "name cfg' k l = e"
    using ports_okD(4) [OF ok'(2), of e] by (auto simp: new started_facts)
  have ki: "k \<noteq> i" using k(3) is_connected_upd [OF ok(1) i i, of False] by (auto simp: new started_facts)
  have row: "endnames cfg' ! nat k = endnames cfg ! nat k"
    using nth_upd_server [OF i k(1), of "endnames cfg" "Some names"] ki ok(1) by (simp add: new started_facts sized_def)
  have he: "has_ends cfg' k" using ports_okD(3) [OF ok'(2)] k by (simp add: new started_facts)
  then have old: "has_ends cfg k" "name cfg k l = e" using row k(4) by (simp_all add: has_ends_def name_def)
  from e show False
  proof
    assume "endname cfg i j = Inr e"
    then show False using ports_okD(1) [OF ok(2) i j k(1,2)] old ki endname_name [of cfg i j e] by simp
  next
    assume "endname cfg' i j = Inr e"
    then show False
      using ports_okD(1) [OF ok'(2), of i j k l] i j k he ki endname_name [of cfg' i j e] by (simp add: new started_facts)
  qed
qed

end
