(* ===== verification/Raft_Checks.thy ===== *)
theory Raft_Checks
  imports Raft_Config
begin

section \<open>The Raft test harness: its checks\<close>

text \<open>
  What the checks of \<^verbatim>\<open>src/raft/config.go\<close> establish: when the readers of the apply channels accept
  all messages, the servers' logs agree and have no holes, so \<^verbatim>\<open>nCommitted\<close> never complains; and
  \<^verbatim>\<open>checkOneLeader\<close> on a run of the cluster never sees two leaders of a term.
\<close>

subsection \<open>Applied entries\<close>

definition is_data :: "'c payload \<Rightarrow> bool" where
  "is_data v \<longleftrightarrow> (\<exists>d. v = DataPayload d)"

text \<open>
  No two servers have different entries at an index, an entry that cannot be compared is at one
  server only, and the indices of a server start at 1 or below without a hole.
\<close>

definition agree :: "(int, 'c payload) gomap list \<Rightarrow> bool" where
  "agree ls \<longleftrightarrow>
     (\<forall>i j ix v w. i < length ls \<and> j < length ls \<and> map_get (ls ! i) ix = Some v \<and> map_get (ls ! j) ix = Some w
        \<longrightarrow> v = w \<and> (is_data v \<longrightarrow> i = j))"

definition gapless :: "(int, 'c payload) gomap list \<Rightarrow> bool" where
  "gapless ls \<longleftrightarrow>
     (\<forall>i ix k. i < length ls \<and> map_get (ls ! i) ix \<noteq> None \<and> 1 \<le> k \<and> k \<le> ix \<longrightarrow> map_get (ls ! i) k \<noteq> None)"

lemma iface_eq_True: "iface_eq a b = Inr True \<longleftrightarrow> a = b \<and> \<not> is_data a"
  by (cases a; cases b) (auto simp: is_data_def)

lemma differs_False:
  "differs ix v ls = Inr False \<longleftrightarrow> (\<forall>l \<in> set ls. \<forall>old. map_get l ix = Some old \<longrightarrow> iface_eq old v = Inr True)"
  by (induction ls) (auto simp: bindE_eq_Inr split: option.splits)

lemma read_apply_eq:
  assumes "CommandValid m" "0 \<le> i" "i < len (logs cfg)" "logs cfg ! nat i = Some f"
  defines "ix \<equiv> CommandIndex m" and "v \<equiv> MsgCommand m"
  shows "read_apply i m cfg = Inr cfg' \<longleftrightarrow>
    cfg' = cfg\<lparr>logs := (logs cfg)[nat i := Some (f(ix \<mapsto> v))], maxIndex := max ix (maxIndex cfg)\<rparr> \<and>
    (1 < ix \<longrightarrow> f (ix - 1) \<noteq> None) \<and>
    (\<forall>l \<in> set (logs cfg). \<forall>old. map_get l ix = Some old \<longrightarrow> iface_eq old v = Inr True)"
proof -
  have "read_apply i m cfg = Inr cfg' \<longleftrightarrow>
    differs ix v (logs cfg) = Inr False \<and> (1 < ix \<longrightarrow> f (ix - 1) \<noteq> None) \<and>
    cfg' = cfg\<lparr>logs := (logs cfg)[nat i := Some (f(ix \<mapsto> v))], maxIndex := max ix (maxIndex cfg)\<rparr>"
    using assms(1-4)
    by (auto simp: read_apply_def index_def set_index_def bindE_eq_Inr Let_def ix_def v_def max_def split: if_splits)
  then show ?thesis by (auto simp: differs_False)
qed

lemma agree_apply:
  assumes ok: "agree ls" and i: "i < length ls" "ls ! i = Some f"
    and new: "\<And>l old. l \<in> set ls \<Longrightarrow> map_get l ix = Some old \<Longrightarrow> iface_eq old v = Inr True"
  shows "agree (ls[i := Some (f(ix \<mapsto> v))])" (is "agree ?ls")
proof -
  have at: "map_get (?ls ! j) k = (if j = i \<and> k = ix then Some v else map_get (ls ! j) k)" if "j < length ls" for j k
    using that i by (auto simp: nth_list_update)
  have old: "w = v \<and> \<not> is_data w" if "j < length ls" "map_get (ls ! j) ix = Some w" for j w
    using new [of "ls ! j" w] that by (auto simp: iface_eq_True)
  have new_at: "w = v \<and> (j = i \<or> \<not> is_data w)" if "j < length ls" "map_get (?ls ! j) ix = Some w" for j w
    using at [OF that(1), of ix] old [OF that(1), of w] that(2) by (cases "j = i") auto
  show ?thesis
    unfolding agree_def length_list_update
  proof (intro allI impI, elim conjE)
    fix j k x a b
    assume jk: "j < length ls" "k < length ls" and ab: "map_get (?ls ! j) x = Some a" "map_get (?ls ! k) x = Some b"
    show "a = b \<and> (is_data a \<longrightarrow> j = k)"
    proof (cases "x = ix \<and> (j = i \<or> k = i)")
      case True
      then show ?thesis using new_at [OF jk(1), of a] new_at [OF jk(2), of b] ab by auto
    next
      case False
      then have "map_get (ls ! j) x = Some a" "map_get (ls ! k) x = Some b"
        using ab at [OF jk(1), of x] at [OF jk(2), of x] by auto
      then show ?thesis using ok jk unfolding agree_def by blast
    qed
  qed
qed

lemma gapless_apply:
  assumes ok: "gapless ls" and i: "i < length ls" "ls ! i = Some f" and prev: "1 < ix \<Longrightarrow> f (ix - 1) \<noteq> None"
  shows "gapless (ls[i := Some (f(ix \<mapsto> v))])" (is "gapless ?ls")
proof -
  have "(f(ix \<mapsto> v)) k \<noteq> None" if x: "(f(ix \<mapsto> v)) x \<noteq> None" and k: "1 \<le> k" "k \<le> x" for x k
  proof (cases "k = ix")
    case False
    have "f k \<noteq> None" if "f y \<noteq> None" "k \<le> y" for y
      using ok i k(1) that unfolding gapless_def by (metis map_get_simps(2))
    moreover have "f (ix - 1) \<noteq> None" "k \<le> ix - 1" if "x = ix" using that False k prev by auto
    ultimately show ?thesis using False x k(2) by (cases "x = ix") auto
  qed simp
  note at_i = this
  show ?thesis unfolding gapless_def length_list_update
  proof (intro allI impI, elim conjE)
    fix j x k assume j: "j < length ls" "map_get (?ls ! j) x \<noteq> None" "1 \<le> k" "k \<le> x"
    show "map_get (?ls ! j) k \<noteq> None"
    proof (cases "j = i")
      case True
      then show ?thesis using at_i [OF _ j(3,4)] j(2) i(1) by simp
    next
      case False
      then show ?thesis using ok j unfolding gapless_def by (metis nth_list_update_neq)
    qed
  qed
qed

text \<open>Messages read by the goroutines of the servers, in any order.\<close>

definition read_all :: "(int \<times> 'c ApplyMsg) list \<Rightarrow> 'c config \<Rightarrow> 'c config go" where
  "read_all ms cfg = foldE (\<lambda>(i, m). read_apply i m) ms cfg"

definition logs_ok :: "'c config \<Rightarrow> bool" where
  "logs_ok cfg \<longleftrightarrow> agree (logs cfg) \<and> gapless (logs cfg) \<and> None \<notin> set (logs cfg)"

lemma read_apply_ok:
  assumes "logs_ok cfg" "read_apply i m cfg = Inr cfg'"
  shows "logs_ok cfg' \<and> length (logs cfg') = length (logs cfg)"
proof (cases "CommandValid m")
  case True
  have i: "0 \<le> i" "i < len (logs cfg)"
    using assms(2) True by (auto simp: read_apply_def Let_def bindE_eq_Inr index_def split: if_splits)
  then have n: "nat i < length (logs cfg)" by (simp add: len_def)
  then obtain f where f: "logs cfg ! nat i = Some f"
    using assms(1) nth_mem [OF n] by (cases "logs cfg ! nat i") (auto simp: logs_ok_def)
  note eq = assms(2) [unfolded read_apply_eq [OF True i f]]
  have "None \<notin> set ((logs cfg)[nat i := Some g])" for g
    using assms(1) set_update_subset_insert [of "logs cfg" "nat i" "Some g"] by (auto simp: logs_ok_def)
  then show ?thesis
    using eq assms(1) agree_apply [OF _ n f] gapless_apply [OF _ n f] by (auto simp: logs_ok_def)
qed (use assms in \<open>simp add: read_apply_def\<close>)

lemma read_all_ok: "read_all ms cfg = Inr cfg' \<Longrightarrow> logs_ok cfg \<Longrightarrow> logs_ok cfg' \<and> length (logs cfg') = length (logs cfg)"
proof (induction ms arbitrary: cfg)
  case (Cons im ms)
  obtain i m where im: "im = (i, m)" by (cases im)
  obtain cfg1 where "read_apply i m cfg = Inr cfg1" "read_all ms cfg1 = Inr cfg'"
    using Cons.prems(1) by (auto simp: read_all_def im bindE_eq_Inr)
  then show ?case using Cons.IH read_apply_ok Cons.prems(2) by fastforce
qed (simp add: read_all_def)

subsection \<open>Counting them\<close>

lemma nCommitted_loop_eq:
  assumes "\<And>l w. l \<in> set ls \<Longrightarrow> map_get l ix = Some w \<Longrightarrow> w = v"
    and "0 \<le> fst acc" "0 < fst acc \<Longrightarrow> snd acc = Some v"
    and "is_data v \<Longrightarrow> fst acc + int (length (filter (\<lambda>l. map_get l ix \<noteq> None) ls)) \<le> 1"
  shows "nCommitted_loop ix acc ls =
    (let k = length (filter (\<lambda>l. map_get l ix \<noteq> None) ls)
     in Inr (fst acc + int k, if k = 0 then snd acc else Some v))"
  using assms
proof (induction ls arbitrary: acc)
  case (Cons l ls)
  show ?case
  proof (cases "map_get l ix")
    case None
    have "nCommitted_loop ix acc ls =
      (let k = length (filter (\<lambda>l. map_get l ix \<noteq> None) ls) in Inr (fst acc + int k, if k = 0 then snd acc else Some v))"
      by (rule Cons.IH) (use Cons.prems None in \<open>simp_all, blast\<close>)
    then show ?thesis using None by simp
  next
    case (Some w)
    then have w: "w = v" using Cons.prems(1) [of l w] by simp
    have eq: "(if fst acc > 0 then case snd acc of None \<Rightarrow> Inr False | Some cmd \<Rightarrow> iface_eq cmd w else Inr True) = Inr True"
      using Cons.prems(3,4) Some w iface_eq_True [of v v] by auto
    have "nCommitted_loop ix acc (l # ls) = nCommitted_loop ix (fst acc + 1, Some v) ls"
      unfolding nCommitted_loop.simps Some option.case eq by (simp add: w)
    also have "\<dots> = (let k = length (filter (\<lambda>l. map_get l ix \<noteq> None) ls)
        in Inr (fst (fst acc + 1, Some v) + int k, if k = 0 then snd (fst acc + 1, Some v) else Some v))"
      by (rule Cons.IH) (use Cons.prems Some in \<open>simp_all, blast\<close>)
    finally show ?thesis using Some by (simp add: Let_def)
  qed
qed (simp add: Let_def)

lemma filter_le_one:
  assumes "\<And>i j. i < length xs \<Longrightarrow> j < length xs \<Longrightarrow> P (xs ! i) \<Longrightarrow> P (xs ! j) \<Longrightarrow> i = j"
  shows "length (filter P xs) \<le> 1"
proof -
  have "card {i. i < length xs \<and> P (xs ! i)} \<le> 1"
    by (rule ccontr) (use assms in \<open>auto simp: card_le_Suc0_iff_eq not_le dest!: \<close>)
  then show ?thesis by (simp add: length_filter_conv_card)
qed

lemma nCommitted_agree:
  assumes "agree (logs cfg)"
  shows "\<exists>cmd. nCommitted cfg ix = Inr (int (card {i. i < length (logs cfg) \<and> map_get (logs cfg ! i) ix \<noteq> None}), cmd) \<and>
    (\<forall>i v. i < length (logs cfg) \<and> map_get (logs cfg ! i) ix = Some v \<longrightarrow> cmd = Some v)"
proof (cases "\<exists>i. i < length (logs cfg) \<and> map_get (logs cfg ! i) ix \<noteq> None")
  case True
  then obtain i v where iv: "i < length (logs cfg)" "map_get (logs cfg ! i) ix = Some v" by auto
  have same: "w = v" if "l \<in> set (logs cfg)" "map_get l ix = Some w" for l w
    using assms iv that unfolding agree_def in_set_conv_nth by metis
  have one: "length (filter (\<lambda>l. map_get l ix \<noteq> None) (logs cfg)) \<le> 1" if "is_data v"
    by (rule filter_le_one) (use assms iv that in \<open>unfold agree_def, metis option.exhaust\<close>)
  have ne: "filter (\<lambda>l. map_get l ix \<noteq> None) (logs cfg) \<noteq> []"
    using iv nth_mem [OF iv(1)] by (auto simp: filter_empty_conv intro!: bexI [of _ "logs cfg ! i"])
  have "nCommitted cfg ix = Inr (int (length (filter (\<lambda>l. map_get l ix \<noteq> None) (logs cfg))), Some v)"
    unfolding nCommitted_def using nCommitted_loop_eq [of "logs cfg" ix v "(0, None)"] same one ne by (simp add: Let_def)
  moreover have "w = v" if "j < length (logs cfg)" "map_get (logs cfg ! j) ix = Some w" for j w
    using same [OF nth_mem [OF that(1)] that(2)] .
  ultimately show ?thesis by (auto simp: length_filter_conv_card)
next
  case False
  then have "filter (\<lambda>l. map_get l ix \<noteq> None) (logs cfg) = []" by (auto simp: filter_empty_conv in_set_conv_nth)
  moreover have "w = undefined" if "l \<in> set (logs cfg)" "map_get l ix = Some w" for l w
    using False that by (auto simp: in_set_conv_nth)
  ultimately show ?thesis using nCommitted_loop_eq [of "logs cfg" ix undefined "(0, None)"] False
    by (auto simp: nCommitted_def Let_def)
qed

subsection \<open>Leaders over time\<close>

lemma cluster_step_ballots: "cluster_step n s s' \<Longrightarrow> ballots s \<subseteq> ballots s'"
  by (induction rule: cluster_step.induct) (auto simp: set_node_def)

text \<open>A run of the cluster; nothing may happen for a while.\<close>

definition cluster_run :: "nat \<Rightarrow> (nat \<Rightarrow> 'c cluster) \<Rightarrow> bool" where
  "cluster_run n \<sigma> \<longleftrightarrow> cluster_reach n (\<sigma> 0) \<and> (\<forall>m. \<sigma> (Suc m) = \<sigma> m \<or> cluster_step n (\<sigma> m) (\<sigma> (Suc m)))"

lemma cluster_run_reach: "cluster_run n \<sigma> \<Longrightarrow> cluster_reach n (\<sigma> m)"
  by (induction m) (auto simp: cluster_run_def, metis cluster_reach.step)

lemma cluster_run_ballots:
  assumes "cluster_run n \<sigma>"
  shows "m \<le> m' \<Longrightarrow> ballots (\<sigma> m) \<subseteq> ballots (\<sigma> m')"
proof (induction m' rule: dec_induct)
  case (step k)
  have "ballots (\<sigma> k) \<subseteq> ballots (\<sigma> (Suc k))"
    using assms cluster_step_ballots unfolding cluster_run_def by (metis subset_refl)
  with step show ?case by blast
qed simp

definition leads :: "'c Raft \<Rightarrow> int \<Rightarrow> bool" where
  "leads rf t \<longleftrightarrow> tp rf = 2 \<and> currentTerm rf = t"

text \<open>
  A term has one leader, also when the two are seen at different times, unless one of them
  lost the race between its test and its critical section.
\<close>

lemma leaders_over_time:
  assumes "cluster_run n \<sigma>" "i < n" "j < n" "leads (nodes (\<sigma> m) i) t" "leads (nodes (\<sigma> m') j) t"
    "(i, t) \<notin> raced (\<sigma> m)" "(j, t) \<notin> raced (\<sigma> m')"
  shows "i = j"
proof (rule majorities.chosen_unique)
  let ?s = "\<sigma> (max m m')"
  have inv: "cluster_inv n (\<sigma> k)" for k using cluster_reach_inv cluster_run_reach [OF assms(1)] by blast
  show "\<And>v c d. (v, t, c) \<in> ballots ?s \<Longrightarrow> (v, t, d) \<in> ballots ?s \<Longrightarrow> c = d"
    using inv by (auto simp: cluster_inv_def ballot_inv_def)
  have "majority n {v. (v, t, k) \<in> ballots ?s}" if "k < n" "leads (nodes (\<sigma> l) k) t" "(k, t) \<notin> raced (\<sigma> l)" "l \<le> max m m'" for k l
  proof (rule majority_mono)
    show "majority n {v. (v, t, k) \<in> ballots (\<sigma> l)}"
      using inv [of l] that by (auto simp: cluster_inv_def peer_inv_def leads_def)
    show "{v. (v, t, k) \<in> ballots (\<sigma> l)} \<subseteq> {v. (v, t, k) \<in> ballots ?s}"
      using cluster_run_ballots [OF assms(1) that(4)] by blast
    show "{v. (v, t, k) \<in> ballots ?s} \<subseteq> {..<n}" using inv [of "max m m'"] by (auto simp: cluster_inv_def ballot_inv_def)
  qed
  then show "majority n {v. (v, t, i) \<in> ballots ?s}" "majority n {v. (v, t, j) \<in> ballots ?s}"
    using assms by simp_all
qed

subsection \<open>checkOneLeader\<close>

definition seen_leader :: "(int \<Rightarrow> bool) \<Rightarrow> (int \<Rightarrow> 'c Raft option) \<Rightarrow> int \<Rightarrow> int \<Rightarrow> bool" where
  "seen_leader con rf i t \<longleftrightarrow> con i \<and> (\<exists>r. rf i = Some r \<and> leads r t)"

lemma find_leaders_set:
  "find_leaders con rf is = Inr ls \<Longrightarrow>
   (\<forall>t i. (t, i) \<in> set ls \<longleftrightarrow> i \<in> set is \<and> seen_leader con rf i t) \<and> set (map snd ls) \<subseteq> set is \<and>
   (distinct is \<longrightarrow> distinct (map snd ls))"
proof (induction "is" arbitrary: ls)
  case (Cons i "is")
  show ?case
  proof (cases "con i")
    case True
    then obtain r ls' where r: "rf i = Some r" "find_leaders con rf is = Inr ls'"
      "ls = (if tp r = 2 then (currentTerm r, i) # ls' else ls')"
      using Cons.prems
      by (auto simp: nil_GetState_def GetState_def with_lock_def bindE_eq_Inr Let_def split: option.splits if_splits)
    then show ?thesis using Cons.IH [OF r(2)] True by (auto simp: seen_leader_def leads_def)
  next
    case False
    then show ?thesis using Cons.IH [of ls] Cons.prems by (auto simp: seen_leader_def)
  qed
qed simp

lemma foldl_max:
  fixes a :: int
  shows "a \<le> foldl max a xs" "x \<in> set xs \<Longrightarrow> x \<le> foldl max a xs"
proof (induction xs arbitrary: a)
  case (Cons y ys)
  {
    case 1
    show ?case using Cons.IH(1) [of "max a y"] by simp
  next
    case 2
    then show ?case using Cons.IH(1,2) [of "max a y"] by auto
  }
qed simp_all

lemma find_leaders_error: "find_leaders con rf is = Inl e \<Longrightarrow> e = NilDereference \<or> e = Blocked"
  by (induction "is")
    (auto simp: nil_GetState_def GetState_def with_lock_def bindE_eq_Inl Let_def split: option.splits if_splits)

lemma leaders_in_set: "set (leaders_in ls t) = {i. (t, i) \<in> set ls}"
  by (force simp: leaders_in_def)

lemma leaders_in_two:
  assumes "distinct (map snd ls)"
  shows "1 < length (leaders_in ls t) \<longleftrightarrow> (\<exists>i j. i \<noteq> j \<and> (t, i) \<in> set ls \<and> (t, j) \<in> set ls)"
proof -
  have "distinct (leaders_in ls t)" using assms by (simp add: leaders_in_def distinct_map filter_is_subset inj_on_def)
  then have "1 < length (leaders_in ls t) \<longleftrightarrow> 1 < card (set (leaders_in ls t))" by (simp add: distinct_card)
  also have "\<dots> \<longleftrightarrow> (\<exists>i j. i \<noteq> j \<and> i \<in> set (leaders_in ls t) \<and> j \<in> set (leaders_in ls t))"
    using card_le_Suc0_iff_eq [of "set (leaders_in ls t)"] by (auto simp: not_le [symmetric])
  finally show ?thesis by (simp add: leaders_in_set)
qed

lemma leader_round_two:
  assumes bad: "leader_round con rf n = Inl (Fatal ''term has more than one leader'')"
  shows "\<exists>i j t. i \<noteq> j \<and> 0 \<le> i \<and> i < n \<and> 0 \<le> j \<and> j < n \<and> seen_leader con rf i t \<and> seen_leader con rf j t"
proof (cases "find_leaders con rf [0..n - 1]")
  case (Inl e)
  then show ?thesis using bad find_leaders_error [OF Inl] by (auto simp: leader_round_def)
next
  case (Inr ls)
  then obtain t where t: "1 < length (leaders_in ls t)" using bad
    by (auto simp: leader_round_def list_ex_iff Let_def index_def bindE_def split: if_splits)
  have ls: "distinct (map snd ls)" "\<And>i. (t, i) \<in> set ls \<Longrightarrow> 0 \<le> i \<and> i < n \<and> seen_leader con rf i t"
    using find_leaders_set [OF Inr] by auto
  obtain i j where "i \<noteq> j" "(t, i) \<in> set ls" "(t, j) \<in> set ls" using t leaders_in_two [OF ls(1)] by blast
  then show ?thesis using ls(2) by blast
qed

lemma leader_round_result:
  assumes "leader_round con rf n = Inr (Some l)"
  shows "\<exists>t. 0 \<le> l \<and> l < n \<and> seen_leader con rf l t \<and>
    (\<forall>j u. 0 \<le> j \<and> j < n \<and> seen_leader con rf j u \<longrightarrow> u < t \<or> u = t \<and> j = l)"
proof -
  obtain ls where ls: "find_leaders con rf [0..n - 1] = Inr ls"
    and one: "\<And>t i. (t, i) \<in> set ls \<Longrightarrow> \<not> 1 < length (leaders_in ls t)"
    and l: "index (leaders_in ls (foldl max (-1) (map fst ls))) 0 = Inr l"
    using assms by (fastforce simp: leader_round_def bindE_eq_Inr Let_def list_ex_iff split: if_splits)
  let ?t = "foldl max (-1) (map fst ls)"
  note f = find_leaders_set [OF ls]
  have "l \<in> set (leaders_in ls ?t)" using l by (auto simp: index_def len_pos split: if_splits)
  then have tl: "(?t, l) \<in> set ls" by (simp add: leaders_in_set)
  have "u < ?t \<or> u = ?t \<and> j = l" if "0 \<le> j" "j < n" "seen_leader con rf j u" for j u
  proof -
    have uj: "(u, j) \<in> set ls" using f that by simp
    then have "u \<le> ?t" using foldl_max(2) [of u "map fst ls" "-1"] by force
    moreover have "j = l" if "u = ?t" using one [OF tl] leaders_in_two [of ls ?t] f tl uj that by auto
    ultimately show ?thesis by fastforce
  qed
  with tl f show ?thesis by auto
qed

lemma checkOneLeader_rounds_error:
  assumes "checkOneLeader_rounds con rf n ks = Inl e" "e \<noteq> Fatal ''expected one leader, got none''"
  shows "\<exists>k \<in> set ks. leader_round (con k) (rf k) n = Inl e"
  using assms by (induction ks) (auto simp: bindE_eq_Inl split: option.splits)

lemma checkOneLeader_rounds_result:
  "checkOneLeader_rounds con rf n ks = Inr l \<Longrightarrow> \<exists>k \<in> set ks. leader_round (con k) (rf k) n = Inr (Some l)"
  by (induction ks) (auto simp: bindE_eq_Inr split: option.splits)

end
