(* ===== verification/Harness_Properties.thy ===== *)
theory Harness_Properties
  imports Raft_Harness Raft_Checks Raft_Properties
begin

section \<open>Properties of the Raft test harness\<close>

text \<open>
  What a Raft test relies on: partitions, restarts from saved state, and that its checks mean
  what they say about the peers.
\<close>

subsection \<open>Partitions\<close>

text \<open>
  C19. Whatever a test starts, crashes, connects and disconnects, at every moment exactly the ends
  between two connected servers are enabled, each leads to its server, and a request is handed to
  server \<open>j\<close> only if it comes from the present end of a connected server and \<open>j\<close> is connected: the ends of
  an earlier incarnation of a server cannot send.
\<close>

theorem config_partition:
  assumes "config_reach n cfg"
  shows "(is_enabled (cfg_net cfg) e \<longleftrightarrow>
      (\<exists>i j. 0 \<le> i \<and> i < n \<and> 0 \<le> j \<and> j < n \<and> connected cfg ! nat i \<and> connected cfg ! nat j \<and>
        endname cfg i j = Inr e \<and> connection (cfg_net cfg) e = Some j)) \<and>
    (processReq_start (cfg_net cfg) req rnd = Waiting j a rel lr \<longrightarrow>
      (\<exists>i. 0 \<le> i \<and> i < n \<and> 0 \<le> j \<and> j < n \<and> connected cfg ! nat i \<and> connected cfg ! nat j \<and>
        endname cfg i j = Inr (rq_endname req)))"
proof -
  have ok: "sized cfg" "ports_ok cfg" and n: "cfg_n cfg = n" using config_reach_ok [OF assms] by simp_all
  have name: "endname cfg i j = Inr (name cfg i j) \<and> connection (cfg_net cfg) (name cfg i j) = Some j"
    if "server cfg i" "server cfg j" "is_connected cfg i" for i j
    using endname_ok [OF ok(1) that(1,2)] ports_okD(2) [OF ok(2) that(1,2)] ports_okD(3) [OF ok(2) that(1,3)] by blast
  have en: "is_enabled (cfg_net cfg) e \<longleftrightarrow>
      (\<exists>i j. 0 \<le> i \<and> i < n \<and> 0 \<le> j \<and> j < n \<and> connected cfg ! nat i \<and> connected cfg ! nat j \<and>
        endname cfg i j = Inr e \<and> connection (cfg_net cfg) e = Some j)" for e
    using ports_okD(4) [OF ok(2), of e] name unfolding server_def is_connected_def n by fastforce
  show ?thesis
  proof (intro conjI impI en)
    assume "processReq_start (cfg_net cfg) req rnd = Waiting j a rel lr"
    then have "is_enabled (cfg_net cfg) (rq_endname req)" and j: "connection (cfg_net cfg) (rq_endname req) = Some j"
      by (auto simp: processReq_start_def readEndnameInfo_def Let_def split: option.splits if_splits)
    then obtain i j' where i: "0 \<le> i" "i < n" "0 \<le> j'" "j' < n" "connected cfg ! nat i" "connected cfg ! nat j'"
      "endname cfg i j' = Inr (rq_endname req)" "connection (cfg_net cfg) (rq_endname req) = Some j'"
      using en [of "rq_endname req"] by blast
    then have "j' = j" using j by simp
    with i show "\<exists>i. 0 \<le> i \<and> i < n \<and> 0 \<le> j \<and> j < n \<and> connected cfg ! nat i \<and> connected cfg ! nat j \<and>
        endname cfg i j = Inr (rq_endname req)" by blast
  qed
qed

text \<open>One server, started and connected.\<close>

lemma exConnected:
  "\<exists>cfg :: nat config. config_reach 1 cfg \<and> connected cfg = [True] \<and> endnames cfg = [Some [''a'']] \<and>
     server_at (cfg_net cfg) 0 = Some 5"
proof -
  let ?c = "new_config 1 False :: nat config"
  have r: "config_reach 1 ?c" by (rule reach_new) simp
  have ok: "sized ?c" "ports_ok ?c" "cfg_n ?c = 1" using config_reach_ok [OF r] by simp_all
  have c: "server ?c 0" "connected ?c = [False]" "endnames ?c = [None]" "stored ?c 0 = None"
    by (simp_all add: new_config_def server_def setunreliable_def set_net_def stored_def Let_def)
  have f: "fresh_names [''a''] ?c"
    by (simp add: fresh_names_def new_config_def setunreliable_def set_net_def MakeNetwork_def Reliable_def LongDelays_def Let_def)
  obtain rf where rf: "Make 0 (nat (cfg_n ?c)) 0 (restart_persister ?c 0) = Inr rf"
    using Make_fresh [of 0 1 0] c(4) ok(3) by (auto simp: restart_persister_def)
  obtain rn where rn: "server_at rn 0 = Some 5" "start1 [''a''] 0 5 0 ?c = Inr (started ?c 0 [''a''] rf rn)"
    using start1_ports [OF ok(1,2) c(1) f, of 5 0] rf by auto
  let ?s = "started ?c 0 [''a''] rf rn"
  have r2: "config_reach 1 ?s" by (rule reach_start [OF r c(1) f rn(2)])
  have ok2: "sized ?s" "ports_ok ?s" using config_reach_ok [OF r2] by simp_all
  have s: "server ?s 0" "has_ends ?s 0" "connected ?s = [False]"
    using c by (simp_all add: started_facts has_ends_def) (simp add: started_def set_net_def)
  obtain cfg where cfg: "connect 0 ?s = Inr cfg" "cfg = set_net (cfg_net cfg) (?s\<lparr>connected := (connected ?s)[nat 0 := True]\<rparr>)"
    "servers (cfg_net cfg) = servers rn"
    using connect_ports [OF ok2 s(1,2)] connect_eq [OF ok2(1) s(1,2)] ports_okD(3) [OF ok2(2)]
    by (auto simp: returns_iff with_net started_facts)
  have "config_reach 1 cfg" by (rule reach_connect [OF r2 s(1,2) cfg(1)])
  moreover have "connected cfg = [True]" by (subst cfg(2)) (simp add: set_net_def s(3))
  moreover have "endnames cfg = [Some [''a'']]" by (subst cfg(2)) (simp add: set_net_def started_facts c(3))
  moreover have "server_at (cfg_net cfg) 0 = Some 5" using cfg(3) rn(1) by (simp add: server_at_def)
  ultimately show ?thesis by blast
qed

theorem config_partition_witness:
  "\<exists>cfg :: nat config. config_reach 1 cfg \<and> server_at (cfg_net cfg) 0 = Some 5 \<and>
     is_enabled (cfg_net cfg) ''a'' \<and> \<not> is_enabled (cfg_net cfg) ''b''"
proof -
  obtain cfg :: "nat config" where cfg: "config_reach 1 cfg" "connected cfg = [True]" "endnames cfg = [Some [''a'']]"
    "server_at (cfg_net cfg) 0 = Some 5" using exConnected by blast
  have e: "endname cfg 0 0 = Inr ''a''" by (simp add: endname_def index_def cfg(3))
  have ok: "ports_ok cfg" "cfg_n cfg = 1" using config_reach_ok [OF cfg(1)] by simp_all
  have "connection (cfg_net cfg) ''a'' = Some 0"
    using ports_okD(2) [OF ok(1), of 0 0] ok(2) cfg(3) by (simp add: server_def has_ends_def name_def)
  then have "is_enabled (cfg_net cfg) ''a''" using config_partition [OF cfg(1), of "''a''"] e cfg(2) by force
  moreover have "\<not> is_enabled (cfg_net cfg) ''b''"
  proof
    assume "is_enabled (cfg_net cfg) ''b''"
    then obtain i j where "0 \<le> i" "i < 1" "0 \<le> j" "j < 1" "endname cfg i j = Inr ''b''"
      using config_partition [OF cfg(1), of "''b''"] by blast
    moreover from this have "i = 0" "j = 0" by simp_all
    ultimately show False using e by simp
  qed
  ultimately show ?thesis using cfg by blast
qed

subsection \<open>Restarting a peer\<close>

text \<open>
  Restarting a running server: \<^verbatim>\<open>start1\<close> succeeds, the new peer has the term, the vote and the log
  that the old one had saved, it is registered but not connected, and no end of the old
  peer is enabled. The snapshot that the old peer had saved is gone.
\<close>

theorem restart_keeps_state:
  fixes cfg :: "'c config"
  assumes "config_reach n cfg" "0 \<le> i" "i < n" and rf: "rafts cfg ! nat i = Some rf" "saved cfg ! nat i \<noteq> None"
    and inv: "node_inv rf" "log rf \<noteq> []" and names: "fresh_names names cfg"
  shows "\<exists>cfg' rf'. start1 names r srv i cfg = Inr cfg' \<and> rafts cfg' ! nat i = Some rf' \<and>
    currentTerm rf' = currentTerm rf \<and> votedFor rf' = votedFor rf \<and> log rf' = log rf \<and> tp rf' = 0 \<and>
    snapshotIndex rf' = 0 \<and> server_at (cfg_net cfg') i = Some srv \<and> \<not> connected cfg' ! nat i \<and>
    (\<forall>j e. 0 \<le> j \<and> j < n \<and> (endname cfg i j = Inr e \<or> endname cfg' i j = Inr e) \<longrightarrow> \<not> is_enabled (cfg_net cfg') e)"
proof -
  have ok: "sized cfg" "ports_ok cfg" and n: "cfg_n cfg = n" using config_reach_ok [OF assms(1)] by simp_all
  have i: "server cfg i" using assms(2,3) by (simp add: server_def n)
  let ?p = "restart_persister cfg i"
  have p: "?p = \<lparr>raftstate = encode_state (currentTerm rf) (votedFor rf) (log rf), snapshot = []\<rparr>"
    using rf inv by (auto simp: restart_persister_def stored_def crashed_copy_def node_inv_def persisted_def)
  obtain rf' where mk: "Make r (nat (cfg_n cfg)) i ?p = Inr rf'"
    using Make_returns [of ?p "currentTerm rf" "votedFor rf" "log rf" i "nat n" r] p assms(2,3) n by auto
  obtain rn where rn: "server_at rn i = Some srv" "start1 names r srv i cfg = Inr (started cfg i names rf' rn)"
    using start1_ports [OF ok i names, of srv r] mk by auto
  let ?cfg = "started cfg i names rf' rn"
  have reach: "config_reach n ?cfg" by (rule reach_start [OF assms(1) i names rn(2)])
  have ri: "rafts ?cfg ! nat i = Some rf'" "\<not> connected ?cfg ! nat i"
    using nth_upd_server [OF i i, of "rafts cfg"] nth_upd_server [OF i i, of "connected cfg"] ok(1)
    by (simp_all add: started_def set_net_def sized_def)
  have off: "\<not> is_enabled rn e" if "0 \<le> j" "j < n" "endname cfg i j = Inr e \<or> endname ?cfg i j = Inr e" for j e
    using restart_silent [OF refl ok i, of j names rf' rn e] that(3) config_reach_ok [OF reach] that(1,2) n by (simp add: server_def)
  show ?thesis
    using Make_effect [OF mk, of "currentTerm rf" "votedFor rf" "log rf"] p rn ri off inv
    by (intro exI [of _ ?cfg] exI [of _ rf']) (auto simp: started_facts node_inv_def zero_SnapShot_def)
qed

text \<open>A server started once, whose peer has since then taken part in elections and has an entry.\<close>

definition exCfg :: "nat Raft \<Rightarrow> nat config" where
  "exCfg rf =
     \<lparr>cfg_net = MakeNetwork\<lparr>longDelays := True, ends := [''a'' \<mapsto> \<lparr>ce_endname = ''a''\<rparr>], enabled := [''a'' \<mapsto> False],
        servers := [0 \<mapsto> Some 5], connections := [''a'' \<mapsto> Some 0]\<rparr>,
      cfg_n = 1, rafts = [Some rf], connected = [False], saved = [Some MakePersister], endnames = [Some [''a'']],
      logs = [None], maxIndex = 0\<rparr>"

lemma exCfg_started:
  assumes "Make 0 1 0 MakePersister = Inr rf"
  shows "start1 [''a''] 0 5 0 (new_config 1 False) = Inr (exCfg rf)"
proof -
  have "crash1 0 (new_config 1 False :: nat config) =
      Inr ((new_config 1 False)\<lparr>cfg_net := DeleteServer 0 (cfg_net (new_config 1 False :: nat config))\<rparr>)"
    by (simp add: crash1_def new_config_def setunreliable_def set_net_def disconnect_def disconnect_end_def servers_of_def
        index_def set_index_def saved_content_def Let_def upto.simps)
  then show ?thesis using assms
    by (simp add: start1_def new_config_def setunreliable_def set_net_def servers_of_def index_def set_index_def
        make_end_def MakeEnd_def Connect_def AddServer_def DeleteServer_def MakeNetwork_def Reliable_def LongDelays_def
        exCfg_def Let_def upto.simps)
qed

lemma exCfg_reach: "config_reach 1 (exCfg rf)"
proof -
  obtain rf0 :: "nat Raft" where "Make 0 1 0 MakePersister = Inr rf0" using Make_fresh [of 0 1 0] by auto
  then have "start1 [''a''] 0 5 0 (new_config 1 False) = Inr (exCfg rf0)" by (rule exCfg_started)
  then have "config_reach 1 (exCfg rf0)"
    by (rule reach_start [OF reach_new, rotated -1])
      (simp_all add: server_def fresh_names_def new_config_def setunreliable_def set_net_def MakeNetwork_def Reliable_def
        LongDelays_def Let_def)
  from reach_peers [OF this, of "[Some rf]"] show ?thesis by (simp add: exCfg_def)
qed

theorem restart_keeps_state_witness:
  "\<exists>cfg' rf'. start1 [''b''] 0 6 0 (exCfg (exPeer 0 4 [exEntry 7 2])) = Inr cfg' \<and> rafts cfg' ! 0 = Some rf' \<and>
     currentTerm rf' = 4 \<and> log rf' = [dummy_entry, exEntry 7 2] \<and> server_at (cfg_net cfg') 0 = Some 6 \<and> \<not> connected cfg' ! 0"
  using restart_keeps_state [OF exCfg_reach, of 0 "exPeer 0 4 [exEntry 7 2]" "exPeer 0 4 [exEntry 7 2]" "[''b'']" 0 6]
  by (auto simp: exCfg_def exPeer_node_inv fresh_names_def MakeNetwork_def)

subsection \<open>The checks\<close>

text \<open>
  C23. When the readers of the apply channels accept all messages, in whatever order the servers
  deliver them, then at every index \<^verbatim>\<open>nCommitted\<close> returns: the number of servers that have
  applied an entry there, and the one entry they all have; and no server has skipped an index.
\<close>

theorem applied_entries_agree:
  fixes cfg :: "'c config"
  assumes "logs cfg = replicate m (Some Map.empty)" and "read_all ms cfg = Inr cfg'"
  shows "\<exists>cmd. nCommitted cfg' ix = Inr (int (card {i. i < m \<and> map_get (logs cfg' ! i) ix \<noteq> None}), cmd) \<and>
    (\<forall>i v. i < m \<and> map_get (logs cfg' ! i) ix = Some v \<longrightarrow>
       cmd = Some v \<and> (\<forall>k. 1 \<le> k \<and> k \<le> ix \<longrightarrow> map_get (logs cfg' ! i) k \<noteq> None))"
proof -
  have "logs_ok cfg" using assms(1) by (auto simp: logs_ok_def agree_def gapless_def)
  from read_all_ok [OF assms(2) this] have ok: "agree (logs cfg')" "gapless (logs cfg')" "length (logs cfg') = m"
    using assms(1) by (simp_all add: logs_ok_def)
  have "map_get (logs cfg' ! i) k \<noteq> None" if "i < m" "map_get (logs cfg' ! i) ix = Some v" "1 \<le> k" "k \<le> ix" for i v k
    using ok(2,3) that unfolding gapless_def by (metis option.distinct(1))
  then show ?thesis using nCommitted_agree [OF ok(1), of ix] ok(3) by blast
qed

definition exApplied :: "nat \<Rightarrow> int \<Rightarrow> nat ApplyMsg" where
  "exApplied c ix = \<lparr>CommandValid = True, MsgCommand = CommandPayload (OpCommand c), CommandIndex = ix\<rparr>"

definition exEmpty :: "nat config" where
  "exEmpty = (new_config 3 False)\<lparr>logs := replicate 3 (Some Map.empty)\<rparr>"

theorem applied_entries_agree_witness:
  "\<exists>cfg'. read_all [(0, exApplied 7 1), (2, exApplied 7 1), (2, exApplied 9 2)] exEmpty = Inr cfg' \<and>
     nCommitted cfg' 1 = Inr (2, Some (CommandPayload (OpCommand 7)))"
proof -
  let ?ms = "[(0, exApplied 7 1), (2, exApplied 7 1), (2, exApplied 9 2)]"
  let ?L = "[Some [1 \<mapsto> CommandPayload (OpCommand 7)], Some Map.empty,
      Some [1 \<mapsto> CommandPayload (OpCommand 7), 2 \<mapsto> CommandPayload (OpCommand 9)]]"
  obtain cfg' where r: "read_all ?ms exEmpty = Inr cfg'" "logs cfg' = ?L"
    by (simp add: read_all_def read_apply_def exApplied_def exEmpty_def new_config_def setunreliable_def set_net_def
        index_def set_index_def Let_def numeral_eq_Suc)
  have l: "logs exEmpty = replicate 3 (Some Map.empty)" by (simp add: exEmpty_def)
  have "{i. i < 3 \<and> map_get (logs cfg' ! i) 1 \<noteq> None} = {0, 2}"
    by (auto simp: r(2) numeral_eq_Suc less_Suc_eq)
  then obtain cmd where cmd: "nCommitted cfg' 1 = Inr (2, cmd)"
    "\<And>i v. i < 3 \<Longrightarrow> map_get (logs cfg' ! i) 1 = Some v \<Longrightarrow> cmd = Some v"
    using applied_entries_agree [OF l r(1), of 1] by auto
  have "cmd = Some (CommandPayload (OpCommand 7))" by (rule cmd(2) [of 0]) (simp_all add: r(2))
  then show ?thesis using cmd(1) r(1) by blast
qed

text \<open>
  C11. \<^verbatim>\<open>checkOneLeader\<close> looks at the connected peers one after the other, in up to ten rounds, while the cluster goes on.
  On any run of the cluster, it reports a term with more than one leader only if one of the leaders it has just looked at
  had become leader of that term as a follower, after the test of its election loop and before it took the lock (\<open>raced\<close>).
  A server that it returns was, in one round, leader of a term later than that of every other leader of that round.
\<close>

theorem checkOneLeader_sound:
  fixes \<sigma> :: "nat \<Rightarrow> 'c cluster"
  assumes "cluster_run n \<sigma>" and obs: "\<And>k i. rf k i = Some (nodes (\<sigma> (at k i)) (nat i))"
  shows "(checkOneLeader con rf (int n) = Inl (Fatal ''term has more than one leader'') \<longrightarrow>
       (\<exists>k i t. k < 10 \<and> 0 \<le> i \<and> i < int n \<and> seen_leader (con k) (rf k) i t \<and> (nat i, t) \<in> raced (\<sigma> (at k i)))) \<and>
    (\<forall>l. checkOneLeader con rf (int n) = Inr l \<longrightarrow>
       (\<exists>k t. k < 10 \<and> 0 \<le> l \<and> l < int n \<and> seen_leader (con k) (rf k) l t \<and>
         (\<forall>j u. 0 \<le> j \<and> j < int n \<and> seen_leader (con k) (rf k) j u \<longrightarrow> u < t \<or> u = t \<and> j = l)))"
proof (intro conjI impI allI)
  assume "checkOneLeader con rf (int n) = Inl (Fatal ''term has more than one leader'')"
  then obtain k where k: "k < 10" "leader_round (con k) (rf k) (int n) = Inl (Fatal ''term has more than one leader'')"
    using checkOneLeader_rounds_error [of con rf "int n" "[0..<10]"] unfolding checkOneLeader_def by auto
  obtain i j t where ij: "i \<noteq> j" "0 \<le> i" "i < int n" "0 \<le> j" "j < int n"
    "seen_leader (con k) (rf k) i t" "seen_leader (con k) (rf k) j t" using leader_round_two [OF k(2)] by blast
  have "(nat i, t) \<in> raced (\<sigma> (at k i)) \<or> (nat j, t) \<in> raced (\<sigma> (at k j))"
    using leaders_over_time [OF assms(1), of "nat i" "nat j" "at k i" t "at k j"] ij
    by (auto simp: seen_leader_def obs nat_less_iff eq_nat_nat_iff)
  then show "\<exists>k i t. k < 10 \<and> 0 \<le> i \<and> i < int n \<and> seen_leader (con k) (rf k) i t \<and> (nat i, t) \<in> raced (\<sigma> (at k i))"
    using k(1) ij by blast
next
  fix l assume "checkOneLeader con rf (int n) = Inr l"
  then obtain k where k: "k < 10" "leader_round (con k) (rf k) (int n) = Inr (Some l)"
    using checkOneLeader_rounds_result [of con rf "int n" "[0..<10]" l] unfolding checkOneLeader_def by auto
  then show "\<exists>k t. k < 10 \<and> 0 \<le> l \<and> l < int n \<and> seen_leader (con k) (rf k) l t \<and>
      (\<forall>j u. 0 \<le> j \<and> j < int n \<and> seen_leader (con k) (rf k) j u \<longrightarrow> u < t \<or> u = t \<and> j = l)"
    using leader_round_result [OF k(2)] by blast
qed

theorem checkOneLeader_sound_witness:
  "\<exists>s :: nat cluster. cluster_reach 3 s \<and> raced s = {} \<and> leads (nodes s 0) 1 \<and>
     checkOneLeader (\<lambda>k i. True) (\<lambda>k i. Some (nodes s (nat i))) (int 3) \<noteq> Inl (Fatal ''term has more than one leader'')"
proof -
  obtain s :: "nat cluster" where s: "cluster_reach 3 s" "nodes s 0 = exLeader" "raced s = {}" using exCluster by blast
  have "cluster_run 3 (\<lambda>m. s)" using s(1) by (simp add: cluster_run_def)
  from checkOneLeader_sound [OF this, where rf = "\<lambda>k i. Some (nodes s (nat i))" and con = "\<lambda>k i. True"]
  show ?thesis using s by (intro exI [of _ s]) (auto simp: leads_def exLeader_def exCandidate_def)
qed

end
