(* ===== verification/Kv_Config.thy ===== *)
theory Kv_Config
  imports Kv_Server Raft_Harness
begin

section \<open>The key/value test harness\<close>

text \<open>
  Models \<^verbatim>\<open>src/kvraft/config.go\<close>: the configuration a key/value test works on, with its servers, the ends
  between them and the ends of the clerks. As in the theory \<^verbatim>\<open>Raft_Config\<close> the random names of ends, the random numbers
  and the addresses of server objects are arguments, and a failure is a value. A clerk is referred to by a
  number. Times and the begin/end statistics are left out.
\<close>

subsection \<open>The configuration\<close>

text \<open>
  \<^verbatim>\<open>cfg.saved[i]\<close> is the persister of the peer of the running server \<open>i\<close>, which writes to it: while
  the server exists, the content of \<^verbatim>\<open>cfg.saved[i]\<close> is the persister of its peer.
\<close>

record kv_config =
  kc_net :: "(string, int) Network"
  kc_n :: int
  kvservers :: "KVServer option list"
  kc_saved :: "Op Persister option list"
  kc_endnames :: "string list option list"
  clerks :: "nat \<rightharpoonup> string list"
  nextClientId :: int
  kc_maxraftstate :: int

definition kc_set_net :: "(string, int) Network \<Rightarrow> kv_config \<Rightarrow> kv_config" where
  "kc_set_net rn cfg = cfg\<lparr>kc_net := rn\<rparr>"

definition kc_content :: "kv_config \<Rightarrow> int \<Rightarrow> Op Persister option go" where
  "kc_content cfg i =
     bindE (index (kc_saved cfg) i) (\<lambda>p.
     bindE (index (kvservers cfg) i) (\<lambda>kv.
     Inr (case (p, kv) of (Some _, Some kv) \<Rightarrow> Some (persister (kv_rf kv)) | _ \<Rightarrow> p)))"

definition kc_All :: "kv_config \<Rightarrow> int list" where
  "kc_All cfg = [0..kc_n cfg - 1]"

text \<open>\<^verbatim>\<open>LogSize\<close> and \<^verbatim>\<open>SnapshotSize\<close>: the maximum over the servers, with the length in bytes as a parameter.\<close>

definition max_size :: "(Op Persister \<Rightarrow> int) \<Rightarrow> kv_config \<Rightarrow> int \<Rightarrow> int \<Rightarrow> int go" where
  "max_size sz cfg i m =
     bindE (kc_content cfg i) (\<lambda>p.
     case p of None \<Rightarrow> Inl NilDereference | Some p \<Rightarrow> Inr (if sz p > m then sz p else m))"

definition LogSize :: "(Op bytes \<Rightarrow> int) \<Rightarrow> kv_config \<Rightarrow> int go" where
  "LogSize bytelen cfg = foldE (max_size (RaftStateSize bytelen) cfg) (kc_All cfg) 0"

definition kc_SnapshotSize :: "(Op bytes \<Rightarrow> int) \<Rightarrow> kv_config \<Rightarrow> int go" where
  "kc_SnapshotSize bytelen cfg = foldE (max_size (SnapshotSize bytelen) cfg) (kc_All cfg) 0"

subsection \<open>Connecting servers\<close>

definition kc_row :: "kv_config \<Rightarrow> int \<Rightarrow> string list go" where
  "kc_row cfg i = bindE (index (kc_endnames cfg) i) (\<lambda>row. Inr (case row of None \<Rightarrow> [] | Some r \<Rightarrow> r))"

definition kc_endname :: "kv_config \<Rightarrow> int \<Rightarrow> int \<Rightarrow> string go" where
  "kc_endname cfg i j = bindE (kc_row cfg i) (\<lambda>row. index row j)"

definition enable_server_end :: "kv_config \<Rightarrow> int \<Rightarrow> int \<Rightarrow> bool \<Rightarrow> (string, int) Network \<Rightarrow> (string, int) Network go" where
  "enable_server_end cfg a b on rn = bindE (kc_endname cfg a b) (\<lambda>e. Inr (Enable e on rn))"

definition connectUnlocked :: "int \<Rightarrow> int list \<Rightarrow> kv_config \<Rightarrow> kv_config go" where
  "connectUnlocked i to cfg =
     bindE (foldE (\<lambda>t. enable_server_end cfg i t True) to (kc_net cfg)) (\<lambda>rn.
     bindE (foldE (\<lambda>t. enable_server_end cfg t i True) to rn) (\<lambda>rn.
     Inr (kc_set_net rn cfg)))"

text \<open>
  \<^verbatim>\<open>disconnectUnlocked\<close>: the second loop tests \<^verbatim>\<open>cfg.endnames[j]\<close>, with \<^verbatim>\<open>j\<close> the position in \<^verbatim>\<open>from\<close>, before it
  uses \<^verbatim>\<open>cfg.endnames[from[j]]\<close>; the pairs carry the position.
\<close>

definition disconnectUnlocked :: "int \<Rightarrow> int list \<Rightarrow> kv_config \<Rightarrow> kv_config go" where
  "disconnectUnlocked i from cfg =
     bindE (foldE (\<lambda>t rn.
        bindE (index (kc_endnames cfg) i) (\<lambda>row.
        if row \<noteq> None then enable_server_end cfg i t False rn else Inr rn)) from (kc_net cfg)) (\<lambda>rn.
     bindE (foldE (\<lambda>(j, t) rn.
        bindE (index (kc_endnames cfg) (int j)) (\<lambda>row.
        if row \<noteq> None then enable_server_end cfg t i False rn else Inr rn)) (enumerate 0 from) rn) (\<lambda>rn.
     Inr (kc_set_net rn cfg)))"

definition ConnectAll :: "kv_config \<Rightarrow> kv_config go" where
  "ConnectAll cfg = foldE (\<lambda>i. connectUnlocked i (kc_All cfg)) (kc_All cfg) cfg"

definition separate :: "int list \<Rightarrow> int list \<Rightarrow> int \<Rightarrow> kv_config \<Rightarrow> kv_config go" where
  "separate own other i cfg = bindE (disconnectUnlocked i other cfg) (connectUnlocked i own)"

definition kc_partition :: "int list \<Rightarrow> int list \<Rightarrow> kv_config \<Rightarrow> kv_config go" where
  "kc_partition p1 p2 cfg =
     bindE (foldE (separate p1 p2) p1 cfg) (foldE (separate p2 p1) p2)"

subsection \<open>Clerks\<close>

text \<open>\<^verbatim>\<open>random_handles\<close>, with the number drawn for each position.\<close>

definition swap_at :: "'a list \<Rightarrow> nat \<Rightarrow> nat \<Rightarrow> 'a list go" where
  "swap_at sa i j =
     (if i < length sa \<and> j < length sa then Inr (sa[i := sa ! j, j := sa ! i]) else Inl IndexOutOfRange)"

definition random_handles :: "(nat \<Rightarrow> nat) \<Rightarrow> 'a list \<Rightarrow> 'a list go" where
  "random_handles rnd kvh = foldE (\<lambda>i sa. swap_at sa i (rnd i mod (i + 1))) [0..<length kvh] kvh"

definition ConnectClientUnlocked :: "nat \<Rightarrow> int list \<Rightarrow> kv_config \<Rightarrow> kv_config go" where
  "ConnectClientUnlocked ck to cfg =
     (let names = (case clerks cfg ck of None \<Rightarrow> [] | Some v \<Rightarrow> v) in
      bindE (foldE (\<lambda>t rn. bindE (index names t) (\<lambda>e. Inr (Enable e True rn))) to (kc_net cfg)) (\<lambda>rn.
      Inr (kc_set_net rn cfg)))"

definition DisconnectClientUnlocked :: "nat \<Rightarrow> int list \<Rightarrow> kv_config \<Rightarrow> kv_config go" where
  "DisconnectClientUnlocked ck from cfg =
     (let names = (case clerks cfg ck of None \<Rightarrow> [] | Some v \<Rightarrow> v) in
      bindE (foldE (\<lambda>t rn. bindE (index names t) (\<lambda>e. Inr (Enable e False rn))) from (kc_net cfg)) (\<lambda>rn.
      Inr (kc_set_net rn cfg)))"

text \<open>\<^verbatim>\<open>makeClient\<close>: the new clerk \<open>ck\<close>, the names of its ends and the order in which it gets them.\<close>

definition makeClient ::
  "nat \<Rightarrow> string list \<Rightarrow> (nat \<Rightarrow> nat) \<Rightarrow> int list \<Rightarrow> kv_config \<Rightarrow> (kv_config \<times> string list) go" where
  "makeClient ck names rnd to cfg =
     bindE (foldE (make_end names) (kc_All cfg) (kc_net cfg)) (\<lambda>rn.
     bindE (random_handles rnd names) (\<lambda>handles.
     let cfg = (kc_set_net rn cfg)\<lparr>clerks := (clerks cfg)(ck \<mapsto> names), nextClientId := nextClientId cfg + 1\<rparr> in
     bindE (ConnectClientUnlocked ck to cfg) (\<lambda>cfg. Inr (cfg, handles))))"

definition deleteClient :: "nat \<Rightarrow> kv_config \<Rightarrow> kv_config" where
  "deleteClient ck cfg = cfg\<lparr>clerks := (clerks cfg)(ck := None)\<rparr>"

subsection \<open>Servers\<close>

definition ShutdownServer :: "int \<Rightarrow> kv_config \<Rightarrow> kv_config go" where
  "ShutdownServer i cfg =
     bindE (disconnectUnlocked i (kc_All cfg) cfg) (\<lambda>cfg.
     let cfg = kc_set_net (DeleteServer i (kc_net cfg)) cfg in
     bindE (kc_content cfg i) (\<lambda>p.
     bindE (set_index (kc_saved cfg) i (map_option Copy p)) (\<lambda>ps.
     bindE (set_index (kvservers cfg) i None) (\<lambda>kvs.
     Inr (cfg\<lparr>kc_saved := ps, kvservers := kvs\<rparr>)))))"

definition kc_StartServer :: "string list \<Rightarrow> int \<Rightarrow> nat \<Rightarrow> int \<Rightarrow> kv_config \<Rightarrow> kv_config go" where
  "kc_StartServer names r srv i cfg =
     bindE (set_index (kc_endnames cfg) i (Some names)) (\<lambda>rows.
     let cfg = cfg\<lparr>kc_endnames := rows\<rparr> in
     bindE (foldE (make_end names) (kc_All cfg) (kc_net cfg)) (\<lambda>rn.
     let cfg = kc_set_net rn cfg in
     bindE (kc_content cfg i) (\<lambda>p.
     let p = (case p of Some p \<Rightarrow> Copy p | None \<Rightarrow> MakePersister) in
     bindE (set_index (kc_saved cfg) i (Some p)) (\<lambda>ps.
     bindE (StartKVServer r (nat (kc_n cfg)) i p (kc_maxraftstate cfg)) (\<lambda>kv.
     bindE (set_index (kvservers cfg) i (Some kv)) (\<lambda>kvs.
     Inr (kc_set_net (AddServer i srv (kc_net cfg)) (cfg\<lparr>kc_saved := ps, kvservers := kvs\<rparr>))))))))"

text \<open>The first server that is a leader, in the order of the servers.\<close>

primrec find_leader :: "kv_config \<Rightarrow> int list \<Rightarrow> (bool \<times> int) go" where
  "find_leader cfg [] = Inr (False, 0)"
| "find_leader cfg (i # is) =
     bindE (index (kvservers cfg) i) (\<lambda>kv.
     case kv of
       None \<Rightarrow> Inl NilDereference
     | Some kv \<Rightarrow>
         bindE (GetState (kv_rf kv)) (\<lambda>(_, is_leader).
         if is_leader then Inr (True, i) else find_leader cfg is))"

definition Leader :: "kv_config \<Rightarrow> (bool \<times> int) go" where
  "Leader cfg = find_leader cfg (kc_All cfg)"

text \<open>\<^verbatim>\<open>make_partition\<close>: the loop that fills the two slices, and the leader at the end of the second.\<close>

definition place :: "int \<Rightarrow> int \<Rightarrow> int list \<times> int list \<times> int \<Rightarrow> (int list \<times> int list \<times> int) go" where
  "place l i = (\<lambda>(p1, p2, j).
     if i \<noteq> l then
       if j < len p1 then bindE (set_index p1 j i) (\<lambda>p1. Inr (p1, p2, j + 1))
       else bindE (set_index p2 (j - len p1) i) (\<lambda>p2. Inr (p1, p2, j + 1))
     else Inr (p1, p2, j))"

definition split_servers :: "int \<Rightarrow> int \<Rightarrow> (int list \<times> int list) go" where
  "split_servers n l =
     (let p1 = replicate (nat (n div 2 + 1)) 0; p2 = replicate (nat (n div 2)) 0 in
      bindE (foldE (place l) [0..n - 1] (p1, p2, 0)) (\<lambda>(p1, p2, j).
      bindE (set_index p2 (len p2 - 1) l) (\<lambda>p2. Inr (p1, p2))))"

definition make_partition :: "kv_config \<Rightarrow> (int list \<times> int list) go" where
  "make_partition cfg = bindE (Leader cfg) (\<lambda>(_, l). split_servers (kc_n cfg) l)"

definition kv_make_config ::
  "(int \<Rightarrow> string list) \<Rightarrow> (int \<Rightarrow> int) \<Rightarrow> (int \<Rightarrow> nat) \<Rightarrow> int \<Rightarrow> bool \<Rightarrow> int \<Rightarrow> kv_config go" where
  "kv_make_config names r srv n unreliable mx =
     (let cfg = \<lparr>kc_net = MakeNetwork, kc_n = n, kvservers = replicate (nat n) None, kc_saved = replicate (nat n) None,
                 kc_endnames = replicate (nat n) None, clerks = Map.empty, nextClientId = n + 1000,
                 kc_maxraftstate = mx\<rparr>
      in
      bindE (foldE (\<lambda>i. kc_StartServer (names i) (r i) (srv i) i) (kc_All cfg) cfg) (\<lambda>cfg.
      bindE (ConnectAll cfg) (\<lambda>cfg.
      Inr (kc_set_net (Reliable (\<not> unreliable) (kc_net cfg)) cfg))))"

definition kc_cleanup :: "kv_config \<Rightarrow> kv_config go" where
  "kc_cleanup cfg =
     (let cfg = cfg\<lparr>kvservers := map (map_option kv_Kill) (kvservers cfg)\<rparr>
      in bindE (Cleanup (kc_net cfg)) (\<lambda>rn. Inr (kc_set_net rn cfg)))"

end
