(* ===== verification/Kv_Harness.thy ===== *)
theory Kv_Harness
  imports Kv_Config
begin

section \<open>The key/value test harness: partitions and restarts\<close>

text \<open>
  About the definitions of the theory \<^verbatim>\<open>Kv_Config\<close>: which ends are enabled after servers have been
  partitioned, that the partition a test makes puts the leader into the minority, and that a clerk gets
  all its ends in some order.
\<close>

subsection \<open>Ends between servers\<close>

definition kc_server :: "kv_config \<Rightarrow> int \<Rightarrow> bool" where
  "kc_server cfg i \<longleftrightarrow> 0 \<le> i \<and> i < kc_n cfg"

definition kc_name :: "kv_config \<Rightarrow> int \<Rightarrow> int \<Rightarrow> string" where
  "kc_name cfg i j = the (kc_endnames cfg ! nat i) ! nat j"

text \<open>Every server has been started, and no two ends have the same name.\<close>

definition all_started :: "kv_config \<Rightarrow> bool" where
  "all_started cfg \<longleftrightarrow>
     len (kc_endnames cfg) = kc_n cfg \<and>
     (\<forall>row \<in> set (kc_endnames cfg). \<exists>r. row = Some r \<and> len r = kc_n cfg) \<and>
     (\<forall>i j i' j'. kc_server cfg i \<and> kc_server cfg j \<and> kc_server cfg i' \<and> kc_server cfg j' \<and>
        kc_name cfg i j = kc_name cfg i' j' \<longrightarrow> i = i' \<and> j = j')"

lemma row_started:
  assumes "all_started cfg" "kc_server cfg i"
  obtains r where "index (kc_endnames cfg) i = Inr (Some r)" "kc_endnames cfg ! nat i = Some r" "len r = kc_n cfg"
proof -
  have "nat i < length (kc_endnames cfg)" using assms by (auto simp: all_started_def kc_server_def len_def)
  from nth_mem [OF this] obtain r where "kc_endnames cfg ! nat i = Some r" "len r = kc_n cfg"
    using assms(1) unfolding all_started_def by blast
  then show ?thesis using that assms by (simp add: index_def all_started_def kc_server_def)
qed

lemma kc_endname_eq:
  assumes "all_started cfg" "kc_server cfg i" "kc_server cfg j"
  shows "kc_endname cfg i j = Inr (kc_name cfg i j)"
  by (rule row_started [OF assms(1,2)])
    (use assms(3) in \<open>simp add: kc_endname_def kc_row_def kc_name_def index_def kc_server_def\<close>)

definition ends_of :: "kv_config \<Rightarrow> int \<Rightarrow> int list \<Rightarrow> string set" where
  "ends_of cfg i ts = kc_name cfg i ` set ts \<union> (\<lambda>t. kc_name cfg t i) ` set ts"

lemma connectUnlocked_eq:
  assumes "all_started cfg" "kc_server cfg i" "\<And>t. t \<in> set ts \<Longrightarrow> kc_server cfg t"
  shows "connectUnlocked i ts cfg = Inr (kc_set_net (set_enabled (ends_of cfg i ts) True (kc_net cfg)) cfg)"
proof -
  have "foldE (\<lambda>t. enable_server_end cfg i t True) ts rn = Inr (set_enabled (kc_name cfg i ` {t \<in> set ts. True}) True rn)" for rn
    by (rule foldE_enable) (use assms in \<open>simp add: enable_server_end_def kc_endname_eq\<close>)
  moreover have "foldE (\<lambda>t. enable_server_end cfg t i True) ts rn
      = Inr (set_enabled ((\<lambda>t. kc_name cfg t i) ` {t \<in> set ts. True}) True rn)" for rn
    by (rule foldE_enable) (use assms in \<open>simp add: enable_server_end_def kc_endname_eq\<close>)
  ultimately show ?thesis by (simp add: connectUnlocked_def set_enabled_Un ends_of_def Un_commute)
qed

lemma disconnectUnlocked_eq:
  assumes "all_started cfg" "kc_server cfg i" "\<And>t. t \<in> set ts \<Longrightarrow> kc_server cfg t" "len ts \<le> kc_n cfg"
  shows "disconnectUnlocked i ts cfg = Inr (kc_set_net (set_enabled (ends_of cfg i ts) False (kc_net cfg)) cfg)"
proof -
  have row: "\<exists>r. index (kc_endnames cfg) k = Inr (Some r)" if "kc_server cfg k" for k
    using row_started [OF assms(1) that] by metis
  have 1: "foldE (\<lambda>t rn. bindE (index (kc_endnames cfg) i) (\<lambda>row.
        if row \<noteq> None then enable_server_end cfg i t False rn else Inr rn)) ts rn
      = Inr (set_enabled (kc_name cfg i ` {t \<in> set ts. True}) False rn)" for rn
    by (rule foldE_enable) (use assms row [OF assms(2)] in \<open>auto simp: enable_server_end_def kc_endname_eq\<close>)
  have "foldE (\<lambda>(j, t) rn. bindE (index (kc_endnames cfg) (int j)) (\<lambda>row.
        if row \<noteq> None then enable_server_end cfg t i False rn else Inr rn)) (enumerate 0 ts) rn
      = Inr (set_enabled ((\<lambda>(j, t). kc_name cfg t i) ` {x \<in> set (enumerate 0 ts). True}) False rn)" for rn
  proof (rule foldE_enable)
    fix x rn assume x: "x \<in> set (enumerate 0 ts)"
    obtain j t where jt: "x = (j, t)" by (cases x)
    have "t \<in> set ts" "j < length ts" using x by (auto simp: jt in_set_enumerate_eq)
    moreover from this have "kc_server cfg (int j)" using assms(4) by (simp add: kc_server_def len_def)
    ultimately show "(case x of (j, t) \<Rightarrow> \<lambda>rn. bindE (index (kc_endnames cfg) (int j)) (\<lambda>row.
        if row \<noteq> None then enable_server_end cfg t i False rn else Inr rn)) rn
      = Inr (if True then Enable ((\<lambda>(j, t). kc_name cfg t i) x) False rn else rn)"
      using row [of "int j"] assms by (auto simp: jt enable_server_end_def kc_endname_eq)
  qed
  moreover have "(\<lambda>(j, t). kc_name cfg t i) ` set (enumerate 0 ts) = (\<lambda>t. kc_name cfg t i) ` set ts"
  proof -
    have "snd ` set (enumerate 0 ts) = set ts" by (metis map_snd_enumerate set_map)
    then show ?thesis by (force simp: image_iff)
  qed
  ultimately show ?thesis using 1 by (simp add: disconnectUnlocked_def set_enabled_Un ends_of_def Un_commute)
qed

subsection \<open>Partitions\<close>

lemma kc_set_net_simps [simp]:
  "kc_net (kc_set_net rn cfg) = rn" "kc_set_net rn (kc_set_net rn' cfg) = kc_set_net rn cfg"
  "kc_server (kc_set_net rn cfg) = kc_server cfg" "kc_name (kc_set_net rn cfg) = kc_name cfg"
  "ends_of (kc_set_net rn cfg) = ends_of cfg" "all_started (kc_set_net rn cfg) = all_started cfg"
  "kc_n (kc_set_net rn cfg) = kc_n cfg" "kvservers (kc_set_net rn cfg) = kvservers cfg"
  by (simp_all add: kc_set_net_def fun_eq_iff kc_server_def kc_name_def ends_of_def all_started_def)

text \<open>\<open>touches i ts a b\<close>: the end from \<open>a\<close> to \<open>b\<close> is one between server \<open>i\<close> and a server of \<open>ts\<close>.\<close>

definition touches :: "int set \<Rightarrow> int set \<Rightarrow> int \<Rightarrow> int \<Rightarrow> bool" where
  "touches I T a b \<longleftrightarrow> a \<in> I \<and> b \<in> T \<or> b \<in> I \<and> a \<in> T"

lemma in_ends_of:
  assumes "all_started cfg" "kc_server cfg i" "set ts \<subseteq> {t. kc_server cfg t}" "kc_server cfg a" "kc_server cfg b"
  shows "kc_name cfg a b \<in> ends_of cfg i ts \<longleftrightarrow> touches {i} (set ts) a b"
proof
  assume "kc_name cfg a b \<in> ends_of cfg i ts"
  then obtain t where "t \<in> set ts" "kc_name cfg a b = kc_name cfg i t \<or> kc_name cfg a b = kc_name cfg t i"
    by (auto simp: ends_of_def)
  moreover have "kc_server cfg t" using calculation assms(3) by blast
  ultimately show "touches {i} (set ts) a b"
    using assms(1,2,4,5) unfolding all_started_def touches_def by blast
qed (auto simp: touches_def ends_of_def)

text \<open>The ends between servers after a loop of \<^verbatim>\<open>partition\<close>, and the other ends, which it leaves alone.\<close>

definition relinked :: "kv_config \<Rightarrow> int set \<Rightarrow> int set \<Rightarrow> int set \<Rightarrow> (string, int) Network \<Rightarrow> (string, int) Network \<Rightarrow> bool" where
  "relinked cfg I own other rn rn' \<longleftrightarrow>
     (\<forall>a b. kc_server cfg a \<and> kc_server cfg b \<longrightarrow>
        (is_enabled rn' (kc_name cfg a b) \<longleftrightarrow>
           touches I own a b \<or> is_enabled rn (kc_name cfg a b) \<and> \<not> touches I other a b)) \<and>
     (\<forall>e. (\<forall>a b. kc_server cfg a \<and> kc_server cfg b \<longrightarrow> kc_name cfg a b \<noteq> e) \<longrightarrow> is_enabled rn' e = is_enabled rn e)"

lemma separate_relinks:
  assumes "all_started cfg" "kc_server cfg i" "set own \<subseteq> {t. kc_server cfg t}" "set other \<subseteq> {t. kc_server cfg t}"
    "len other \<le> kc_n cfg"
  shows "\<exists>rn. separate own other i cfg = Inr (kc_set_net rn cfg) \<and> relinked cfg {i} (set own) (set other) (kc_net cfg) rn"
proof -
  let ?rn1 = "set_enabled (ends_of cfg i other) False (kc_net cfg)"
  let ?rn = "set_enabled (ends_of cfg i own) True ?rn1"
  have "separate own other i cfg = Inr (kc_set_net ?rn cfg)"
  proof -
    have own: "\<And>t. t \<in> set own \<Longrightarrow> kc_server cfg t" and other: "\<And>t. t \<in> set other \<Longrightarrow> kc_server cfg t"
      using assms(3,4) by blast+
    show ?thesis
      using disconnectUnlocked_eq [OF assms(1,2) other assms(5)] connectUnlocked_eq [of "kc_set_net ?rn1 cfg" i own] own assms(1,2)
      by (simp add: separate_def)
  qed
  moreover have "relinked cfg {i} (set own) (set other) (kc_net cfg) ?rn"
    unfolding relinked_def
  proof (intro conjI allI impI)
    fix e assume "\<forall>a b. kc_server cfg a \<and> kc_server cfg b \<longrightarrow> kc_name cfg a b \<noteq> e"
    then have "e \<notin> ends_of cfg i own" "e \<notin> ends_of cfg i other" using assms(2-4) by (auto simp: ends_of_def)
    then show "is_enabled ?rn e = is_enabled (kc_net cfg) e" by simp
  qed (use in_ends_of [OF assms(1,2,3)] in_ends_of [OF assms(1,2,4)] in \<open>auto\<close>)
  ultimately show ?thesis by blast
qed

lemma relinked_trans:
  assumes "relinked cfg {i} own other rn rn1" "relinked cfg I own other rn1 rn2" "own \<inter> other = {}" "i \<in> own" "I \<subseteq> own"
  shows "relinked cfg (insert i I) own other rn rn2"
  unfolding relinked_def
proof (intro conjI allI impI)
  fix a b assume ab: "kc_server cfg a \<and> kc_server cfg b"
  have "is_enabled rn1 (kc_name cfg a b) \<longleftrightarrow>
      touches {i} own a b \<or> is_enabled rn (kc_name cfg a b) \<and> \<not> touches {i} other a b"
    "is_enabled rn2 (kc_name cfg a b) \<longleftrightarrow>
      touches I own a b \<or> is_enabled rn1 (kc_name cfg a b) \<and> \<not> touches I other a b"
    using assms(1,2) ab unfolding relinked_def by blast+
  moreover have "touches (insert i I) T a b \<longleftrightarrow> touches {i} T a b \<or> touches I T a b" for T by (auto simp: touches_def)
  moreover have "\<not> (touches {i} own a b \<and> touches I other a b)" using assms(3-5) by (auto simp: touches_def)
  ultimately show "is_enabled rn2 (kc_name cfg a b) \<longleftrightarrow>
      touches (insert i I) own a b \<or> is_enabled rn (kc_name cfg a b) \<and> \<not> touches (insert i I) other a b" by blast
next
  fix e assume "\<forall>a b. kc_server cfg a \<and> kc_server cfg b \<longrightarrow> kc_name cfg a b \<noteq> e"
  then show "is_enabled rn2 e = is_enabled rn e" using assms(1,2) unfolding relinked_def by simp
qed

lemma separate_all:
  assumes cfg: "all_started cfg" "set own \<subseteq> {t. kc_server cfg t}" "set other \<subseteq> {t. kc_server cfg t}"
    "len other \<le> kc_n cfg" "set own \<inter> set other = {}"
  shows "set is \<subseteq> set own \<Longrightarrow>
    \<exists>rn'. foldE (separate own other) is (kc_set_net rn cfg) = Inr (kc_set_net rn' cfg) \<and>
      relinked cfg (set is) (set own) (set other) rn rn'"
proof (induction "is" arbitrary: rn)
  case Nil
  then show ?case by (auto simp: relinked_def touches_def)
next
  case (Cons i "is")
  then have i: "i \<in> set own" "kc_server cfg i" using cfg(2) by auto
  have cong: "relinked (kc_set_net rn cfg) = relinked cfg" by (simp add: relinked_def fun_eq_iff)
  obtain rn1 where rn1: "separate own other i (kc_set_net rn cfg) = Inr (kc_set_net rn1 cfg)"
    "relinked cfg {i} (set own) (set other) rn rn1"
    using separate_relinks [of "kc_set_net rn cfg" i own other] cfg i(2) by (auto simp: cong)
  obtain rn2 where rn2: "foldE (separate own other) is (kc_set_net rn1 cfg) = Inr (kc_set_net rn2 cfg)"
    "relinked cfg (set is) (set own) (set other) rn1 rn2"
    using Cons.IH [of rn1] Cons.prems by auto
  have "relinked cfg (insert i (set is)) (set own) (set other) rn rn2"
    by (rule relinked_trans [OF rn1(2) rn2(2) cfg(5) i(1)]) (use Cons.prems in simp)
  then show ?case using rn1(1) rn2(1) by auto
qed

text \<open>Two groups that have every server between them.\<close>

lemma kc_partition_links:
  assumes cfg: "all_started cfg" and p: "set p1 \<union> set p2 = {i. kc_server cfg i}" "set p1 \<inter> set p2 = {}"
    "len p1 \<le> kc_n cfg" "len p2 \<le> kc_n cfg"
  shows "\<exists>rn. kc_partition p1 p2 cfg = Inr (kc_set_net rn cfg) \<and>
    (\<forall>a b. kc_server cfg a \<and> kc_server cfg b \<longrightarrow>
       (is_enabled rn (kc_name cfg a b) \<longleftrightarrow> (a \<in> set p1 \<longleftrightarrow> b \<in> set p1))) \<and>
    (\<forall>e. (\<forall>a b. kc_server cfg a \<and> kc_server cfg b \<longrightarrow> kc_name cfg a b \<noteq> e) \<longrightarrow> is_enabled rn e = is_enabled (kc_net cfg) e)"
proof -
  have s: "set p1 \<subseteq> {i. kc_server cfg i}" "set p2 \<subseteq> {i. kc_server cfg i}" "set p2 \<inter> set p1 = {}" using p(1,2) by blast+
  have self: "kc_set_net (kc_net cfg) cfg = cfg" by (simp add: kc_set_net_def)
  obtain rn1 where rn1: "foldE (separate p1 p2) p1 cfg = Inr (kc_set_net rn1 cfg)"
    "relinked cfg (set p1) (set p1) (set p2) (kc_net cfg) rn1"
    using separate_all [OF cfg s(1,2) p(4,2), of p1 "kc_net cfg"] unfolding self by blast
  obtain rn2 where rn2: "foldE (separate p2 p1) p2 (kc_set_net rn1 cfg) = Inr (kc_set_net rn2 cfg)"
    "relinked cfg (set p2) (set p2) (set p1) rn1 rn2"
    using separate_all [OF cfg s(2,1) p(3) s(3), of p2 rn1] by blast
  have "is_enabled rn2 (kc_name cfg a b) \<longleftrightarrow> (a \<in> set p1 \<longleftrightarrow> b \<in> set p1)" if "kc_server cfg a" "kc_server cfg b" for a b
  proof -
    have "is_enabled rn1 (kc_name cfg a b) \<longleftrightarrow>
        touches (set p1) (set p1) a b \<or> is_enabled (kc_net cfg) (kc_name cfg a b) \<and> \<not> touches (set p1) (set p2) a b"
      "is_enabled rn2 (kc_name cfg a b) \<longleftrightarrow>
        touches (set p2) (set p2) a b \<or> is_enabled rn1 (kc_name cfg a b) \<and> \<not> touches (set p2) (set p1) a b"
      using rn1(2) rn2(2) that unfolding relinked_def by blast+
    moreover have "a \<in> set p1 \<longleftrightarrow> a \<notin> set p2" "b \<in> set p1 \<longleftrightarrow> b \<notin> set p2" using p(1,2) that by blast+
    ultimately show ?thesis by (auto simp: touches_def)
  qed
  moreover have "is_enabled rn2 e = is_enabled (kc_net cfg) e"
    if "\<forall>a b. kc_server cfg a \<and> kc_server cfg b \<longrightarrow> kc_name cfg a b \<noteq> e" for e
    using that rn1(2) rn2(2) unfolding relinked_def by simp
  ultimately show ?thesis using rn1(1) rn2(1) by (auto simp: kc_partition_def)
qed

subsection \<open>The partition a test makes\<close>

lemma place_append:
  assumes "i \<noteq> l" "0 \<le> j" "j < len p1 + len p2"
  shows "\<exists>q1 q2. place l i (p1, p2, j) = Inr (q1, q2, j + 1) \<and> length q1 = length p1 \<and> length q2 = length p2 \<and>
    q1 @ q2 = (p1 @ p2)[nat j := i]"
proof (cases "j < len p1")
  case True
  then show ?thesis using assms by (simp add: place_def set_index_def list_update_append len_def nat_less_iff)
next
  case False
  have "nat (j - len p1) = nat j - length p1" using False assms(2) by (simp add: len_def nat_diff_distrib)
  then show ?thesis using False assms by (simp add: place_def set_index_def list_update_append len_def nat_less_iff)
qed

lemma place_all:
  assumes "len (filter (\<lambda>i. i \<noteq> l) is) + int (length ys) \<le> len p1 + len p2" "p1 @ p2 = ys @ zs"
  shows "\<exists>q1 q2. foldE (place l) is (p1, p2, len ys) = Inr (q1, q2, len (ys @ filter (\<lambda>i. i \<noteq> l) is)) \<and>
    length q1 = length p1 \<and> length q2 = length p2 \<and>
    q1 @ q2 = ys @ filter (\<lambda>i. i \<noteq> l) is @ drop (length (filter (\<lambda>i. i \<noteq> l) is)) zs"
  using assms
proof (induction "is" arbitrary: p1 p2 ys zs)
  case (Cons i "is")
  show ?case
  proof (cases "i = l")
    case True
    then show ?thesis using Cons.IH [of ys p1 p2 zs] Cons.prems by (simp add: place_def)
  next
    case False
    have j: "0 \<le> len ys" "len ys < len p1 + len p2" using Cons.prems(1) False by (auto simp: len_def)
    obtain q1 q2 where q: "place l i (p1, p2, len ys) = Inr (q1, q2, len ys + 1)" "length q1 = length p1" "length q2 = length p2"
      "q1 @ q2 = (p1 @ p2)[length ys := i]"
      using place_append [OF False j] by auto
    have "zs \<noteq> []" using Cons.prems False by (auto simp: len_def dest!: arg_cong [of _ _ length])
    then have z: "q1 @ q2 = (ys @ [i]) @ tl zs" using q(4) Cons.prems(2) by (cases zs) (auto simp: list_update_append)
    have "len (filter (\<lambda>i. i \<noteq> l) is) + int (length (ys @ [i])) \<le> len q1 + len q2"
      using Cons.prems(1) False q(2,3) by (simp add: len_def)
    from Cons.IH [OF this z] show ?thesis using q False by (auto simp: drop_Suc)
  qed
qed simp

lemma length_without:
  assumes "0 \<le> l" "l < n"
  shows "len (filter (\<lambda>i. i \<noteq> l) [0..n - 1]) = n - 1"
proof -
  have "set (filter (\<lambda>i. i \<noteq> l) [0..n - 1]) = {0..n - 1} - {l}" by auto
  then have "card (set (filter (\<lambda>i. i \<noteq> l) [0..n - 1])) = card ({0..n - 1} - {l})" by simp
  then have "length (filter (\<lambda>i. i \<noteq> l) [0..n - 1]) = card ({0..n - 1} - {l})"
    using distinct_card [of "filter (\<lambda>i. i \<noteq> l) [0..n - 1]"] by simp
  then show ?thesis using assms by (simp add: len_def card_Diff_singleton)
qed

text \<open>For an odd number of servers the two slices are filled exactly.\<close>

lemma split_servers_eq:
  assumes "odd n" "3 \<le> n" "0 \<le> l" "l < n"
  shows "\<exists>p1 p2. split_servers n l = Inr (p1, p2) \<and> len p1 = n div 2 + 1 \<and> len p2 = n div 2 \<and>
    p1 @ p2 = filter (\<lambda>i. i \<noteq> l) [0..n - 1] @ [l]"
proof -
  let ?f = "filter (\<lambda>i. i \<noteq> l) [0..n - 1]"
  let ?p1 = "replicate (nat (n div 2 + 1)) (0::int)" and ?p2 = "replicate (nat (n div 2)) (0::int)"
  have n: "n div 2 + 1 + n div 2 = n" using assms(1) by (auto elim: oddE)
  have sum: "?p1 @ ?p2 = replicate (nat n) 0" using n assms(2) by (simp flip: replicate_add nat_add_distrib)
  have f: "length ?f = nat (n - 1)" using length_without [OF assms(3,4)] by (simp add: len_def)
  have len12: "len ?p1 + len ?p2 = n" using n assms(2) by (simp add: len_def)
  obtain q1 q2 where q: "foldE (place l) [0..n - 1] (?p1, ?p2, 0) = Inr (q1, q2, len ?f)" "length q1 = length ?p1"
    "length q2 = length ?p2" "q1 @ q2 = ?f @ drop (length ?f) (replicate (nat n) 0)"
    using place_all [of l "[0..n - 1]" "[]" ?p1 ?p2 "replicate (nat n) 0"] len12 length_without [OF assms(3,4)] sum by auto
  have "nat n - nat (n - 1) = 1" using assms(2) by (simp add: nat_diff_distrib)
  then have q12: "q1 @ q2 = ?f @ [0]" using q(4) f by simp
  have ne: "q2 \<noteq> []" using q(3) assms(2) by auto
  then have "q2[length q2 - 1 := l] = butlast q2 @ [l]"
    by (metis append_butlast_last_id length_butlast list_update_length)
  moreover have "q1 @ butlast q2 = ?f" using arg_cong [OF q12, of butlast] ne by (simp add: butlast_append)
  moreover have "set_index q2 (len q2 - 1) l = Inr (q2[length q2 - 1 := l])"
    using ne by (cases q2) (auto simp: set_index_def len_def nat_diff_distrib)
  ultimately show ?thesis
    using q(1,2,3) ne assms(2) by (simp add: split_servers_def Let_def len_def)
qed

subsection \<open>The handles of a clerk\<close>

lemma swap_at_mset: "i < length sa \<Longrightarrow> j < length sa \<Longrightarrow> \<exists>sb. swap_at sa i j = Inr sb \<and> mset sb = mset sa"
  by (simp add: swap_at_def mset_swap)

lemma random_handles_mset: "\<exists>sa. random_handles rnd kvh = Inr sa \<and> mset sa = mset kvh"
proof -
  have "\<exists>sa'. foldE (\<lambda>i sa. swap_at sa i (rnd i mod (i + 1))) is sa = Inr sa' \<and> mset sa' = mset sa"
    if "\<forall>i \<in> set is. i < length sa" for "is" and sa :: "'a list"
    using that
  proof (induction "is" arbitrary: sa)
    case (Cons i "is")
    have "rnd i mod (i + 1) \<le> i" using mod_less_divisor [of "i + 1" "rnd i"] by linarith
    moreover have "i < length sa" using Cons.prems by simp
    ultimately have "rnd i mod (i + 1) < length sa" by (rule le_less_trans)
    then obtain sb where sb: "swap_at sa i (rnd i mod (i + 1)) = Inr sb" "mset sb = mset sa"
      using swap_at_mset [of i sa] Cons.prems by auto
    moreover have "length sb = length sa" using sb(2) by (rule mset_eq_length)
    ultimately show ?case using Cons.IH [of sb] Cons.prems by auto
  qed simp
  then show ?thesis by (simp add: random_handles_def)
qed

subsection \<open>Stopping and starting a server\<close>

lemma Copy_eq [simp]: "Copy p = p"
  by (simp add: persister_defs)

lemma ShutdownServer_eq:
  assumes "all_started cfg" "kc_server cfg i" "len (kc_saved cfg) = kc_n cfg" "len (kvservers cfg) = kc_n cfg"
    and kv: "kvservers cfg ! nat i = Some kv" "kc_saved cfg ! nat i \<noteq> None"
  shows "\<exists>rn. ShutdownServer i cfg = Inr ((kc_set_net (DeleteServer i rn) cfg)
      \<lparr>kc_saved := (kc_saved cfg)[nat i := Some (persister (kv_rf kv))], kvservers := (kvservers cfg)[nat i := None]\<rparr>) \<and>
    ends rn = ends (kc_net cfg) \<and>
    (\<forall>j. kc_server cfg j \<longrightarrow> \<not> is_enabled rn (kc_name cfg i j) \<and> \<not> is_enabled rn (kc_name cfg j i))"
proof -
  let ?rn = "set_enabled (ends_of cfg i (kc_All cfg)) False (kc_net cfg)"
  have all: "set (kc_All cfg) = {j. kc_server cfg j}" "len (kc_All cfg) \<le> kc_n cfg"
    using assms(2) by (auto simp: kc_All_def kc_server_def len_def)
  have d: "disconnectUnlocked i (kc_All cfg) cfg = Inr (kc_set_net ?rn cfg)"
    by (rule disconnectUnlocked_eq [OF assms(1,2)]) (use all in auto)
  have i: "0 \<le> i" "i < kc_n cfg" using assms(2) by (simp_all add: kc_server_def)
  have c: "kc_content (kc_set_net rn cfg) i = Inr (Some (persister (kv_rf kv)))" for rn
    using assms(3,4) kv i by (auto simp: kc_content_def kc_set_net_def index_def)
  have "ShutdownServer i cfg = Inr ((kc_set_net (DeleteServer i ?rn) cfg)
      \<lparr>kc_saved := (kc_saved cfg)[nat i := Some (persister (kv_rf kv))], kvservers := (kvservers cfg)[nat i := None]\<rparr>)"
    using d c [of "DeleteServer i ?rn"] assms(3,4) i
    by (simp add: ShutdownServer_def Let_def set_index_def) (simp add: kc_set_net_def)
  moreover have "\<not> is_enabled ?rn (kc_name cfg i j) \<and> \<not> is_enabled ?rn (kc_name cfg j i)" if "kc_server cfg j" for j
    using that all(1) by (simp add: ends_of_def)
  ultimately show ?thesis by (intro exI [of _ ?rn]) simp
qed

text \<open>The state a server starts with when its persister holds a Raft state: the map of the saved snapshot, if it has one.\<close>

definition or_new :: "('k \<rightharpoonup> 'v) option \<Rightarrow> ('k \<rightharpoonup> 'v) option" where
  "or_new m = (if m = None then Some Map.empty else m)"

lemma StartKVServer_saved:
  assumes "raftstate p = encode_state t v l" "0 \<le> i" "i < int n"
  shows "\<exists>kv. StartKVServer r n i p mx = Inr kv \<and> currentTerm (kv_rf kv) = t \<and> votedFor (kv_rf kv) = (if t = 0 then -1 else v) \<and>
    log (kv_rf kv) = (if l = [] then [dummy_entry] else l) \<and>
    snapshotIndex (kv_rf kv) = LastIndex (read_snapshot (snapshot p)) \<and>
    kv_mp kv = or_new (Mp (read_snapshot (snapshot p))) \<and> kv_CliMap kv = or_new (CliMap (read_snapshot (snapshot p))) \<and>
    kv_lastApplied kv = LastIndex (read_snapshot (snapshot p))"
proof -
  obtain rf where rf: "Make r n i p = Inr rf" using Make_returns [OF assms] by blast
  from Make_effect [OF rf assms(1)] show ?thesis
    by (simp add: StartKVServer_def rf Let_def readSnap_def or_new_def ReadSnapshot_def)
qed

text \<open>The names a server's new ends get: one per server, all different and none of them used before.\<close>

definition kc_fresh :: "string list \<Rightarrow> kv_config \<Rightarrow> bool" where
  "kc_fresh names cfg \<longleftrightarrow> len names = kc_n cfg \<and> distinct names \<and> (\<forall>e \<in> set names. ends (kc_net cfg) e = None)"

lemma kc_make_ends:
  assumes "kc_fresh names cfg" "ends rn = ends (kc_net cfg)"
  shows "\<exists>rn'. foldE (make_end names) (kc_All cfg) rn = Inr rn' \<and> ends_made names (kc_All cfg) rn rn'"
proof (rule make_ends)
  have j: "nat j < length names" if "j \<in> set (kc_All cfg)" for j
    using that assms(1) by (auto simp: kc_All_def kc_fresh_def len_def)
  show "0 \<le> j \<and> j < len names" if "j \<in> set (kc_All cfg)" for j
    using that assms(1) by (simp add: kc_All_def kc_fresh_def)
  show "ends rn (names ! nat j) = None" if "j \<in> set (kc_All cfg)" for j
    using nth_mem [OF j [OF that]] assms unfolding kc_fresh_def by simp
  have "inj_on (\<lambda>j. names ! nat j) (set (kc_All cfg))"
    using assms(1) j by (auto simp: inj_on_def kc_fresh_def nth_eq_iff_index_eq kc_All_def)
  then show "distinct (map (\<lambda>j. names ! nat j) (kc_All cfg))" by (simp add: distinct_map kc_All_def)
qed

lemma kc_StartServer_eq:
  assumes "kc_server cfg i" "len (kc_endnames cfg) = kc_n cfg" "len (kc_saved cfg) = kc_n cfg" "len (kvservers cfg) = kc_n cfg"
    and p: "kc_saved cfg ! nat i = Some p" "kvservers cfg ! nat i = None" and "kc_fresh names cfg"
    and kv: "StartKVServer r (nat (kc_n cfg)) i p (kc_maxraftstate cfg) = Inr kv"
  shows "\<exists>rn. kc_StartServer names r srv i cfg = Inr ((kc_set_net (AddServer i srv rn) cfg)
      \<lparr>kc_endnames := (kc_endnames cfg)[nat i := Some names], kc_saved := (kc_saved cfg)[nat i := Some p],
       kvservers := (kvservers cfg)[nat i := Some kv]\<rparr>) \<and>
    ends_made names (kc_All cfg) (kc_net cfg) rn"
proof -
  obtain rn where rn: "foldE (make_end names) (kc_All cfg) (kc_net cfg) = Inr rn" "ends_made names (kc_All cfg) (kc_net cfg) rn"
    using kc_make_ends [OF assms(7) refl] by blast
  let ?c = "kc_set_net rn (cfg\<lparr>kc_endnames := (kc_endnames cfg)[nat i := Some names]\<rparr>)"
  have i: "0 \<le> i" "i < kc_n cfg" using assms(1) by (simp_all add: kc_server_def)
  have c: "kc_content ?c i = Inr (Some p)"
    using i assms(3,4) p by (simp add: kc_content_def kc_set_net_def index_def)
  show ?thesis
    using rn c i assms(2-4) kv
    by (intro exI [of _ rn]) (simp add: kc_StartServer_def set_index_def Let_def kc_All_def, simp add: kc_set_net_def)
qed

end
