(* ===== verification/Kv_Harness_Properties.thy ===== *)
theory Kv_Harness_Properties
  imports Kv_Harness
begin

section \<open>Properties of the key/value test harness\<close>

text \<open>
  What a key/value test relies on: that its partitions cut the leader off from the majority, and that a server
  that is shut down and started again comes back with everything it had saved.
\<close>

subsection \<open>Partitions\<close>

lemma find_leader_result:
  "find_leader cfg is = Inr (True, l) \<Longrightarrow>
   l \<in> set is \<and> (\<exists>kv. index (kvservers cfg) l = Inr (Some kv) \<and> tp (kv_rf kv) = 2)"
proof (induction "is")
  case (Cons i "is")
  then obtain kv t b where kv: "index (kvservers cfg) i = Inr (Some kv)" "GetState (kv_rf kv) = Inr (t, b)"
    by (auto simp: bindE_eq_Inr split: option.split_asm)
  show ?case
  proof (cases b)
    case True
    then show ?thesis using kv Cons.prems
      by (auto simp: GetState_def with_lock_def Let_def split: if_split_asm)
  next
    case False
    then show ?thesis using kv Cons by auto
  qed
qed simp

text \<open>Splitting the servers around one of them, and what partitioning them so does to the ends.\<close>

lemma split_partition:
  assumes "all_started cfg" "odd (kc_n cfg)" "3 \<le> kc_n cfg" and l: "0 \<le> l" "l < kc_n cfg"
  shows "\<exists>p1 p2 rn. split_servers (kc_n cfg) l = Inr (p1, p2) \<and> kc_partition p1 p2 cfg = Inr (kc_set_net rn cfg) \<and>
    distinct (p1 @ p2) \<and> set (p1 @ p2) = {i. 0 \<le> i \<and> i < kc_n cfg} \<and> l \<in> set p2 \<and> kc_n cfg < 2 * len p1 \<and>
    (\<forall>a b e. a \<in> set (p1 @ p2) \<and> b \<in> set (p1 @ p2) \<and> kc_endname cfg a b = Inr e \<longrightarrow>
       (is_enabled rn e \<longleftrightarrow> (a \<in> set p1 \<longleftrightarrow> b \<in> set p1)))"
proof -
  let ?f = "filter (\<lambda>i. i \<noteq> l) [0..kc_n cfg - 1]"
  obtain p1 p2 where p: "split_servers (kc_n cfg) l = Inr (p1, p2)" "len p1 = kc_n cfg div 2 + 1" "len p2 = kc_n cfg div 2"
    "p1 @ p2 = ?f @ [l]"
    using split_servers_eq [OF assms(2,3) l] by blast
  have p2: "p2 \<noteq> []" using p(3) assms(3) by (auto simp: len_def)
  have lp2: "l \<in> set p2" using arg_cong [OF p(4), of last] p2 last_in_set [OF p2] by (simp add: last_append)
  have d: "distinct (p1 @ p2)" unfolding p(4) by simp
  have s: "set (p1 @ p2) = {i. 0 \<le> i \<and> i < kc_n cfg}" unfolding p(4) using l by auto
  have half: "kc_n cfg div 2 + 1 \<le> kc_n cfg" using assms(3) by linarith
  obtain rn where rn: "kc_partition p1 p2 cfg = Inr (kc_set_net rn cfg)"
    "\<And>a b. kc_server cfg a \<Longrightarrow> kc_server cfg b \<Longrightarrow> is_enabled rn (kc_name cfg a b) \<longleftrightarrow> (a \<in> set p1 \<longleftrightarrow> b \<in> set p1)"
    using kc_partition_links [OF assms(1), of p1 p2] s d p(2,3) half by (auto simp: kc_server_def)
  have en: "is_enabled rn e \<longleftrightarrow> (a \<in> set p1 \<longleftrightarrow> b \<in> set p1)"
    if "a \<in> set (p1 @ p2)" "b \<in> set (p1 @ p2)" "kc_endname cfg a b = Inr e" for a b e
  proof -
    have "kc_server cfg a" "kc_server cfg b" using that(1,2) unfolding s by (simp_all add: kc_server_def)
    then show ?thesis using rn(2) kc_endname_eq [OF assms(1)] that(3) by fastforce
  qed
  have "kc_n cfg < 2 * len p1" using p(2) by linarith
  then show ?thesis using p(1) rn(1) d s lp2 en by blast
qed

text \<open>
  C24. With an odd number of servers, three or more, all started, and a leader among them, \<^verbatim>\<open>make_partition\<close> splits the servers into
  two groups: a majority without the leader and a minority with it; and after \<^verbatim>\<open>partition\<close> of these groups the end
  from one server to another is enabled exactly if the two are in the same group.
\<close>

theorem partition_isolates_leader:
  assumes "all_started cfg" "odd (kc_n cfg)" "3 \<le> kc_n cfg" "Leader cfg = Inr (True, l)"
  shows "\<exists>kv p1 p2 cfg'. index (kvservers cfg) l = Inr (Some kv) \<and> tp (kv_rf kv) = 2 \<and>
    make_partition cfg = Inr (p1, p2) \<and> kc_partition p1 p2 cfg = Inr cfg' \<and>
    distinct (p1 @ p2) \<and> set (p1 @ p2) = {i. 0 \<le> i \<and> i < kc_n cfg} \<and> l \<in> set p2 \<and> kc_n cfg < 2 * len p1 \<and>
    (\<forall>a b e. a \<in> set (p1 @ p2) \<and> b \<in> set (p1 @ p2) \<and> kc_endname cfg a b = Inr e \<longrightarrow>
       (is_enabled (kc_net cfg') e \<longleftrightarrow> (a \<in> set p1 \<longleftrightarrow> b \<in> set p1)))"
proof -
  obtain kv where l: "0 \<le> l" "l < kc_n cfg" and kv: "index (kvservers cfg) l = Inr (Some kv)" "tp (kv_rf kv) = 2"
    using find_leader_result assms(4) unfolding Leader_def by (fastforce simp: kc_All_def)
  obtain p1 p2 rn where p: "split_servers (kc_n cfg) l = Inr (p1, p2)" "kc_partition p1 p2 cfg = Inr (kc_set_net rn cfg)"
    "distinct (p1 @ p2)" "set (p1 @ p2) = {i. 0 \<le> i \<and> i < kc_n cfg}" "l \<in> set p2" "kc_n cfg < 2 * len p1"
    "\<forall>a b e. a \<in> set (p1 @ p2) \<and> b \<in> set (p1 @ p2) \<and> kc_endname cfg a b = Inr e \<longrightarrow>
       (is_enabled rn e \<longleftrightarrow> (a \<in> set p1 \<longleftrightarrow> b \<in> set p1))"
    using split_partition [OF assms(1-3) l] by blast
  have mp: "make_partition cfg = Inr (p1, p2)" using assms(4) p(1) by (simp add: make_partition_def)
  show ?thesis
    by (rule exI [of _ kv], rule exI [of _ p1], rule exI [of _ p2], rule exI [of _ "kc_set_net rn cfg"], intro conjI)
      (use kv mp p(2-7) in simp_all)
qed

text \<open>With one server the second group is empty and the last assignment of \<^verbatim>\<open>make_partition\<close> panics.\<close>

lemma partition_of_one_panics: "split_servers 1 0 = Inl IndexOutOfRange"
  by code_simp

text \<open>Three servers with the second as their leader.\<close>

definition exKv :: "int \<Rightarrow> int \<Rightarrow> KVServer" where
  "exKv i role =
     \<lparr>kv_me = i, kv_rf = (new_Raft 3 i MakePersister)\<lparr>tp := role\<rparr>, kv_dead = 0, maxraftstate = -1, kv_mp = Some Map.empty,
      ClientCh = Map.empty, mucli = False, kv_CliMap = Some Map.empty, kv_lastApplied = 0, mumap = False,
      nextCh = 0, readers = {}, delivered = []\<rparr>"

definition exKvConfig :: kv_config where
  "exKvConfig =
     \<lparr>kc_net = MakeNetwork, kc_n = 3, kvservers = [Some (exKv 0 0), Some (exKv 1 2), Some (exKv 2 0)],
      kc_saved = replicate 3 (Some MakePersister),
      kc_endnames = [Some [''a'', ''b'', ''c''], Some [''d'', ''e'', ''f''], Some [''g'', ''h'', ''i'']],
      clerks = Map.empty, nextClientId = 1003, kc_maxraftstate = -1\<rparr>"

lemma exKvConfig_started: "all_started exKvConfig"
proof -
  have cases: "i = 0 \<or> i = 1 \<or> i = 2" if "kc_server exKvConfig i" for i
    using that by (auto simp: kc_server_def exKvConfig_def)
  have "i = i' \<and> j = j'"
    if "kc_server exKvConfig i" "kc_server exKvConfig j" "kc_server exKvConfig i'" "kc_server exKvConfig j'"
      "kc_name exKvConfig i j = kc_name exKvConfig i' j'" for i j i' j'
    using cases [OF that(1)] cases [OF that(2)] cases [OF that(3)] cases [OF that(4)] that(5)
    by (elim disjE) (simp_all add: kc_name_def exKvConfig_def)
  moreover have "len (kc_endnames exKvConfig) = kc_n exKvConfig"
    "\<forall>row \<in> set (kc_endnames exKvConfig). \<exists>r. row = Some r \<and> len r = kc_n exKvConfig"
    by (simp_all add: exKvConfig_def len_def)
  ultimately show ?thesis unfolding all_started_def by blast
qed

theorem partition_isolates_leader_witness:
  "\<exists>p1 p2 cfg'. make_partition exKvConfig = Inr (p1, p2) \<and> kc_partition p1 p2 exKvConfig = Inr cfg' \<and> 1 \<in> set p2 \<and> 3 < 2 * len p1"
proof -
  have l: "Leader exKvConfig = Inr (True, 1)"
    by (simp add: Leader_def kc_All_def exKvConfig_def exKv_def upto.simps index_def GetState_def with_lock_def new_Raft_def)
  from partition_isolates_leader [OF exKvConfig_started _ _ l] show ?thesis by (auto simp: exKvConfig_def)
qed

subsection \<open>Restarting a server\<close>

text \<open>
  C20. A server that \<^verbatim>\<open>ShutdownServer\<close> stops and \<^verbatim>\<open>StartServer\<close> starts again: both succeed, in between the server is not
  registered, and the new server has the term, the vote and the log that the old one's peer had and the
  map, the clients' table and the index of the snapshot that it had saved. It is registered, its ends lead to the
  other servers, and no end from or to the old server is enabled.
\<close>

theorem shutdown_restart:
  assumes "all_started cfg" "kc_server cfg i" "len (kc_saved cfg) = kc_n cfg" "len (kvservers cfg) = kc_n cfg"
    and kv: "kvservers cfg ! nat i = Some kv" "kc_saved cfg ! nat i \<noteq> None"
    and inv: "node_inv (kv_rf kv)" "log (kv_rf kv) \<noteq> []" and names: "kc_fresh names cfg"
  shows "\<exists>cfg1 cfg2 kv'. ShutdownServer i cfg = Inr cfg1 \<and> server_at (kc_net cfg1) i = None \<and>
    kc_StartServer names r srv i cfg1 = Inr cfg2 \<and> kvservers cfg2 ! nat i = Some kv' \<and>
    currentTerm (kv_rf kv') = currentTerm (kv_rf kv) \<and> votedFor (kv_rf kv') = votedFor (kv_rf kv) \<and>
    log (kv_rf kv') = log (kv_rf kv) \<and>
    (let ss = read_snapshot (snapshot (persister (kv_rf kv))) in
       kv_mp kv' = or_new (Mp ss) \<and> kv_CliMap kv' = or_new (CliMap ss) \<and> kv_lastApplied kv' = LastIndex ss) \<and>
    server_at (kc_net cfg2) i = Some srv \<and>
    (\<forall>j. kc_server cfg j \<longrightarrow> connection (kc_net cfg2) (names ! nat j) = Some j \<and>
       \<not> is_enabled (kc_net cfg2) (kc_name cfg i j) \<and> \<not> is_enabled (kc_net cfg2) (kc_name cfg j i))"
proof -
  let ?p = "persister (kv_rf kv)"
  obtain rn where rn: "ShutdownServer i cfg = Inr ((kc_set_net (DeleteServer i rn) cfg)
      \<lparr>kc_saved := (kc_saved cfg)[nat i := Some ?p], kvservers := (kvservers cfg)[nat i := None]\<rparr>)"
    "ends rn = ends (kc_net cfg)"
    "\<And>j. kc_server cfg j \<Longrightarrow> \<not> is_enabled rn (kc_name cfg i j) \<and> \<not> is_enabled rn (kc_name cfg j i)"
    using ShutdownServer_eq [OF assms(1-6)] by blast
  define cfg1 where "cfg1 = (kc_set_net (DeleteServer i rn) cfg)
      \<lparr>kc_saved := (kc_saved cfg)[nat i := Some ?p], kvservers := (kvservers cfg)[nat i := None]\<rparr>"
  have i: "0 \<le> i" "i < kc_n cfg" using assms(2) by (simp_all add: kc_server_def)
  have c1: "kc_server cfg1 = kc_server cfg" "kc_n cfg1 = kc_n cfg" "len (kc_endnames cfg1) = kc_n cfg1"
    "len (kc_saved cfg1) = kc_n cfg1" "len (kvservers cfg1) = kc_n cfg1" "kc_saved cfg1 ! nat i = Some ?p"
    "kvservers cfg1 ! nat i = None" "kc_fresh names cfg1" "kc_net cfg1 = DeleteServer i rn" "kc_All cfg1 = kc_All cfg"
    using assms(1,3,4) i names rn(2)
    by (simp_all add: cfg1_def kc_set_net_def fun_eq_iff kc_server_def all_started_def len_def kc_fresh_def delete_facts kc_All_def)
  have st: "raftstate ?p = encode_state (currentTerm (kv_rf kv)) (votedFor (kv_rf kv)) (log (kv_rf kv))"
    using inv(1) by (simp add: node_inv_def persisted_def)
  obtain kv' where kv': "StartKVServer r (nat (kc_n cfg1)) i ?p (kc_maxraftstate cfg1) = Inr kv'"
    "currentTerm (kv_rf kv') = currentTerm (kv_rf kv)" "votedFor (kv_rf kv') = votedFor (kv_rf kv)" "log (kv_rf kv') = log (kv_rf kv)"
    "kv_mp kv' = or_new (Mp (read_snapshot (snapshot ?p)))" "kv_CliMap kv' = or_new (CliMap (read_snapshot (snapshot ?p)))"
    "kv_lastApplied kv' = LastIndex (read_snapshot (snapshot ?p))"
    using StartKVServer_saved [OF st, of i "nat (kc_n cfg1)" r "kc_maxraftstate cfg1"] i c1(2) inv by (auto simp: node_inv_def)
  obtain rn2 where rn2: "kc_StartServer names r srv i cfg1 = Inr ((kc_set_net (AddServer i srv rn2) cfg1)
      \<lparr>kc_endnames := (kc_endnames cfg1)[nat i := Some names], kc_saved := (kc_saved cfg1)[nat i := Some ?p],
       kvservers := (kvservers cfg1)[nat i := Some kv']\<rparr>)" (is "_ = Inr ?cfg2")
    "ends_made names (kc_All cfg1) (kc_net cfg1) rn2"
    using kc_StartServer_eq [of cfg1 i ?p names r kv' srv] assms(2) c1 kv'(1) by auto
  have e: "\<And>e. is_enabled rn2 e \<Longrightarrow> is_enabled rn e" "\<And>j. kc_server cfg j \<Longrightarrow> connection rn2 (names ! nat j) = Some j"
    using rn2(2) unfolding c1 ends_made_def Let_def by (auto simp: delete_facts kc_All_def kc_server_def split: if_split_asm)
  have k: "kvservers ?cfg2 ! nat i = Some kv'" "kc_net ?cfg2 = AddServer i srv rn2"
    using c1(5) c1(2) i by (simp_all add: len_def kc_set_net_def)
  show ?thesis
    by (intro exI [of _ cfg1] exI [of _ ?cfg2] exI [of _ kv'])
      (use rn kv' rn2(1) e k c1(9) in \<open>auto simp: cfg1_def Let_def delete_facts add_facts\<close>)
qed

text \<open>The first of the three servers has voted in term 4, and has a snapshot and an entry after it.\<close>

definition exSaved :: kv_config where
  "exSaved =
     (let l = [dummy_entry, \<lparr>Command = NilCommand, Term = 4\<rparr>];
          ss = \<lparr>Mp = Some [''k'' \<mapsto> ''v''], LastIndex = 9, LastTerm = 3, CliMap = Some [5 \<mapsto> 1]\<rparr>;
          p = \<lparr>raftstate = encode_state 4 1 l, snapshot = encode_snapshot ss\<rparr>;
          rf = (new_Raft 3 0 p)\<lparr>currentTerm := 4, votedFor := 1, log := l, snapshotIndex := 9, snapshotTerm := 3\<rparr>
      in exKvConfig\<lparr>kvservers := [Some ((exKv 0 0)\<lparr>kv_rf := rf\<rparr>), Some (exKv 1 2), Some (exKv 2 0)]\<rparr>)"

theorem shutdown_restart_witness:
  "\<exists>cfg1 cfg2 kv'. ShutdownServer 0 exSaved = Inr cfg1 \<and> kc_StartServer [''p'', ''q'', ''r''] 0 7 0 cfg1 = Inr cfg2 \<and>
     kvservers cfg2 ! 0 = Some kv' \<and> currentTerm (kv_rf kv') = 4 \<and> kv_mp kv' = Some [''k'' \<mapsto> ''v''] \<and> kv_lastApplied kv' = 9"
proof -
  have "kc_server exSaved = kc_server exKvConfig" "kc_name exSaved = kc_name exKvConfig" "kc_n exSaved = kc_n exKvConfig"
    "kc_endnames exSaved = kc_endnames exKvConfig"
    by (simp_all add: kc_server_def kc_name_def fun_eq_iff exSaved_def Let_def)
  then have "all_started exSaved = all_started exKvConfig" unfolding all_started_def by simp
  then have s: "all_started exSaved" using exKvConfig_started by simp
  obtain kv where kv: "kvservers exSaved ! nat 0 = Some kv" "currentTerm (kv_rf kv) = 4"
    "Mp (read_snapshot (snapshot (persister (kv_rf kv)))) = Some [''k'' \<mapsto> ''v'']"
    "LastIndex (read_snapshot (snapshot (persister (kv_rf kv)))) = 9" "node_inv (kv_rf kv)" "log (kv_rf kv) \<noteq> []"
    by (simp add: exSaved_def exKv_def Let_def node_inv_def persisted_def new_Raft_def)
  have f: "kc_server exSaved 0" "len (kc_saved exSaved) = kc_n exSaved" "len (kvservers exSaved) = kc_n exSaved"
    "kc_saved exSaved ! nat 0 \<noteq> None" "kc_fresh [''p'', ''q'', ''r''] exSaved"
    by (simp_all add: exSaved_def exKvConfig_def Let_def kc_server_def kc_fresh_def MakeNetwork_def len_def)
  obtain cfg1 cfg2 kv' where "ShutdownServer 0 exSaved = Inr cfg1" "kc_StartServer [''p'', ''q'', ''r''] 0 7 0 cfg1 = Inr cfg2"
    "kvservers cfg2 ! nat 0 = Some kv'" "currentTerm (kv_rf kv') = currentTerm (kv_rf kv)"
    "kv_mp kv' = or_new (Mp (read_snapshot (snapshot (persister (kv_rf kv)))))"
    "kv_lastApplied kv' = LastIndex (read_snapshot (snapshot (persister (kv_rf kv))))"
    using shutdown_restart [OF s f(1-3) kv(1) f(4) kv(5,6) f(5), of 0 7] unfolding Let_def by blast
  then show ?thesis using kv by (auto simp: or_new_def)
qed

end
