(* ===== verification/Harness_Stats.thy ===== *)
theory Harness_Stats
  imports Kv_Config Labrpc_Steps
begin

section \<open>The test harnesses: time limit and statistics\<close>

text \<open>
  Models what \<^verbatim>\<open>src/raft/config.go\<close> and \<^verbatim>\<open>src/kvraft/config.go\<close> record when a test begins and report when it ends. Times are in
  nanoseconds and arguments, as is whether the test has failed; the report is the list of numbers that is printed.
\<close>

subsection \<open>The Raft harness\<close>

definition checkTimeout :: "bool \<Rightarrow> int \<Rightarrow> unit go" where
  "checkTimeout fl elapsed =
     (if \<not> fl \<and> elapsed > 120 * 1000000000 then Inl (Fatal ''test took longer than 120 seconds'') else Inr ())"

definition rpcCount :: "(nat \<Rightarrow> ('t, 'v, 'w) Server) \<Rightarrow> int \<Rightarrow> 'c config \<Rightarrow> int go" where
  "rpcCount hp srv cfg = Network_GetCount hp srv (cfg_net cfg)"

definition rpcTotal :: "'c config \<Rightarrow> int" where
  "rpcTotal cfg = GetTotalCount (cfg_net cfg)"

definition bytesTotal :: "'c config \<Rightarrow> int" where
  "bytesTotal cfg = GetTotalBytes (cfg_net cfg)"

record stats =
  t0 :: int
  rpcs0 :: int
  cmds0 :: int
  bytes0 :: int
  maxIndex0 :: int

definition begin_test :: "int \<Rightarrow> 'c config \<Rightarrow> stats" where
  "begin_test now cfg = \<lparr>t0 = now, rpcs0 = rpcTotal cfg, cmds0 = 0, bytes0 = bytesTotal cfg, maxIndex0 = maxIndex cfg\<rparr>"

definition end_test :: "bool \<Rightarrow> int \<Rightarrow> int \<Rightarrow> stats \<Rightarrow> 'c config \<Rightarrow> int list go" where
  "end_test fl start now st cfg =
     bindE (checkTimeout fl (now - start)) (\<lambda>_.
     if fl = False then
       let t = now - t0 st;
           npeers = cfg_n cfg;
           nrpc = rpcTotal cfg - rpcs0 st;
           nbytes = bytesTotal cfg - bytes0 st;
           ncmds = maxIndex cfg - maxIndex0 st
       in Inr [t, npeers, nrpc, nbytes, ncmds]
     else Inr [])"

subsection \<open>The key/value harness\<close>

text \<open>\<^verbatim>\<open>ops\<close> is an \<^verbatim>\<open>int32\<close> that is changed atomically.\<close>

record kv_stats =
  kt0 :: int
  krpcs0 :: int
  ops :: "32 word"

definition kc_rpcTotal :: "kv_config \<Rightarrow> int" where
  "kc_rpcTotal cfg = GetTotalCount (kc_net cfg)"

definition kv_begin :: "int \<Rightarrow> kv_config \<Rightarrow> kv_stats" where
  "kv_begin now cfg = \<lparr>kt0 = now, krpcs0 = kc_rpcTotal cfg, ops = 0\<rparr>"

definition kv_op :: "kv_stats \<Rightarrow> kv_stats" where
  "kv_op st = st\<lparr>ops := ops st + 1\<rparr>"

definition kv_end :: "bool \<Rightarrow> int \<Rightarrow> int \<Rightarrow> kv_stats \<Rightarrow> kv_config \<Rightarrow> int list go" where
  "kv_end fl start now st cfg =
     bindE (checkTimeout fl (now - start)) (\<lambda>_.
     if fl = False then
       let t = now - kt0 st;
           npeers = kc_n cfg;
           nrpc = kc_rpcTotal cfg - krpcs0 st
       in Inr [t, npeers, nrpc, sint (ops st)]
     else Inr [])"

subsection \<open>What is reported\<close>

lemma sint_count: "k < 2 ^ 31 \<Longrightarrow> sint (of_nat k :: 32 word) = int k"
  by (simp add: signed_of_nat signed_take_bit_int_eq_self)

lemma total_count:
  assumes "requests_counted s" "card (dom (calls s)) < 2 ^ 31"
  shows "GetTotalCount (net s) = int (card (dom (calls s)))"
  using assms sint_count by (simp add: GetTotalCount_def requests_counted_def)

text \<open>
  A test that does not fail and stays within its time reports the number of calls that were sent on the network between its beginning and
  its end, whatever the testers did to the network in between, as long as the counter has not run over.
\<close>

lemma end_reports_calls:
  assumes "requests_counted s" "rpc_steps info cd evs s s'" "card (dom (calls s')) < 2 ^ 31" "card (dom (calls s)) < 2 ^ 31"
    and "cfg_net cfg = net s" "cfg_net cfg' = net s'" "now' - start \<le> 120 * 1000000000"
  shows "\<exists>t nbytes. end_test False start now' (begin_test now cfg) cfg' =
    Inr [t, cfg_n cfg', int (card (dom (calls s'))) - int (card (dom (calls s))), nbytes, maxIndex cfg' - maxIndex cfg]"
  using total_count [OF assms(1,4)] total_count [OF rpc_steps_counted [OF assms(2,1)] assms(3)] assms(5-7)
  by (simp add: end_test_def begin_test_def checkTimeout_def rpcTotal_def)

text \<open>The number of operations that were counted.\<close>

lemma kv_op_counts: "ops ((kv_op ^^ k) st) = ops st + of_nat k" "kt0 ((kv_op ^^ k) st) = kt0 st" "krpcs0 ((kv_op ^^ k) st) = krpcs0 st"
  by (induction k) (simp_all add: kv_op_def)

lemma kv_end_reports_ops:
  assumes "k < 2 ^ 31" "now' - start \<le> 120 * 1000000000"
  shows "kv_end False start now' ((kv_op ^^ k) (kv_begin now cfg)) cfg' =
    Inr [now' - now, kc_n cfg', kc_rpcTotal cfg' - kc_rpcTotal cfg, int k]"
  using assms sint_count [OF assms(1)] by (simp add: kv_end_def checkTimeout_def kv_op_counts kv_begin_def)

text \<open>After two minutes a test that has not failed yet fails.\<close>

lemma late_test_fails:
  "120 * 1000000000 < now - start \<Longrightarrow> end_test False start now st cfg = Inl (Fatal ''test took longer than 120 seconds'')"
  "120 * 1000000000 < now - start \<Longrightarrow> kv_end False start now kst kcfg = Inl (Fatal ''test took longer than 120 seconds'')"
  by (simp_all add: end_test_def kv_end_def checkTimeout_def)

end
