(* ===== verification/Shard_Clerk.thy ===== *)
theory Shard_Clerk
  imports Raft_State
begin

section \<open>Sharding: the clerks of the shard master and of the sharded store\<close>

text \<open>
  Models \<^verbatim>\<open>src/shardmaster\<close> (\<^verbatim>\<open>common.go\<close>, \<^verbatim>\<open>client.go\<close> and \<^verbatim>\<open>server.go\<close>, whose handlers are empty) and
  \<^verbatim>\<open>src/shardkv\<close> (\<^verbatim>\<open>common.go\<close>, \<^verbatim>\<open>client.go\<close>, \<^verbatim>\<open>server.go\<close>, likewise). What the network and the servers do is an
  argument: what the call with number \<open>k\<close> of the clerk, made on an end, returns. The loops of the
  clerks have no bound in the code; here they have fuel, and \<open>None\<close> means that the clerk is still trying.
  The reply variable is a new one for each call, so a call that succeeds leaves in it what was sent.
\<close>

subsection \<open>The shard master's data\<close>

definition NShards :: int where
  "NShards = 10"

record Config =
  Num :: int
  Shards :: "int list"                         \<comment> \<open>the array, of length \<^verbatim>\<open>NShards\<close>\<close>
  Groups :: "(int, string list) gomap"

record JoinArgs = ja_Servers :: "(int, string list) gomap"
record LeaveArgs = la_GIDs :: "int list"
record MoveArgs =
  ma_Shard :: int
  ma_GID :: int
record QueryArgs = qa_Num :: int

text \<open>\<^verbatim>\<open>JoinReply\<close>, \<^verbatim>\<open>LeaveReply\<close> and \<^verbatim>\<open>MoveReply\<close> have the same fields.\<close>

record UpdateReply =
  ur_WrongLeader :: bool
  ur_Err :: string

record QueryReply =
  qr_WrongLeader :: bool
  qr_Err :: string
  qr_Config :: Config

definition zero_Config :: Config where
  "zero_Config = \<lparr>Num = 0, Shards = replicate (nat NShards) 0, Groups = None\<rparr>"

definition zero_UpdateReply :: UpdateReply where
  "zero_UpdateReply = \<lparr>ur_WrongLeader = False, ur_Err = ''''\<rparr>"

definition zero_QueryReply :: QueryReply where
  "zero_QueryReply = \<lparr>qr_WrongLeader = False, qr_Err = '''', qr_Config = zero_Config\<rparr>"

subsection \<open>The shard master's clerk\<close>

text \<open>The loop over \<^verbatim>\<open>ck.servers\<close>: the number of the next call, and the reply of the first server that accepts.\<close>

primrec try_each :: "(nat \<Rightarrow> 'e \<Rightarrow> bool \<times> 'r) \<Rightarrow> ('r \<Rightarrow> bool) \<Rightarrow> nat \<Rightarrow> 'e list \<Rightarrow> nat \<times> 'r option" where
  "try_each call wrongLeader k [] = (k, None)"
| "try_each call wrongLeader k (srv # srvs) =
     (let (ok, reply) = call k srv in
      if ok \<and> wrongLeader reply = False then (k + 1, Some reply)
      else try_each call wrongLeader (k + 1) srvs)"

text \<open>The outer loop; the sleep between two rounds has no effect on the state.\<close>

primrec try_masters ::
  "(nat \<Rightarrow> 'e \<Rightarrow> bool \<times> 'r) \<Rightarrow> ('r \<Rightarrow> bool) \<Rightarrow> 'e list \<Rightarrow> nat \<Rightarrow> nat \<Rightarrow> (nat \<times> 'r) option" where
  "try_masters call wrongLeader srvs 0 k = None"
| "try_masters call wrongLeader srvs (Suc fuel) k =
     (let (k, r) = try_each call wrongLeader k srvs in
      case r of Some reply \<Rightarrow> Some (k, reply) | None \<Rightarrow> try_masters call wrongLeader srvs fuel k)"

record 'e sm_Clerk = sm_servers :: "'e list"

definition sm_MakeClerk :: "'e list \<Rightarrow> 'e sm_Clerk" where
  "sm_MakeClerk srvs = \<lparr>sm_servers = srvs\<rparr>"

definition sm_Query ::
  "(QueryArgs \<Rightarrow> nat \<Rightarrow> 'e \<Rightarrow> bool \<times> QueryReply) \<Rightarrow> nat \<Rightarrow> 'e sm_Clerk \<Rightarrow> int \<Rightarrow> nat \<Rightarrow> (nat \<times> Config) option" where
  "sm_Query net fuel ck num k =
     (let args = \<lparr>qa_Num = num\<rparr> in
      map_option (\<lambda>(k, reply). (k, qr_Config reply)) (try_masters (net args) qr_WrongLeader (sm_servers ck) fuel k))"

definition sm_Join ::
  "(JoinArgs \<Rightarrow> nat \<Rightarrow> 'e \<Rightarrow> bool \<times> UpdateReply) \<Rightarrow> nat \<Rightarrow> 'e sm_Clerk \<Rightarrow> (int, string list) gomap \<Rightarrow> nat \<Rightarrow> nat option" where
  "sm_Join net fuel ck srvs k =
     (let args = \<lparr>ja_Servers = srvs\<rparr> in map_option fst (try_masters (net args) ur_WrongLeader (sm_servers ck) fuel k))"

definition sm_Leave ::
  "(LeaveArgs \<Rightarrow> nat \<Rightarrow> 'e \<Rightarrow> bool \<times> UpdateReply) \<Rightarrow> nat \<Rightarrow> 'e sm_Clerk \<Rightarrow> int list \<Rightarrow> nat \<Rightarrow> nat option" where
  "sm_Leave net fuel ck gids k =
     (let args = \<lparr>la_GIDs = gids\<rparr> in map_option fst (try_masters (net args) ur_WrongLeader (sm_servers ck) fuel k))"

definition sm_Move ::
  "(MoveArgs \<Rightarrow> nat \<Rightarrow> 'e \<Rightarrow> bool \<times> UpdateReply) \<Rightarrow> nat \<Rightarrow> 'e sm_Clerk \<Rightarrow> int \<Rightarrow> int \<Rightarrow> nat \<Rightarrow> nat option" where
  "sm_Move net fuel ck shard gid k =
     (let args = \<lparr>ma_Shard = shard, ma_GID = gid\<rparr>
      in map_option fst (try_masters (net args) ur_WrongLeader (sm_servers ck) fuel k))"

subsection \<open>The shard master\<close>

record 'c ShardMaster =
  sm_me :: int
  sm_rf :: "'c Raft"
  sm_configs :: "Config list"

text \<open>The handlers leave the server and the reply as they are.\<close>

definition ShardMaster_Join :: "'c ShardMaster \<Rightarrow> JoinArgs \<Rightarrow> UpdateReply \<Rightarrow> 'c ShardMaster \<times> UpdateReply" where
  "ShardMaster_Join sm args reply = (sm, reply)"

definition ShardMaster_Leave :: "'c ShardMaster \<Rightarrow> LeaveArgs \<Rightarrow> UpdateReply \<Rightarrow> 'c ShardMaster \<times> UpdateReply" where
  "ShardMaster_Leave sm args reply = (sm, reply)"

definition ShardMaster_Move :: "'c ShardMaster \<Rightarrow> MoveArgs \<Rightarrow> UpdateReply \<Rightarrow> 'c ShardMaster \<times> UpdateReply" where
  "ShardMaster_Move sm args reply = (sm, reply)"

definition ShardMaster_Query :: "'c ShardMaster \<Rightarrow> QueryArgs \<Rightarrow> QueryReply \<Rightarrow> 'c ShardMaster \<times> QueryReply" where
  "ShardMaster_Query sm args reply = (sm, reply)"

definition ShardMaster_Kill :: "'c ShardMaster \<Rightarrow> 'c ShardMaster" where
  "ShardMaster_Kill sm = sm\<lparr>sm_rf := Kill (sm_rf sm)\<rparr>"

definition ShardMaster_Raft :: "'c ShardMaster \<Rightarrow> 'c Raft" where
  "ShardMaster_Raft sm = sm_rf sm"

definition sm_StartServer :: "int \<Rightarrow> nat \<Rightarrow> int \<Rightarrow> 'c Persister \<Rightarrow> 'c ShardMaster go" where
  "sm_StartServer r n i ps =
     (let configs = [zero_Config\<lparr>Groups := Some Map.empty\<rparr>] in
      bindE (Make r n i ps) (\<lambda>rf. Inr \<lparr>sm_me = i, sm_rf = rf, sm_configs = configs\<rparr>))"

subsection \<open>The sharded store's data\<close>

record sk_GetArgs = skg_Key :: string

record sk_PutAppendArgs =
  skp_Key :: string
  skp_Value :: string
  skp_Op :: string

record sk_GetReply =
  skg_Err :: string
  skg_Value :: string

record sk_PutAppendReply = skp_Err :: string

definition key2shard :: "string \<Rightarrow> int" where
  "key2shard key =
     (let shard = (case key of [] \<Rightarrow> 0 | c # _ \<Rightarrow> of_char c)
      in shard mod NShards)"

subsection \<open>The sharded store's clerk\<close>

record 'e sk_Clerk =
  sk_sm :: "'e sm_Clerk"
  sk_config :: Config

definition sk_MakeClerk :: "'e list \<Rightarrow> 'e sk_Clerk" where
  "sk_MakeClerk masters = \<lparr>sk_sm = sm_MakeClerk masters, sk_config = zero_Config\<rparr>"

text \<open>The loop over the servers of a group: \<^verbatim>\<open>ErrWrongGroup\<close> ends it, another error goes on to the next server.\<close>

primrec Get_servers ::
  "(nat \<Rightarrow> 'e \<Rightarrow> bool \<times> sk_GetReply) \<Rightarrow> (string \<Rightarrow> 'e) \<Rightarrow> nat \<Rightarrow> string list \<Rightarrow> nat \<times> string option" where
  "Get_servers call make_end k [] = (k, None)"
| "Get_servers call make_end k (s # ss) =
     (let srv = make_end s; (ok, reply) = call k srv in
      if ok \<and> (skg_Err reply = ''OK'' \<or> skg_Err reply = ''ErrNoKey'') then (k + 1, Some (skg_Value reply))
      else if ok \<and> skg_Err reply = ''ErrWrongGroup'' then (k + 1, None)
      else Get_servers call make_end (k + 1) ss)"

primrec sk_Get_loop ::
  "(nat \<Rightarrow> 'e \<Rightarrow> bool \<times> sk_GetReply) \<Rightarrow> (string \<Rightarrow> 'e) \<Rightarrow> (nat \<Rightarrow> (nat \<times> Config) option) \<Rightarrow> string \<Rightarrow> nat
     \<Rightarrow> nat \<Rightarrow> Config \<Rightarrow> (nat \<times> Config \<times> string) option go" where
  "sk_Get_loop call make_end query key 0 k cfg = Inr None"
| "sk_Get_loop call make_end query key (Suc fuel) k cfg =
     (let shard = key2shard key in
      bindE (index (Shards cfg) shard) (\<lambda>gid.
      let (k, r) = (case map_get (Groups cfg) gid of
            Some servers \<Rightarrow> Get_servers call make_end k servers
          | None \<Rightarrow> (k, None)) in
      case r of
        Some v \<Rightarrow> Inr (Some (k, cfg, v))
      | None \<Rightarrow>
          (case query k of
             None \<Rightarrow> Inr None
           | Some (k, cfg) \<Rightarrow> sk_Get_loop call make_end query key fuel k cfg)))"

text \<open>\<open>mnet\<close> and \<open>net\<close> are what calls to masters and to servers of groups return, \<open>mfuel\<close> bounds each \<^verbatim>\<open>Query\<close>.\<close>

definition sk_Get ::
  "(QueryArgs \<Rightarrow> nat \<Rightarrow> 'e \<Rightarrow> bool \<times> QueryReply) \<Rightarrow> (sk_GetArgs \<Rightarrow> nat \<Rightarrow> 'e \<Rightarrow> bool \<times> sk_GetReply) \<Rightarrow> (string \<Rightarrow> 'e)
     \<Rightarrow> nat \<Rightarrow> nat \<Rightarrow> 'e sk_Clerk \<Rightarrow> string \<Rightarrow> ('e sk_Clerk \<times> string) option go" where
  "sk_Get mnet net make_end mfuel fuel ck key =
     (let args = \<lparr>skg_Key = key\<rparr> in
      bindE (sk_Get_loop (net args) make_end (sm_Query mnet mfuel (sk_sm ck) (-1)) key fuel 0 (sk_config ck)) (\<lambda>res.
      Inr (map_option (\<lambda>(k, cfg, v). (ck\<lparr>sk_config := cfg\<rparr>, v)) res)))"

primrec PutAppend_servers ::
  "(nat \<Rightarrow> 'e \<Rightarrow> bool \<times> sk_PutAppendReply) \<Rightarrow> (string \<Rightarrow> 'e) \<Rightarrow> nat \<Rightarrow> string list \<Rightarrow> nat \<times> unit option" where
  "PutAppend_servers call make_end k [] = (k, None)"
| "PutAppend_servers call make_end k (s # ss) =
     (let srv = make_end s; (ok, reply) = call k srv in
      if ok \<and> skp_Err reply = ''OK'' then (k + 1, Some ())
      else if ok \<and> skp_Err reply = ''ErrWrongGroup'' then (k + 1, None)
      else PutAppend_servers call make_end (k + 1) ss)"

primrec sk_PutAppend_loop ::
  "(nat \<Rightarrow> 'e \<Rightarrow> bool \<times> sk_PutAppendReply) \<Rightarrow> (string \<Rightarrow> 'e) \<Rightarrow> (nat \<Rightarrow> (nat \<times> Config) option) \<Rightarrow> string \<Rightarrow> nat
     \<Rightarrow> nat \<Rightarrow> Config \<Rightarrow> (nat \<times> Config \<times> unit) option go" where
  "sk_PutAppend_loop call make_end query key 0 k cfg = Inr None"
| "sk_PutAppend_loop call make_end query key (Suc fuel) k cfg =
     (let shard = key2shard key in
      bindE (index (Shards cfg) shard) (\<lambda>gid.
      let (k, r) = (case map_get (Groups cfg) gid of
            Some servers \<Rightarrow> PutAppend_servers call make_end k servers
          | None \<Rightarrow> (k, None)) in
      case r of
        Some u \<Rightarrow> Inr (Some (k, cfg, u))
      | None \<Rightarrow>
          (case query k of
             None \<Rightarrow> Inr None
           | Some (k, cfg) \<Rightarrow> sk_PutAppend_loop call make_end query key fuel k cfg)))"

definition sk_PutAppend ::
  "(QueryArgs \<Rightarrow> nat \<Rightarrow> 'e \<Rightarrow> bool \<times> QueryReply) \<Rightarrow> (sk_PutAppendArgs \<Rightarrow> nat \<Rightarrow> 'e \<Rightarrow> bool \<times> sk_PutAppendReply)
     \<Rightarrow> (string \<Rightarrow> 'e) \<Rightarrow> nat \<Rightarrow> nat \<Rightarrow> 'e sk_Clerk \<Rightarrow> string \<Rightarrow> string \<Rightarrow> string \<Rightarrow> 'e sk_Clerk option go" where
  "sk_PutAppend mnet net make_end mfuel fuel ck key val opr =
     (let args = \<lparr>skp_Key = key, skp_Value = val, skp_Op = opr\<rparr> in
      bindE (sk_PutAppend_loop (net args) make_end (sm_Query mnet mfuel (sk_sm ck) (-1)) key fuel 0 (sk_config ck)) (\<lambda>res.
      Inr (map_option (\<lambda>(k, cfg, _). ck\<lparr>sk_config := cfg\<rparr>) res)))"

definition sk_Put where
  "sk_Put mnet net make_end mfuel fuel ck key val = sk_PutAppend mnet net make_end mfuel fuel ck key val ''Put''"

definition sk_Append where
  "sk_Append mnet net make_end mfuel fuel ck key val = sk_PutAppend mnet net make_end mfuel fuel ck key val ''Append''"

subsection \<open>The sharded store's server\<close>

text \<open>\<^verbatim>\<open>make_end\<close> is a function of the name of a server; what a call of it does is the parameter \<open>'m\<close>.\<close>

record ('m, 'e, 'c) ShardKV =
  skv_me :: int
  skv_rf :: "'c Raft"
  skv_make_end :: "string \<Rightarrow> 'm"
  skv_gid :: int
  skv_masters :: "'e list"
  skv_maxraftstate :: int

definition ShardKV_Get :: "('m, 'e, 'c) ShardKV \<Rightarrow> sk_GetArgs \<Rightarrow> sk_GetReply \<Rightarrow> ('m, 'e, 'c) ShardKV \<times> sk_GetReply" where
  "ShardKV_Get kv args reply = (kv, reply)"

definition ShardKV_PutAppend ::
  "('m, 'e, 'c) ShardKV \<Rightarrow> sk_PutAppendArgs \<Rightarrow> sk_PutAppendReply \<Rightarrow> ('m, 'e, 'c) ShardKV \<times> sk_PutAppendReply" where
  "ShardKV_PutAppend kv args reply = (kv, reply)"

definition ShardKV_Kill :: "('m, 'e, 'c) ShardKV \<Rightarrow> ('m, 'e, 'c) ShardKV" where
  "ShardKV_Kill kv = kv\<lparr>skv_rf := Kill (skv_rf kv)\<rparr>"

definition sk_StartServer ::
  "int \<Rightarrow> nat \<Rightarrow> int \<Rightarrow> 'c Persister \<Rightarrow> int \<Rightarrow> int \<Rightarrow> 'e list \<Rightarrow> (string \<Rightarrow> 'm) \<Rightarrow> ('m, 'e, 'c) ShardKV go" where
  "sk_StartServer r n i ps mx gid masters make_end =
     bindE (Make r n i ps) (\<lambda>rf.
     Inr \<lparr>skv_me = i, skv_rf = rf, skv_make_end = make_end, skv_gid = gid, skv_masters = masters, skv_maxraftstate = mx\<rparr>)"

end
