(* ===== verification/Shard_Properties.thy ===== *)
theory Shard_Properties
  imports Shard_Clerk
begin

section \<open>Sharding: the clerks get an answer\<close>

text \<open>
  With the handlers of the repository, which are empty, the loops of the store's clerk never end. With any masters and
  groups that do answer they end, and there is a bound on the number of rounds; this part is about the clerks' code alone.
\<close>

subsection \<open>The master's clerk\<close>

lemma try_each_Some:
  "try_each call wrong k srvs = (k', Some reply) \<Longrightarrow>
   \<exists>m \<in> set srvs. k < k' \<and> call (k' - 1) m = (True, reply) \<and> \<not> wrong reply"
  by (induction srvs arbitrary: k) (fastforce split: prod.split_asm if_split_asm)+

lemma try_each_None: "try_each call wrong k srvs = (k', None) \<Longrightarrow> k' = k + length srvs"
  by (induction srvs arbitrary: k) (fastforce split: prod.split_asm if_split_asm)+

text \<open>A server answers from the call with number \<open>K\<close> on.\<close>

definition answers_from :: "(nat \<Rightarrow> 'e \<Rightarrow> bool \<times> 'r) \<Rightarrow> ('r \<Rightarrow> bool) \<Rightarrow> nat \<Rightarrow> 'e \<Rightarrow> bool" where
  "answers_from call good K m \<longleftrightarrow> (\<forall>k \<ge> K. \<exists>r. call k m = (True, r) \<and> good r)"

lemma answers_fromE:
  assumes "answers_from call good K m" "K \<le> k"
  obtains r where "call k m = (True, r)" "good r"
  using assms unfolding answers_from_def by blast

lemma answers_from_mono: "answers_from call good K m \<Longrightarrow> K \<le> K' \<Longrightarrow> answers_from call good K' m"
  unfolding answers_from_def by (meson order_trans)

lemma try_each_answers:
  assumes "m \<in> set srvs" "answers_from call (\<lambda>r. \<not> wrong r) K m" "K \<le> k"
  shows "\<exists>k' r. try_each call wrong k srvs = (k', Some r)"
  using assms(1,3)
proof (induction srvs arbitrary: k)
  case (Cons s srvs)
  obtain r where r: "call k m = (True, r)" "\<not> wrong r" using answers_fromE [OF assms(2) Cons.prems(2)] by blast
  show ?case
  proof (cases "m = s")
    case True
    then show ?thesis using r by simp
  next
    case False
    then have "\<exists>k' r. try_each call wrong (k + 1) srvs = (k', Some r)" using Cons by simp
    then show ?thesis by (auto split: prod.splits)
  qed
qed simp

lemma try_masters_returns:
  assumes "m \<in> set srvs" "answers_from call (\<lambda>r. \<not> wrong r) K m"
  shows "K - k < fuel \<Longrightarrow> \<exists>k' r. try_masters call wrong srvs fuel k = Some (k', r)"
proof (induction fuel arbitrary: k)
  case (Suc fuel)
  obtain k1 r1 where t: "try_each call wrong k srvs = (k1, r1)" by (cases "try_each call wrong k srvs")
  show ?case
  proof (cases r1)
    case None
    have "\<not> K \<le> k" using try_each_answers [OF assms, of k] t None by auto
    moreover have "k1 > k" using try_each_None [of call wrong k srvs k1] t None assms(1) by (cases srvs) auto
    ultimately have "K - k1 < fuel" using Suc.prems by linarith
    from Suc.IH [OF this] show ?thesis using t None by simp
  next
    case (Some r)
    then show ?thesis using t by simp
  qed
qed simp

lemma try_masters_answer:
  "try_masters call wrong srvs fuel k = Some (k', r) \<Longrightarrow>
   \<exists>m \<in> set srvs. k < k' \<and> call (k' - 1) m = (True, r) \<and> \<not> wrong r"
proof (induction fuel arbitrary: k)
  case (Suc fuel)
  obtain k1 r1 where t: "try_each call wrong k srvs = (k1, r1)" by (cases "try_each call wrong k srvs")
  show ?case
  proof (cases r1)
    case None
    then have "k \<le> k1" using try_each_None [of call wrong k srvs k1] t by simp
    then show ?thesis using Suc.IH [of k1] Suc.prems t None by (auto intro: le_less_trans)
  next
    case (Some r')
    then show ?thesis using try_each_Some [of call wrong k srvs k1 r'] t Suc.prems by simp
  qed
qed simp

subsection \<open>The interface of the store's two loops\<close>

text \<open>
  \<^verbatim>\<open>Get\<close> and \<^verbatim>\<open>PutAppend\<close> run the same loop: ask the group of the key's shard, and after a round without an answer
  fetch the configuration again. \<open>ask\<close> is a round over the servers of a group, \<open>group\<close> the group a
  configuration names for the key.
\<close>

definition group_of :: "string \<Rightarrow> Config \<Rightarrow> string list option" where
  "group_of key cfg = map_get (Groups cfg) (Shards cfg ! nat (key2shard key))"

definition config_wf :: "Config \<Rightarrow> bool" where
  "config_wf cfg \<longleftrightarrow> len (Shards cfg) = NShards"

lemma key2shard_bounds: "0 \<le> key2shard key \<and> key2shard key < NShards"
  by (simp add: key2shard_def NShards_def Let_def split: list.split)

lemma shard_in_config: "config_wf cfg \<Longrightarrow> index (Shards cfg) (key2shard key) = Inr (Shards cfg ! nat (key2shard key))"
  using key2shard_bounds [of key] by (simp add: index_def config_wf_def)

locale shard_loop =
  fixes ask :: "nat \<Rightarrow> string list \<Rightarrow> nat \<times> 'a option"
    and query :: "nat \<Rightarrow> (nat \<times> Config) option"
    and key :: string
    and loop :: "nat \<Rightarrow> nat \<Rightarrow> Config \<Rightarrow> (nat \<times> Config \<times> 'a) option go"
  assumes loop_answer: "config_wf cfg \<Longrightarrow> group_of key cfg = Some ss \<Longrightarrow> ask k ss = (k', Some a) \<Longrightarrow>
      loop (Suc fuel) k cfg = Inr (Some (k', cfg, a))"
    and loop_retry: "config_wf cfg \<Longrightarrow> (case group_of key cfg of None \<Rightarrow> k' = k | Some ss \<Rightarrow> ask k ss = (k', None)) \<Longrightarrow>
      query k' = Some (k2, cfg2) \<Longrightarrow> loop (Suc fuel) k cfg = loop fuel k2 cfg2"
    and loop_waits: "config_wf cfg \<Longrightarrow> (case group_of key cfg of None \<Rightarrow> k' = k | Some ss \<Rightarrow> ask k ss = (k', None)) \<Longrightarrow>
      query k' = None \<Longrightarrow> loop (Suc fuel) k cfg = Inr None"
    and loop_out: "loop 0 k cfg = Inr None"
    and ask_mono: "ask k ss = (k', r) \<Longrightarrow> k \<le> k'"
begin

lemma loop_never:
  assumes query: "\<And>k k' cfg. query k = Some (k', cfg) \<Longrightarrow> config_wf cfg" and ask: "\<And>k ss. snd (ask k ss) = None"
  shows "config_wf cfg \<Longrightarrow> loop fuel k cfg = Inr None"
proof (induction fuel arbitrary: k cfg)
  case (Suc fuel)
  obtain k1 where k1: "case group_of key cfg of None \<Rightarrow> k1 = k | Some gs \<Rightarrow> ask k gs = (k1, None)"
    using ask by (cases "group_of key cfg") (auto, metis prod.collapse)
  show ?case
  proof (cases "query k1")
    case None
    then show ?thesis using loop_waits [OF Suc.prems k1] by simp
  next
    case (Some q)
    then show ?thesis using loop_retry [OF Suc.prems k1, of "fst q" "snd q"] query [of k1 "fst q" "snd q"] Suc.IH by simp
  qed
qed (rule loop_out)

lemma loop_returns:
  assumes query: "\<And>k. \<exists>k' cfg'. query k = Some (k', cfg') \<and> k < k' \<and> config_wf cfg' \<and> (K < k' \<longrightarrow> cfg' = C)"
    and C: "group_of key C = Some ss" "\<And>k. K < k \<Longrightarrow> \<exists>k' a. ask k ss = (k', Some a)"
    and P: "\<And>k ss k' a. ask k ss = (k', Some a) \<Longrightarrow> P a"
  shows "config_wf cfg \<Longrightarrow> (if K < k \<and> cfg = C then 0 < fuel else 1 < fuel \<and> K + 1 - k < fuel) \<Longrightarrow>
    \<exists>k' cfg' a. loop fuel k cfg = Inr (Some (k', cfg', a)) \<and> P a"
proof (induction fuel arbitrary: k cfg)
  case (Suc fuel)
  show ?case
  proof (cases "\<exists>gs k' a. group_of key cfg = Some gs \<and> ask k gs = (k', Some a)")
    case True
    then show ?thesis using loop_answer [OF Suc.prems(1)] P by blast
  next
    case False
    then obtain k1 where k1: "case group_of key cfg of None \<Rightarrow> k1 = k | Some gs \<Rightarrow> ask k gs = (k1, None)"
      by (cases "group_of key cfg") (auto, metis option.exhaust surj_pair)
    then have "k \<le> k1" using ask_mono by (auto split: option.split_asm)
    obtain k2 cfg2 where q: "query k1 = Some (k2, cfg2)" "k1 < k2" "config_wf cfg2" "K < k2 \<longrightarrow> cfg2 = C"
      using query by blast
    have "\<not> (K < k \<and> cfg = C)" using False C by blast
    then have "1 < Suc fuel \<and> K + 1 - k < Suc fuel" using Suc.prems(2) by presburger
    then have "if K < k2 \<and> cfg2 = C then 0 < fuel else 1 < fuel \<and> K + 1 - k2 < fuel"
      using q \<open>k \<le> k1\<close> by auto
    then show ?thesis using Suc.IH [OF q(3)] loop_retry [OF Suc.prems(1) k1 q(1)] by simp
  qed
qed (simp split: if_split_asm)

end

lemma Get_servers_mono: "Get_servers call make_end k ss = (k', r) \<Longrightarrow> k \<le> k'"
  by (induction ss arbitrary: k) (fastforce simp: Let_def split: prod.split_asm if_split_asm)+

lemma PutAppend_servers_mono: "PutAppend_servers call make_end k ss = (k', r) \<Longrightarrow> k \<le> k'"
  by (induction ss arbitrary: k) (fastforce simp: Let_def split: prod.split_asm if_split_asm)+

interpretation get_loop: shard_loop "Get_servers call make_end" query key "sk_Get_loop call make_end query key"
  for call :: "nat \<Rightarrow> 'e \<Rightarrow> bool \<times> sk_GetReply" and make_end query key
  by unfold_locales (auto simp: shard_in_config group_of_def dest: Get_servers_mono split: option.split_asm)

interpretation put_loop: shard_loop "PutAppend_servers call make_end" query key "sk_PutAppend_loop call make_end query key"
  for call :: "nat \<Rightarrow> 'e \<Rightarrow> bool \<times> sk_PutAppendReply" and make_end query key
  by unfold_locales (auto simp: shard_in_config group_of_def dest: PutAppend_servers_mono split: option.split_asm)

subsection \<open>Reaching the group\<close>

lemma sm_Query_returns:
  assumes "m \<in> set (sm_servers ck)" "answers_from (net \<lparr>qa_Num = num\<rparr>) (\<lambda>r. \<not> qr_WrongLeader r) K m" "K < fuel"
    and cfgs: "\<And>k m r. net \<lparr>qa_Num = num\<rparr> k m = (True, r) \<Longrightarrow> \<not> qr_WrongLeader r \<Longrightarrow>
      config_wf (qr_Config r) \<and> (K \<le> k \<longrightarrow> qr_Config r = C)"
  shows "\<exists>k' cfg'. sm_Query net fuel ck num k = Some (k', cfg') \<and> k < k' \<and> config_wf cfg' \<and> (K < k' \<longrightarrow> cfg' = C)"
proof -
  obtain k' r where r: "try_masters (net \<lparr>qa_Num = num\<rparr>) qr_WrongLeader (sm_servers ck) fuel k = Some (k', r)"
    using try_masters_returns [OF assms(1,2), of k fuel] less_imp_diff_less [OF assms(3)] by blast
  from try_masters_answer [OF this] obtain m where m: "k < k'" "net \<lparr>qa_Num = num\<rparr> (k' - 1) m = (True, r)" "\<not> qr_WrongLeader r"
    by blast
  have "K \<le> k' - 1" if "K < k'" using that by linarith
  then show ?thesis using r m(1) cfgs [OF m(2,3)] by (auto simp: sm_Query_def)
qed

lemma Get_servers_returns:
  assumes "s \<in> set ss" "answers_from call (\<lambda>r. skg_Err r = ''OK'' \<or> skg_Err r = ''ErrNoKey'') K (make_end s)" "K \<le> k"
    and "\<And>k t r. K \<le> k \<Longrightarrow> t \<in> set ss \<Longrightarrow> call k (make_end t) = (True, r) \<Longrightarrow> skg_Err r \<noteq> ''ErrWrongGroup''"
  shows "\<exists>k' v. Get_servers call make_end k ss = (k', Some v)"
  using assms(1,3,4)
proof (induction ss arbitrary: k)
  case (Cons t ss)
  obtain ok r where c: "call k (make_end t) = (ok, r)" by (cases "call k (make_end t)")
  have nw: "\<not> (ok \<and> skg_Err r = ''ErrWrongGroup'')" using Cons.prems(3) [OF Cons.prems(2), of t r] c by auto
  show ?case
  proof (cases "s = t")
    case True
    then show ?thesis using answers_fromE [OF assms(2) Cons.prems(2)] by (fastforce simp: Let_def)
  next
    case False
    then have "\<exists>k' v. Get_servers call make_end (k + 1) ss = (k', Some v)"
      using Cons.prems by (intro Cons.IH) auto
    then show ?thesis using c nw by (auto simp: Let_def)
  qed
qed simp

lemma Get_servers_value:
  "Get_servers call make_end k ss = (k', Some v) \<Longrightarrow>
   \<exists>k e r. call k e = (True, r) \<and> (skg_Err r = ''OK'' \<or> skg_Err r = ''ErrNoKey'') \<and> v = skg_Value r"
  by (induction ss arbitrary: k) (force simp: Let_def split: prod.split_asm if_split_asm)+

text \<open>
  A read of the sharded store returns, with servers that answer: if from call number \<open>K\<close> on some master answers and those that answer
  give the configuration \<open>C\<close>, and in the group that \<open>C\<close> names for the key's shard some server answers and none refuses the key, and if
  every server that answers has the value \<open>v\<close>, then \<^verbatim>\<open>Get\<close> returns \<open>v\<close>, however old the clerk's configuration is, after at most
  \<open>K + 2\<close> rounds with at most \<open>K + 1\<close> rounds over the masters each.
\<close>

lemma shard_get_returns:
  assumes "m \<in> set (sm_servers (sk_sm ck))" "answers_from (mnet \<lparr>qa_Num = -1\<rparr>) (\<lambda>r. \<not> qr_WrongLeader r) K m"
    and "\<And>k m r. mnet \<lparr>qa_Num = -1\<rparr> k m = (True, r) \<Longrightarrow> \<not> qr_WrongLeader r \<Longrightarrow>
      config_wf (qr_Config r) \<and> (K \<le> k \<longrightarrow> qr_Config r = C)"
    and "group_of key C = Some ss" "s \<in> set ss"
    and "answers_from (net \<lparr>skg_Key = key\<rparr>) (\<lambda>r. skg_Err r = ''OK'' \<or> skg_Err r = ''ErrNoKey'') K (make_end s)"
    and "\<And>k t r. K \<le> k \<Longrightarrow> t \<in> set ss \<Longrightarrow> net \<lparr>skg_Key = key\<rparr> k (make_end t) = (True, r) \<Longrightarrow> skg_Err r \<noteq> ''ErrWrongGroup''"
    and "\<And>k e r. net \<lparr>skg_Key = key\<rparr> k e = (True, r) \<Longrightarrow> skg_Err r = ''OK'' \<or> skg_Err r = ''ErrNoKey'' \<Longrightarrow> skg_Value r = v"
    and "config_wf (sk_config ck)" "K + 1 \<le> mfuel" "K + 2 \<le> fuel"
  shows "\<exists>ck'. sk_Get mnet net make_end mfuel fuel ck key = Inr (Some (ck', v))"
proof -
  let ?q = "sm_Query mnet mfuel (sk_sm ck) (-1)" and ?call = "net \<lparr>skg_Key = key\<rparr>"
  have q: "\<exists>k' cfg'. ?q k = Some (k', cfg') \<and> k < k' \<and> config_wf cfg' \<and> (K < k' \<longrightarrow> cfg' = C)" for k
    using sm_Query_returns [where net = mnet and num = "-1", OF assms(1,2) _ assms(3)] assms(10) by simp
  have a: "\<exists>k' a. Get_servers ?call make_end k ss = (k', Some a)" if "K < k" for k
    using Get_servers_returns [where make_end = make_end and call = ?call, OF assms(5,6) _ assms(7)] that by simp
  have v: "a = v" if "Get_servers ?call make_end k ss = (k', Some a)" for k ss k' a
    using Get_servers_value [OF that] assms(8) by blast
  have f: "if K < 0 \<and> sk_config ck = C then 0 < fuel else 1 < fuel \<and> K + 1 - 0 < fuel" using assms(11) by simp
  have "\<exists>k' cfg' a. sk_Get_loop ?call make_end ?q key fuel 0 (sk_config ck) = Inr (Some (k', cfg', a)) \<and> a = v"
    by (rule get_loop.loop_returns [OF q assms(4) _ _ assms(9) f]) (fact a, fact v)
  then obtain k' cfg' where "sk_Get_loop ?call make_end ?q key fuel 0 (sk_config ck) = Inr (Some (k', cfg', v))" by blast
  then show ?thesis by (simp add: sk_Get_def)
qed

text \<open>
  An instance: one master, which the first call does not reach, and the group 7 in charge of every shard, whose first server is down.
\<close>

definition exShardConfig :: Config where
  "exShardConfig = \<lparr>Num = 1, Shards = replicate 10 7, Groups = Some [7 \<mapsto> [''a'', ''b'']]\<rparr>"

definition exMasters :: "QueryArgs \<Rightarrow> nat \<Rightarrow> string \<Rightarrow> bool \<times> QueryReply" where
  "exMasters args k e = (0 < k, \<lparr>qr_WrongLeader = False, qr_Err = ''OK'', qr_Config = exShardConfig\<rparr>)"

definition exGroups :: "sk_GetArgs \<Rightarrow> nat \<Rightarrow> string \<Rightarrow> bool \<times> sk_GetReply" where
  "exGroups args k e = (e = ''b'', \<lparr>skg_Err = ''OK'', skg_Value = ''v''\<rparr>)"

lemma shard_get_returns_example:
  "\<exists>ck'. sk_Get exMasters exGroups (\<lambda>s. s) 2 3 (sk_MakeClerk [''m'']) ''key'' = Inr (Some (ck', ''v''))"
proof (rule shard_get_returns [where m = "''m''" and K = 1 and C = exShardConfig and ss = "[''a'', ''b'']" and s = "''b''"])
  have k: "nat (key2shard ''key'') < 10" using key2shard_bounds [of "''key''"] unfolding NShards_def by linarith
  then show "group_of ''key'' exShardConfig = Some [''a'', ''b'']"
    by (simp add: group_of_def exShardConfig_def map_get_def)
qed (auto simp: sk_MakeClerk_def sm_MakeClerk_def answers_from_def exMasters_def exGroups_def exShardConfig_def config_wf_def
    zero_Config_def NShards_def len_def)

lemma PutAppend_servers_returns:
  assumes "s \<in> set ss" "answers_from call (\<lambda>r. skp_Err r = ''OK'') K (make_end s)" "K \<le> k"
    and "\<And>k t r. K \<le> k \<Longrightarrow> t \<in> set ss \<Longrightarrow> call k (make_end t) = (True, r) \<Longrightarrow> skp_Err r \<noteq> ''ErrWrongGroup''"
  shows "\<exists>k' v. PutAppend_servers call make_end k ss = (k', Some v)"
  using assms(1,3,4)
proof (induction ss arbitrary: k)
  case (Cons t ss)
  obtain ok r where c: "call k (make_end t) = (ok, r)" by (cases "call k (make_end t)")
  have nw: "\<not> (ok \<and> skp_Err r = ''ErrWrongGroup'')" using Cons.prems(3) [OF Cons.prems(2), of t r] c by auto
  show ?case
  proof (cases "s = t")
    case True
    then show ?thesis using answers_fromE [OF assms(2) Cons.prems(2)] by (fastforce simp: Let_def)
  next
    case False
    then have "\<exists>k' v. PutAppend_servers call make_end (k + 1) ss = (k', Some v)"
      using Cons.prems by (intro Cons.IH) auto
    then show ?thesis using c nw by (auto simp: Let_def)
  qed
qed simp

text \<open>The same for a write.\<close>

lemma shard_putappend_returns:
  assumes "m \<in> set (sm_servers (sk_sm ck))" "answers_from (mnet \<lparr>qa_Num = -1\<rparr>) (\<lambda>r. \<not> qr_WrongLeader r) K m"
    and "\<And>k m r. mnet \<lparr>qa_Num = -1\<rparr> k m = (True, r) \<Longrightarrow> \<not> qr_WrongLeader r \<Longrightarrow>
      config_wf (qr_Config r) \<and> (K \<le> k \<longrightarrow> qr_Config r = C)"
    and "group_of key C = Some ss" "s \<in> set ss"
    and "answers_from (net \<lparr>skp_Key = key, skp_Value = val, skp_Op = opr\<rparr>) (\<lambda>r. skp_Err r = ''OK'') K (make_end s)"
    and "\<And>k t r. K \<le> k \<Longrightarrow> t \<in> set ss \<Longrightarrow> net \<lparr>skp_Key = key, skp_Value = val, skp_Op = opr\<rparr> k (make_end t) = (True, r) \<Longrightarrow>
      skp_Err r \<noteq> ''ErrWrongGroup''"
    and "config_wf (sk_config ck)" "K + 1 \<le> mfuel" "K + 2 \<le> fuel"
  shows "\<exists>ck'. sk_PutAppend mnet net make_end mfuel fuel ck key val opr = Inr (Some ck')"
proof -
  let ?q = "sm_Query mnet mfuel (sk_sm ck) (-1)" and ?call = "net \<lparr>skp_Key = key, skp_Value = val, skp_Op = opr\<rparr>"
  have q: "\<exists>k' cfg'. ?q k = Some (k', cfg') \<and> k < k' \<and> config_wf cfg' \<and> (K < k' \<longrightarrow> cfg' = C)" for k
    using sm_Query_returns [where net = mnet and num = "-1", OF assms(1,2) _ assms(3)] assms(9) by simp
  have a: "\<exists>k' a. PutAppend_servers ?call make_end k ss = (k', Some a)" if "K < k" for k
    using PutAppend_servers_returns [where make_end = make_end and call = ?call, OF assms(5,6) _ assms(7)] that by simp
  have f: "if K < 0 \<and> sk_config ck = C then 0 < fuel else 1 < fuel \<and> K + 1 - 0 < fuel" using assms(10) by simp
  obtain k' cfg' where "sk_PutAppend_loop ?call make_end ?q key fuel 0 (sk_config ck) = Inr (Some (k', cfg', ()))"
    using put_loop.loop_returns [where P = "\<lambda>_. True", OF q assms(4) a _ assms(8) f] by auto
  then show ?thesis by (simp add: sk_PutAppend_def)
qed

subsection \<open>The handlers of the repository\<close>

definition zero_sk_GetReply :: sk_GetReply where
  "zero_sk_GetReply = \<lparr>skg_Err = '''', skg_Value = ''''\<rparr>"

definition zero_sk_PutAppendReply :: sk_PutAppendReply where
  "zero_sk_PutAppendReply = \<lparr>skp_Err = ''''\<rparr>"

text \<open>
  The answers of the repository's servers: \<open>d k e\<close> says whether call \<open>k\<close> on the end \<open>e\<close> gets through, and the
  reply is what the handler makes of the zero reply.
\<close>

definition stub_masters :: "(nat \<Rightarrow> 'e \<Rightarrow> bool) \<Rightarrow> ('e \<Rightarrow> 'c ShardMaster) \<Rightarrow> QueryArgs \<Rightarrow> nat \<Rightarrow> 'e \<Rightarrow> bool \<times> QueryReply" where
  "stub_masters d master args k e = (d k e, snd (ShardMaster_Query (master e) args zero_QueryReply))"

definition stub_get :: "(nat \<Rightarrow> 'e \<Rightarrow> bool) \<Rightarrow> ('e \<Rightarrow> ('m, 'e, 'c) ShardKV) \<Rightarrow> sk_GetArgs \<Rightarrow> nat \<Rightarrow> 'e \<Rightarrow> bool \<times> sk_GetReply" where
  "stub_get d server args k e = (d k e, snd (ShardKV_Get (server e) args zero_sk_GetReply))"

definition stub_putappend ::
  "(nat \<Rightarrow> 'e \<Rightarrow> bool) \<Rightarrow> ('e \<Rightarrow> ('m, 'e, 'c) ShardKV) \<Rightarrow> sk_PutAppendArgs \<Rightarrow> nat \<Rightarrow> 'e \<Rightarrow> bool \<times> sk_PutAppendReply" where
  "stub_putappend d server args k e = (d k e, snd (ShardKV_PutAppend (server e) args zero_sk_PutAppendReply))"

lemma stub_Query:
  assumes "sm_Query (stub_masters d master) mfuel ck num k = Some (k', cfg')"
  shows "cfg' = zero_Config"
  using assms try_masters_answer [of "stub_masters d master \<lparr>qa_Num = num\<rparr>" qr_WrongLeader]
  by (fastforce simp: sm_Query_def stub_masters_def ShardMaster_Query_def zero_QueryReply_def)

lemma config_wf_zero: "config_wf zero_Config"
  by (simp add: config_wf_def zero_Config_def NShards_def len_def)

lemma stub_group:
  "snd (Get_servers (stub_get d server args) make_end k ss) = None"
  "snd (PutAppend_servers (stub_putappend d server pargs) make_end k ss) = None"
  by (induction ss arbitrary: k)
    (simp_all add: stub_get_def stub_putappend_def ShardKV_Get_def ShardKV_PutAppend_def zero_sk_GetReply_def
      zero_sk_PutAppendReply_def Let_def)

text \<open>
  C31. The sharded store of the repository answers nobody: the handlers of its servers and of its shard master are
  empty, so whatever the network loses or delivers, whatever configuration the clerk has (an array of ten shards, as its Go type
  says) and however many rounds it makes, \<^verbatim>\<open>Get\<close> and \<^verbatim>\<open>PutAppend\<close> are still trying; and a \<^verbatim>\<open>Query\<close> that gets through returns the
  zero configuration, with no groups.
\<close>

theorem shard_store_never_answers:
  assumes "config_wf (sk_config ck)"
  shows "sk_Get (stub_masters d master) (stub_get d' server) make_end mfuel fuel ck key = Inr None \<and>
    sk_PutAppend (stub_masters d master) (stub_putappend d' server) make_end mfuel fuel ck key val opr = Inr None \<and>
    (\<forall>k k' cfg. sm_Query (stub_masters d master) mfuel (sk_sm ck) num k = Some (k', cfg) \<longrightarrow> cfg = zero_Config)"
proof -
  let ?q = "sm_Query (stub_masters d master) mfuel (sk_sm ck) (-1)"
  have q: "config_wf cfg" if "?q k = Some (k', cfg)" for k k' cfg using stub_Query [OF that] config_wf_zero by simp
  have "sk_Get_loop (stub_get d' server \<lparr>skg_Key = key\<rparr>) make_end ?q key fuel 0 (sk_config ck) = Inr None"
    using q stub_group(1) assms by (intro get_loop.loop_never) blast+
  moreover have "sk_PutAppend_loop (stub_putappend d' server \<lparr>skp_Key = key, skp_Value = val, skp_Op = opr\<rparr>) make_end ?q key fuel 0
      (sk_config ck) = Inr None"
    using q stub_group(2) assms by (intro put_loop.loop_never) blast+
  ultimately show ?thesis using stub_Query by (auto simp: sk_Get_def sk_PutAppend_def)
qed

definition exMaster :: "nat ShardMaster" where
  "exMaster = \<lparr>sm_me = 0, sm_rf = new_Raft 1 0 MakePersister, sm_configs = [zero_Config\<lparr>Groups := Some Map.empty\<rparr>]\<rparr>"

definition exGroupServer :: "(string, string, nat) ShardKV" where
  "exGroupServer = \<lparr>skv_me = 0, skv_rf = new_Raft 2 0 MakePersister, skv_make_end = (\<lambda>s. s), skv_gid = 7, skv_masters = [''m''],
     skv_maxraftstate = -1\<rparr>"

theorem shard_store_never_answers_witness:
  "sk_Get (stub_masters (\<lambda>k e. True) (\<lambda>e. exMaster)) (stub_get (\<lambda>k e. True) (\<lambda>e. exGroupServer)) (\<lambda>s. s) 5 100
     ((sk_MakeClerk [''m''])\<lparr>sk_config := exShardConfig\<rparr>) ''key'' = Inr None"
proof -
  have "config_wf (sk_config ((sk_MakeClerk [''m''])\<lparr>sk_config := exShardConfig\<rparr>))"
    by (simp add: config_wf_def exShardConfig_def NShards_def len_def)
  from shard_store_never_answers [OF this] show ?thesis by blast
qed

end
