(* ===== verification/Sm_Config.thy ===== *)
theory Sm_Config
  imports Kv_Config Shard_Clerk
begin

section \<open>The test harness of the shard master\<close>

text \<open>
  Models \<^verbatim>\<open>src/shardmaster/config.go\<close>, which is the harness of \<^verbatim>\<open>src/kvraft/config.go\<close> for servers of another type. The choices
  that are arguments are those of the theory \<^verbatim>\<open>Kv_Config\<close>; \<^verbatim>\<open>random_handles\<close> and the loop of \<^verbatim>\<open>make_partition\<close> are the same
  code and are used from there.
\<close>

record 'c sc_config =
  sc_net :: "(string, int) Network"
  sc_n :: int
  sc_servers :: "'c ShardMaster option list"
  sc_saved :: "'c Persister option list"
  sc_endnames :: "string list option list"
  sc_clerks :: "nat \<rightharpoonup> string list"
  sc_nextClientId :: int

definition sc_set_net :: "(string, int) Network \<Rightarrow> 'c sc_config \<Rightarrow> 'c sc_config" where
  "sc_set_net rn cfg = cfg\<lparr>sc_net := rn\<rparr>"

text \<open>\<^verbatim>\<open>cfg.saved[i]\<close> is the persister of the peer of the running server \<open>i\<close>, which writes to it.\<close>

definition sc_content :: "'c sc_config \<Rightarrow> int \<Rightarrow> 'c Persister option go" where
  "sc_content cfg i =
     bindE (index (sc_saved cfg) i) (\<lambda>p.
     bindE (index (sc_servers cfg) i) (\<lambda>sm.
     Inr (case (p, sm) of (Some _, Some sm) \<Rightarrow> Some (persister (sm_rf sm)) | _ \<Rightarrow> p)))"

definition sc_All :: "'c sc_config \<Rightarrow> int list" where
  "sc_All cfg = [0..sc_n cfg - 1]"

definition sc_LogSize :: "('c bytes \<Rightarrow> int) \<Rightarrow> 'c sc_config \<Rightarrow> int go" where
  "sc_LogSize bytelen cfg = foldE (\<lambda>i logsize.
     bindE (sc_content cfg i) (\<lambda>p.
     case p of None \<Rightarrow> Inl NilDereference
     | Some p \<Rightarrow> (let n = RaftStateSize bytelen p in Inr (if n > logsize then n else logsize)))) (sc_All cfg) 0"

subsection \<open>Connecting servers\<close>

definition sc_endname :: "'c sc_config \<Rightarrow> int \<Rightarrow> int \<Rightarrow> string go" where
  "sc_endname cfg i j =
     bindE (index (sc_endnames cfg) i) (\<lambda>row. index (case row of None \<Rightarrow> [] | Some r \<Rightarrow> r) j)"

definition sc_enable :: "'c sc_config \<Rightarrow> int \<Rightarrow> int \<Rightarrow> bool \<Rightarrow> (string, int) Network \<Rightarrow> (string, int) Network go" where
  "sc_enable cfg a b on rn = bindE (sc_endname cfg a b) (\<lambda>e. Inr (Enable e on rn))"

definition sc_connectUnlocked :: "int \<Rightarrow> int list \<Rightarrow> 'c sc_config \<Rightarrow> 'c sc_config go" where
  "sc_connectUnlocked i to cfg =
     bindE (foldE (\<lambda>t. sc_enable cfg i t True) to (sc_net cfg)) (\<lambda>rn.
     bindE (foldE (\<lambda>t. sc_enable cfg t i True) to rn) (\<lambda>rn.
     Inr (sc_set_net rn cfg)))"

definition sc_disconnectUnlocked :: "int \<Rightarrow> int list \<Rightarrow> 'c sc_config \<Rightarrow> 'c sc_config go" where
  "sc_disconnectUnlocked i from cfg =
     bindE (foldE (\<lambda>t rn.
        bindE (index (sc_endnames cfg) i) (\<lambda>row.
        if row \<noteq> None then sc_enable cfg i t False rn else Inr rn)) from (sc_net cfg)) (\<lambda>rn.
     bindE (foldE (\<lambda>(j, t) rn.
        bindE (index (sc_endnames cfg) (int j)) (\<lambda>row.
        if row \<noteq> None then sc_enable cfg t i False rn else Inr rn)) (enumerate 0 from) rn) (\<lambda>rn.
     Inr (sc_set_net rn cfg)))"

definition sc_ConnectAll :: "'c sc_config \<Rightarrow> 'c sc_config go" where
  "sc_ConnectAll cfg = foldE (\<lambda>i. sc_connectUnlocked i (sc_All cfg)) (sc_All cfg) cfg"

definition sc_separate :: "int list \<Rightarrow> int list \<Rightarrow> int \<Rightarrow> 'c sc_config \<Rightarrow> 'c sc_config go" where
  "sc_separate own other i cfg = bindE (sc_disconnectUnlocked i other cfg) (sc_connectUnlocked i own)"

definition sc_partition :: "int list \<Rightarrow> int list \<Rightarrow> 'c sc_config \<Rightarrow> 'c sc_config go" where
  "sc_partition p1 p2 cfg =
     bindE (foldE (sc_separate p1 p2) p1 cfg) (foldE (sc_separate p2 p1) p2)"

subsection \<open>Clerks\<close>

definition sc_ConnectClientUnlocked :: "nat \<Rightarrow> int list \<Rightarrow> 'c sc_config \<Rightarrow> 'c sc_config go" where
  "sc_ConnectClientUnlocked ck to cfg =
     (let names = (case sc_clerks cfg ck of None \<Rightarrow> [] | Some v \<Rightarrow> v) in
      bindE (foldE (\<lambda>t rn. bindE (index names t) (\<lambda>e. Inr (Enable e True rn))) to (sc_net cfg)) (\<lambda>rn.
      Inr (sc_set_net rn cfg)))"

definition sc_DisconnectClientUnlocked :: "nat \<Rightarrow> int list \<Rightarrow> 'c sc_config \<Rightarrow> 'c sc_config go" where
  "sc_DisconnectClientUnlocked ck from cfg =
     (let names = (case sc_clerks cfg ck of None \<Rightarrow> [] | Some v \<Rightarrow> v) in
      bindE (foldE (\<lambda>t rn. bindE (index names t) (\<lambda>e. Inr (Enable e False rn))) from (sc_net cfg)) (\<lambda>rn.
      Inr (sc_set_net rn cfg)))"

definition sc_makeClient ::
  "nat \<Rightarrow> string list \<Rightarrow> (nat \<Rightarrow> nat) \<Rightarrow> int list \<Rightarrow> 'c sc_config \<Rightarrow> ('c sc_config \<times> string sm_Clerk) go" where
  "sc_makeClient ck names rnd to cfg =
     bindE (foldE (make_end names) (sc_All cfg) (sc_net cfg)) (\<lambda>rn.
     bindE (random_handles rnd names) (\<lambda>handles.
     let cfg = (sc_set_net rn cfg)\<lparr>sc_clerks := (sc_clerks cfg)(ck \<mapsto> names), sc_nextClientId := sc_nextClientId cfg + 1\<rparr> in
     bindE (sc_ConnectClientUnlocked ck to cfg) (\<lambda>cfg. Inr (cfg, sm_MakeClerk handles))))"

definition sc_deleteClient :: "nat \<Rightarrow> 'c sc_config \<Rightarrow> 'c sc_config" where
  "sc_deleteClient ck cfg = cfg\<lparr>sc_clerks := (sc_clerks cfg)(ck := None)\<rparr>"

subsection \<open>Servers\<close>

definition sc_ShutdownServer :: "int \<Rightarrow> 'c sc_config \<Rightarrow> 'c sc_config go" where
  "sc_ShutdownServer i cfg =
     bindE (sc_disconnectUnlocked i (sc_All cfg) cfg) (\<lambda>cfg.
     let cfg = sc_set_net (DeleteServer i (sc_net cfg)) cfg in
     bindE (sc_content cfg i) (\<lambda>p.
     bindE (set_index (sc_saved cfg) i (map_option Copy p)) (\<lambda>ps.
     bindE (set_index (sc_servers cfg) i None) (\<lambda>sms.
     Inr (cfg\<lparr>sc_saved := ps, sc_servers := sms\<rparr>)))))"

definition sc_StartServer :: "string list \<Rightarrow> int \<Rightarrow> nat \<Rightarrow> int \<Rightarrow> 'c sc_config \<Rightarrow> 'c sc_config go" where
  "sc_StartServer names r srv i cfg =
     bindE (set_index (sc_endnames cfg) i (Some names)) (\<lambda>rows.
     let cfg = cfg\<lparr>sc_endnames := rows\<rparr> in
     bindE (foldE (make_end names) (sc_All cfg) (sc_net cfg)) (\<lambda>rn.
     let cfg = sc_set_net rn cfg in
     bindE (sc_content cfg i) (\<lambda>p.
     let p = (case p of Some p \<Rightarrow> Copy p | None \<Rightarrow> MakePersister) in
     bindE (set_index (sc_saved cfg) i (Some p)) (\<lambda>ps.
     bindE (sm_StartServer r (nat (sc_n cfg)) i p) (\<lambda>sm.
     bindE (set_index (sc_servers cfg) i (Some sm)) (\<lambda>sms.
     Inr (sc_set_net (AddServer i srv (sc_net cfg)) (cfg\<lparr>sc_saved := ps, sc_servers := sms\<rparr>))))))))"

primrec sc_find_leader :: "'c sc_config \<Rightarrow> int list \<Rightarrow> (bool \<times> int) go" where
  "sc_find_leader cfg [] = Inr (False, 0)"
| "sc_find_leader cfg (i # is) =
     bindE (index (sc_servers cfg) i) (\<lambda>sm.
     case sm of
       None \<Rightarrow> Inl NilDereference
     | Some sm \<Rightarrow>
         bindE (GetState (sm_rf sm)) (\<lambda>(_, is_leader).
         if is_leader then Inr (True, i) else sc_find_leader cfg is))"

definition sc_Leader :: "'c sc_config \<Rightarrow> (bool \<times> int) go" where
  "sc_Leader cfg = sc_find_leader cfg (sc_All cfg)"

definition sc_make_partition :: "'c sc_config \<Rightarrow> (int list \<times> int list) go" where
  "sc_make_partition cfg = bindE (sc_Leader cfg) (\<lambda>(_, l). split_servers (sc_n cfg) l)"

definition sc_make_config ::
  "(int \<Rightarrow> string list) \<Rightarrow> (int \<Rightarrow> int) \<Rightarrow> (int \<Rightarrow> nat) \<Rightarrow> int \<Rightarrow> bool \<Rightarrow> 'c sc_config go" where
  "sc_make_config names r srv n unreliable =
     (let cfg = \<lparr>sc_net = MakeNetwork, sc_n = n, sc_servers = replicate (nat n) None, sc_saved = replicate (nat n) None,
                 sc_endnames = replicate (nat n) None, sc_clerks = Map.empty, sc_nextClientId = n + 1000\<rparr>
      in
      bindE (foldE (\<lambda>i. sc_StartServer (names i) (r i) (srv i) i) (sc_All cfg) cfg) (\<lambda>cfg.
      bindE (sc_ConnectAll cfg) (\<lambda>cfg.
      Inr (sc_set_net (Reliable (\<not> unreliable) (sc_net cfg)) cfg))))"

definition sc_cleanup :: "'c sc_config \<Rightarrow> 'c sc_config go" where
  "sc_cleanup cfg =
     (let cfg = cfg\<lparr>sc_servers := map (map_option ShardMaster_Kill) (sc_servers cfg)\<rparr>
      in bindE (Cleanup (sc_net cfg)) (\<lambda>rn. Inr (sc_set_net rn cfg)))"

end
