(* ===== verification/Sm_Harness.thy ===== *)
theory Sm_Harness
  imports Sm_Config Kv_Harness_Properties
begin

section \<open>The harness of the shard master refines the one of the key/value service\<close>

text \<open>
  The operations of \<^verbatim>\<open>src/shardmaster/config.go\<close> on ends and clerks do not look at the servers. Forgetting the servers turns a
  configuration into one of the key/value harness, and each operation does there what the operation of the same name in
  \<^verbatim>\<open>src/kvraft/config.go\<close> does; so what was shown about partitions holds here too.
\<close>

subsection \<open>Operations on a part of the state\<close>

text \<open>
  \<open>f\<close> on states implements \<open>g\<close> on views of states: it fails when \<open>g\<close> fails on the view, and otherwise
  puts the new view back.
\<close>

definition implements :: "('s \<Rightarrow> 'v) \<Rightarrow> ('s \<Rightarrow> 'v \<Rightarrow> 's) \<Rightarrow> ('s \<Rightarrow> 's go) \<Rightarrow> ('v \<Rightarrow> 'v go) \<Rightarrow> bool" where
  "implements view put f g \<longleftrightarrow>
     (\<forall>s. f s = bindE (g (view s)) (\<lambda>v. Inr (put s v)) \<and> (\<forall>v. g (view s) = Inr v \<longrightarrow> view (put s v) = v))"

locale state_view =
  fixes view :: "'s \<Rightarrow> 'v" and put :: "'s \<Rightarrow> 'v \<Rightarrow> 's"
  assumes put_view: "put s (view s) = s" and put_put: "put (put s v) w = put s w"
begin

lemma implements_return: "implements view put Inr Inr"
  by (simp add: implements_def put_view)

lemma implements_bind:
  assumes "implements view put f g" "implements view put f' g'"
  shows "implements view put (\<lambda>s. bindE (f s) f') (\<lambda>v. bindE (g v) g')"
  unfolding implements_def
proof (intro allI conjI impI)
  fix s
  have f: "f s = bindE (g (view s)) (\<lambda>v. Inr (put s v))" and v: "\<And>v. g (view s) = Inr v \<Longrightarrow> view (put s v) = v"
    and f': "\<And>s. f' s = bindE (g' (view s)) (\<lambda>v. Inr (put s v))" "\<And>s v. g' (view s) = Inr v \<Longrightarrow> view (put s v) = v"
    using assms unfolding implements_def by blast+
  show "bindE (f s) f' = bindE (bindE (g (view s)) g') (\<lambda>v. Inr (put s v))"
  proof (cases "g (view s)")
    case (Inr v)
    then show ?thesis using f f'(1) [of "put s v"] v by (simp add: put_put bindE_assoc)
  qed (use f in simp)
  fix w assume "bindE (g (view s)) g' = Inr w"
  then obtain v where "g (view s) = Inr v" "g' v = Inr w" by (auto simp: bindE_eq_Inr)
  then show "view (put s w) = w" using v f'(2) [of "put s v" w] by (simp add: put_put)
qed

lemma implements_foldE:
  assumes "\<And>x. x \<in> set xs \<Longrightarrow> implements view put (f x) (g x)"
  shows "implements view put (foldE f xs) (foldE g xs)"
  using assms
proof (induction xs)
  case Nil
  have "foldE f [] = Inr" "foldE g [] = Inr" by (simp_all add: fun_eq_iff)
  then show ?case using implements_return by simp
next
  case (Cons x xs)
  have "foldE f (x # xs) = (\<lambda>s. bindE (f x s) (foldE f xs))" "foldE g (x # xs) = (\<lambda>s. bindE (g x s) (foldE g xs))"
    by (simp_all add: fun_eq_iff)
  then show ?case using implements_bind Cons by simp
qed

lemma implements_result: "implements view put f g \<Longrightarrow> g (view s) = Inr v \<Longrightarrow> f s = Inr (put s v)"
  by (simp add: implements_def)

end

subsection \<open>Forgetting the servers\<close>

definition as_kv :: "'c sc_config \<Rightarrow> kv_config" where
  "as_kv cfg = \<lparr>kc_net = sc_net cfg, kc_n = sc_n cfg, kvservers = [], kc_saved = [], kc_endnames = sc_endnames cfg,
     clerks = sc_clerks cfg, nextClientId = sc_nextClientId cfg, kc_maxraftstate = 0\<rparr>"

definition with_kv :: "'c sc_config \<Rightarrow> kv_config \<Rightarrow> 'c sc_config" where
  "with_kv cfg k = cfg\<lparr>sc_net := kc_net k, sc_n := kc_n k, sc_endnames := kc_endnames k, sc_clerks := clerks k, sc_nextClientId := nextClientId k\<rparr>"

interpretation sm_kv: state_view as_kv with_kv
  by unfold_locales (simp_all add: as_kv_def with_kv_def)

lemma as_kv_simps [simp]:
  "kc_net (as_kv cfg) = sc_net cfg" "kc_n (as_kv cfg) = sc_n cfg" "kc_endnames (as_kv cfg) = sc_endnames cfg"
  "clerks (as_kv cfg) = sc_clerks cfg" "nextClientId (as_kv cfg) = sc_nextClientId cfg" "kc_All (as_kv cfg) = sc_All cfg"
  "kc_endname (as_kv cfg) = sc_endname cfg" "enable_server_end (as_kv cfg) = sc_enable cfg"
  by (auto simp: as_kv_def fun_eq_iff kc_All_def sc_All_def kc_endname_def kc_row_def sc_endname_def enable_server_end_def sc_enable_def
      bindE_def split: sum.splits)

lemma put_net [simp]: "with_kv cfg (kc_set_net rn (as_kv cfg)) = sc_set_net rn cfg" "as_kv (sc_set_net rn cfg) = kc_set_net rn (as_kv cfg)"
  by (simp_all add: as_kv_def with_kv_def kc_set_net_def sc_set_net_def)

text \<open>An operation that only changes the network.\<close>

lemma implements_net:
  assumes "\<And>cfg. f cfg = bindE (h cfg) (\<lambda>rn. Inr (sc_set_net rn cfg))" "\<And>cfg. g (as_kv cfg) = bindE (h cfg) (\<lambda>rn. Inr (kc_set_net rn (as_kv cfg)))"
  shows "implements as_kv with_kv f g"
  unfolding implements_def using assms by (auto simp: bindE_assoc bindE_eq_Inr)

lemma server_ops_refine:
  "implements as_kv with_kv (sc_connectUnlocked i to) (connectUnlocked i to)"
  "implements as_kv with_kv (sc_disconnectUnlocked i from) (disconnectUnlocked i from)"
  by (rule implements_net; simp add: sc_connectUnlocked_def connectUnlocked_def sc_disconnectUnlocked_def disconnectUnlocked_def bindE_assoc [symmetric] cong: if_cong)+

lemma client_ops_refine:
  "implements as_kv with_kv (sc_ConnectClientUnlocked ck to) (ConnectClientUnlocked ck to)"
  "implements as_kv with_kv (sc_DisconnectClientUnlocked ck from) (DisconnectClientUnlocked ck from)"
  by (rule implements_net; simp add: sc_ConnectClientUnlocked_def ConnectClientUnlocked_def sc_DisconnectClientUnlocked_def
      DisconnectClientUnlocked_def Let_def)+

lemma separate_refines: "implements as_kv with_kv (sc_separate own other i) (separate own other i)"
  using sm_kv.implements_bind [OF server_ops_refine(2) server_ops_refine(1)]
  by (simp add: sc_separate_def [abs_def] separate_def [abs_def])

lemma partition_refines: "implements as_kv with_kv (sc_partition p1 p2) (kc_partition p1 p2)"
  using sm_kv.implements_bind [OF sm_kv.implements_foldE sm_kv.implements_foldE, OF separate_refines separate_refines]
  by (simp add: sc_partition_def [abs_def] kc_partition_def [abs_def])

subsection \<open>Partitions\<close>

lemma sc_find_leader_result:
  "sc_find_leader cfg is = Inr (True, l) \<Longrightarrow>
   l \<in> set is \<and> (\<exists>sm. index (sc_servers cfg) l = Inr (Some sm) \<and> tp (sm_rf sm) = 2)"
proof (induction "is")
  case (Cons i "is")
  then obtain sm t b where sm: "index (sc_servers cfg) i = Inr (Some sm)" "GetState (sm_rf sm) = Inr (t, b)"
    by (auto simp: bindE_eq_Inr split: option.split_asm)
  show ?case
  proof (cases b)
    case True
    then show ?thesis using sm Cons.prems
      by (auto simp: GetState_def with_lock_def Let_def split: if_split_asm)
  next
    case False
    then show ?thesis using sm Cons by auto
  qed
qed simp

text \<open>
  With an odd number of servers and a leader among them \<^verbatim>\<open>make_partition\<close> puts the leader into the minority, and after \<^verbatim>\<open>partition\<close>
  exactly the ends within the two groups are enabled.
\<close>

lemma sc_partition_isolates_leader:
  assumes "all_started (as_kv cfg)" "odd (sc_n cfg)" "3 \<le> sc_n cfg" "sc_Leader cfg = Inr (True, l)"
  shows "\<exists>sm p1 p2 cfg'. index (sc_servers cfg) l = Inr (Some sm) \<and> tp (sm_rf sm) = 2 \<and>
    sc_make_partition cfg = Inr (p1, p2) \<and> sc_partition p1 p2 cfg = Inr cfg' \<and>
    distinct (p1 @ p2) \<and> set (p1 @ p2) = {i. 0 \<le> i \<and> i < sc_n cfg} \<and> l \<in> set p2 \<and> sc_n cfg < 2 * len p1 \<and>
    (\<forall>a b e. a \<in> set (p1 @ p2) \<and> b \<in> set (p1 @ p2) \<and> sc_endname cfg a b = Inr e \<longrightarrow>
       (is_enabled (sc_net cfg') e \<longleftrightarrow> (a \<in> set p1 \<longleftrightarrow> b \<in> set p1)))"
proof -
  obtain sm where l: "0 \<le> l" "l < sc_n cfg" and sm: "index (sc_servers cfg) l = Inr (Some sm)" "tp (sm_rf sm) = 2"
    using sc_find_leader_result assms(4) unfolding sc_Leader_def by (fastforce simp: sc_All_def)
  obtain p1 p2 rn where p: "split_servers (sc_n cfg) l = Inr (p1, p2)" "kc_partition p1 p2 (as_kv cfg) = Inr (kc_set_net rn (as_kv cfg))"
    "distinct (p1 @ p2)" "set (p1 @ p2) = {i. 0 \<le> i \<and> i < sc_n cfg}" "l \<in> set p2" "sc_n cfg < 2 * len p1"
    "\<forall>a b e. a \<in> set (p1 @ p2) \<and> b \<in> set (p1 @ p2) \<and> sc_endname cfg a b = Inr e \<longrightarrow>
       (is_enabled rn e \<longleftrightarrow> (a \<in> set p1 \<longleftrightarrow> b \<in> set p1))"
    using split_partition [of "as_kv cfg" l, unfolded as_kv_simps, OF assms(1-3) l] by blast
  have mp: "sc_make_partition cfg = Inr (p1, p2)" using assms(4) p(1) by (simp add: sc_make_partition_def)
  have "sc_partition p1 p2 cfg = Inr (sc_set_net rn cfg)"
    using sm_kv.implements_result [OF partition_refines p(2)] by simp
  then show ?thesis
    by (intro exI [of _ sm] exI [of _ p1] exI [of _ p2] exI [of _ "sc_set_net rn cfg"] conjI)
      (use sm mp p(3-7) in \<open>simp_all add: sc_set_net_def\<close>)
qed

subsection \<open>Restarting a server\<close>

text \<open>
  A master that is shut down and started again: it is not registered in between, the new one has the term, the
  vote and the log of the old one and the first configuration only, and no end from or to the old one is enabled.
\<close>

lemma sc_shutdown_restart:
  fixes cfg :: "'c sc_config"
  assumes started: "all_started (as_kv cfg)" and i: "0 \<le> i" "i < sc_n cfg" and lens: "len (sc_saved cfg) = sc_n cfg" "len (sc_servers cfg) = sc_n cfg"
    and sm: "sc_servers cfg ! nat i = Some sm" "sc_saved cfg ! nat i \<noteq> None"
    and inv: "node_inv (sm_rf sm)" "log (sm_rf sm) \<noteq> []" and names: "kc_fresh names (as_kv cfg)"
  shows "\<exists>cfg1 cfg2 sm'. sc_ShutdownServer i cfg = Inr cfg1 \<and> server_at (sc_net cfg1) i = None \<and>
    sc_StartServer names r srv i cfg1 = Inr cfg2 \<and> sc_servers cfg2 ! nat i = Some sm' \<and>
    currentTerm (sm_rf sm') = currentTerm (sm_rf sm) \<and> votedFor (sm_rf sm') = votedFor (sm_rf sm) \<and> log (sm_rf sm') = log (sm_rf sm) \<and>
    sm_configs sm' = [zero_Config\<lparr>Groups := Some Map.empty\<rparr>] \<and> server_at (sc_net cfg2) i = Some srv \<and>
    (\<forall>j. 0 \<le> j \<and> j < sc_n cfg \<longrightarrow> connection (sc_net cfg2) (names ! nat j) = Some j \<and>
       \<not> is_enabled (sc_net cfg2) (kc_name (as_kv cfg) i j) \<and> \<not> is_enabled (sc_net cfg2) (kc_name (as_kv cfg) j i))"
proof -
  let ?k = "as_kv cfg" and ?p = "persister (sm_rf sm)"
  let ?rn = "DeleteServer i (set_enabled (ends_of ?k i (sc_All cfg)) False (sc_net cfg))"
  have srv: "kc_server ?k i" "set (sc_All cfg) = {j. kc_server ?k j}" "len (sc_All cfg) \<le> sc_n cfg"
    using i by (auto simp: sc_All_def kc_server_def len_def)
  have "disconnectUnlocked i (sc_All cfg) ?k = Inr (kc_set_net (set_enabled (ends_of ?k i (sc_All cfg)) False (sc_net cfg)) ?k)"
    using disconnectUnlocked_eq [OF started srv(1), of "sc_All cfg"] srv(2,3) by auto
  from sm_kv.implements_result [OF server_ops_refine(2) this]
  have d: "sc_disconnectUnlocked i (sc_All cfg) cfg = Inr (sc_set_net (set_enabled (ends_of ?k i (sc_All cfg)) False (sc_net cfg)) cfg)" by simp
  let ?cfg1 = "(sc_set_net ?rn cfg)\<lparr>sc_saved := (sc_saved cfg)[nat i := Some ?p], sc_servers := (sc_servers cfg)[nat i := None]\<rparr>"
  have c: "sc_content (sc_set_net rn cfg) i = Inr (Some ?p)" for rn
    using lens sm i by (auto simp: sc_content_def sc_set_net_def index_def)
  have 1: "sc_ShutdownServer i cfg = Inr ?cfg1"
    using d c [of ?rn] lens i by (simp add: sc_ShutdownServer_def Let_def set_index_def) (simp add: sc_set_net_def)
  have st: "raftstate ?p = encode_state (currentTerm (sm_rf sm)) (votedFor (sm_rf sm)) (log (sm_rf sm))"
    using inv(1) by (simp add: node_inv_def persisted_def)
  obtain rf where rf: "Make r (nat (sc_n cfg)) i ?p = Inr rf" using Make_returns [OF st, of i "nat (sc_n cfg)"] i by auto
  have e: "currentTerm rf = currentTerm (sm_rf sm)" "votedFor rf = votedFor (sm_rf sm)" "log rf = log (sm_rf sm)"
    using Make_effect [OF rf st] inv by (auto simp: node_inv_def)
  let ?sm = "\<lparr>sm_me = i, sm_rf = rf, sm_configs = [zero_Config\<lparr>Groups := Some Map.empty\<rparr>]\<rparr>"
  have "ends ?rn = ends (kc_net ?k)" by (simp add: DeleteServer_def set_enabled_def)
  from kc_make_ends [OF names this]
  obtain rn2 where 2: "foldE (make_end names) (sc_All cfg) ?rn = Inr rn2" "ends_made names (sc_All cfg) ?rn rn2" by auto
  let ?cfg2 = "(sc_set_net (AddServer i srv rn2) ?cfg1)\<lparr>sc_endnames := (sc_endnames cfg)[nat i := Some names],
    sc_saved := (sc_saved cfg)[nat i := Some ?p], sc_servers := (sc_servers cfg)[nat i := Some ?sm]\<rparr>"
  have "len (sc_endnames cfg) = sc_n cfg" using started by (simp add: all_started_def)
  then have 3: "sc_StartServer names r srv i ?cfg1 = Inr ?cfg2"
    using 2(1) lens i rf
    by (simp add: sc_StartServer_def Let_def set_index_def sc_set_net_def sc_All_def sc_content_def index_def sm_StartServer_def Copy_same len_def)
  have off: "\<not> is_enabled rn2 (kc_name ?k i j)" "\<not> is_enabled rn2 (kc_name ?k j i)" "connection rn2 (names ! nat j) = Some j"
    if "0 \<le> j" "j < sc_n cfg" for j
  proof -
    have "j \<in> set (sc_All cfg)" using that by (simp add: sc_All_def)
    then show "\<not> is_enabled rn2 (kc_name ?k i j)" "\<not> is_enabled rn2 (kc_name ?k j i)" "connection rn2 (names ! nat j) = Some j"
      using 2(2) unfolding ends_made_def Let_def by (auto simp: delete_facts ends_of_def)
  qed
  show ?thesis
  proof (rule exI [of _ ?cfg1], rule exI [of _ ?cfg2], rule exI [of _ ?sm], intro conjI allI impI)
    show "server_at (sc_net ?cfg1) i = None" by (simp add: sc_set_net_def delete_facts)
  qed (use 1 3 e off lens i in \<open>simp_all add: sc_set_net_def add_facts len_def\<close>)
qed

end
