(* ===== verification/Sk_Config.thy ===== *)
theory Sk_Config
  imports Shard_Clerk Labrpc
begin

section \<open>The test harness of the sharded store\<close>

text \<open>
  Models \<^verbatim>\<open>src/shardkv/config.go\<close>: three masters and three groups of servers on one network whose servers have
  names. As in the other harnesses the random names of ends, the random numbers and the addresses of server objects are
  arguments, a clerk is referred to by a number, and a failed test is a value. The time limit is left out.
\<close>

subsection \<open>The configuration\<close>

type_synonym sk_net = "(string, string) Network"
type_synonym sk_end = "string ClientEnd"

text \<open>What a call of \<^verbatim>\<open>make_end\<close> does with the random name it draws.\<close>

type_synonym dialer = "string \<Rightarrow> sk_net \<Rightarrow> (sk_net \<times> sk_end) go"

text \<open>
  \<^verbatim>\<open>gg.saved[i]\<close> is the persister of the peer of the running server \<open>i\<close>, which writes to it. A row of names
  that was never made is the nil slice, with no elements.
\<close>

record 'c kv_group =
  gid :: int
  gg_servers :: "(dialer, sk_end, 'c) ShardKV option list"
  gg_saved :: "'c Persister option list"
  gg_endnames :: "string list list"
  gg_mendnames :: "string list list"

record 'c sk_config =
  skc_net :: sk_net
  nmasters :: int
  masterservers :: "'c ShardMaster option list"
  mck :: "sk_end sm_Clerk option"
  ngroups :: int
  skc_n :: int
  groups :: "'c kv_group option list"
  skc_clerks :: "(nat, string list) gomap"
  skc_nextClientId :: int
  skc_maxraftstate :: int

definition upto_n :: "int \<Rightarrow> int list" where
  "upto_n n = [0..n - 1]"

definition group_at :: "'c sk_config \<Rightarrow> int \<Rightarrow> 'c kv_group go" where
  "group_at cfg gi =
     bindE (index (groups cfg) gi) (\<lambda>gg. case gg of None \<Rightarrow> Inl NilDereference | Some gg \<Rightarrow> Inr gg)"

definition set_group :: "int \<Rightarrow> 'c kv_group \<Rightarrow> 'c sk_config \<Rightarrow> 'c sk_config go" where
  "set_group gi gg cfg = bindE (set_index (groups cfg) gi (Some gg)) (\<lambda>gs. Inr (cfg\<lparr>groups := gs\<rparr>))"

definition gg_content :: "'c kv_group \<Rightarrow> int \<Rightarrow> 'c Persister option go" where
  "gg_content gg i =
     bindE (index (gg_saved gg) i) (\<lambda>p.
     bindE (index (gg_servers gg) i) (\<lambda>kv.
     Inr (case (p, kv) of (Some _, Some kv) \<Rightarrow> Some (persister (skv_rf kv)) | _ \<Rightarrow> p)))"

subsection \<open>Names and ends\<close>

definition mastername :: "int \<Rightarrow> string" where
  "mastername i = ''master'' @ Itoa i"

definition servername :: "int \<Rightarrow> int \<Rightarrow> string" where
  "servername g i = ''server-'' @ Itoa g @ ''-'' @ Itoa i"

text \<open>An end that is made, connected and enabled: the function that servers and clerks get as \<^verbatim>\<open>make_end\<close>.\<close>

definition dial :: "string \<Rightarrow> dialer" where
  "dial srv name rn =
     bindE (MakeEnd name rn) (\<lambda>(rn, e). Inr (Enable name True (Connect name srv rn), e))"

text \<open>
  The loops that fill a slice of ends; the slice has exactly as many places as the loop has turns. In the
  second one each turn first writes the name into a slice that was allocated before, which may be too short.
\<close>

definition open_end :: "(int \<Rightarrow> string) \<Rightarrow> (int \<Rightarrow> string) \<Rightarrow> int \<Rightarrow> sk_end list \<times> sk_net \<Rightarrow> (sk_end list \<times> sk_net) go" where
  "open_end target rnd j = (\<lambda>(es, rn).
     bindE (dial (target j) (rnd j) rn) (\<lambda>(rn, e). Inr (es @ [e], rn)))"

definition open_named ::
  "(int \<Rightarrow> string) \<Rightarrow> int \<Rightarrow> string list \<times> sk_end list \<times> sk_net \<Rightarrow> (string list \<times> sk_end list \<times> sk_net) go" where
  "open_named rnd j = (\<lambda>(names, es, rn).
     bindE (set_index names j (rnd j)) (\<lambda>names.
     bindE (open_end mastername rnd j (es, rn)) (\<lambda>(es, rn). Inr (names, es, rn))))"

subsection \<open>Clerks\<close>

definition sk_makeClient :: "nat \<Rightarrow> (int \<Rightarrow> string) \<Rightarrow> 'c sk_config \<Rightarrow> ('c sk_config \<times> sk_end sk_Clerk) go" where
  "sk_makeClient ck rnd cfg =
     bindE (foldE (open_named rnd) (upto_n (nmasters cfg)) (replicate (nat (skc_n cfg)) '''', [], skc_net cfg)) (\<lambda>(names, es, rn).
     bindE (map_set (skc_clerks cfg) ck names) (\<lambda>cs.
     Inr (cfg\<lparr>skc_net := rn, skc_clerks := cs, skc_nextClientId := skc_nextClientId cfg + 1\<rparr>, sk_MakeClerk es)))"

text \<open>Removing the files with the names of the ends, of which there are none, has no effect.\<close>

definition sk_deleteClient :: "nat \<Rightarrow> 'c sk_config \<Rightarrow> 'c sk_config" where
  "sk_deleteClient ck cfg = cfg\<lparr>skc_clerks := map_option (\<lambda>m. m(ck := None)) (skc_clerks cfg)\<rparr>"

definition shardclerk :: "(int \<Rightarrow> string) \<Rightarrow> 'c sk_config \<Rightarrow> ('c sk_config \<times> sk_end sm_Clerk) go" where
  "shardclerk rnd cfg =
     bindE (foldE (open_end mastername rnd) (upto_n (nmasters cfg)) ([], skc_net cfg)) (\<lambda>(es, rn).
     Inr (cfg\<lparr>skc_net := rn\<rparr>, sm_MakeClerk es))"

subsection \<open>Random choices\<close>

text \<open>The random strings that the harness draws, by what they are used for, and the other choices of \<^verbatim>\<open>make_config\<close>.\<close>

datatype draw =
    MasterEnd int int      \<comment> \<open>the master, and the master it talks to\<close>
  | MckEnd int
  | ClerkEnd nat int       \<comment> \<open>the clerk, and the master it talks to\<close>
  | PeerEnd nat int int int    \<comment> \<open>how often the server was started before, its group, its number, and the server it talks to\<close>
  | ServerEnd nat int int int  \<comment> \<open>the same for the master it talks to\<close>

record choices =
  end_name :: "draw \<Rightarrow> string"
  master_rnd :: "int \<Rightarrow> int"
  master_addr :: "int \<Rightarrow> nat"
  server_rnd :: "nat \<Rightarrow> int \<Rightarrow> int \<Rightarrow> int"
  server_addr :: "nat \<Rightarrow> int \<Rightarrow> int \<Rightarrow> nat"

subsection \<open>Servers of a group\<close>

definition sk_ShutdownServer :: "int \<Rightarrow> int \<Rightarrow> 'c sk_config \<Rightarrow> 'c sk_config go" where
  "sk_ShutdownServer gi i cfg =
     bindE (group_at cfg gi) (\<lambda>gg.
     bindE (foldE (\<lambda>j rn. bindE (index (gg_endnames gg) i) (\<lambda>row. bindE (index row j) (\<lambda>name. Inr (Enable name False rn))))
              (upto_n (len (gg_servers gg))) (skc_net cfg)) (\<lambda>rn.
     bindE (index (gg_mendnames gg) i) (\<lambda>mrow.
     bindE (foldE (\<lambda>name rn. Inr (Enable name False rn)) mrow rn) (\<lambda>rn.
     let rn = DeleteServer (servername (gid gg) i) rn in
     bindE (gg_content gg i) (\<lambda>p.
     bindE (set_index (gg_saved gg) i (map_option Copy p)) (\<lambda>ps.
     bindE (set_index (gg_servers gg) i None) (\<lambda>kvs.
     set_group gi (gg\<lparr>gg_saved := ps, gg_servers := kvs\<rparr>) (cfg\<lparr>skc_net := rn\<rparr>))))))))"

definition ShutdownGroup :: "int \<Rightarrow> 'c sk_config \<Rightarrow> 'c sk_config go" where
  "ShutdownGroup gi cfg = foldE (sk_ShutdownServer gi) (upto_n (skc_n cfg)) cfg"

text \<open>
  \<open>rndE\<close> and \<open>rndM\<close> are the names of the ends to the servers of the group and to the masters, \<open>r\<close> is the random
  number the new peer draws and \<open>srv\<close> the address of the new server object.
\<close>

definition sk_start :: "(int \<Rightarrow> string) \<Rightarrow> (int \<Rightarrow> string) \<Rightarrow> int \<Rightarrow> nat \<Rightarrow> int \<Rightarrow> int \<Rightarrow> 'c sk_config \<Rightarrow> 'c sk_config go" where
  "sk_start rndE rndM r srv gi i cfg =
     bindE (group_at cfg gi) (\<lambda>gg.
     bindE (set_index (gg_endnames gg) i (map rndE (upto_n (skc_n cfg)))) (\<lambda>rows.
     bindE (foldE (open_end (servername (gid gg)) rndE) (upto_n (skc_n cfg)) ([], skc_net cfg)) (\<lambda>(es, rn).
     bindE (set_index (gg_mendnames gg) i (replicate (nat (nmasters cfg)) '''')) (\<lambda>mrows.
     bindE (foldE (open_named rndM) (upto_n (nmasters cfg)) (replicate (nat (nmasters cfg)) '''', [], rn)) (\<lambda>(mnames, mes, rn).
     bindE (set_index mrows i mnames) (\<lambda>mrows.
     bindE (gg_content gg i) (\<lambda>p.
     let p = (case p of Some p \<Rightarrow> Copy p | None \<Rightarrow> MakePersister) in
     bindE (set_index (gg_saved gg) i (Some p)) (\<lambda>ps.
     bindE (sk_StartServer r (length es) i p (skc_maxraftstate cfg) (gid gg) mes dial) (\<lambda>kv.
     bindE (set_index (gg_servers gg) i (Some kv)) (\<lambda>kvs.
     set_group gi (gg\<lparr>gg_servers := kvs, gg_saved := ps, gg_endnames := rows, gg_mendnames := mrows\<rparr>)
       (cfg\<lparr>skc_net := AddServer (servername (gid gg) i) srv rn\<rparr>)))))))))))"

definition start_of :: "choices \<Rightarrow> nat \<Rightarrow> int \<Rightarrow> int \<Rightarrow> 'c sk_config \<Rightarrow> 'c sk_config go" where
  "start_of ch h gi i =
     sk_start (\<lambda>j. end_name ch (PeerEnd h gi i j)) (\<lambda>j. end_name ch (ServerEnd h gi i j)) (server_rnd ch h gi i) (server_addr ch h gi i) gi i"

definition StartGroup :: "choices \<Rightarrow> nat \<Rightarrow> int \<Rightarrow> 'c sk_config \<Rightarrow> 'c sk_config go" where
  "StartGroup ch h gi cfg = foldE (start_of ch h gi) (upto_n (skc_n cfg)) cfg"

subsection \<open>Masters\<close>

definition StartMasterServer :: "(int \<Rightarrow> string) \<Rightarrow> int \<Rightarrow> nat \<Rightarrow> int \<Rightarrow> 'c sk_config \<Rightarrow> 'c sk_config go" where
  "StartMasterServer rnd r srv i cfg =
     bindE (foldE (open_end mastername rnd) (upto_n (nmasters cfg)) ([], skc_net cfg)) (\<lambda>(es, rn).
     bindE (sm_StartServer r (length es) i MakePersister) (\<lambda>sm.
     bindE (set_index (masterservers cfg) i (Some sm)) (\<lambda>sms.
     Inr (cfg\<lparr>skc_net := AddServer (mastername i) srv rn, masterservers := sms\<rparr>))))"

subsection \<open>Joining and leaving\<close>

text \<open>The calls of the harness's clerk, with what the network does and the fuel of the clerk's loop as in \<^verbatim>\<open>Shard_Clerk\<close>.\<close>

definition group_names :: "'c sk_config \<Rightarrow> int \<Rightarrow> (int \<rightharpoonup> string list) \<Rightarrow> (int \<rightharpoonup> string list) go" where
  "group_names cfg g mp =
     bindE (group_at cfg g) (\<lambda>gg. Inr (mp(gid gg \<mapsto> map (servername (gid gg)) (upto_n (skc_n cfg)))))"

definition joinm ::
  "(JoinArgs \<Rightarrow> nat \<Rightarrow> sk_end \<Rightarrow> bool \<times> UpdateReply) \<Rightarrow> nat \<Rightarrow> int list \<Rightarrow> nat \<Rightarrow> 'c sk_config \<Rightarrow> nat option go" where
  "joinm net fuel gis k cfg =
     bindE (foldE (group_names cfg) gis Map.empty) (\<lambda>mp.
     case mck cfg of None \<Rightarrow> Inl NilDereference | Some ck \<Rightarrow> Inr (sm_Join net fuel ck (Some mp) k))"

definition sk_join where
  "sk_join net fuel gi k cfg = joinm net fuel [gi] k cfg"

definition leavem ::
  "(LeaveArgs \<Rightarrow> nat \<Rightarrow> sk_end \<Rightarrow> bool \<times> UpdateReply) \<Rightarrow> nat \<Rightarrow> int list \<Rightarrow> nat \<Rightarrow> 'c sk_config \<Rightarrow> nat option go" where
  "leavem net fuel gis k cfg =
     bindE (foldE (\<lambda>g gids. bindE (group_at cfg g) (\<lambda>gg. Inr (gids @ [gid gg]))) gis []) (\<lambda>gids.
     case mck cfg of None \<Rightarrow> Inl NilDereference | Some ck \<Rightarrow> Inr (sm_Leave net fuel ck gids k))"

definition sk_leave where
  "sk_leave net fuel gi k cfg = leavem net fuel [gi] k cfg"

subsection \<open>Checks, creation and cleanup\<close>

text \<open>\<^verbatim>\<open>checklogs\<close>, with the length in bytes as a parameter.\<close>

definition checklog :: "('c bytes \<Rightarrow> int) \<Rightarrow> 'c sk_config \<Rightarrow> int \<times> int \<Rightarrow> unit go" where
  "checklog bytelen cfg = (\<lambda>(gi, i).
     bindE (group_at cfg gi) (\<lambda>gg.
     bindE (gg_content gg i) (\<lambda>p.
     case p of None \<Rightarrow> Inl NilDereference
     | Some p \<Rightarrow>
         let raft = RaftStateSize bytelen p; snap = bytelen (ReadSnapshot p) in
         if skc_maxraftstate cfg \<ge> 0 \<and> raft > 8 * skc_maxraftstate cfg then Inl (Fatal ''persister.RaftStateSize()'')
         else if skc_maxraftstate cfg < 0 \<and> snap > 0 then Inl (Fatal ''maxraftstate is -1, but snapshot is non-empty!'')
         else Inr ())))"

definition checklogs :: "('c bytes \<Rightarrow> int) \<Rightarrow> 'c sk_config \<Rightarrow> unit go" where
  "checklogs bytelen cfg =
     foldE (\<lambda>gi_i _. checklog bytelen cfg gi_i) (List.product (upto_n (ngroups cfg)) (upto_n (skc_n cfg))) ()"

definition new_group :: "int \<Rightarrow> 'c sk_config \<Rightarrow> 'c kv_group" where
  "new_group gi cfg =
     \<lparr>gid = 100 + gi, gg_servers = replicate (nat (skc_n cfg)) None, gg_saved = replicate (nat (skc_n cfg)) None,
      gg_endnames = replicate (nat (skc_n cfg)) [], gg_mendnames = replicate (nat (nmasters cfg)) []\<rparr>"

definition make_group :: "choices \<Rightarrow> int \<Rightarrow> 'c sk_config \<Rightarrow> 'c sk_config go" where
  "make_group ch gi cfg =
     bindE (set_group gi (new_group gi cfg) cfg) (\<lambda>cfg. foldE (start_of ch 0 gi) (upto_n (skc_n cfg)) cfg)"

definition sk_make_config :: "choices \<Rightarrow> int \<Rightarrow> bool \<Rightarrow> int \<Rightarrow> 'c sk_config go" where
  "sk_make_config ch n unreliable mx =
     (let cfg = \<lparr>skc_net = MakeNetwork, nmasters = 3, masterservers = replicate 3 None, mck = None, ngroups = 0, skc_n = 0,
                 groups = [], skc_clerks = None, skc_nextClientId = 0, skc_maxraftstate = mx\<rparr> in
      bindE (foldE (\<lambda>i. StartMasterServer (\<lambda>j. end_name ch (MasterEnd i j)) (master_rnd ch i) (master_addr ch i) i)
               (upto_n (nmasters cfg)) cfg) (\<lambda>cfg.
      bindE (shardclerk (\<lambda>j. end_name ch (MckEnd j)) cfg) (\<lambda>(cfg, ck).
      let cfg = cfg\<lparr>mck := Some ck, ngroups := 3, groups := replicate 3 None, skc_n := n\<rparr> in
      bindE (foldE (make_group ch) (upto_n (ngroups cfg)) cfg) (\<lambda>cfg.
      let cfg = cfg\<lparr>skc_clerks := Some Map.empty, skc_nextClientId := skc_n cfg + 1000\<rparr> in
      Inr (cfg\<lparr>skc_net := Reliable (\<not> unreliable) (skc_net cfg)\<rparr>)))))"

definition sk_cleanup :: "'c sk_config \<Rightarrow> 'c sk_config go" where
  "sk_cleanup cfg =
     bindE (foldE ShutdownGroup (upto_n (ngroups cfg)) cfg) (\<lambda>cfg.
     bindE (Cleanup (skc_net cfg)) (\<lambda>rn. Inr (cfg\<lparr>skc_net := rn\<rparr>)))"

end
