(* ===== verification/Sk_Harness.thy ===== *)
theory Sk_Harness
  imports Sk_Config Raft_Node
begin

section \<open>The harness of the sharded store: ends, servers and groups\<close>

text \<open>
  What the loops of \<^verbatim>\<open>src/shardkv/config.go\<close> do to the network. The network is described by the set of draws whose ends exist,
  each of which leads where the loop that made it meant it to lead; the starting of masters, servers and groups
  extends this description.
\<close>

subsection \<open>Names of servers\<close>

lemma name_inject:
  "0 \<le> i \<Longrightarrow> 0 \<le> i' \<Longrightarrow> mastername i = mastername i' \<longleftrightarrow> i = i'"
  "0 \<le> g \<Longrightarrow> 0 \<le> i \<Longrightarrow> 0 \<le> g' \<Longrightarrow> 0 \<le> i' \<Longrightarrow> servername g i = servername g' i' \<longleftrightarrow> g = g' \<and> i = i'"
  "mastername i \<noteq> servername g k" "servername g k \<noteq> mastername i"
proof -
  have Itoa: "Itoa a = Itoa b \<longleftrightarrow> a = b" if "0 \<le> a" "0 \<le> b" for a b
    using that Itoa_inject [of "nat a" "nat b"] by auto
  show "0 \<le> i \<Longrightarrow> 0 \<le> i' \<Longrightarrow> mastername i = mastername i' \<longleftrightarrow> i = i'"
    using Itoa by (simp add: mastername_def)
  assume nn: "0 \<le> g" "0 \<le> i" "0 \<le> g'" "0 \<le> i'"
  show "servername g i = servername g' i' \<longleftrightarrow> g = g' \<and> i = i'"
  proof
    assume "servername g i = servername g' i'"
    then have "Itoa g @ ''-'' @ Itoa i = Itoa g' @ ''-'' @ Itoa i'" by (simp add: servername_def)
    then show "g = g' \<and> i = i'"
      using Itoa_dash [of "nat g" "Itoa i" "nat g'" "Itoa i'"] Itoa nn by auto
  qed simp
qed (simp_all add: mastername_def servername_def)

lemma upto_n_facts [simp]:
  "i \<in> set (upto_n n) \<longleftrightarrow> 0 \<le> i \<and> i < n" "distinct (upto_n n)" "length (upto_n n) = nat n" "upto_n 0 = []"
  by (auto simp: upto_n_def)

lemma upto_n_Suc: "0 \<le> k \<Longrightarrow> upto_n (k + 1) = upto_n k @ [k]"
  by (simp add: upto_n_def upto_rec2)

lemma upto_n_nth: "0 \<le> j \<Longrightarrow> j < n \<Longrightarrow> upto_n n ! nat j = j"
  by (simp add: upto_n_def)

text \<open>A loop over \<open>0, \<dots>, n - 1\<close> keeps an invariant about the number of turns made.\<close>

lemma foldE_upto_n:
  assumes "0 \<le> n" "P 0 s" "\<And>k s. 0 \<le> k \<Longrightarrow> k < n \<Longrightarrow> P k s \<Longrightarrow> \<exists>s'. f k s = Inr s' \<and> P (k + 1) s'"
  shows "\<exists>s'. foldE f (upto_n n) s = Inr s' \<and> P n s'"
  using assms(1,3)
proof (induction n rule: int_ge_induct)
  case base
  then show ?case using assms(2) by simp
next
  case (step n)
  then obtain s' where s': "foldE f (upto_n n) s = Inr s'" "P n s'" by fastforce
  then obtain s'' where "f n s' = Inr s''" "P (n + 1) s''" using step.prems [of n s'] step.hyps by auto
  then show ?case using s'(1) step.hyps by (auto simp: upto_n_Suc foldE_append)
qed

text \<open>A loop that reaches the turn \<open>k\<close> with the invariant and fails there.\<close>

lemma foldE_upto_n_fails:
  assumes "0 \<le> k" "k < n" "P 0 s" "\<And>k' s. 0 \<le> k' \<Longrightarrow> k' < k \<Longrightarrow> P k' s \<Longrightarrow> \<exists>s'. f k' s = Inr s' \<and> P (k' + 1) s'"
    and "\<And>s. P k s \<Longrightarrow> f k s = Inl e"
  shows "foldE f (upto_n n) s = Inl e"
proof -
  obtain s' where s': "foldE f (upto_n k) s = Inr s'" "P k s'"
    using foldE_upto_n [of k P s f] assms(1,3,4) by blast
  have "upto_n n = upto_n k @ k # [k + 1..n - 1]"
    using assms(1,2) upto_split3 [of 0 k "n - 1"] by (simp add: upto_n_def)
  then show ?thesis using s' assms(5) by (simp add: foldE_append)
qed

subsection \<open>Ends\<close>

fun goal :: "draw \<Rightarrow> string" where
  "goal (MasterEnd i j) = mastername j"
| "goal (MckEnd j) = mastername j"
| "goal (ClerkEnd ck j) = mastername j"
| "goal (PeerEnd h gi i j) = servername (100 + gi) j"
| "goal (ServerEnd h gi i j) = mastername j"

definition wired :: "choices \<Rightarrow> draw set \<Rightarrow> draw set \<Rightarrow> sk_net \<Rightarrow> bool" where
  "wired ch D On rn \<longleftrightarrow>
     (\<forall>e. ends rn e \<noteq> None \<longleftrightarrow> e \<in> end_name ch ` D) \<and>
     (\<forall>d \<in> D. connection rn (end_name ch d) = Some (goal d) \<and> (is_enabled rn (end_name ch d) \<longleftrightarrow> d \<in> On))"

lemma wired_empty: "wired ch {} {} MakeNetwork"
  by (simp add: wired_def MakeNetwork_def)

lemma wired_cong: "ends rn' = ends rn \<Longrightarrow> enabled rn' = enabled rn \<Longrightarrow> connections rn' = connections rn \<Longrightarrow>
  wired ch D On rn' = wired ch D On rn"
  by (simp add: wired_def is_enabled_def connection_def)

lemma wired_server [simp]:
  "wired ch D On (AddServer s srv rn) = wired ch D On rn" "wired ch D On (DeleteServer s rn) = wired ch D On rn"
  "wired ch D On (Reliable b rn) = wired ch D On rn"
  by (rule wired_cong; simp add: AddServer_def DeleteServer_def Reliable_def)+

lemma dial_wired:
  assumes "inj (end_name ch)" "wired ch D On rn" "d \<notin> D"
  shows "\<exists>rn'. dial (goal d) (end_name ch d) rn = Inr (rn', \<lparr>ce_endname = end_name ch d\<rparr>) \<and>
    wired ch (insert d D) (insert d On) rn' \<and> servers rn' = servers rn"
proof -
  have "ends rn (end_name ch d) = None"
    using assms by (metis wired_def inj_image_mem_iff)
  moreover have "end_name ch d' \<noteq> end_name ch d" if "d' \<in> D" for d' using that assms(1,3) by (metis injD)
  ultimately show ?thesis using assms(2,3)
    by (auto simp: dial_def MakeEnd_def Let_def wired_def Enable_def Connect_def is_enabled_def connection_def)
qed

lemma open_ends_wired:
  assumes inj: "inj (end_name ch)" "inj C" and goal: "\<And>j. goal (C j) = target j" and D: "wired ch D On rn" "\<And>j. C j \<notin> D" and "0 \<le> n"
  shows "\<exists>rn'. foldE (open_end target (\<lambda>j. end_name ch (C j))) (upto_n n) ([], rn) =
      Inr (map (\<lambda>j. \<lparr>ce_endname = end_name ch (C j)\<rparr>) (upto_n n), rn') \<and>
    wired ch (D \<union> C ` {0..<n}) (On \<union> C ` {0..<n}) rn' \<and> servers rn' = servers rn"
proof -
  let ?P = "\<lambda>k (es, rn'). es = map (\<lambda>j. \<lparr>ce_endname = end_name ch (C j)\<rparr>) (upto_n k) \<and>
    wired ch (D \<union> C ` {0..<k}) (On \<union> C ` {0..<k}) rn' \<and> servers rn' = servers rn"
  have "\<exists>s'. open_end target (\<lambda>j. end_name ch (C j)) k s = Inr s' \<and> ?P (k + 1) s'" if k: "0 \<le> k" "?P k s" for k s
  proof -
    obtain es rn1 where s: "s = (es, rn1)" by fastforce
    have "C k \<notin> D \<union> C ` {0..<k}" using D(2) inj(2) by (auto dest: injD)
    then obtain rn2 where "dial (goal (C k)) (end_name ch (C k)) rn1 = Inr (rn2, \<lparr>ce_endname = end_name ch (C k)\<rparr>)"
      "wired ch (insert (C k) (D \<union> C ` {0..<k})) (insert (C k) (On \<union> C ` {0..<k})) rn2" "servers rn2 = servers rn1"
      using dial_wired [OF inj(1), of "D \<union> C ` {0..<k}" "On \<union> C ` {0..<k}" rn1 "C k"] k(2) s by auto
    moreover have "insert (C k) (X \<union> C ` {0..<k}) = X \<union> C ` {0..<k + 1}" for X
      using k(1) by (auto simp: image_iff le_less)
    ultimately show ?thesis using k s by (auto simp: open_end_def goal upto_n_Suc)
  qed
  from foldE_upto_n [of n ?P, OF \<open>0 \<le> n\<close> _ this] D(1) show ?thesis by fastforce
qed

text \<open>Switching off the ends of some draws.\<close>

lemma disable_wired:
  assumes inj: "inj (end_name ch)" and "wired ch D On rn" "set ds \<subseteq> D"
  shows "\<exists>rn'. foldE (\<lambda>name rn. Inr (Enable name False rn)) (map (end_name ch) ds) rn = Inr rn' \<and>
    wired ch D (On - set ds) rn' \<and> servers rn' = servers rn"
  using assms(2,3)
proof (induction ds arbitrary: On rn)
  case (Cons d ds)
  have "wired ch D (On - {d}) (Enable (end_name ch d) False rn)"
    using Cons.prems injD [OF inj] by (auto simp: wired_def Enable_def is_enabled_def connection_def)
  then obtain rn' where "foldE (\<lambda>name rn. Inr (Enable name False rn)) (map (end_name ch) ds) (Enable (end_name ch d) False rn) = Inr rn'"
    "wired ch D (On - {d} - set ds) rn'" "servers rn' = servers (Enable (end_name ch d) False rn)"
    using Cons.IH Cons.prems(2) by fastforce
  moreover have "On - {d} - set ds = On - set (d # ds)" by auto
  ultimately show ?case by (simp add: Enable_def)
qed simp

text \<open>The loop that also writes the names: it is the other loop as long as the slice is long enough.\<close>

lemma open_named_prefix:
  assumes "0 \<le> n" "n \<le> len names"
  shows "foldE (open_named rnd) (upto_n n) (names, s) =
    bindE (foldE (open_end mastername rnd) (upto_n n) s) (\<lambda>s'. Inr (map rnd (upto_n n) @ drop (nat n) names, s'))"
  using assms
proof (induction n rule: int_ge_induct)
  case base
  then show ?case by simp
next
  case (step n)
  have w: "set_index (map rnd (upto_n n) @ drop (nat n) names) n v = Inr (map rnd (upto_n n) @ v # drop (Suc (nat n)) names)" for v
    using step by (simp add: set_index_def len_def list_update_append drop_update_swap Cons_nth_drop_Suc [symmetric])
  have "drop (nat (n + 1)) names = drop (Suc (nat n)) names" using step.hyps by (simp add: nat_add_distrib)
  then show ?case
    using step by (auto simp: upto_n_Suc foldE_append open_named_def w bindE_assoc split_beta split: sum.splits)
qed

lemma open_named_full:
  assumes "0 \<le> n" "foldE (open_end mastername rnd) (upto_n n) s = Inr s'"
  shows "foldE (open_named rnd) (upto_n n) (replicate (nat n) '''', s) = Inr (map rnd (upto_n n), s')"
  using open_named_prefix [of n "replicate (nat n) ''''" rnd s] assms by (simp add: len_def)

lemma open_named_short:
  assumes "len names < n" "foldE (open_end mastername rnd) (upto_n n) s = Inr s'"
  shows "foldE (open_named rnd) (upto_n n) (names, s) = Inl IndexOutOfRange"
proof -
  let ?k = "len names"
  have split: "upto_n n = upto_n ?k @ ?k # [?k + 1..n - 1]"
    using assms(1) upto_split3 [of 0 ?k "n - 1"] by (simp add: upto_n_def)
  obtain s1 where "foldE (open_end mastername rnd) (upto_n ?k) s = Inr s1"
    using assms(2) unfolding split foldE_append by (auto simp: bindE_eq_Inr)
  then have "foldE (open_named rnd) (upto_n ?k) (names, s) = Inr (map rnd (upto_n ?k), s1)"
    using open_named_prefix [of ?k names rnd s] by simp
  then show ?thesis unfolding split foldE_append by (simp add: open_named_def split_beta set_index_def len_def)
qed

subsection \<open>Masters\<close>

lemma server_at_add [simp]: "server_at (AddServer s srv rn) t = (if t = s then Some srv else server_at rn t)"
  by (simp add: server_at_def AddServer_def)

lemma server_at_delete [simp]: "server_at (DeleteServer s rn) t = (if t = s then None else server_at rn t)"
  by (simp add: server_at_def DeleteServer_def)

lemma server_at_cong: "servers rn' = servers rn \<Longrightarrow> server_at rn' = server_at rn"
  by (simp add: fun_eq_iff server_at_def)

definition master_draws :: "int \<Rightarrow> draw set" where
  "master_draws k = (\<Union>i \<in> {0..<k}. MasterEnd i ` {0..<3})"

definition masters_up :: "choices \<Rightarrow> int \<Rightarrow> 'c sk_config \<Rightarrow> bool" where
  "masters_up ch k cfg \<longleftrightarrow> nmasters cfg = 3 \<and> len (masterservers cfg) = 3 \<and>
     (\<forall>i. 0 \<le> i \<and> i < k \<longrightarrow> server_at (skc_net cfg) (mastername i) = Some (master_addr ch i) \<and>
        (\<exists>sm. masterservers cfg ! nat i = Some sm \<and> sm_me sm = i))"

lemma sm_StartServer_ok:
  assumes "0 \<le> i" "i < int n"
  shows "\<exists>sm :: 'c ShardMaster. sm_StartServer r n i MakePersister = Inr sm \<and> sm_me sm = i"
proof -
  obtain rf :: "'c Raft" where "Make r n i MakePersister = Inr rf" using Make_fresh [OF assms] by blast
  then show ?thesis by (simp add: sm_StartServer_def Let_def)
qed

lemma interval_Suc: "0 \<le> (k :: int) \<Longrightarrow> {0..<k + 1} = insert k {0..<k}"
  by auto

lemma StartMasterServer_ok:
  assumes inj: "inj (end_name ch)" and up: "masters_up ch k cfg" and k: "0 \<le> k" "k < 3" and w: "wired ch (master_draws k) (master_draws k) (skc_net cfg)"
  shows "\<exists>rn sms. StartMasterServer (\<lambda>j. end_name ch (MasterEnd k j)) (master_rnd ch k) (master_addr ch k) k cfg =
      Inr (cfg\<lparr>skc_net := rn, masterservers := sms\<rparr>) \<and>
    masters_up ch (k + 1) (cfg\<lparr>skc_net := rn, masterservers := sms\<rparr>) \<and> wired ch (master_draws (k + 1)) (master_draws (k + 1)) rn"
proof -
  have new: "MasterEnd k j \<notin> master_draws k" for j by (auto simp: master_draws_def)
  obtain rn where rn: "foldE (open_end mastername (\<lambda>j. end_name ch (MasterEnd k j))) (upto_n 3) ([], skc_net cfg) =
      Inr (map (\<lambda>j. \<lparr>ce_endname = end_name ch (MasterEnd k j)\<rparr>) (upto_n 3), rn)"
    "wired ch (master_draws k \<union> MasterEnd k ` {0..<3}) (master_draws k \<union> MasterEnd k ` {0..<3}) rn" "servers rn = servers (skc_net cfg)"
    using open_ends_wired [where C = "MasterEnd k" and target = mastername and n = 3, OF inj _ _ w new] by (auto simp: inj_def)
  obtain sm :: "'a ShardMaster" where sm: "sm_StartServer (master_rnd ch k) 3 k MakePersister = Inr sm" "sm_me sm = k"
    using sm_StartServer_ok [of k 3 "master_rnd ch k"] k by auto
  have d: "master_draws (k + 1) = master_draws k \<union> MasterEnd k ` {0..<3}"
    using k(1) by (auto simp: master_draws_def interval_Suc)
  let ?cfg = "cfg\<lparr>skc_net := AddServer (mastername k) (master_addr ch k) rn, masterservers := (masterservers cfg)[nat k := Some sm]\<rparr>"
  have "StartMasterServer (\<lambda>j. end_name ch (MasterEnd k j)) (master_rnd ch k) (master_addr ch k) k cfg = Inr ?cfg"
    using up k rn(1) sm(1) by (simp add: StartMasterServer_def masters_up_def set_index_def)
  moreover have "masters_up ch (k + 1) ?cfg"
    using up k sm(2) server_at_cong [OF rn(3)] unfolding masters_up_def by (auto simp: name_inject(1) nth_list_update len_def)
  ultimately show ?thesis using rn(2) d by fastforce
qed

subsection \<open>Servers of a group\<close>

text \<open>The ends of a server that was started \<open>h\<close> times before, and the ends of the first \<open>k\<close> servers of a group.\<close>

definition server_draws :: "nat \<Rightarrow> int \<Rightarrow> int \<Rightarrow> int \<Rightarrow> draw set" where
  "server_draws h n gi i = PeerEnd h gi i ` {0..<n} \<union> ServerEnd h gi i ` {0..<3}"

definition group_draws :: "nat \<Rightarrow> int \<Rightarrow> int \<Rightarrow> int \<Rightarrow> draw set" where
  "group_draws h n gi k = (\<Union>i \<in> {0..<k}. server_draws h n gi i)"

lemma group_draws_Suc: "0 \<le> k \<Longrightarrow> group_draws h n gi (k + 1) = group_draws h n gi k \<union> server_draws h n gi k"
  by (auto simp: group_draws_def interval_Suc)

text \<open>
  A peer that was started where \<open>old\<close> stopped: from nothing, or with the term, the vote, the log and the snapshot
  that \<open>old\<close> had.
\<close>

definition sound_peer :: "'c Raft \<Rightarrow> bool" where
  "sound_peer rf \<longleftrightarrow> node_inv rf \<and> log rf \<noteq> []"

definition resumes :: "'c Raft option \<Rightarrow> 'c Raft \<Rightarrow> bool" where
  "resumes old rf \<longleftrightarrow> sound_peer rf \<and>
     (case old of
        None \<Rightarrow> currentTerm rf = 0 \<and> log rf = [dummy_entry]
      | Some rf0 \<Rightarrow> currentTerm rf = currentTerm rf0 \<and> votedFor rf = votedFor rf0 \<and> log rf = log rf0 \<and>
          snapshot (persister rf) = snapshot (persister rf0))"

lemma resumes_self: "sound_peer rf \<Longrightarrow> resumes (Some rf) rf"
  by (simp add: resumes_def)

definition boot_persister :: "'c Raft option \<Rightarrow> 'c Persister" where
  "boot_persister old = (case old of None \<Rightarrow> MakePersister | Some rf \<Rightarrow> persister rf)"

lemma sk_StartServer_resumes:
  fixes old :: "'c Raft option"
  assumes i: "0 \<le> i" "i < int n" and old: "\<And>rf. old = Some rf \<Longrightarrow> sound_peer rf"
  shows "\<exists>kv :: (dialer, sk_end, 'c) ShardKV. sk_StartServer r n i (boot_persister old) mx g ms dial = Inr kv \<and> skv_me kv = i \<and>
    skv_gid kv = g \<and> skv_masters kv = ms \<and> peers (skv_rf kv) = n \<and> resumes old (skv_rf kv)"
proof -
  have "\<exists>rf. Make r n i (boot_persister old) = Inr rf \<and> peers rf = n \<and> resumes old rf"
  proof (cases old)
    case None
    then show ?thesis using Make_fresh [OF i, of r] by (auto simp: resumes_def sound_peer_def boot_persister_def)
  next
    case (Some rf)
    then have s: "sound_peer rf" using old by simp
    then have saved: "raftstate (persister rf) = encode_state (currentTerm rf) (votedFor rf) (log rf)"
      by (simp add: sound_peer_def node_inv_def persisted_def)
    obtain rf' where rf': "Make r n i (persister rf) = Inr rf'" using Make_returns [OF saved i] by blast
    have e: "currentTerm rf' = currentTerm rf" "votedFor rf' = votedFor rf" "log rf' = log rf" "me rf' = i" "peers rf' = n" "persisted rf'"
      "snapshot (persister rf') = snapshot (persister rf)"
      using Make_effect [OF rf' saved] s by (auto simp: sound_peer_def node_inv_def)
    then have "resumes (Some rf) rf'" using s i by (simp add: resumes_def sound_peer_def node_inv_def)
    then show ?thesis using Some rf' e by (simp add: boot_persister_def)
  qed
  then show ?thesis by (auto simp: sk_StartServer_def)
qed

text \<open>The server \<open>i\<close> of a group as \<^verbatim>\<open>StartServer\<close> leaves it, and a group with the servers below \<open>k\<close> running, the others stopped.\<close>

definition server_ok :: "choices \<Rightarrow> nat \<Rightarrow> int \<Rightarrow> int \<Rightarrow> 'c Raft option \<Rightarrow> 'c kv_group \<Rightarrow> int \<Rightarrow> bool" where
  "server_ok ch h n gi old gg i \<longleftrightarrow>
     gg_endnames gg ! nat i = map (\<lambda>j. end_name ch (PeerEnd h gi i j)) (upto_n n) \<and>
     gg_mendnames gg ! nat i = map (\<lambda>j. end_name ch (ServerEnd h gi i j)) (upto_n 3) \<and>
     gg_saved gg ! nat i \<noteq> None \<and>
     (\<exists>kv. gg_servers gg ! nat i = Some kv \<and> skv_me kv = i \<and> skv_gid kv = gid gg \<and> peers (skv_rf kv) = nat n \<and>
        skv_masters kv = map (\<lambda>j. \<lparr>ce_endname = end_name ch (ServerEnd h gi i j)\<rparr>) (upto_n 3) \<and> resumes old (skv_rf kv))"

definition server_stopped :: "'c Raft option \<Rightarrow> 'c kv_group \<Rightarrow> int \<Rightarrow> bool" where
  "server_stopped old gg i \<longleftrightarrow>
     gg_servers gg ! nat i = None \<and> gg_saved gg ! nat i = map_option persister old \<and> (\<forall>rf. old = Some rf \<longrightarrow> sound_peer rf)"

definition group_sized :: "int \<Rightarrow> int \<Rightarrow> 'c kv_group \<Rightarrow> bool" where
  "group_sized n gi gg \<longleftrightarrow>
     gid gg = 100 + gi \<and> len (gg_servers gg) = n \<and> len (gg_saved gg) = n \<and> len (gg_endnames gg) = n \<and> len (gg_mendnames gg) = 3"

definition group_ok :: "choices \<Rightarrow> nat \<Rightarrow> int \<Rightarrow> int \<Rightarrow> (int \<Rightarrow> 'c Raft option) \<Rightarrow> int \<Rightarrow> 'c kv_group \<Rightarrow> bool" where
  "group_ok ch h n gi old k gg \<longleftrightarrow> group_sized n gi gg \<and>
     (\<forall>i. 0 \<le> i \<and> i < k \<longrightarrow> server_ok ch h n gi (old i) gg i) \<and>
     (\<forall>i. k \<le> i \<and> i < n \<longrightarrow> server_stopped (old i) gg i)"

lemma group_ok_new: "0 \<le> skc_n cfg \<Longrightarrow> nmasters cfg = 3 \<Longrightarrow> group_ok ch h (skc_n cfg) gi (\<lambda>_. None) 0 (new_group gi cfg)"
  by (auto simp: group_ok_def group_sized_def server_stopped_def new_group_def len_def)

lemma nth_upd_nat: "0 \<le> i \<Longrightarrow> 0 \<le> j \<Longrightarrow> i < len xs \<Longrightarrow> xs[nat i := v] ! nat j = (if j = i then v else xs ! nat j)"
  by (auto simp: nth_list_update len_def)

text \<open>The ends of one server: to the servers of its group, and then to the masters.\<close>

lemma server_ends:
  assumes inj: "inj (end_name ch)" and w: "wired ch D On rn" and new: "\<And>j. PeerEnd h gi i j \<notin> D" "\<And>j. ServerEnd h gi i j \<notin> D" and n: "0 \<le> n"
  shows "\<exists>rn1 rn2. foldE (open_end (servername (100 + gi)) (\<lambda>j. end_name ch (PeerEnd h gi i j))) (upto_n n) ([], rn) =
      Inr (map (\<lambda>j. \<lparr>ce_endname = end_name ch (PeerEnd h gi i j)\<rparr>) (upto_n n), rn1) \<and>
    foldE (open_end mastername (\<lambda>j. end_name ch (ServerEnd h gi i j))) (upto_n 3) ([], rn1) =
      Inr (map (\<lambda>j. \<lparr>ce_endname = end_name ch (ServerEnd h gi i j)\<rparr>) (upto_n 3), rn2) \<and>
    wired ch (D \<union> server_draws h n gi i) (On \<union> server_draws h n gi i) rn2 \<and> servers rn2 = servers rn"
proof -
  let ?P = "PeerEnd h gi i ` {0..<n}"
  obtain rn1 where 1: "foldE (open_end (servername (100 + gi)) (\<lambda>j. end_name ch (PeerEnd h gi i j))) (upto_n n) ([], rn) =
      Inr (map (\<lambda>j. \<lparr>ce_endname = end_name ch (PeerEnd h gi i j)\<rparr>) (upto_n n), rn1)"
    "wired ch (D \<union> ?P) (On \<union> ?P) rn1" "servers rn1 = servers rn"
    using open_ends_wired [where C = "PeerEnd h gi i" and target = "servername (100 + gi)", OF inj _ _ w new(1) n] by (auto simp: inj_def)
  have new2: "ServerEnd h gi i j \<notin> D \<union> ?P" for j using new(2) by auto
  obtain rn2 where "foldE (open_end mastername (\<lambda>j. end_name ch (ServerEnd h gi i j))) (upto_n 3) ([], rn1) =
      Inr (map (\<lambda>j. \<lparr>ce_endname = end_name ch (ServerEnd h gi i j)\<rparr>) (upto_n 3), rn2)"
    "wired ch (D \<union> ?P \<union> ServerEnd h gi i ` {0..<3}) (On \<union> ?P \<union> ServerEnd h gi i ` {0..<3}) rn2" "servers rn2 = servers rn1"
    using open_ends_wired [where C = "ServerEnd h gi i" and target = mastername and n = 3, OF inj _ _ 1(2) new2] by (auto simp: inj_def)
  then show ?thesis using 1 by (auto simp: server_draws_def Un_assoc)
qed

lemma start_of_ok:
  fixes cfg :: "'c sk_config"
  assumes inj: "inj (end_name ch)" and cfg: "skc_n cfg = n" "nmasters cfg = 3" "0 \<le> gi" "gi < len (groups cfg)"
    and gg: "groups cfg ! nat gi = Some gg" "group_ok ch h n gi old k gg" and k: "0 \<le> k" "k < n" "k < 3"
    and w: "wired ch D On (skc_net cfg)" and new: "\<And>j. PeerEnd h gi k j \<notin> D" "\<And>j. ServerEnd h gi k j \<notin> D"
  shows "\<exists>gg' rn. start_of ch h gi k cfg =
      Inr (cfg\<lparr>skc_net := AddServer (servername (100 + gi) k) (server_addr ch h gi k) rn, groups := (groups cfg)[nat gi := Some gg']\<rparr>) \<and>
    group_ok ch h n gi old (k + 1) gg' \<and> wired ch (D \<union> server_draws h n gi k) (On \<union> server_draws h n gi k) rn \<and>
    servers rn = servers (skc_net cfg)"
proof -
  have n: "0 \<le> n" and kn: "k < int (nat n)" using k by simp_all
  obtain rn1 rn where e: "foldE (open_end (servername (100 + gi)) (\<lambda>j. end_name ch (PeerEnd h gi k j))) (upto_n n) ([], skc_net cfg) =
      Inr (map (\<lambda>j. \<lparr>ce_endname = end_name ch (PeerEnd h gi k j)\<rparr>) (upto_n n), rn1)"
    "foldE (open_end mastername (\<lambda>j. end_name ch (ServerEnd h gi k j))) (upto_n 3) ([], rn1) =
      Inr (map (\<lambda>j. \<lparr>ce_endname = end_name ch (ServerEnd h gi k j)\<rparr>) (upto_n 3), rn)"
    "wired ch (D \<union> server_draws h n gi k) (On \<union> server_draws h n gi k) rn" "servers rn = servers (skc_net cfg)"
    using server_ends [OF inj w new n] by blast
  let ?rn = "map (\<lambda>j. end_name ch (PeerEnd h gi k j)) (upto_n n)" and ?rm = "map (\<lambda>j. end_name ch (ServerEnd h gi k j)) (upto_n 3)"
  note g = gg(2) [unfolded group_ok_def group_sized_def]
  have st: "server_stopped (old k) gg k" using g k by simp
  then have sound: "old k = Some rf \<Longrightarrow> sound_peer rf" for rf by (simp add: server_stopped_def)
  obtain kv :: "(dialer, sk_end, 'c) ShardKV" where kv: "sk_StartServer (server_rnd ch h gi k) (nat n) k (boot_persister (old k))
      (skc_maxraftstate cfg) (gid gg) (map (\<lambda>j. \<lparr>ce_endname = end_name ch (ServerEnd h gi k j)\<rparr>) (upto_n 3)) dial = Inr kv"
    "skv_me kv = k" "skv_gid kv = gid gg" "skv_masters kv = map (\<lambda>j. \<lparr>ce_endname = end_name ch (ServerEnd h gi k j)\<rparr>) (upto_n 3)"
    "peers (skv_rf kv) = nat n" "resumes (old k) (skv_rf kv)"
    using sk_StartServer_resumes [OF k(1) kn sound] by blast
  let ?gg = "gg\<lparr>gg_servers := (gg_servers gg)[nat k := Some kv], gg_saved := (gg_saved gg)[nat k := Some (boot_persister (old k))],
    gg_endnames := (gg_endnames gg)[nat k := ?rn], gg_mendnames := (gg_mendnames gg)[nat k := ?rm]\<rparr>"
  have p: "gg_content gg k = Inr (map_option persister (old k))"
    using st g k by (simp add: gg_content_def index_def server_stopped_def split: option.split)
  have b: "(case old k of None \<Rightarrow> MakePersister | Some rf \<Rightarrow> (Copy \<circ> persister) rf) = boot_persister (old k)"
    by (simp add: boot_persister_def Copy_same split: option.split)
  have "start_of ch h gi k cfg =
      Inr (cfg\<lparr>skc_net := AddServer (servername (100 + gi) k) (server_addr ch h gi k) rn, groups := (groups cfg)[nat gi := Some ?gg]\<rparr>)"
    using cfg gg(1) g k e(1) open_named_full [OF _ e(2)] kv(1)
    by (simp add: start_of_def sk_start_def group_at_def set_group_def index_def set_index_def Let_def p b)
  moreover have "group_ok ch h n gi old (k + 1) ?gg"
    unfolding group_ok_def
  proof (intro conjI allI impI)
    show "group_sized n gi ?gg" using g by (simp add: group_sized_def)
    show "server_ok ch h n gi (old i) ?gg i" if i: "0 \<le> i \<and> i < k + 1" for i
    proof (cases "i = k")
      case True
      then show ?thesis using g k kv(2-) by (simp add: server_ok_def nth_upd_nat)
    next
      case False
      then have "server_ok ch h n gi (old i) gg i" using i g by simp
      then show ?thesis using False i g k by (simp add: server_ok_def nth_upd_nat)
    qed
    show "server_stopped (old i) ?gg i" if i: "k + 1 \<le> i \<and> i < n" for i
    proof -
      have "server_stopped (old i) gg i" using i g by simp
      then show ?thesis using i g k by (simp add: server_stopped_def nth_upd_nat)
    qed
  qed
  ultimately show ?thesis using e(3,4) by blast
qed

lemma start_of_fails:
  assumes inj: "inj (end_name ch)" and cfg: "skc_n cfg = n" "nmasters cfg = 3" "0 \<le> gi" "gi < len (groups cfg)"
    and gg: "groups cfg ! nat gi = Some gg" "group_ok ch h n gi old k gg" and k: "k < n" "3 \<le> k"
    and w: "wired ch D On (skc_net cfg)" and new: "\<And>j. PeerEnd h gi k j \<notin> D" "\<And>j. ServerEnd h gi k j \<notin> D"
  shows "start_of ch h gi k cfg = Inl IndexOutOfRange"
proof -
  have n: "0 \<le> n" using k by simp
  obtain rn1 where "foldE (open_end (servername (100 + gi)) (\<lambda>j. end_name ch (PeerEnd h gi k j))) (upto_n n) ([], skc_net cfg) =
      Inr (map (\<lambda>j. \<lparr>ce_endname = end_name ch (PeerEnd h gi k j)\<rparr>) (upto_n n), rn1)"
    using server_ends [OF inj w new n] by blast
  then show ?thesis using cfg gg k
    by (simp add: start_of_def sk_start_def group_at_def group_ok_def group_sized_def index_def set_index_def)
qed

subsection \<open>Groups\<close>

text \<open>The configuration \<open>cfg'\<close> when \<open>k\<close> servers of the group \<open>gi\<close> have been started from \<open>cfg\<close>, whose ends were \<open>D\<close>.\<close>

definition group_progress ::
  "choices \<Rightarrow> nat \<Rightarrow> int \<Rightarrow> int \<Rightarrow> (int \<Rightarrow> 'c Raft option) \<Rightarrow> 'c sk_config \<Rightarrow> draw set \<Rightarrow> draw set \<Rightarrow> int \<Rightarrow> 'c sk_config \<Rightarrow> bool" where
  "group_progress ch h n gi old cfg D On k cfg' \<longleftrightarrow>
     (\<exists>gg rn. cfg' = cfg\<lparr>skc_net := rn, groups := (groups cfg)[nat gi := Some gg]\<rparr> \<and> group_ok ch h n gi old k gg \<and>
        wired ch (D \<union> group_draws h n gi k) (On \<union> group_draws h n gi k) rn \<and>
        (\<forall>i. 0 \<le> i \<and> i < k \<longrightarrow> server_at rn (servername (100 + gi) i) = Some (server_addr ch h gi i)) \<and>
        (\<forall>s. (\<forall>i. 0 \<le> i \<and> i < k \<longrightarrow> s \<noteq> servername (100 + gi) i) \<longrightarrow> server_at rn s = server_at (skc_net cfg) s))"

lemma group_progress_step:
  fixes cfg :: "'c sk_config"
  assumes inj: "inj (end_name ch)" and cfg: "skc_n cfg = n" "nmasters cfg = 3" "0 \<le> gi" "gi < len (groups cfg)"
    and new: "\<And>i j. PeerEnd h gi i j \<notin> D" "\<And>i j. ServerEnd h gi i j \<notin> D"
    and p: "group_progress ch h n gi old cfg D On k cfg'" and k: "0 \<le> k" "k < n"
  shows "k < 3 \<Longrightarrow> \<exists>cfg''. start_of ch h gi k cfg' = Inr cfg'' \<and> group_progress ch h n gi old cfg D On (k + 1) cfg''"
    and "3 \<le> k \<Longrightarrow> start_of ch h gi k cfg' = Inl IndexOutOfRange"
proof -
  obtain gg rn where g: "cfg' = cfg\<lparr>skc_net := rn, groups := (groups cfg)[nat gi := Some gg]\<rparr>" "group_ok ch h n gi old k gg"
    "wired ch (D \<union> group_draws h n gi k) (On \<union> group_draws h n gi k) rn"
    "\<forall>i. 0 \<le> i \<and> i < k \<longrightarrow> server_at rn (servername (100 + gi) i) = Some (server_addr ch h gi i)"
    "\<forall>s. (\<forall>i. 0 \<le> i \<and> i < k \<longrightarrow> s \<noteq> servername (100 + gi) i) \<longrightarrow> server_at rn s = server_at (skc_net cfg) s"
    using p unfolding group_progress_def by blast
  have c: "skc_n cfg' = n" "nmasters cfg' = 3" "gi < len (groups cfg')" "groups cfg' ! nat gi = Some gg" "skc_net cfg' = rn"
    using g(1) cfg by (simp_all add: len_def)
  have d: "PeerEnd h gi k j \<notin> D \<union> group_draws h n gi k" "ServerEnd h gi k j \<notin> D \<union> group_draws h n gi k" for j
    using new by (auto simp: group_draws_def server_draws_def)
  note w = g(3) [folded c(5)]
  show "start_of ch h gi k cfg' = Inl IndexOutOfRange" if "3 \<le> k"
    by (rule start_of_fails [OF inj c(1,2) cfg(3) c(3,4) g(2) k(2) that w d])
  assume k3: "k < 3"
  obtain gg' rn' where s: "start_of ch h gi k cfg' =
      Inr (cfg'\<lparr>skc_net := AddServer (servername (100 + gi) k) (server_addr ch h gi k) rn', groups := (groups cfg')[nat gi := Some gg']\<rparr>)"
    "group_ok ch h n gi old (k + 1) gg'"
    "wired ch (D \<union> group_draws h n gi k \<union> server_draws h n gi k) (On \<union> group_draws h n gi k \<union> server_draws h n gi k) rn'"
    "servers rn' = servers rn"
    using start_of_ok [OF inj c(1,2) cfg(3) c(3,4) g(2) k k3 w d] c(5) by auto
  let ?rn = "AddServer (servername (100 + gi) k) (server_addr ch h gi k) rn'"
  have "wired ch (D \<union> group_draws h n gi (k + 1)) (On \<union> group_draws h n gi (k + 1)) ?rn"
    using s(3) k(1) by (simp add: group_draws_Suc Un_assoc)
  moreover have "server_at ?rn (servername (100 + gi) i) = Some (server_addr ch h gi i)" if "0 \<le> i" "i < k + 1" for i
    using that g(4) name_inject(2) [of "100 + gi" i "100 + gi" k] k(1) cfg(3) server_at_cong [OF s(4)] by auto
  moreover have "server_at ?rn t = server_at (skc_net cfg) t" if "\<forall>i. 0 \<le> i \<and> i < k + 1 \<longrightarrow> t \<noteq> servername (100 + gi) i" for t
    using that g(5) k(1) server_at_cong [OF s(4)] by auto
  ultimately have "group_progress ch h n gi old cfg D On (k + 1) (cfg\<lparr>skc_net := ?rn, groups := (groups cfg)[nat gi := Some gg']\<rparr>)"
    using s(2) unfolding group_progress_def by blast
  then show "\<exists>cfg''. start_of ch h gi k cfg' = Inr cfg'' \<and> group_progress ch h n gi old cfg D On (k + 1) cfg''"
    using s(1) g(1) by simp
qed

text \<open>All servers of a stopped group.\<close>

lemma start_all:
  fixes cfg :: "'c sk_config"
  assumes inj: "inj (end_name ch)" and cfg: "skc_n cfg = n" "nmasters cfg = 3" "0 \<le> gi" "gi < len (groups cfg)" and n: "0 \<le> n"
    and gg: "groups cfg ! nat gi = Some gg" "group_ok ch h n gi old 0 gg"
    and w: "wired ch D On (skc_net cfg)" and new: "\<And>i j. PeerEnd h gi i j \<notin> D" "\<And>i j. ServerEnd h gi i j \<notin> D"
  shows "n \<le> 3 \<Longrightarrow> \<exists>cfg'. foldE (start_of ch h gi) (upto_n n) cfg = Inr cfg' \<and> group_progress ch h n gi old cfg D On n cfg'"
    and "3 < n \<Longrightarrow> foldE (start_of ch h gi) (upto_n n) cfg = Inl IndexOutOfRange"
proof -
  have "cfg = cfg\<lparr>skc_net := skc_net cfg, groups := (groups cfg)[nat gi := Some gg]\<rparr>"
    using gg(1) list_update_id [of "groups cfg" "nat gi"] by simp
  then have 0: "group_progress ch h n gi old cfg D On 0 cfg"
    unfolding group_progress_def
    by (intro exI [of _ gg] exI [of _ "skc_net cfg"] conjI) (use gg w in \<open>auto simp: group_draws_def\<close>)
  note step = group_progress_step [OF inj cfg new]
  show "\<exists>cfg'. foldE (start_of ch h gi) (upto_n n) cfg = Inr cfg' \<and> group_progress ch h n gi old cfg D On n cfg'" if "n \<le> 3"
    by (rule foldE_upto_n [where P = "group_progress ch h n gi old cfg D On", OF n 0]) (rule step(1); use that in simp)
  assume n3: "3 < n"
  show "foldE (start_of ch h gi) (upto_n n) cfg = Inl IndexOutOfRange"
  proof (rule foldE_upto_n_fails [where P = "group_progress ch h n gi old cfg D On" and k = 3, OF _ n3 0])
    show "\<exists>s'. start_of ch h gi k s = Inr s' \<and> group_progress ch h n gi old cfg D On (k + 1) s'"
      if "0 \<le> k" "k < 3" "group_progress ch h n gi old cfg D On k s" for k s
      by (rule step(1)) (use that n3 in simp_all)
    show "start_of ch h gi 3 s = Inl IndexOutOfRange" if "group_progress ch h n gi old cfg D On 3 s" for s
      by (rule step(2)) (use that n3 in simp_all)
  qed simp
qed

lemma foldE_index:
  "foldE (\<lambda>j s. bindE (index xs j) (\<lambda>x. f x s)) (upto_n (len xs)) s = foldE f xs s"
proof -
  have loop: "foldE (\<lambda>j s. bindE (index xs j) (\<lambda>x. f x s)) js s = foldE f (map (\<lambda>j. xs ! nat j) js) s"
    if "\<And>j. j \<in> set js \<Longrightarrow> 0 \<le> j \<and> j < len xs" for js
    using that by (induction js arbitrary: s) (auto simp: index_def bindE_def split: sum.splits)
  have "map (\<lambda>j. xs ! nat j) (upto_n (len xs)) = xs"
    by (rule nth_equalityI) (simp_all add: upto_n_def len_def)
  then show ?thesis using loop [of "upto_n (len xs)"] by simp
qed

text \<open>A group whose servers below \<open>k\<close> have been shut down; \<open>rfs\<close> are the peers that all of them had.\<close>

definition group_stopping :: "choices \<Rightarrow> nat \<Rightarrow> int \<Rightarrow> int \<Rightarrow> (int \<Rightarrow> 'c Raft option) \<Rightarrow> int \<Rightarrow> 'c kv_group \<Rightarrow> bool" where
  "group_stopping ch h n gi rfs k gg \<longleftrightarrow> group_sized n gi gg \<and>
     (\<forall>i. 0 \<le> i \<and> i < k \<longrightarrow> server_stopped (rfs i) gg i) \<and>
     (\<forall>i. k \<le> i \<and> i < n \<longrightarrow> server_ok ch h n gi (rfs i) gg i \<and> rfs i = map_option skv_rf (gg_servers gg ! nat i))"

lemma group_stopping_start:
  assumes "group_ok ch h n gi old n gg"
  shows "group_stopping ch h n gi (\<lambda>i. map_option skv_rf (gg_servers gg ! nat i)) 0 gg"
proof -
  have "server_ok ch h n gi (map_option skv_rf (gg_servers gg ! nat i)) gg i" if "0 \<le> i" "i < n" for i
  proof -
    have "server_ok ch h n gi (old i) gg i" using assms that by (simp add: group_ok_def)
    then show ?thesis using resumes_self by (auto simp: server_ok_def resumes_def)
  qed
  then show ?thesis using assms by (auto simp: group_stopping_def group_ok_def)
qed

lemma group_stopping_end: "group_stopping ch h n gi rfs n gg \<Longrightarrow> group_ok ch h' n gi rfs 0 gg"
  by (auto simp: group_stopping_def group_ok_def)

lemma sk_ShutdownServer_ok:
  fixes cfg :: "'c sk_config"
  assumes inj: "inj (end_name ch)" and cfg: "0 \<le> gi" "gi < len (groups cfg)"
    and gg: "groups cfg ! nat gi = Some gg" "group_stopping ch h n gi rfs k gg" and k: "0 \<le> k" "k < n" "k < 3"
    and w: "wired ch D On (skc_net cfg)" and D: "server_draws h n gi k \<subseteq> D"
  shows "\<exists>gg' rn. sk_ShutdownServer gi k cfg =
      Inr (cfg\<lparr>skc_net := DeleteServer (servername (100 + gi) k) rn, groups := (groups cfg)[nat gi := Some gg']\<rparr>) \<and>
    group_stopping ch h n gi rfs (k + 1) gg' \<and> wired ch D (On - server_draws h n gi k) rn \<and> servers rn = servers (skc_net cfg)"
proof -
  note g = gg(2) [unfolded group_stopping_def group_sized_def]
  have later: "server_ok ch h n gi (rfs i) gg i" "rfs i = map_option skv_rf (gg_servers gg ! nat i)" if "k \<le> i" "i < n" for i
    using g that by blast+
  note ok = later [OF order_refl k(2)]
  then obtain kv p where kv: "gg_servers gg ! nat k = Some kv" "rfs k = Some (skv_rf kv)" "sound_peer (skv_rf kv)" "gg_saved gg ! nat k = Some p"
    by (auto simp: server_ok_def resumes_def)
  let ?peers = "map (PeerEnd h gi k) (upto_n n)" and ?masters = "map (ServerEnd h gi k) (upto_n 3)"
  have rows: "gg_endnames gg ! nat k = map (end_name ch) ?peers" "gg_mendnames gg ! nat k = map (end_name ch) ?masters"
    using ok(1) by (simp_all add: server_ok_def comp_def)
  have sets: "set ?peers \<union> set ?masters = server_draws h n gi k" by (auto simp: server_draws_def)
  obtain rn1 where 1: "foldE (\<lambda>name rn. Inr (Enable name False rn)) (map (end_name ch) ?peers) (skc_net cfg) = Inr rn1"
    "wired ch D (On - set ?peers) rn1" "servers rn1 = servers (skc_net cfg)"
    using disable_wired [OF inj w, of ?peers] sets D by blast
  obtain rn2 where 2: "foldE (\<lambda>name rn. Inr (Enable name False rn)) (map (end_name ch) ?masters) rn1 = Inr rn2"
    "wired ch D (On - set ?peers - set ?masters) rn2" "servers rn2 = servers rn1"
    using disable_wired [OF inj 1(2), of ?masters] sets D by blast
  have row: "index (gg_endnames gg) k = Inr (map (end_name ch) ?peers)" using g k rows(1) by (simp add: index_ok)
  have n: "len (gg_servers gg) = len (map (end_name ch) ?peers)" using g k by (simp add: len_def)
  have loop: "foldE (\<lambda>j rn. bindE (index (gg_endnames gg) k) (\<lambda>row. bindE (index row j) (\<lambda>name. Inr (Enable name False rn))))
      (upto_n (len (gg_servers gg))) (skc_net cfg) = Inr rn1"
    using 1(1) by (simp only: n row bindE_simps foldE_index)
  let ?gg = "gg\<lparr>gg_saved := (gg_saved gg)[nat k := Some (persister (skv_rf kv))], gg_servers := (gg_servers gg)[nat k := None]\<rparr>"
  have "sk_ShutdownServer gi k cfg =
      Inr (cfg\<lparr>skc_net := DeleteServer (servername (100 + gi) k) rn2, groups := (groups cfg)[nat gi := Some ?gg]\<rparr>)"
    using cfg gg(1) g k loop rows(2) 2(1) kv
    by (simp add: sk_ShutdownServer_def group_at_def set_group_def gg_content_def index_ok set_index_ok Let_def Copy_same)
  moreover have "group_stopping ch h n gi rfs (k + 1) ?gg"
    unfolding group_stopping_def
  proof (intro conjI allI impI)
    show "group_sized n gi ?gg" using g by (simp add: group_sized_def)
    show "server_stopped (rfs i) ?gg i" if i: "0 \<le> i \<and> i < k + 1" for i
    proof (cases "i = k")
      case False
      then have "server_stopped (rfs i) gg i" using i g by simp
      then show ?thesis using False i g k by (simp add: server_stopped_def nth_upd_nat)
    qed (use g k kv in \<open>simp add: server_stopped_def nth_upd_nat\<close>)
    fix i assume i: "k + 1 \<le> i \<and> i < n"
    then have o: "server_ok ch h n gi (rfs i) gg i" "rfs i = map_option skv_rf (gg_servers gg ! nat i)" using later [of i] by simp_all
    show "server_ok ch h n gi (rfs i) ?gg i" using o(1) i g k by (simp add: server_ok_def nth_upd_nat)
    show "rfs i = map_option skv_rf (gg_servers ?gg ! nat i)" using o(2) i g k by (simp add: nth_upd_nat)
  qed
  moreover have "On - set ?peers - set ?masters = On - server_draws h n gi k" using sets by blast
  ultimately show ?thesis using 1(3) 2(2,3) by metis
qed

text \<open>All servers of a running group.\<close>

lemma ShutdownGroup_ok:
  fixes cfg :: "'c sk_config"
  assumes inj: "inj (end_name ch)" and cfg: "skc_n cfg = n" "0 \<le> gi" "gi < len (groups cfg)" and n: "0 \<le> n" "n \<le> 3"
    and gg: "groups cfg ! nat gi = Some gg" "group_stopping ch h n gi rfs 0 gg"
    and w: "wired ch D On (skc_net cfg)" and D: "group_draws h n gi n \<subseteq> D"
  shows "\<exists>gg' rn. ShutdownGroup gi cfg = Inr (cfg\<lparr>skc_net := rn, groups := (groups cfg)[nat gi := Some gg']\<rparr>) \<and>
    group_stopping ch h n gi rfs n gg' \<and> wired ch D (On - group_draws h n gi n) rn \<and>
    (\<forall>i. 0 \<le> i \<and> i < n \<longrightarrow> server_at rn (servername (100 + gi) i) = None) \<and>
    (\<forall>s. (\<forall>i. 0 \<le> i \<and> i < n \<longrightarrow> s \<noteq> servername (100 + gi) i) \<longrightarrow> server_at rn s = server_at (skc_net cfg) s)"
proof -
  let ?P = "\<lambda>k cfg'. \<exists>gg rn. cfg' = cfg\<lparr>skc_net := rn, groups := (groups cfg)[nat gi := Some gg]\<rparr> \<and> group_stopping ch h n gi rfs k gg \<and>
    wired ch D (On - group_draws h n gi k) rn \<and> (\<forall>i. 0 \<le> i \<and> i < k \<longrightarrow> server_at rn (servername (100 + gi) i) = None) \<and>
    (\<forall>s. (\<forall>i. 0 \<le> i \<and> i < k \<longrightarrow> s \<noteq> servername (100 + gi) i) \<longrightarrow> server_at rn s = server_at (skc_net cfg) s)"
  have "cfg = cfg\<lparr>skc_net := skc_net cfg, groups := (groups cfg)[nat gi := Some gg]\<rparr>"
    using gg(1) list_update_id [of "groups cfg" "nat gi"] by simp
  then have 0: "?P 0 cfg"
    by (intro exI [of _ gg] exI [of _ "skc_net cfg"] conjI) (use gg w in \<open>auto simp: group_draws_def\<close>)
  have step: "\<exists>cfg''. sk_ShutdownServer gi k cfg' = Inr cfg'' \<and> ?P (k + 1) cfg''" if k: "0 \<le> k" "k < n" and p: "?P k cfg'" for k and cfg' :: "'c sk_config"
  proof -
    obtain gg rn where g: "cfg' = cfg\<lparr>skc_net := rn, groups := (groups cfg)[nat gi := Some gg]\<rparr>" "group_stopping ch h n gi rfs k gg"
      "wired ch D (On - group_draws h n gi k) rn" "\<forall>i. 0 \<le> i \<and> i < k \<longrightarrow> server_at rn (servername (100 + gi) i) = None"
      "\<forall>s. (\<forall>i. 0 \<le> i \<and> i < k \<longrightarrow> s \<noteq> servername (100 + gi) i) \<longrightarrow> server_at rn s = server_at (skc_net cfg) s"
      using p by blast
    have c: "gi < len (groups cfg')" "groups cfg' ! nat gi = Some gg" "skc_net cfg' = rn" "k < 3"
      using g(1) cfg k n by (simp_all add: len_def)
    have d: "server_draws h n gi k \<subseteq> D" using D k unfolding group_draws_def by fastforce
    obtain gg' rn' where s: "sk_ShutdownServer gi k cfg' =
        Inr (cfg'\<lparr>skc_net := DeleteServer (servername (100 + gi) k) rn', groups := (groups cfg')[nat gi := Some gg']\<rparr>)"
      "group_stopping ch h n gi rfs (k + 1) gg'" "wired ch D (On - group_draws h n gi k - server_draws h n gi k) rn'" "servers rn' = servers rn"
      using sk_ShutdownServer_ok [OF inj cfg(2) c(1,2) g(2) k c(4) g(3) [folded c(3)] d] c(3) by auto
    let ?rn = "DeleteServer (servername (100 + gi) k) rn'"
    have "On - group_draws h n gi k - server_draws h n gi k = On - group_draws h n gi (k + 1)" using k(1) by (auto simp: group_draws_Suc)
    then have "wired ch D (On - group_draws h n gi (k + 1)) ?rn" using s(3) by simp
    moreover have "\<forall>i. 0 \<le> i \<and> i < k + 1 \<longrightarrow> server_at ?rn (servername (100 + gi) i) = None"
      using g(4) server_at_cong [OF s(4)] by (auto simp: less_le)
    moreover have "\<forall>s. (\<forall>i. 0 \<le> i \<and> i < k + 1 \<longrightarrow> s \<noteq> servername (100 + gi) i) \<longrightarrow> server_at ?rn s = server_at (skc_net cfg) s"
      using g(5) k(1) server_at_cong [OF s(4)] by auto
    ultimately have "?P (k + 1) (cfg\<lparr>skc_net := ?rn, groups := (groups cfg)[nat gi := Some gg']\<rparr>)" using s(2) by blast
    then show ?thesis using s(1) g(1) by simp
  qed
  have "\<exists>cfg'. foldE (sk_ShutdownServer gi) (upto_n n) cfg = Inr cfg' \<and> ?P n cfg'"
    by (rule foldE_upto_n [where P = ?P and f = "sk_ShutdownServer gi", OF n(1) 0]) (rule step)
  then show ?thesis unfolding ShutdownGroup_def cfg(1) by auto
qed

subsection \<open>The whole harness\<close>

definition harness_draws :: "int \<Rightarrow> int \<Rightarrow> draw set" where
  "harness_draws n g = master_draws 3 \<union> MckEnd ` {0..<3} \<union> (\<Union>gi \<in> {0..<g}. group_draws 0 n gi n)"

text \<open>The configuration with \<open>g\<close> running groups of \<open>n\<close> servers; \<open>gen\<close> tells how often the servers of a group were restarted.\<close>

definition group_up :: "choices \<Rightarrow> nat \<Rightarrow> int \<Rightarrow> int \<Rightarrow> 'c sk_config \<Rightarrow> bool" where
  "group_up ch h n gi cfg \<longleftrightarrow> (\<exists>old gg. groups cfg ! nat gi = Some gg \<and> group_ok ch h n gi old n gg) \<and>
     (\<forall>i. 0 \<le> i \<and> i < n \<longrightarrow> server_at (skc_net cfg) (servername (100 + gi) i) = Some (server_addr ch h gi i))"

definition groups_up :: "choices \<Rightarrow> (int \<Rightarrow> nat) \<Rightarrow> int \<Rightarrow> int \<Rightarrow> 'c sk_config \<Rightarrow> bool" where
  "groups_up ch gen n g cfg \<longleftrightarrow>
     skc_n cfg = n \<and> ngroups cfg = 3 \<and> len (groups cfg) = 3 \<and> masters_up ch 3 cfg \<and>
     mck cfg = Some (sm_MakeClerk (map (\<lambda>j. \<lparr>ce_endname = end_name ch (MckEnd j)\<rparr>) (upto_n 3))) \<and>
     (\<forall>gi. 0 \<le> gi \<and> gi < g \<longrightarrow> group_up ch (gen gi) n gi cfg)"

text \<open>Replacing one group and the registrations of its servers does not matter to the masters and to the other groups.\<close>

lemma group_up_other:
  assumes "group_up ch h n gi cfg" "gi \<noteq> g" "0 \<le> gi" "0 \<le> g"
    and "\<And>s. (\<And>i. 0 \<le> i \<Longrightarrow> i < n \<Longrightarrow> s \<noteq> servername (100 + g) i) \<Longrightarrow> server_at rn s = server_at (skc_net cfg) s"
  shows "group_up ch h n gi (cfg\<lparr>skc_net := rn, groups := (groups cfg)[nat g := gg]\<rparr>)"
proof -
  have "server_at rn (servername (100 + gi) i) = server_at (skc_net cfg) (servername (100 + gi) i)" if "0 \<le> i" for i
    by (rule assms(5)) (use that assms(2-4) name_inject(2) [of "100 + gi" i "100 + g"] in simp)
  then show ?thesis using assms(1-4) by (simp add: group_up_def)
qed

lemma masters_up_other:
  assumes "masters_up ch k cfg" and "\<And>s. (\<And>i. 0 \<le> i \<Longrightarrow> i < n \<Longrightarrow> s \<noteq> servername g i) \<Longrightarrow> server_at rn s = server_at (skc_net cfg) s"
  shows "masters_up ch k (cfg\<lparr>skc_net := rn, groups := gs\<rparr>)"
proof -
  have "server_at rn (mastername i) = server_at (skc_net cfg) (mastername i)" for i by (rule assms(2)) (simp add: name_inject)
  then show ?thesis using assms(1) by (simp add: masters_up_def)
qed

lemma make_group_cases:
  assumes inj: "inj (end_name ch)" and n: "0 \<le> n" and up: "groups_up ch (\<lambda>_. 0) n g cfg" and g: "0 \<le> g" "g < 3"
    and w: "wired ch (harness_draws n g) (harness_draws n g) (skc_net cfg)"
  shows "n \<le> 3 \<Longrightarrow> \<exists>cfg'. make_group ch g cfg = Inr cfg' \<and> groups_up ch (\<lambda>_. 0) n (g + 1) cfg' \<and>
      wired ch (harness_draws n (g + 1)) (harness_draws n (g + 1)) (skc_net cfg')"
    and "3 < n \<Longrightarrow> make_group ch g cfg = Inl IndexOutOfRange"
proof -
  note u = up [unfolded groups_up_def masters_up_def]
  let ?cfg = "cfg\<lparr>groups := (groups cfg)[nat g := Some (new_group g cfg)]\<rparr>"
  have new: "PeerEnd 0 g i j \<notin> harness_draws n g" "ServerEnd 0 g i j \<notin> harness_draws n g" for i j
    by (auto simp: harness_draws_def master_draws_def group_draws_def server_draws_def)
  have c: "skc_n ?cfg = n" "nmasters ?cfg = 3" "0 \<le> g" "g < len (groups ?cfg)" "groups ?cfg ! nat g = Some (new_group g cfg)"
    "group_ok ch 0 n g (\<lambda>_. None) 0 (new_group g cfg)" "wired ch (harness_draws n g) (harness_draws n g) (skc_net ?cfg)"
    using u g n w group_ok_new [of cfg ch 0 g] by (auto simp: len_def)
  have m: "make_group ch g cfg = foldE (start_of ch 0 g) (upto_n n) ?cfg"
    using u g by (simp add: make_group_def set_group_def set_index_def)
  note s = start_all [OF inj c(1-4) n c(5-7) new, folded m]
  show "3 < n \<Longrightarrow> make_group ch g cfg = Inl IndexOutOfRange" by (rule s(2))
  assume "n \<le> 3"
  then obtain gg rn where p: "make_group ch g cfg = Inr (cfg\<lparr>skc_net := rn, groups := (groups cfg)[nat g := Some gg]\<rparr>)"
    "group_ok ch 0 n g (\<lambda>_. None) n gg" "wired ch (harness_draws n g \<union> group_draws 0 n g n) (harness_draws n g \<union> group_draws 0 n g n) rn"
    "\<And>i. 0 \<le> i \<Longrightarrow> i < n \<Longrightarrow> server_at rn (servername (100 + g) i) = Some (server_addr ch 0 g i)"
    "\<And>s. (\<And>i. 0 \<le> i \<Longrightarrow> i < n \<Longrightarrow> s \<noteq> servername (100 + g) i) \<Longrightarrow> server_at rn s = server_at (skc_net cfg) s"
    using s(1) unfolding group_progress_def by auto
  let ?cfg' = "cfg\<lparr>skc_net := rn, groups := (groups cfg)[nat g := Some gg]\<rparr>"
  have "group_up ch 0 n gi ?cfg'" if "0 \<le> gi \<and> gi < g + 1" for gi
  proof (cases "gi = g")
    case True
    then show ?thesis using p(2,4) u g by (auto simp: group_up_def len_def)
  next
    case False
    then show ?thesis using that u g by (intro group_up_other [OF _ _ _ _ p(5)]) simp_all
  qed
  moreover have "masters_up ch 3 ?cfg'" by (rule masters_up_other [OF _ p(5)]) (use up in \<open>simp add: groups_up_def\<close>)
  ultimately have "groups_up ch (\<lambda>_. 0) n (g + 1) ?cfg'" using u by (simp add: groups_up_def)
  moreover have "harness_draws n g \<union> group_draws 0 n g n = harness_draws n (g + 1)"
    using g(1) by (auto simp: harness_draws_def interval_Suc)
  ultimately show "\<exists>cfg'. make_group ch g cfg = Inr cfg' \<and> groups_up ch (\<lambda>_. 0) n (g + 1) cfg' \<and>
      wired ch (harness_draws n (g + 1)) (harness_draws n (g + 1)) (skc_net cfg')"
    using p(1,3) by simp
qed

text \<open>The masters and the harness's own clerk, before any group is made.\<close>

lemma masters_started:
  fixes cfg0 :: "'c sk_config"
  assumes inj: "inj (end_name ch)" and 0: "nmasters cfg0 = 3" "len (masterservers cfg0) = 3" "skc_net cfg0 = MakeNetwork"
  shows "\<exists>rn sms rn'. foldE (\<lambda>i. StartMasterServer (\<lambda>j. end_name ch (MasterEnd i j)) (master_rnd ch i) (master_addr ch i) i)
      (upto_n 3) cfg0 = Inr (cfg0\<lparr>skc_net := rn, masterservers := sms\<rparr>) \<and>
    masters_up ch 3 (cfg0\<lparr>skc_net := rn', masterservers := sms\<rparr>) \<and> wired ch (harness_draws n 0) (harness_draws n 0) rn' \<and>
    foldE (open_end mastername (\<lambda>j. end_name ch (MckEnd j))) (upto_n 3) ([], rn) =
      Inr (map (\<lambda>j. \<lparr>ce_endname = end_name ch (MckEnd j)\<rparr>) (upto_n 3), rn')"
proof -
  let ?f = "\<lambda>i. StartMasterServer (\<lambda>j. end_name ch (MasterEnd i j)) (master_rnd ch i) (master_addr ch i) i"
  let ?P = "\<lambda>k cfg. \<exists>rn sms. cfg = cfg0\<lparr>skc_net := rn, masterservers := sms\<rparr> \<and> masters_up ch k cfg \<and> wired ch (master_draws k) (master_draws k) rn"
  have "?P 0 cfg0" using 0 wired_empty by (intro exI [of _ MakeNetwork] exI [of _ "masterservers cfg0"]) (auto simp: masters_up_def master_draws_def)
  moreover have "\<exists>cfg'. ?f k cfg = Inr cfg' \<and> ?P (k + 1) cfg'" if k: "0 \<le> k" "k < 3" and p: "?P k cfg" for k and cfg :: "'c sk_config"
  proof -
    obtain rn sms where c: "cfg = cfg0\<lparr>skc_net := rn, masterservers := sms\<rparr>" "masters_up ch k cfg" "wired ch (master_draws k) (master_draws k) (skc_net cfg)"
      using p by auto
    from StartMasterServer_ok [OF inj c(2) k c(3)] c(1) show ?thesis by fastforce
  qed
  ultimately obtain rn sms where s: "foldE ?f (upto_n 3) cfg0 = Inr (cfg0\<lparr>skc_net := rn, masterservers := sms\<rparr>)"
    "masters_up ch 3 (cfg0\<lparr>skc_net := rn, masterservers := sms\<rparr>)" "wired ch (master_draws 3) (master_draws 3) rn"
    using foldE_upto_n [of 3 ?P cfg0 ?f] by auto
  have new: "MckEnd j \<notin> master_draws 3" for j by (auto simp: master_draws_def)
  obtain rn' where r: "foldE (open_end mastername (\<lambda>j. end_name ch (MckEnd j))) (upto_n 3) ([], rn) =
      Inr (map (\<lambda>j. \<lparr>ce_endname = end_name ch (MckEnd j)\<rparr>) (upto_n 3), rn')"
    "wired ch (master_draws 3 \<union> MckEnd ` {0..<3}) (master_draws 3 \<union> MckEnd ` {0..<3}) rn'" "servers rn' = servers rn"
    using open_ends_wired [where C = MckEnd and target = mastername and n = 3, OF inj _ _ s(3) new] by (auto simp: inj_def)
  have "masters_up ch 3 (cfg0\<lparr>skc_net := rn', masterservers := sms\<rparr>)"
    using s(2) server_at_cong [OF r(3)] by (simp add: masters_up_def)
  then show ?thesis using s(1) r(1,2) by (auto simp: harness_draws_def)
qed

lemma sk_make_config_cases:
  fixes ch :: choices
  assumes inj: "inj (end_name ch)" and n: "0 \<le> n"
  shows "n \<le> 3 \<Longrightarrow> \<exists>cfg :: 'c sk_config. sk_make_config ch n unreliable mx = Inr cfg \<and> groups_up ch (\<lambda>_. 0) n 3 cfg \<and>
      wired ch (harness_draws n 3) (harness_draws n 3) (skc_net cfg) \<and> skc_clerks cfg = Some Map.empty"
    and "3 < n \<Longrightarrow> (sk_make_config ch n unreliable mx :: 'c sk_config go) = Inl IndexOutOfRange"
proof -
  define cfg0 :: "'c sk_config" where "cfg0 = \<lparr>skc_net = MakeNetwork, nmasters = 3, masterservers = replicate 3 None, mck = None, ngroups = 0, skc_n = 0,
    groups = [], skc_clerks = None, skc_nextClientId = 0, skc_maxraftstate = mx\<rparr>"
  obtain rn sms rn' where s: "foldE (\<lambda>i. StartMasterServer (\<lambda>j. end_name ch (MasterEnd i j)) (master_rnd ch i) (master_addr ch i) i)
      (upto_n 3) cfg0 = Inr (cfg0\<lparr>skc_net := rn, masterservers := sms\<rparr>)"
    "masters_up ch 3 (cfg0\<lparr>skc_net := rn', masterservers := sms\<rparr>)" "wired ch (harness_draws n 0) (harness_draws n 0) rn'"
    "foldE (open_end mastername (\<lambda>j. end_name ch (MckEnd j))) (upto_n 3) ([], rn) =
      Inr (map (\<lambda>j. \<lparr>ce_endname = end_name ch (MckEnd j)\<rparr>) (upto_n 3), rn')"
    using masters_started [OF inj, of cfg0 n] by (auto simp: cfg0_def len_def)
  let ?ck = "sm_MakeClerk (map (\<lambda>j. \<lparr>ce_endname = end_name ch (MckEnd j)\<rparr>) (upto_n 3))"
  let ?cfg = "cfg0\<lparr>skc_net := rn', masterservers := sms, mck := Some ?ck, ngroups := 3, groups := replicate 3 None, skc_n := n\<rparr>"
  have up: "groups_up ch (\<lambda>_. 0) n 0 ?cfg" "wired ch (harness_draws n 0) (harness_draws n 0) (skc_net ?cfg)"
    using s(2,3) by (auto simp: groups_up_def masters_up_def len_def)
  have m: "sk_make_config ch n unreliable mx = bindE (foldE (make_group ch) (upto_n 3) ?cfg) (\<lambda>cfg.
      Inr (cfg\<lparr>skc_clerks := Some Map.empty, skc_nextClientId := skc_n cfg + 1000, skc_net := Reliable (\<not> unreliable) (skc_net cfg)\<rparr>))"
    using s(1,4) by (simp add: sk_make_config_def shardclerk_def Let_def cfg0_def)
  note step = make_group_cases [OF inj n]
  show "3 < n \<Longrightarrow> (sk_make_config ch n unreliable mx :: 'c sk_config go) = Inl IndexOutOfRange"
    unfolding m using step(2) [OF up(1) _ _ up(2)] upto_split3 [of 0 0 2] by (simp add: upto_n_def)
  assume n3: "n \<le> 3"
  obtain cfg where cfg: "foldE (make_group ch) (upto_n 3) ?cfg = Inr cfg" "groups_up ch (\<lambda>_. 0) n 3 cfg"
    "wired ch (harness_draws n 3) (harness_draws n 3) (skc_net cfg)"
    using foldE_upto_n [of 3 "\<lambda>g cfg. groups_up ch (\<lambda>_. 0) n g cfg \<and> wired ch (harness_draws n g) (harness_draws n g) (skc_net cfg)" ?cfg "make_group ch"]
      up step(1) [OF _ _ _ _ n3] by auto
  have "server_at (Reliable b rn) = server_at rn" for b and rn :: sk_net by (simp add: fun_eq_iff server_at_def Reliable_def)
  then show "\<exists>cfg :: 'c sk_config. sk_make_config ch n unreliable mx = Inr cfg \<and> groups_up ch (\<lambda>_. 0) n 3 cfg \<and>
      wired ch (harness_draws n 3) (harness_draws n 3) (skc_net cfg) \<and> skc_clerks cfg = Some Map.empty"
    unfolding m using cfg by (simp add: groups_up_def group_up_def masters_up_def)
qed

lemma sk_makeClient_cases:
  assumes inj: "inj (end_name ch)" and n: "0 \<le> n" and cfg: "skc_n cfg = n" "nmasters cfg = 3" "skc_clerks cfg = Some cm"
    and w: "wired ch D On (skc_net cfg)" and new: "\<And>j. ClerkEnd ck j \<notin> D"
  shows "n < 3 \<Longrightarrow> sk_makeClient ck (\<lambda>j. end_name ch (ClerkEnd ck j)) cfg = Inl IndexOutOfRange"
    and "n = 3 \<Longrightarrow> \<exists>cfg'. sk_makeClient ck (\<lambda>j. end_name ch (ClerkEnd ck j)) cfg =
        Inr (cfg', sk_MakeClerk (map (\<lambda>j. \<lparr>ce_endname = end_name ch (ClerkEnd ck j)\<rparr>) (upto_n 3))) \<and>
      wired ch (D \<union> ClerkEnd ck ` {0..<3}) (On \<union> ClerkEnd ck ` {0..<3}) (skc_net cfg') \<and>
      skc_clerks cfg' = Some (cm(ck \<mapsto> map (\<lambda>j. end_name ch (ClerkEnd ck j)) (upto_n 3)))"
proof -
  obtain rn where r: "foldE (open_end mastername (\<lambda>j. end_name ch (ClerkEnd ck j))) (upto_n 3) ([], skc_net cfg) =
      Inr (map (\<lambda>j. \<lparr>ce_endname = end_name ch (ClerkEnd ck j)\<rparr>) (upto_n 3), rn)"
    "wired ch (D \<union> ClerkEnd ck ` {0..<3}) (On \<union> ClerkEnd ck ` {0..<3}) rn"
    using open_ends_wired [where C = "ClerkEnd ck" and target = mastername and n = 3, OF inj _ _ w new] by (auto simp: inj_def)
  show "n < 3 \<Longrightarrow> sk_makeClient ck (\<lambda>j. end_name ch (ClerkEnd ck j)) cfg = Inl IndexOutOfRange"
    using open_named_short [of "replicate (nat n) ''''", OF _ r(1)] cfg n by (simp add: sk_makeClient_def len_def)
  show "n = 3 \<Longrightarrow> \<exists>cfg'. sk_makeClient ck (\<lambda>j. end_name ch (ClerkEnd ck j)) cfg =
        Inr (cfg', sk_MakeClerk (map (\<lambda>j. \<lparr>ce_endname = end_name ch (ClerkEnd ck j)\<rparr>) (upto_n 3))) \<and>
      wired ch (D \<union> ClerkEnd ck ` {0..<3}) (On \<union> ClerkEnd ck ` {0..<3}) (skc_net cfg') \<and>
      skc_clerks cfg' = Some (cm(ck \<mapsto> map (\<lambda>j. end_name ch (ClerkEnd ck j)) (upto_n 3)))"
    using open_named_full [OF _ r(1)] r(2) cfg by (simp add: sk_makeClient_def)
qed

end
