(* ===== verification/Sk_Harness_Properties.thy ===== *)
theory Sk_Harness_Properties
  imports Sk_Harness
begin

section \<open>The harness of the sharded store: the main properties\<close>

text \<open>
  For which sizes of groups \<^verbatim>\<open>src/shardkv/config.go\<close> works, what a test finds when it does, and that stopping and
  starting a group loses nothing that its servers saved.
\<close>

subsection \<open>Creating the harness\<close>

text \<open>
  C33. The harness of the sharded store works for groups of exactly three servers, which is the number of masters: with more
  servers \<^verbatim>\<open>make_config\<close> writes behind the end of \<^verbatim>\<open>gg.mendnames\<close>, with fewer \<^verbatim>\<open>makeClient\<close> writes behind the end of
  \<^verbatim>\<open>endnames\<close>. Up to three servers \<^verbatim>\<open>make_config\<close> starts and registers all masters and all servers of
  the three groups, each new from nothing, and every end leads to the server it was made for and is
  enabled; with three, so are the ends of a new clerk to the masters.
\<close>

theorem shard_harness_needs_three:
  assumes "inj (end_name ch)" "0 \<le> n"
  shows "if n \<le> 3 then
      \<exists>cfg :: 'c sk_config. sk_make_config ch n unreliable mx = Inr cfg \<and> groups_up ch (\<lambda>_. 0) n 3 cfg \<and>
        (\<forall>d \<in> harness_draws n 3. is_enabled (skc_net cfg) (end_name ch d) \<and> connection (skc_net cfg) (end_name ch d) = Some (goal d)) \<and>
        (if n < 3 then sk_makeClient ck (\<lambda>j. end_name ch (ClerkEnd ck j)) cfg = Inl IndexOutOfRange
         else \<exists>cfg'. sk_makeClient ck (\<lambda>j. end_name ch (ClerkEnd ck j)) cfg =
             Inr (cfg', sk_MakeClerk (map (\<lambda>j. \<lparr>ce_endname = end_name ch (ClerkEnd ck j)\<rparr>) [0, 1, 2])) \<and>
           (\<forall>j \<in> {0, 1, 2}. is_enabled (skc_net cfg') (end_name ch (ClerkEnd ck j)) \<and>
              connection (skc_net cfg') (end_name ch (ClerkEnd ck j)) = Some (mastername j)))
    else (sk_make_config ch n unreliable mx :: 'c sk_config go) = Inl IndexOutOfRange"
proof (cases "n \<le> 3")
  case False
  then show ?thesis using sk_make_config_cases(2) [OF assms] by auto
next
  case True
  obtain cfg :: "'c sk_config" where cfg: "sk_make_config ch n unreliable mx = Inr cfg" "groups_up ch (\<lambda>_. 0) n 3 cfg"
    "wired ch (harness_draws n 3) (harness_draws n 3) (skc_net cfg)" "skc_clerks cfg = Some Map.empty"
    using sk_make_config_cases(1) [OF assms True] by blast
  have new: "ClerkEnd ck j \<notin> harness_draws n 3" for j
    by (auto simp: harness_draws_def master_draws_def group_draws_def server_draws_def)
  have c: "skc_n cfg = n" "nmasters cfg = 3" using cfg(2) by (simp_all add: groups_up_def masters_up_def)
  note ck = sk_makeClient_cases [OF assms c cfg(4,3) new]
  have three: "upto_n 3 = [0, 1, 2]" by (simp add: upto_n_def upto.simps)
  have "{0, 1, 2} \<subseteq> {0..<3 :: int}" by auto
  then have "\<exists>cfg'. sk_makeClient ck (\<lambda>j. end_name ch (ClerkEnd ck j)) cfg =
             Inr (cfg', sk_MakeClerk (map (\<lambda>j. \<lparr>ce_endname = end_name ch (ClerkEnd ck j)\<rparr>) [0, 1, 2])) \<and>
           (\<forall>j \<in> {0, 1, 2}. is_enabled (skc_net cfg') (end_name ch (ClerkEnd ck j)) \<and>
              connection (skc_net cfg') (end_name ch (ClerkEnd ck j)) = Some (mastername j))" if "\<not> n < 3"
    using ck(2) that True unfolding three wired_def by fastforce
  then show ?thesis using True cfg ck(1) unfolding wired_def by auto
qed

text \<open>Different names for all ends: a letter for the kind, then the numbers in unary.\<close>

definition exEnc :: "int \<Rightarrow> string" where
  "exEnc i = (if i < 0 then CHR ''-'' else CHR ''+'') # replicate (nat \<bar>i\<bar>) (CHR ''1'') @ ''.''"

fun exName :: "draw \<Rightarrow> string" where
  "exName (MasterEnd i j) = CHR ''m'' # exEnc i @ exEnc j"
| "exName (MckEnd j) = CHR ''k'' # exEnc j"
| "exName (ClerkEnd ck j) = CHR ''c'' # exEnc (int ck) @ exEnc j"
| "exName (PeerEnd h gi i j) = CHR ''p'' # exEnc (int h) @ exEnc gi @ exEnc i @ exEnc j"
| "exName (ServerEnd h gi i j) = CHR ''s'' # exEnc (int h) @ exEnc gi @ exEnc i @ exEnc j"

lemma unary_inject: "replicate a (CHR ''1'') @ CHR ''.'' # xs = replicate b (CHR ''1'') @ CHR ''.'' # ys \<longleftrightarrow> a = b \<and> xs = ys"
proof (induction a arbitrary: b)
  case 0
  then show ?case by (cases b) auto
next
  case (Suc a)
  then show ?case by (cases b) auto
qed

lemma exEnc_inject: "exEnc i @ xs = exEnc j @ ys \<longleftrightarrow> i = j \<and> xs = ys"
  using unary_inject by (auto simp: exEnc_def split: if_splits)

lemma exName_inject: "inj exName"
proof (rule injI)
  fix d e assume "exName d = exName e"
  then show "d = e"
    using exEnc_inject [of _ "[]" _ "[]"] by (cases d; cases e) (simp_all add: exEnc_inject)
qed

definition exChoices :: choices where
  "exChoices = \<lparr>end_name = exName, master_rnd = (\<lambda>_. 0), master_addr = nat, server_rnd = (\<lambda>_ _ _. 0),
     server_addr = (\<lambda>h gi i. 10 * h + 100 + 3 * nat gi + nat i)\<rparr>"

theorem shard_harness_needs_three_witness:
  "(sk_make_config exChoices 4 False (-1) :: nat sk_config go) = Inl IndexOutOfRange \<and>
   (\<exists>cfg :: nat sk_config. sk_make_config exChoices 2 False (-1) = Inr cfg \<and>
      sk_makeClient 0 (\<lambda>j. exName (ClerkEnd 0 j)) cfg = Inl IndexOutOfRange) \<and>
   (\<exists>(cfg :: nat sk_config) cfg' ck. sk_make_config exChoices 3 False (-1) = Inr cfg \<and>
      sk_makeClient 0 (\<lambda>j. exName (ClerkEnd 0 j)) cfg = Inr (cfg', ck) \<and>
      connection (skc_net cfg') (exName (ClerkEnd 0 2)) = Some ''master2'')"
proof (intro conjI)
  have inj: "inj (end_name exChoices)" and e: "end_name exChoices = exName" using exName_inject by (simp_all add: exChoices_def)
  note t = shard_harness_needs_three [OF inj, where ck = 0 and unreliable = False and mx = "-1", unfolded e]
  show "(sk_make_config exChoices 4 False (-1) :: nat sk_config go) = Inl IndexOutOfRange" using t [of 4] by simp
  show "\<exists>cfg :: nat sk_config. sk_make_config exChoices 2 False (-1) = Inr cfg \<and>
      sk_makeClient 0 (\<lambda>j. exName (ClerkEnd 0 j)) cfg = Inl IndexOutOfRange" using t [of 2] by auto
  have "mastername 2 = ''master2''" by code_simp
  then show "\<exists>(cfg :: nat sk_config) cfg' ck. sk_make_config exChoices 3 False (-1) = Inr cfg \<and>
      sk_makeClient 0 (\<lambda>j. exName (ClerkEnd 0 j)) cfg = Inr (cfg', ck) \<and>
      connection (skc_net cfg') (exName (ClerkEnd 0 2)) = Some ''master2''" using t [of 3] by fastforce
qed

subsection \<open>Stopping and starting a group\<close>

text \<open>
  Everything of the harness is the same but the network and the entry of group \<open>gi\<close>: the masters, their clerk, the other groups with
  their servers and persisters; and every server of another group and every master is registered as it was.
\<close>

definition changes_only_group :: "int \<Rightarrow> 'c sk_config \<Rightarrow> 'c sk_config \<Rightarrow> bool" where
  "changes_only_group gi cfg cfg' \<longleftrightarrow>
     (\<exists>rn gg. cfg' = cfg\<lparr>skc_net := rn, groups := (groups cfg)[nat gi := gg]\<rparr>) \<and>
     (\<forall>s. (\<forall>i. 0 \<le> i \<and> i < skc_n cfg \<longrightarrow> s \<noteq> servername (100 + gi) i) \<longrightarrow>
        server_at (skc_net cfg') s = server_at (skc_net cfg) s)"

text \<open>
  C32. \<^verbatim>\<open>ShutdownGroup\<close> and then \<^verbatim>\<open>StartGroup\<close> on a group of a running harness: both succeed, and both leave the masters, their clerk and
  the other groups exactly as they were, registrations included (\<open>changes_only_group\<close>). In between none of the group's servers is
  registered and exactly the ends that the group's servers had made are switched off. Afterwards the whole harness runs
  again; the group's servers have new ends, the ends of their old instances stay switched off, and each has the term, the
  vote, the log and the snapshot of its old instance.
\<close>

theorem group_restart:
  assumes inj: "inj (end_name ch)" and up: "groups_up ch gen n 3 cfg" and gi: "0 \<le> gi" "gi < 3" and n: "0 \<le> n" "n \<le> 3"
    and w: "wired ch D On (skc_net cfg)" and D: "group_draws (gen gi) n gi n \<subseteq> D"
    and new: "\<And>i j. PeerEnd (Suc (gen gi)) gi i j \<notin> D" "\<And>i j. ServerEnd (Suc (gen gi)) gi i j \<notin> D"
  shows "\<exists>cfg1 cfg2. ShutdownGroup gi cfg = Inr cfg1 \<and> StartGroup ch (Suc (gen gi)) gi cfg1 = Inr cfg2 \<and>
    changes_only_group gi cfg cfg1 \<and> changes_only_group gi cfg cfg2 \<and>
    (\<forall>i. 0 \<le> i \<and> i < n \<longrightarrow> server_at (skc_net cfg1) (servername (100 + gi) i) = None) \<and>
    wired ch D (On - group_draws (gen gi) n gi n) (skc_net cfg1) \<and>
    groups_up ch (gen(gi := Suc (gen gi))) n 3 cfg2 \<and>
    wired ch (D \<union> group_draws (Suc (gen gi)) n gi n) (On - group_draws (gen gi) n gi n \<union> group_draws (Suc (gen gi)) n gi n) (skc_net cfg2) \<and>
    (\<forall>i gg kv. 0 \<le> i \<and> i < n \<and> groups cfg ! nat gi = Some gg \<and> gg_servers gg ! nat i = Some kv \<longrightarrow>
       (\<exists>gg' kv'. groups cfg2 ! nat gi = Some gg' \<and> gg_servers gg' ! nat i = Some kv' \<and>
          currentTerm (skv_rf kv') = currentTerm (skv_rf kv) \<and> votedFor (skv_rf kv') = votedFor (skv_rf kv) \<and>
          log (skv_rf kv') = log (skv_rf kv) \<and> snapshot (persister (skv_rf kv')) = snapshot (persister (skv_rf kv))))"
proof -
  note u = up [unfolded groups_up_def]
  have "group_up ch (gen gi) n gi cfg" using u gi by simp
  then obtain old gg where gg: "groups cfg ! nat gi = Some gg" "group_ok ch (gen gi) n gi old n gg" by (auto simp: group_up_def)
  define rfs where "rfs = (\<lambda>i. map_option skv_rf (gg_servers gg ! nat i))"
  have c: "skc_n cfg = n" "gi < len (groups cfg)" "nmasters cfg = 3" using u gi by (simp_all add: masters_up_def)
  obtain gg1 rn1 where 1: "ShutdownGroup gi cfg = Inr (cfg\<lparr>skc_net := rn1, groups := (groups cfg)[nat gi := Some gg1]\<rparr>)"
    "group_stopping ch (gen gi) n gi rfs n gg1" "wired ch D (On - group_draws (gen gi) n gi n) rn1"
    "\<forall>i. 0 \<le> i \<and> i < n \<longrightarrow> server_at rn1 (servername (100 + gi) i) = None"
    "\<forall>s. (\<forall>i. 0 \<le> i \<and> i < n \<longrightarrow> s \<noteq> servername (100 + gi) i) \<longrightarrow> server_at rn1 s = server_at (skc_net cfg) s"
    using ShutdownGroup_ok [OF inj c(1) gi(1) c(2) n gg(1) group_stopping_start [OF gg(2)] w D] unfolding rfs_def by blast
  let ?cfg1 = "cfg\<lparr>skc_net := rn1, groups := (groups cfg)[nat gi := Some gg1]\<rparr>" and ?h = "Suc (gen gi)"
  have c1: "skc_n ?cfg1 = n" "nmasters ?cfg1 = 3" "gi < len (groups ?cfg1)" "groups ?cfg1 ! nat gi = Some gg1" "skc_net ?cfg1 = rn1"
    using c gi by (simp_all add: len_def)
  have g1: "group_ok ch ?h n gi rfs 0 gg1" by (rule group_stopping_end [OF 1(2)])
  have w1: "wired ch D (On - group_draws (gen gi) n gi n) (skc_net ?cfg1)" using 1(3) by simp
  obtain cfg2 where start: "foldE (start_of ch ?h gi) (upto_n n) ?cfg1 = Inr cfg2"
    "group_progress ch ?h n gi rfs ?cfg1 D (On - group_draws (gen gi) n gi n) n cfg2"
    using start_all(1) [OF inj c1(1,2) gi(1) c1(3) n(1) c1(4) g1 w1 new n(2)] by blast
  then obtain gg2 rn2 where 2: "cfg2 = ?cfg1\<lparr>skc_net := rn2, groups := (groups ?cfg1)[nat gi := Some gg2]\<rparr>"
    "group_ok ch ?h n gi rfs n gg2"
    "wired ch (D \<union> group_draws ?h n gi n) (On - group_draws (gen gi) n gi n \<union> group_draws ?h n gi n) rn2"
    "\<forall>i. 0 \<le> i \<and> i < n \<longrightarrow> server_at rn2 (servername (100 + gi) i) = Some (server_addr ch ?h gi i)"
    "\<forall>s. (\<forall>i. 0 \<le> i \<and> i < n \<longrightarrow> s \<noteq> servername (100 + gi) i) \<longrightarrow> server_at rn2 s = server_at rn1 s"
    unfolding group_progress_def c1(5) by blast
  let ?cfg2 = "cfg\<lparr>skc_net := rn2, groups := (groups cfg)[nat gi := Some gg2]\<rparr>"
  have other: "server_at rn2 s = server_at (skc_net cfg) s" if "\<And>i. 0 \<le> i \<Longrightarrow> i < n \<Longrightarrow> s \<noteq> servername (100 + gi) i" for s
    using that 1(5) 2(5) by simp
  have "group_up ch ((gen(gi := ?h)) g) n g ?cfg2" if "0 \<le> g \<and> g < 3" for g
  proof (cases "g = gi")
    case True
    then show ?thesis using 2(2,4) c(2) gi by (auto simp: group_up_def len_def)
  next
    case False
    then show ?thesis using that u gi by (simp, intro group_up_other [OF _ _ _ _ other]) simp_all
  qed
  moreover have "masters_up ch 3 ?cfg2" by (rule masters_up_other [OF _ other]) (use u in simp)
  ultimately have up2: "groups_up ch (gen(gi := ?h)) n 3 ?cfg2" using u by (simp add: groups_up_def)
  have same: "\<exists>kv'. gg_servers gg2 ! nat i = Some kv' \<and> resumes (Some (skv_rf kv)) (skv_rf kv')"
    if "0 \<le> i" "i < n" "gg_servers gg ! nat i = Some kv" for i kv
    using 2(2) that by (auto simp: group_ok_def server_ok_def rfs_def)
  have g2: "groups ?cfg2 ! nat gi = Some gg2" using c(2) gi by (simp add: len_def)
  have only: "changes_only_group gi cfg ?cfg1" "changes_only_group gi cfg ?cfg2"
    unfolding changes_only_group_def c(1) using 1(5) other by (auto intro: exI)
  show ?thesis
  proof (rule exI [of _ ?cfg1], rule exI [of _ ?cfg2], intro conjI allI impI)
    fix i gg0 kv assume i: "0 \<le> i \<and> i < n \<and> groups cfg ! nat gi = Some gg0 \<and> gg_servers gg0 ! nat i = Some kv"
    then obtain kv' where "gg_servers gg2 ! nat i = Some kv'" "resumes (Some (skv_rf kv)) (skv_rf kv')" using same [of i kv] gg(1) by auto
    then show "\<exists>gg' kv'. groups ?cfg2 ! nat gi = Some gg' \<and> gg_servers gg' ! nat i = Some kv' \<and>
          currentTerm (skv_rf kv') = currentTerm (skv_rf kv) \<and> votedFor (skv_rf kv') = votedFor (skv_rf kv) \<and>
          log (skv_rf kv') = log (skv_rf kv) \<and> snapshot (persister (skv_rf kv')) = snapshot (persister (skv_rf kv))"
      using g2 by (auto simp: resumes_def)
  qed (use 1 2 start(1) up2 c(1) only in \<open>simp_all add: StartGroup_def\<close>)
qed

theorem group_restart_witness:
  "\<exists>(cfg :: nat sk_config) cfg1 cfg2. sk_make_config exChoices 3 False (-1) = Inr cfg \<and> ShutdownGroup 1 cfg = Inr cfg1 \<and>
     StartGroup exChoices 1 1 cfg1 = Inr cfg2 \<and> server_at (skc_net cfg1) ''server-101-0'' = None \<and>
     server_at (skc_net cfg2) ''server-101-0'' = Some 113 \<and> \<not> is_enabled (skc_net cfg2) (exName (PeerEnd 0 1 0 2)) \<and>
     is_enabled (skc_net cfg2) (exName (PeerEnd 1 1 0 2)) \<and> is_enabled (skc_net cfg2) (exName (PeerEnd 0 2 0 2))"
proof -
  have inj: "inj (end_name exChoices)" and e: "end_name exChoices = exName" using exName_inject by (simp_all add: exChoices_def)
  obtain cfg :: "nat sk_config" where cfg: "sk_make_config exChoices 3 False (-1) = Inr cfg" "groups_up exChoices (\<lambda>_. 0) 3 3 cfg"
    "wired exChoices (harness_draws 3 3) (harness_draws 3 3) (skc_net cfg)"
    using sk_make_config_cases(1) [OF inj, of 3 False "-1"] by auto
  have D: "group_draws 0 3 1 3 \<subseteq> harness_draws 3 3" by (auto simp: harness_draws_def)
  have new: "PeerEnd (Suc 0) 1 i j \<notin> harness_draws 3 3" "ServerEnd (Suc 0) 1 i j \<notin> harness_draws 3 3" for i j
    by (auto simp: harness_draws_def master_draws_def group_draws_def server_draws_def)
  have old: "PeerEnd 0 gi 0 2 \<in> group_draws 0 3 gi 3" "PeerEnd (Suc 0) gi 0 2 \<in> group_draws (Suc 0) 3 gi 3" for gi
    unfolding group_draws_def by (rule UN_I [of 0]; simp add: server_draws_def)+
  have "group_draws 0 3 2 3 \<subseteq> harness_draws 3 3" by (auto simp: harness_draws_def)
  then have d: "PeerEnd 0 1 0 2 \<in> harness_draws 3 3" "PeerEnd 0 2 0 2 \<in> harness_draws 3 3"
    using old(1) [of 1] old(1) [of 2] D by blast+
  have d': "PeerEnd 0 2 0 2 \<notin> group_draws 0 3 1 3" "PeerEnd 0 1 0 2 \<notin> group_draws (Suc 0) 3 1 3"
    by (auto simp: group_draws_def server_draws_def)
  obtain cfg1 cfg2 where r: "ShutdownGroup 1 cfg = Inr cfg1" "StartGroup exChoices (Suc 0) 1 cfg1 = Inr cfg2"
    "\<forall>i. 0 \<le> i \<and> i < 3 \<longrightarrow> server_at (skc_net cfg1) (servername (100 + 1) i) = None"
    "groups_up exChoices ((\<lambda>_. 0)(1 := Suc 0)) 3 3 cfg2"
    "wired exChoices (harness_draws 3 3 \<union> group_draws (Suc 0) 3 1 3) (harness_draws 3 3 - group_draws 0 3 1 3 \<union> group_draws (Suc 0) 3 1 3) (skc_net cfg2)"
    using group_restart [OF inj cfg(2) _ _ _ _ cfg(3) D new] by auto
  have "group_up exChoices (((\<lambda>_. 0)(1 := Suc 0)) 1) 3 1 cfg2" using r(4) unfolding groups_up_def by (elim conjE allE [of _ 1]) simp
  then have "server_at (skc_net cfg2) (servername (100 + 1) 0) = Some 113" by (simp add: group_up_def exChoices_def)
  moreover have "servername (100 + 1) 0 = ''server-101-0''" by code_simp
  ultimately have s: "server_at (skc_net cfg2) ''server-101-0'' = Some 113" "server_at (skc_net cfg1) ''server-101-0'' = None"
    using r(3) by auto
  have on: "is_enabled (skc_net cfg2) (exName d) \<longleftrightarrow> d \<in> harness_draws 3 3 - group_draws 0 3 1 3 \<union> group_draws (Suc 0) 3 1 3"
    if "d \<in> harness_draws 3 3 \<union> group_draws (Suc 0) 3 1 3" for d using r(5) that unfolding wired_def e by blast
  have "\<not> is_enabled (skc_net cfg2) (exName (PeerEnd 0 1 0 2))" "is_enabled (skc_net cfg2) (exName (PeerEnd (Suc 0) 1 0 2))"
    "is_enabled (skc_net cfg2) (exName (PeerEnd 0 2 0 2))"
    using on d d' old by blast+
  then show ?thesis using cfg(1) r(1,2) s unfolding One_nat_def by blast
qed

subsection \<open>Joining\<close>

text \<open>
  What \<^verbatim>\<open>joinm\<close> tells the masters: for each group its number and the names of its servers, all of which are registered,
  so that an end that a clerk makes for such a name reaches that server.
\<close>

lemma group_names_all:
  assumes "\<And>g. g \<in> set gis \<Longrightarrow> group_at cfg g = Inr (gg g) \<and> gid (gg g) = 100 + g"
  shows "foldE (group_names cfg) gis mp =
    Inr (\<lambda>x. if x - 100 \<in> set gis then Some (map (servername x) (upto_n (skc_n cfg))) else mp x)"
  using assms
proof (induction gis arbitrary: mp)
  case (Cons g gis)
  have "group_names cfg g mp = Inr (mp(100 + g \<mapsto> map (servername (100 + g)) (upto_n (skc_n cfg))))"
    using Cons.prems [of g] by (simp add: group_names_def)
  moreover have "foldE (group_names cfg) gis mp' =
    Inr (\<lambda>x. if x - 100 \<in> set gis then Some (map (servername x) (upto_n (skc_n cfg))) else mp' x)" for mp'
    by (rule Cons.IH) (use Cons.prems in simp)
  ultimately show ?case by (auto simp: fun_eq_iff)
qed (simp add: fun_eq_iff)

lemma joined_groups_reachable:
  assumes up: "groups_up ch gen n 3 cfg" "0 \<le> n" and gis: "set gis \<subseteq> {0..<3}"
  shows "\<exists>mp ck. joinm net fuel gis k cfg = Inr (sm_Join net fuel ck (Some mp) k) \<and> dom mp = (+) 100 ` set gis \<and>
    (\<forall>g \<in> set gis. \<exists>ss. mp (100 + g) = Some ss \<and> len ss = n \<and>
       (\<forall>i. 0 \<le> i \<and> i < n \<longrightarrow> server_at (skc_net cfg) (ss ! nat i) = Some (server_addr ch (gen g) g i)))"
proof -
  have g: "group_at cfg g = Inr (the (groups cfg ! nat g)) \<and> gid (the (groups cfg ! nat g)) = 100 + g \<and>
      (\<forall>i. 0 \<le> i \<and> i < n \<longrightarrow> server_at (skc_net cfg) (servername (100 + g) i) = Some (server_addr ch (gen g) g i))" if "g \<in> set gis" for g
  proof -
    have "0 \<le> g" "g < 3" using that gis by auto
    moreover from this have "group_up ch (gen g) n g cfg" "len (groups cfg) = 3" using up by (auto simp: groups_up_def)
    ultimately show ?thesis by (auto simp: group_at_def index_def group_up_def group_ok_def group_sized_def)
  qed
  let ?mp = "\<lambda>x. if x - 100 \<in> set gis then Some (map (servername x) (upto_n n)) else None"
  have "foldE (group_names cfg) gis Map.empty = Inr ?mp"
    using group_names_all [of gis cfg "\<lambda>g. the (groups cfg ! nat g)" Map.empty] g up by (auto simp: groups_up_def)
  then have "joinm net fuel gis k cfg =
      Inr (sm_Join net fuel (sm_MakeClerk (map (\<lambda>j. \<lparr>ce_endname = end_name ch (MckEnd j)\<rparr>) (upto_n 3))) (Some ?mp) k)"
    using up by (simp add: joinm_def groups_up_def)
  moreover have "dom ?mp = (+) 100 ` set gis" by (force simp: dom_def image_iff)
  ultimately show ?thesis using g up(2)
    by (intro exI [of _ ?mp] exI conjI) (auto simp: len_def upto_n_nth groups_up_def)
qed

end
