(* ===== verification/Porcupine_Bitset.thy ===== *)
theory Porcupine_Bitset
  imports Prelude "HOL-Library.Word"
begin

section \<open>The linearizability checker: bit sets\<close>

text \<open>
  Models \<^verbatim>\<open>src/porcupine/bitset.go\<close>: a set of small numbers as a slice of 64-bit words. A
  position is a natural number; an index expression out of range is a panic. The abstraction
  \<open>bits\<close> gives the set, and every operation is shown to do on it what its name says.
\<close>

unbundle bit_operations_syntax

subsection \<open>The operations\<close>

type_synonym bitset = "64 word list"

definition newBitset :: "nat \<Rightarrow> bitset" where
  "newBitset n =
     (let extra = (if n mod 64 \<noteq> 0 then 1 else 0);
          chunks = n div 64 + extra
      in replicate chunks 0)"

definition clone :: "bitset \<Rightarrow> bitset" where
  "clone b = map (\<lambda>i. b ! i) [0..<length b]"

definition bitsetIndex :: "nat \<Rightarrow> nat \<times> nat" where
  "bitsetIndex pos = (pos div 64, pos mod 64)"

definition bs_set :: "bitset \<Rightarrow> nat \<Rightarrow> bitset go" where
  "bs_set b pos =
     (let (major, minor) = bitsetIndex pos in
      bindE (index b (int major)) (\<lambda>w. set_index b (int major) (w OR push_bit minor 1)))"

definition bs_clear :: "bitset \<Rightarrow> nat \<Rightarrow> bitset go" where
  "bs_clear b pos =
     (let (major, minor) = bitsetIndex pos in
      bindE (index b (int major)) (\<lambda>w. set_index b (int major) (w AND NOT (push_bit minor 1))))"

definition bs_get :: "bitset \<Rightarrow> nat \<Rightarrow> bool go" where
  "bs_get b pos =
     (let (major, minor) = bitsetIndex pos in
      bindE (index b (int major)) (\<lambda>w. Inr (w AND push_bit minor 1 \<noteq> 0)))"

text \<open>\<^verbatim>\<open>bits.OnesCount64\<close>.\<close>

definition OnesCount64 :: "64 word \<Rightarrow> nat" where
  "OnesCount64 v = length (filter (bit v) [0..<64])"

definition popcnt :: "bitset \<Rightarrow> nat" where
  "popcnt b = foldl (\<lambda>total v. total + OnesCount64 v) 0 b"

definition bs_hash :: "bitset \<Rightarrow> 64 word" where
  "bs_hash b = foldl (\<lambda>h v. h XOR v) (of_nat (popcnt b)) b"

definition bs_equals :: "bitset \<Rightarrow> bitset \<Rightarrow> bool" where
  "bs_equals b b2 =
     (if length b \<noteq> length b2 then False else list_all (\<lambda>i. b ! i = b2 ! i) [0..<length b])"

subsection \<open>The set a bit set stands for\<close>

definition bits :: "bitset \<Rightarrow> nat set" where
  "bits b = {pos. pos < 64 * length b \<and> bit (b ! (pos div 64)) (pos mod 64)}"

lemma clone_eq [simp]: "clone b = b"
  by (simp add: clone_def map_nth)

lemma pos_div: "pos < 64 * n \<longleftrightarrow> pos div 64 < (n :: nat)"
  by (simp add: div_less_iff_less_mult mult.commute)

lemma bit_single: "m < 64 \<Longrightarrow> bit (2 ^ m :: 64 word) j \<longleftrightarrow> j = m"
  by (auto simp: bit_exp_iff possible_bit_def)

lemma newBitset_bits [simp]: "bits (newBitset n) = {}"
  by (auto simp: bits_def newBitset_def Let_def pos_div split: if_splits)

lemma newBitset_length: "n \<le> 64 * length (newBitset n)"
proof -
  have "n = 64 * (n div 64) + n mod 64" "n mod 64 < 64" by simp_all
  then have "n \<le> 64 * (n div 64) + 64" "n mod 64 = 0 \<Longrightarrow> n \<le> 64 * (n div 64)" by linarith+
  then show ?thesis by (simp add: newBitset_def Let_def)
qed

lemma bs_update:
  assumes "pos < 64 * length b" "bindE (index b (int (pos div 64))) (\<lambda>w. set_index b (int (pos div 64)) (f w)) = r"
  shows "r = Inr (b[pos div 64 := f (b ! (pos div 64))])"
  using assms by (simp add: pos_div index_def set_index_def len_def)

lemma bits_update:
  assumes "pos < 64 * length b" and "\<And>j. j < 64 \<Longrightarrow> bit w j = (if j = pos mod 64 then v else bit (b ! (pos div 64)) j)"
  shows "bits (b[pos div 64 := w]) = (if v then insert pos (bits b) else bits b - {pos})"
proof -
  have "q \<in> bits (b[pos div 64 := w]) \<longleftrightarrow> q \<in> (if v then insert pos (bits b) else bits b - {pos})" for q
  proof (cases "q div 64 = pos div 64")
    case True
    have "q = pos \<longleftrightarrow> q mod 64 = pos mod 64" using True by (metis div_mult_mod_eq)
    with True assms show ?thesis by (auto simp: bits_def pos_div)
  next
    case False
    then show ?thesis by (auto simp: bits_def pos_div)
  qed
  then show ?thesis by blast
qed

lemma bs_set_bits:
  assumes "pos < 64 * length b"
  shows "\<exists>b'. bs_set b pos = Inr b' \<and> length b' = length b \<and> bits b' = insert pos (bits b)"
proof -
  have "bs_set b pos = Inr (b[pos div 64 := (b ! (pos div 64)) OR push_bit (pos mod 64) 1])"
    using bs_update [OF assms refl] by (simp add: bs_set_def bitsetIndex_def)
  moreover have "bits (b[pos div 64 := (b ! (pos div 64)) OR push_bit (pos mod 64) 1]) = insert pos (bits b)"
    by (subst bits_update [OF assms, where v = True]) (auto simp: bit_or_iff bit_single)
  ultimately show ?thesis by simp
qed

lemma bs_clear_bits:
  assumes "pos < 64 * length b"
  shows "\<exists>b'. bs_clear b pos = Inr b' \<and> length b' = length b \<and> bits b' = bits b - {pos}"
proof -
  have "bs_clear b pos = Inr (b[pos div 64 := (b ! (pos div 64)) AND NOT (push_bit (pos mod 64) 1)])"
    using bs_update [OF assms refl] by (simp add: bs_clear_def bitsetIndex_def)
  moreover have "bits (b[pos div 64 := (b ! (pos div 64)) AND NOT (push_bit (pos mod 64) 1)]) = bits b - {pos}"
    by (subst bits_update [OF assms, where v = False])
      (auto simp: bit_and_iff bit_not_iff bit_single possible_bit_def)
  ultimately show ?thesis by simp
qed

lemma bs_get_bits:
  assumes "pos < 64 * length b"
  shows "bs_get b pos = Inr (pos \<in> bits b)"
proof -
  have "(w AND 2 ^ m \<noteq> 0) = bit w m" if "m < 64" for w :: "64 word" and m
  proof
    assume "w AND 2 ^ m \<noteq> 0"
    then obtain j where "bit (w AND 2 ^ m) j" unfolding bit_eq_iff by auto
    with that show "bit w m" by (auto simp: bit_and_iff bit_single)
  next
    assume "bit w m"
    with that have "bit (w AND 2 ^ m) m" by (simp add: bit_and_iff bit_single)
    then show "w AND 2 ^ m \<noteq> 0" by (metis bit_0_eq bot_apply bot_bool_def)
  qed
  with assms show ?thesis
    by (simp add: bs_get_def bitsetIndex_def index_def len_def bits_def pos_div)
qed

lemma bs_equals_iff: "bs_equals b b2 \<longleftrightarrow> b = b2"
proof -
  have "list_all (\<lambda>i. b ! i = b2 ! i) [0..<length b] \<longleftrightarrow> (\<forall>i < length b. b ! i = b2 ! i)"
    unfolding list_all_iff by auto
  then show ?thesis unfolding bs_equals_def list_eq_iff_nth_eq by (simp only: split: if_split) blast
qed

lemma bits_inject: "length b = length b2 \<Longrightarrow> bits b = bits b2 \<longleftrightarrow> b = b2"
proof
  assume l: "length b = length b2" and e: "bits b = bits b2"
  show "b = b2"
  proof (rule nth_equalityI [OF l])
    fix i assume i: "i < length b"
    show "b ! i = b2 ! i"
    proof (rule bit_eqI)
      fix j assume "possible_bit TYPE(64 word) j"
      then have j: "j < 64" by (simp add: possible_bit_def)
      have "64 * i + j < 64 * length b" "(64 * i + j) div 64 = i" "(64 * i + j) mod 64 = j"
        using i j by simp_all
      then have "bit (b ! i) j \<longleftrightarrow> 64 * i + j \<in> bits b" "bit (b2 ! i) j \<longleftrightarrow> 64 * i + j \<in> bits b2"
        unfolding bits_def l by simp_all
      with e show "bit (b ! i) j = bit (b2 ! i) j" by simp
    qed
  qed
qed simp

lemma popcnt_card: "popcnt b = card (bits b)"
proof (induction b rule: rev_induct)
  case Nil
  then show ?case by (simp add: popcnt_def bits_def)
next
  case (snoc w b)
  let ?n = "64 * length b"
  let ?hi = "(\<lambda>j. ?n + j) ` {j. j < 64 \<and> bit w j}"
  have "bits (b @ [w]) = bits b \<union> ?hi"
  proof (rule set_eqI)
    fix q
    show "q \<in> bits (b @ [w]) \<longleftrightarrow> q \<in> bits b \<union> ?hi"
    proof (cases "q < ?n")
      case True
      then have "q div 64 < length b" by (simp add: pos_div)
      with True show ?thesis by (auto simp: bits_def nth_append)
    next
      case False
      then obtain j where q: "q = ?n + j" using le_Suc_ex [of ?n q] by auto
      have "q \<notin> bits b" using q by (simp add: bits_def)
      moreover have "q \<in> ?hi \<longleftrightarrow> j < 64 \<and> bit w j" using q by auto
      moreover have "q div 64 = length b \<and> q mod 64 = j" if "j < 64" using q that by simp
      then have "q \<in> bits (b @ [w]) \<longleftrightarrow> j < 64 \<and> bit w j"
        using q by (cases "j < 64") (simp_all add: bits_def)
      ultimately show ?thesis by blast
    qed
  qed
  moreover have "bits b \<inter> ?hi = {}" by (auto simp: bits_def)
  moreover have "card ?hi = OnesCount64 w"
  proof -
    have "card ?hi = card {j. j < 64 \<and> bit w j}" by (rule card_image) (simp add: inj_on_def)
    also have "{j. j < 64 \<and> bit w j} = set (filter (bit w) [0..<64])" by auto
    also have "card \<dots> = length (filter (bit w) [0..<64])" by (rule distinct_card) simp
    finally show ?thesis by (simp add: OnesCount64_def)
  qed
  moreover have "finite (bits b)" by (simp add: bits_def)
  ultimately show ?case using snoc by (simp add: popcnt_def card_Un_disjoint)
qed

subsection \<open>The interface: a set of positions\<close>

text \<open>
  What the checker relies on: adding and removing a position does that to the set, and two
  bit sets of the same size are equal exactly when their sets are.
\<close>

locale position_set =
  fixes empty :: "nat \<Rightarrow> 'b" and add :: "'b \<Rightarrow> nat \<Rightarrow> 'b go" and del :: "'b \<Rightarrow> nat \<Rightarrow> 'b go"
    and same :: "'b \<Rightarrow> 'b \<Rightarrow> bool" and elems :: "'b \<Rightarrow> nat set" and holds :: "nat \<Rightarrow> 'b \<Rightarrow> bool"
  assumes empty: "holds n (empty n)" "elems (empty n) = {}"
    and add: "holds n b \<Longrightarrow> p < n \<Longrightarrow> \<exists>b'. add b p = Inr b' \<and> holds n b' \<and> elems b' = insert p (elems b)"
    and del: "holds n b \<Longrightarrow> p < n \<Longrightarrow> \<exists>b'. del b p = Inr b' \<and> holds n b' \<and> elems b' = elems b - {p}"
    and same: "holds n b \<Longrightarrow> holds n b' \<Longrightarrow> same b b' \<longleftrightarrow> elems b = elems b'"
begin

lemma del_add: "holds n b \<Longrightarrow> p < n \<Longrightarrow> p \<notin> elems b \<Longrightarrow> \<exists>b' b''. add b p = Inr b' \<and> del b' p = Inr b'' \<and> same b'' b"
  using add [of n b p] del [of n _ p] same [of n] by (metis Diff_insert_absorb)

end

definition bs_holds :: "nat \<Rightarrow> bitset \<Rightarrow> bool" where
  "bs_holds n b = (length b = length (newBitset n))"

lemma bs_holds_pos: "bs_holds n b \<Longrightarrow> p < n \<Longrightarrow> p < 64 * length b"
  using newBitset_length [of n] by (simp add: bs_holds_def)

interpretation bitset: position_set newBitset bs_set bs_clear bs_equals bits bs_holds
proof unfold_locales
  show "bs_holds n (newBitset n)" "bits (newBitset n) = {}" for n by (simp_all add: bs_holds_def)
  show "\<exists>b'. bs_set b p = Inr b' \<and> bs_holds n b' \<and> bits b' = insert p (bits b)" if "bs_holds n b" "p < n" for n b p
    using bs_set_bits [OF bs_holds_pos [OF that]] that(1) by (auto simp: bs_holds_def)
  show "\<exists>b'. bs_clear b p = Inr b' \<and> bs_holds n b' \<and> bits b' = bits b - {p}" if "bs_holds n b" "p < n" for n b p
    using bs_clear_bits [OF bs_holds_pos [OF that]] that(1) by (auto simp: bs_holds_def)
  show "bs_equals b b' \<longleftrightarrow> bits b = bits b'" if "bs_holds n b" "bs_holds n b'" for n b b'
    using that bits_inject [of b b'] by (simp add: bs_equals_iff bs_holds_def)
qed

end
