(* ===== verification/Porcupine_Checker.thy ===== *)
theory Porcupine_Checker
  imports Porcupine_Model Porcupine_Bitset
begin

section \<open>The linearizability checker: the search\<close>

text \<open>
  Models \<^verbatim>\<open>src/porcupine/checker.go\<close>. The history is a doubly linked list of nodes that the search
  takes operations out of and puts back in place, so the nodes live in an explicit heap: a
  list of nodes, a pointer is an index into it or \<open>None\<close> for \<^verbatim>\<open>nil\<close>, and following \<^verbatim>\<open>nil\<close> is a
  panic. The two loops that follow pointers have fuel, and \<open>None\<close> is running out of it.
  \<^verbatim>\<open>sort.Sort\<close>, which may order equal times in any way, is an argument; so are the moment at
  which another goroutine sets \<^verbatim>\<open>kill\<close> and the order in which the goroutines of
  \<^verbatim>\<open>checkParallel\<close> finish. The lists that \<^verbatim>\<open>checkParallel\<close> collects for the visualization are in the theory
  \<open>Porcupine_Visual\<close>.
\<close>

subsection \<open>Entries\<close>

datatype entryKind = callEntry | returnEntry

record ('i, 'o) entry =
  e_kind :: entryKind
  e_value :: "('i, 'o) anyval"
  e_id :: int
  e_time :: int
  e_clientId :: int

text \<open>The loop of \<^verbatim>\<open>makeEntries\<close> from the operation with number \<open>ident\<close> on.\<close>

primrec operation_entries :: "int \<Rightarrow> ('i, 'o) Operation list \<Rightarrow> ('i, 'o) entry list" where
  "operation_entries ident [] = []"
| "operation_entries ident (elem # history) =
     \<lparr>e_kind = callEntry, e_value = InputValue (Input elem), e_id = ident, e_time = Call elem, e_clientId = ClientId elem\<rparr> #
     \<lparr>e_kind = returnEntry, e_value = OutputValue (Output elem), e_id = ident, e_time = Return elem, e_clientId = ClientId elem\<rparr> #
     operation_entries (ident + 1) history"

definition makeEntries ::
  "(('i, 'o) entry list \<Rightarrow> ('i, 'o) entry list) \<Rightarrow> ('i, 'o) Operation list \<Rightarrow> ('i, 'o) entry list" where
  "makeEntries sort_byTime history = sort_byTime (operation_entries 0 history)"

text \<open>What \<^verbatim>\<open>sort.Sort(byTime(entries))\<close> promises.\<close>

definition sorts_byTime :: "(('i, 'o) entry list \<Rightarrow> ('i, 'o) entry list) \<Rightarrow> bool" where
  "sorts_byTime sort_byTime = (\<forall>es. mset (sort_byTime es) = mset es \<and> sorted (map e_time (sort_byTime es)))"

primrec renumber_loop :: "(int \<rightharpoonup> int) \<Rightarrow> int \<Rightarrow> ('i, 'o) Event list \<Rightarrow> ('i, 'o) Event list" where
  "renumber_loop m ident [] = []"
| "renumber_loop m ident (v # events) =
     (case m (ev_Id v) of
        Some r \<Rightarrow> v\<lparr>ev_Id := r\<rparr> # renumber_loop m ident events
      | None \<Rightarrow> v\<lparr>ev_Id := ident\<rparr> # renumber_loop (m(ev_Id v \<mapsto> ident)) (ident + 1) events)"

definition renumber :: "('i, 'o) Event list \<Rightarrow> ('i, 'o) Event list" where
  "renumber events = renumber_loop Map.empty 0 events"

definition convertEntries :: "('i, 'o) Event list \<Rightarrow> ('i, 'o) entry list" where
  "convertEntries events =
     map (\<lambda>(i, elem). \<lparr>e_kind = (if ev_Kind elem = ReturnEvent then returnEntry else callEntry),
            e_value = ev_Value elem, e_id = ev_Id elem, e_time = int i, e_clientId = ev_ClientId elem\<rparr>)
       (enumerate 0 events)"

subsection \<open>The linked list\<close>

record ('i, 'o) node =
  n_value :: "('i, 'o) anyval option"
  n_match :: "nat option"       \<comment> \<open>the return node of a call; \<open>None\<close> for a return\<close>
  n_id :: int
  n_next :: "nat option"
  n_prev :: "nat option"

type_synonym ('i, 'o) heap = "('i, 'o) node list"

definition load :: "('i, 'o) heap \<Rightarrow> nat option \<Rightarrow> ('i, 'o) node go" where
  "load h p =
     (case p of None \<Rightarrow> Inl NilDereference
      | Some a \<Rightarrow> if a < length h then Inr (h ! a) else Inl NilDereference)"

definition store_next :: "('i, 'o) heap \<Rightarrow> nat option \<Rightarrow> nat option \<Rightarrow> ('i, 'o) heap go" where
  "store_next h p v =
     (case p of None \<Rightarrow> Inl NilDereference
      | Some a \<Rightarrow> if a < length h then Inr (h[a := (h ! a)\<lparr>n_next := v\<rparr>]) else Inl NilDereference)"

definition store_prev :: "('i, 'o) heap \<Rightarrow> nat option \<Rightarrow> nat option \<Rightarrow> ('i, 'o) heap go" where
  "store_prev h p v =
     (case p of None \<Rightarrow> Inl NilDereference
      | Some a \<Rightarrow> if a < length h then Inr (h[a := (h ! a)\<lparr>n_prev := v\<rparr>]) else Inl NilDereference)"

definition insertBefore :: "('i, 'o) heap \<Rightarrow> nat \<Rightarrow> nat option \<Rightarrow> ('i, 'o) heap go" where
  "insertBefore h n mark =
     (if mark \<noteq> None then
        bindE (load h mark) (\<lambda>m.
        let beforeMark = n_prev m in
        bindE (store_prev h mark (Some n)) (\<lambda>h.
        bindE (store_next h (Some n) mark) (\<lambda>h.
        if beforeMark \<noteq> None then
          bindE (store_prev h (Some n) beforeMark) (\<lambda>h.
          store_next h beforeMark (Some n))
        else Inr h)))
      else Inr h)"

fun list_length :: "nat \<Rightarrow> ('i, 'o) heap \<Rightarrow> nat option \<Rightarrow> nat \<Rightarrow> nat option go" where
  "list_length 0 h n l = Inr None"
| "list_length (Suc fuel) h n l =
     (if n \<noteq> None then bindE (load h n) (\<lambda>nd. list_length fuel h (n_next nd) (l + 1))
      else Inr (Some l))"

text \<open>
  The loop of \<^verbatim>\<open>makeLinkedEntries\<close> runs through the entries from the last to the first; its
  variables are the heap, \<^verbatim>\<open>root\<close> and \<^verbatim>\<open>match\<close>.
\<close>

definition link_entry ::
  "('i, 'o) entry \<Rightarrow> ('i, 'o) heap \<times> nat option \<times> (int \<rightharpoonup> nat) \<Rightarrow> (('i, 'o) heap \<times> nat option \<times> (int \<rightharpoonup> nat)) go" where
  "link_entry elem s =
     (let (h, root, match) = s; a = length h in
      if e_kind elem = returnEntry then
        let h = h @ [\<lparr>n_value = Some (e_value elem), n_match = None, n_id = e_id elem, n_next = None, n_prev = None\<rparr>];
            match = match(e_id elem \<mapsto> a)
        in bindE (insertBefore h a root) (\<lambda>h. Inr (h, Some a, match))
      else
        let h = h @ [\<lparr>n_value = Some (e_value elem), n_match = match (e_id elem), n_id = e_id elem, n_next = None, n_prev = None\<rparr>]
        in bindE (insertBefore h a root) (\<lambda>h. Inr (h, Some a, match)))"

primrec link_entries :: "('i, 'o) entry list \<Rightarrow> (('i, 'o) heap \<times> nat option \<times> (int \<rightharpoonup> nat)) go" where
  "link_entries [] = Inr ([], None, Map.empty)"
| "link_entries (elem # es) = bindE (link_entries es) (link_entry elem)"

definition makeLinkedEntries :: "('i, 'o) entry list \<Rightarrow> (('i, 'o) heap \<times> nat option) go" where
  "makeLinkedEntries es = bindE (link_entries es) (\<lambda>(h, root, match). Inr (h, root))"

definition lift :: "('i, 'o) heap \<Rightarrow> nat \<Rightarrow> ('i, 'o) heap go" where
  "lift h ent =
     bindE (load h (Some ent)) (\<lambda>e.
     bindE (store_next h (n_prev e) (n_next e)) (\<lambda>h.
     bindE (load h (Some ent)) (\<lambda>e.
     bindE (store_prev h (n_next e) (n_prev e)) (\<lambda>h.
     bindE (load h (Some ent)) (\<lambda>e.
     bindE (load h (n_match e)) (\<lambda>m.
     bindE (store_next h (n_prev m) (n_next m)) (\<lambda>h.
     bindE (load h (n_match e)) (\<lambda>m.
     if n_next m \<noteq> None then store_prev h (n_next m) (n_prev m) else Inr h))))))))"

definition unlift :: "('i, 'o) heap \<Rightarrow> nat \<Rightarrow> ('i, 'o) heap go" where
  "unlift h ent =
     bindE (load h (Some ent)) (\<lambda>e.
     bindE (load h (n_match e)) (\<lambda>m.
     bindE (store_next h (n_prev m) (n_match e)) (\<lambda>h.
     bindE (load h (n_match e)) (\<lambda>m.
     bindE (if n_next m \<noteq> None then store_prev h (n_next m) (n_match e) else Inr h) (\<lambda>h.
     bindE (load h (Some ent)) (\<lambda>e.
     bindE (store_next h (n_prev e) (Some ent)) (\<lambda>h.
     bindE (load h (Some ent)) (\<lambda>e.
     store_prev h (n_next e) (Some ent)))))))))"

subsection \<open>The search\<close>

record 's cacheEntry =
  c_linearized :: bitset
  c_state :: 's

type_synonym 's cache = "64 word \<Rightarrow> 's cacheEntry list"

text \<open>\<^verbatim>\<open>model.Equal\<close>, which \<^verbatim>\<open>fillDefault\<close> has set whenever the search runs.\<close>

definition state_equal :: "('s, 'i, 'o) Model \<Rightarrow> 's \<Rightarrow> 's \<Rightarrow> bool" where
  "state_equal model s t = (case Equal model of Some eq \<Rightarrow> eq s t | None \<Rightarrow> False)"

definition cacheContains :: "('s, 'i, 'o) Model \<Rightarrow> 's cache \<Rightarrow> 's cacheEntry \<Rightarrow> bool" where
  "cacheContains model cache ent =
     list_ex (\<lambda>elem. bs_equals (c_linearized ent) (c_linearized elem) \<and>
                     state_equal model (c_state ent) (c_state elem))
       (cache (bs_hash (c_linearized ent)))"

text \<open>The variables of \<^verbatim>\<open>checkSingle\<close>.\<close>

record ('s, 'i, 'o) search =
  sr_heap :: "('i, 'o) heap"
  sr_entry :: "nat option"
  sr_linearized :: bitset
  sr_cache :: "'s cache"
  sr_calls :: "(nat \<times> 's) list"
  sr_longest :: "int list option list"
  sr_state :: 's

text \<open>\<^verbatim>\<open>model.Step\<close> on the values of a call node and of its return node.\<close>

definition model_step ::
  "('s, 'i, 'o) Model \<Rightarrow> 's \<Rightarrow> ('i, 'o) anyval option \<Rightarrow> ('i, 'o) anyval option \<Rightarrow> (bool \<times> 's) go" where
  "model_step model s v w =
     (case (v, w) of
        (Some (InputValue i), Some (OutputValue out)) \<Rightarrow> Inr (Step model s i out)
      | _ \<Rightarrow> Inl TypeAssertion)"

definition call_ids :: "('i, 'o) heap \<Rightarrow> (nat \<times> 's) list \<Rightarrow> int list" where
  "call_ids h calls = map (\<lambda>(a, s). n_id (h ! a)) calls"

text \<open>The loop that keeps, for each operation on the stack, the longest prefix it was part of.\<close>

primrec keep_longest :: "int list \<Rightarrow> int list \<Rightarrow> int list option list \<Rightarrow> int list option list go" where
  "keep_longest sq [] longest = Inr longest"
| "keep_longest sq (i # ids) longest =
     bindE (index longest i) (\<lambda>l.
     if (case l of None \<Rightarrow> True | Some old \<Rightarrow> length sq > length old)
     then bindE (set_index longest i (Some sq)) (\<lambda>longest. keep_longest sq ids longest)
     else keep_longest sq ids longest)"

text \<open>
  The body of the loop. \<open>None\<close> as the new state means \<^verbatim>\<open>return false\<close>.
\<close>

definition try_call ::
  "('s, 'i, 'o) Model \<Rightarrow> nat \<Rightarrow> nat \<Rightarrow> ('i, 'o) node \<Rightarrow> ('s, 'i, 'o) search \<Rightarrow> ('s, 'i, 'o) search go" where
  "try_call model headp ent e st =
     bindE (load (sr_heap st) (n_match e)) (\<lambda>matching.
     bindE (model_step model (sr_state st) (n_value e) (n_value matching)) (\<lambda>(ok, newState).
     if ok then
       bindE (bs_set (clone (sr_linearized st)) (nat (n_id e))) (\<lambda>newLinearized.
       let newCacheEntry = \<lparr>c_linearized = newLinearized, c_state = newState\<rparr> in
       if \<not> cacheContains model (sr_cache st) newCacheEntry then
         let hsh = bs_hash newLinearized;
             st = st\<lparr>sr_cache := (sr_cache st)(hsh := sr_cache st hsh @ [newCacheEntry])\<rparr>;
             st = st\<lparr>sr_calls := sr_calls st @ [(ent, sr_state st)]\<rparr>;
             st = st\<lparr>sr_state := newState\<rparr>
         in
         bindE (bs_set (sr_linearized st) (nat (n_id e))) (\<lambda>lin.
         bindE (lift (sr_heap st) ent) (\<lambda>h.
         bindE (load h (Some headp)) (\<lambda>headEntry.
         Inr (st\<lparr>sr_linearized := lin, sr_heap := h, sr_entry := n_next headEntry\<rparr>))))
       else Inr (st\<lparr>sr_entry := n_next e\<rparr>))
     else Inr (st\<lparr>sr_entry := n_next e\<rparr>)))"

definition backtrack :: "bool \<Rightarrow> ('s, 'i, 'o) search \<Rightarrow> ('s, 'i, 'o) search option go" where
  "backtrack computePartial st =
     (if sr_calls st = [] then Inr None
      else
        let sq = call_ids (sr_heap st) (sr_calls st) in
        bindE (if computePartial then keep_longest sq sq (sr_longest st) else Inr (sr_longest st)) (\<lambda>longest.
        let (ent, s) = last (sr_calls st) in
        bindE (load (sr_heap st) (Some ent)) (\<lambda>e.
        bindE (bs_clear (sr_linearized st) (nat (n_id e))) (\<lambda>lin.
        bindE (unlift (sr_heap st) ent) (\<lambda>h.
        bindE (load h (Some ent)) (\<lambda>e.
        Inr (Some (st\<lparr>sr_longest := longest, sr_state := s, sr_linearized := lin,
                      sr_calls := butlast (sr_calls st), sr_heap := h, sr_entry := n_next e\<rparr>))))))))"

definition check_turn ::
  "('s, 'i, 'o) Model \<Rightarrow> bool \<Rightarrow> nat \<Rightarrow> ('s, 'i, 'o) search \<Rightarrow> ('s, 'i, 'o) search option go" where
  "check_turn model computePartial headp st =
     bindE (load (sr_heap st) (sr_entry st)) (\<lambda>e.
     if n_match e \<noteq> None then bindE (try_call model headp (the (sr_entry st)) e st) (\<lambda>st. Inr (Some st))
     else backtrack computePartial st)"

text \<open>\<open>kill k\<close>: the flag is set when the loop reads it for the \<open>k\<close>-th time.\<close>

fun check_loop ::
  "('s, 'i, 'o) Model \<Rightarrow> bool \<Rightarrow> (nat \<Rightarrow> bool) \<Rightarrow> nat \<Rightarrow> nat \<Rightarrow> nat \<Rightarrow> ('s, 'i, 'o) search
     \<Rightarrow> (bool \<times> ('s, 'i, 'o) search) option go" where
  "check_loop model computePartial kill headp k 0 st = Inr None"
| "check_loop model computePartial kill headp k (Suc fuel) st =
     bindE (load (sr_heap st) (Some headp)) (\<lambda>headEntry.
     if n_next headEntry \<noteq> None then
       if kill k then Inr (Some (False, st))
       else
         bindE (check_turn model computePartial headp st) (\<lambda>r.
         case r of
           None \<Rightarrow> Inr (Some (False, st))
         | Some st \<Rightarrow> check_loop model computePartial kill headp (k + 1) fuel st)
     else Inr (Some (True, st)))"

definition checkSingle ::
  "('s, 'i, 'o) Model \<Rightarrow> bool \<Rightarrow> (nat \<Rightarrow> bool) \<Rightarrow> nat \<Rightarrow> ('i, 'o) entry list
     \<Rightarrow> (bool \<times> int list option list) option go" where
  "checkSingle model computePartial kill fuel history =
     bindE (makeLinkedEntries history) (\<lambda>(h, ent).
     bindE (list_length fuel h ent 0) (\<lambda>l.
     case l of None \<Rightarrow> Inr None
     | Some l \<Rightarrow>
       let n = l div 2;
           headp = length h;
           h = h @ [\<lparr>n_value = None, n_match = None, n_id = -1, n_next = None, n_prev = None\<rparr>]
       in
       bindE (insertBefore h headp ent) (\<lambda>h.
       let st = \<lparr>sr_heap = h, sr_entry = ent, sr_linearized = newBitset n, sr_cache = (\<lambda>_. []),
                 sr_calls = [], sr_longest = replicate n None, sr_state = Init model\<rparr>
       in
       bindE (check_loop model computePartial kill headp 0 fuel st) (\<lambda>r.
       case r of None \<Rightarrow> Inr None
       | Some (ok, st) \<Rightarrow>
           if ok then Inr (Some (True, replicate n (Some (call_ids (sr_heap st) (sr_calls st)))))
           else Inr (Some (False, sr_longest st))))))"

subsection \<open>All partitions\<close>

text \<open>
  \<^verbatim>\<open>checkParallel\<close> receives the goroutines' results until it can stop. \<open>results\<close> are the results
  in the order in which they arrive, \<open>timeout\<close> the number of results after which the timer
  fires, if it does. With nothing left to receive the \<^verbatim>\<open>select\<close> waits for ever. The result is
  \<^verbatim>\<open>ok\<close> and \<^verbatim>\<open>timedOut\<close>.
\<close>

fun collect :: "bool \<Rightarrow> nat \<Rightarrow> nat option \<Rightarrow> nat \<Rightarrow> bool list \<Rightarrow> (bool \<times> bool) go" where
  "collect computeInfo n timeout cnt results =
     (if timeout = Some cnt then Inr (True, True)
      else
        case results of
          [] \<Rightarrow> Inl Blocked
        | result # rest \<Rightarrow>
            let cnt = cnt + 1 in
            if \<not> result \<and> \<not> computeInfo then Inr (False, False)
            else if cnt \<ge> n then Inr (result, False)
            else bindE (collect computeInfo n timeout cnt rest) (\<lambda>(ok, timedOut). Inr (result \<and> ok, timedOut)))"

definition check_result :: "bool \<times> bool \<Rightarrow> CheckResult" where
  "check_result r =
     (let (ok, timedOut) = r in
      if \<not> ok then Illegal else if timedOut then Unknown else Ok)"

definition checkParallel :: "bool \<Rightarrow> nat option \<Rightarrow> nat \<Rightarrow> bool list \<Rightarrow> CheckResult go" where
  "checkParallel computeInfo timeout n results =
     bindE (collect computeInfo n timeout 0 results) (\<lambda>r. Inr (check_result r))"

text \<open>
  The histories that \<^verbatim>\<open>checkOperations\<close> and \<^verbatim>\<open>checkEvents\<close> hand to \<^verbatim>\<open>checkParallel\<close>.
\<close>

definition operation_partitions ::
  "(('i, 'o) entry list \<Rightarrow> ('i, 'o) entry list) \<Rightarrow> ('s, 'i, 'o) Model \<Rightarrow> ('i, 'o) Operation list \<Rightarrow> ('i, 'o) entry list list" where
  "operation_partitions sort_byTime model history =
     (let model = fillDefault model;
          partitions = (case Partition model of Some p \<Rightarrow> p history | None \<Rightarrow> [])
      in map (makeEntries sort_byTime) partitions)"

definition event_partitions :: "('s, 'i, 'o) Model \<Rightarrow> ('i, 'o) Event list \<Rightarrow> ('i, 'o) entry list list" where
  "event_partitions model history =
     (let model = fillDefault model;
          partitions = (case PartitionEvent model of Some p \<Rightarrow> p history | None \<Rightarrow> [])
      in map (\<lambda>sub. convertEntries (renumber sub)) partitions)"

text \<open>
  The goroutines' results in the order \<open>order\<close> in which they finish. One that is received
  before \<^verbatim>\<open>checkParallel\<close> stops ran with the flag clear.
\<close>

primrec run_all ::
  "('s, 'i, 'o) Model \<Rightarrow> bool \<Rightarrow> nat \<Rightarrow> ('i, 'o) entry list list \<Rightarrow> nat list \<Rightarrow> bool list option go" where
  "run_all model verbose fuel hs [] = Inr (Some [])"
| "run_all model verbose fuel hs (i # order) =
     bindE (index hs (int i)) (\<lambda>history.
     bindE (checkSingle model verbose (\<lambda>_. False) fuel history) (\<lambda>r.
     bindE (run_all model verbose fuel hs order) (\<lambda>rs.
     Inr (case (r, rs) of (Some (ok, l), Some oks) \<Rightarrow> Some (ok # oks) | _ \<Rightarrow> None))))"

definition check_partitions ::
  "('s, 'i, 'o) Model \<Rightarrow> bool \<Rightarrow> nat option \<Rightarrow> nat \<Rightarrow> nat list \<Rightarrow> ('i, 'o) entry list list \<Rightarrow> CheckResult option go" where
  "check_partitions model verbose timeout fuel order hs =
     bindE (run_all (fillDefault model) verbose fuel hs order) (\<lambda>rs.
     case rs of None \<Rightarrow> Inr None
     | Some results \<Rightarrow> bindE (checkParallel verbose timeout (length hs) results) (\<lambda>r. Inr (Some r)))"

definition checkOperations where
  "checkOperations sort_byTime model history verbose timeout fuel order =
     check_partitions model verbose timeout fuel order (operation_partitions sort_byTime model history)"

definition checkEvents where
  "checkEvents model history verbose timeout fuel order =
     check_partitions model verbose timeout fuel order (event_partitions model history)"

definition CheckOperations where
  "CheckOperations sort_byTime model history fuel order =
     bindE (checkOperations sort_byTime model history False None fuel order) (\<lambda>r. Inr (map_option (\<lambda>res. res = Ok) r))"

definition CheckEvents where
  "CheckEvents model history fuel order =
     bindE (checkEvents model history False None fuel order) (\<lambda>r. Inr (map_option (\<lambda>res. res = Ok) r))"

text \<open>
  With a time limit: \<open>timeout\<close> is the number of results that arrive before it. The verbose
  forms also return the lists for the visualization, for which see the theory \<open>Porcupine_Visual\<close>.
\<close>

definition CheckOperationsTimeout where
  "CheckOperationsTimeout sort_byTime model history timeout fuel order =
     checkOperations sort_byTime model history False timeout fuel order"

definition CheckOperationsVerbose where
  "CheckOperationsVerbose sort_byTime model history timeout fuel order =
     checkOperations sort_byTime model history True timeout fuel order"

definition CheckEventsTimeout where
  "CheckEventsTimeout model history timeout fuel order =
     checkEvents model history False timeout fuel order"

definition CheckEventsVerbose where
  "CheckEventsVerbose model history timeout fuel order =
     checkEvents model history True timeout fuel order"

end
