(* ===== verification/Porcupine_Heap.thy ===== *)
theory Porcupine_Heap
  imports Porcupine_Checker
begin

section \<open>The linearizability checker: the linked list\<close>

text \<open>
  The nodes of \<^verbatim>\<open>src/porcupine/checker.go\<close> as a doubly linked list in the heap: what \<^verbatim>\<open>lift\<close> takes
  out, that \<^verbatim>\<open>unlift\<close> puts everything back exactly as it was, and that \<^verbatim>\<open>makeLinkedEntries\<close>
  builds the list of the entries.
\<close>

subsection \<open>Linked sequences of nodes\<close>

fun linked :: "('i, 'o) heap \<Rightarrow> nat list \<Rightarrow> bool" where
  "linked h [] = True"
| "linked h [a] = (a < length h)"
| "linked h (a # b # xs) =
     (a < length h \<and> n_next (h ! a) = Some b \<and> n_prev (h ! b) = Some a \<and> linked h (b # xs))"

text \<open>The whole list: it ends in \<^verbatim>\<open>nil\<close>, and no node occurs twice.\<close>

definition dlist :: "('i, 'o) heap \<Rightarrow> nat list \<Rightarrow> bool" where
  "dlist h xs = (xs \<noteq> [] \<and> distinct xs \<and> linked h xs \<and> n_next (h ! last xs) = None)"

lemma linked_valid: "linked h xs \<Longrightarrow> a \<in> set xs \<Longrightarrow> a < length h"
  by (induction h xs rule: linked.induct) auto

lemma linked_append:
  "xs \<noteq> [] \<Longrightarrow> ys \<noteq> [] \<Longrightarrow> linked h (xs @ ys) \<longleftrightarrow>
     linked h xs \<and> linked h ys \<and> n_next (h ! last xs) = Some (hd ys) \<and> n_prev (h ! hd ys) = Some (last xs)"
proof (induction h xs rule: linked.induct)
  case (2 h a)
  then show ?case by (cases ys) auto
qed auto

lemma linked_frame:
  assumes "linked h xs" "length h' = length h"
    "\<And>a. a \<in> set (butlast xs) \<Longrightarrow> n_next (h' ! a) = n_next (h ! a)"
    "\<And>a. a \<in> set (tl xs) \<Longrightarrow> n_prev (h' ! a) = n_prev (h ! a)"
  shows "linked h' xs"
  using assms by (induction h xs rule: linked.induct) auto

lemma nth_upd: "xs[i := v] ! j = (if i = j \<and> i < length xs then v else xs ! j)"
  by (cases "i < length xs") (auto simp: nth_list_update list_update_beyond)

subsection \<open>Taking a node out and putting it back\<close>

definition unlink :: "('i, 'o) heap \<Rightarrow> nat \<Rightarrow> ('i, 'o) heap" where
  "unlink h a =
     (let p = the (n_prev (h ! a));
          h = h[p := (h ! p)\<lparr>n_next := n_next (h ! a)\<rparr>]
      in case n_next (h ! a) of None \<Rightarrow> h | Some q \<Rightarrow> h[q := (h ! q)\<lparr>n_prev := Some p\<rparr>])"

definition relink :: "('i, 'o) heap \<Rightarrow> nat \<Rightarrow> ('i, 'o) heap" where
  "relink h a =
     (let p = the (n_prev (h ! a));
          h = h[p := (h ! p)\<lparr>n_next := Some a\<rparr>]
      in case n_next (h ! a) of None \<Rightarrow> h | Some q \<Rightarrow> h[q := (h ! q)\<lparr>n_prev := Some a\<rparr>])"

text \<open>A node inside the list, with its neighbours.\<close>

lemma dlist_node:
  assumes "dlist h (xs @ a # ys)" "xs \<noteq> []"
  shows "n_prev (h ! a) = Some (last xs)" "n_next (h ! last xs) = Some a" "a < length h" "last xs < length h"
    "n_next (h ! a) = (if ys = [] then None else Some (hd ys))"
    "ys \<noteq> [] \<Longrightarrow> n_prev (h ! hd ys) = Some a \<and> hd ys < length h"
    "a \<noteq> last xs" "ys \<noteq> [] \<Longrightarrow> hd ys \<noteq> a \<and> hd ys \<noteq> last xs"
proof -
  have l: "linked h (xs @ (a # ys))" and d: "distinct (xs @ a # ys)" using assms by (auto simp: dlist_def)
  note s = iffD1 [OF linked_append [OF assms(2)] l]
  show "n_prev (h ! a) = Some (last xs)" "n_next (h ! last xs) = Some a" using s by auto
  show "a < length h" "last xs < length h"
    using linked_valid [OF l] assms(2) by auto
  show "n_next (h ! a) = (if ys = [] then None else Some (hd ys))"
    using s assms(1) by (cases ys) (auto simp: dlist_def)
  show "ys \<noteq> [] \<Longrightarrow> n_prev (h ! hd ys) = Some a \<and> hd ys < length h"
    using s linked_valid [OF l] by (cases ys) auto
  show "a \<noteq> last xs" "ys \<noteq> [] \<Longrightarrow> hd ys \<noteq> a \<and> hd ys \<noteq> last xs"
  proof -
    have "last xs \<in> set xs" using assms(2) by simp
    then show "a \<noteq> last xs" using d by auto
    assume "ys \<noteq> []"
    then have "hd ys \<in> set ys" by simp
    then show "hd ys \<noteq> a \<and> hd ys \<noteq> last xs" using d \<open>last xs \<in> set xs\<close> by auto
  qed
qed

lemma unlink_fields [simp]:
  "length (unlink h a) = length h"
  "n_value (unlink h a ! b) = n_value (h ! b)" "n_match (unlink h a ! b) = n_match (h ! b)"
  "n_id (unlink h a ! b) = n_id (h ! b)"
  by (auto simp: unlink_def Let_def nth_upd split: option.split)

lemma unlink_links:
  assumes "dlist h (xs @ a # ys)" "xs \<noteq> []"
  shows "n_next (unlink h a ! b) = (if b = last xs then n_next (h ! a) else n_next (h ! b))"
    "n_prev (unlink h a ! b) = (if ys \<noteq> [] \<and> b = hd ys then Some (last xs) else n_prev (h ! b))"
  using dlist_node [OF assms] by (auto simp: unlink_def Let_def nth_upd split: option.split)

lemma unlink_dlist:
  assumes "dlist h (xs @ a # ys)" "xs \<noteq> []"
  shows "dlist (unlink h a) (xs @ ys)" "unlink h a ! a = h ! a"
proof -
  note n = dlist_node [OF assms] and u = unlink_links [OF assms]
  have l: "linked h xs" "linked h (a # ys)" and d: "distinct (xs @ a # ys)"
    using assms linked_append [OF assms(2), of "a # ys" h] by (auto simp: dlist_def)
  have bl: "last xs \<notin> set (butlast xs)"
    using d assms(2) by (metis append_butlast_last_id distinct_append distinct.simps(2) disjoint_iff list.set_intros(1))
  have lx: "last xs \<in> set xs" using assms(2) by simp
  have hy: "hd ys \<in> set ys" if "ys \<noteq> []" using that by simp
  have 1: "linked (unlink h a) xs"
  proof (rule linked_frame [OF l(1)])
    show "n_next (unlink h a ! b) = n_next (h ! b)" if "b \<in> set (butlast xs)" for b
      using that bl by (auto simp: u)
    show "n_prev (unlink h a ! b) = n_prev (h ! b)" if "b \<in> set (tl xs)" for b
      using list.set_sel(2) [OF assms(2) that] hy d by (auto simp: u)
  qed simp
  show "dlist (unlink h a) (xs @ ys)"
  proof (cases "ys = []")
    case True
    with 1 d n(5) assms(2) show ?thesis by (simp add: dlist_def u)
  next
    case False
    have "linked h ys" using l(2) False by (cases ys) auto
    then have 2: "linked (unlink h a) ys"
    proof (rule linked_frame)
      show "n_next (unlink h a ! b) = n_next (h ! b)" if "b \<in> set (butlast ys)" for b
        using in_set_butlastD [OF that] lx d by (auto simp: u)
      show "n_prev (unlink h a ! b) = n_prev (h ! b)" if "b \<in> set (tl ys)" for b
      proof -
        have "b \<noteq> hd ys" using that d False by (cases ys) auto
        then show ?thesis by (simp add: u)
      qed
    qed simp
    have "n_next (h ! last ys) = None" using assms(1) False by (simp add: dlist_def)
    moreover have "last ys \<noteq> last xs" using d lx last_in_set [OF False] by (metis Un_iff disjoint_iff distinct_append list.set_intros(2))
    ultimately show ?thesis
      using 1 2 False d assms(2) n(5) by (simp add: dlist_def linked_append u)
  qed
  show "unlink h a ! a = h ! a"
    using n(3,7) n(8) by (auto simp: unlink_def Let_def nth_upd n(1,5))
qed

lemma relink_unlink:
  assumes "dlist h (xs @ a # ys)" "xs \<noteq> []"
  shows "relink (unlink h a) a = h"
proof -
  note n = dlist_node [OF assms]
  have a: "unlink h a ! a = h ! a" by (rule unlink_dlist(2) [OF assms])
  show ?thesis
  proof (rule nth_equalityI)
    show "length (relink (unlink h a) a) = length h"
      by (auto simp: relink_def Let_def split: option.split)
    fix b assume "b < length (relink (unlink h a) a)"
    show "relink (unlink h a) a ! b = h ! b"
    proof (cases "ys = []")
      case True
      with n show ?thesis by (auto simp: relink_def Let_def a unlink_def nth_upd)
    next
      case False
      then show ?thesis using n n(6) [OF False] n(8) [OF False]
        by (auto simp: relink_def Let_def a unlink_def nth_upd)
    qed
  qed
qed

subsection \<open>lift and unlift\<close>

text \<open>The statements that take a node out and put it back, as \<^verbatim>\<open>lift\<close> and \<^verbatim>\<open>unlift\<close> have them.\<close>

definition unlink_code :: "('i, 'o) heap \<Rightarrow> nat \<Rightarrow> ('i, 'o) heap go" where
  "unlink_code h a =
     bindE (load h (Some a)) (\<lambda>nd.
     bindE (store_next h (n_prev nd) (n_next nd)) (\<lambda>h.
     bindE (load h (Some a)) (\<lambda>nd.
     if n_next nd \<noteq> None then store_prev h (n_next nd) (n_prev nd) else Inr h)))"

definition relink_code :: "('i, 'o) heap \<Rightarrow> nat \<Rightarrow> ('i, 'o) heap go" where
  "relink_code h a =
     bindE (load h (Some a)) (\<lambda>nd.
     bindE (store_next h (n_prev nd) (Some a)) (\<lambda>h.
     bindE (load h (Some a)) (\<lambda>nd.
     if n_next nd \<noteq> None then store_prev h (n_next nd) (Some a) else Inr h)))"

definition node_ok :: "('i, 'o) heap \<Rightarrow> nat \<Rightarrow> bool" where
  "node_ok h a =
     (a < length h \<and> (\<exists>p. n_prev (h ! a) = Some p \<and> p < length h \<and> p \<noteq> a) \<and>
      (\<forall>q. n_next (h ! a) = Some q \<longrightarrow> q < length h))"

lemma dlist_node_ok: "dlist h (xs @ a # ys) \<Longrightarrow> xs \<noteq> [] \<Longrightarrow> node_ok h a"
  using dlist_node [of h xs a ys] by (auto simp: node_ok_def split: if_splits)

lemma unlink_code_eq: "node_ok h a \<Longrightarrow> unlink_code h a = Inr (unlink h a)"
  by (auto simp: node_ok_def unlink_code_def unlink_def load_def store_next_def store_prev_def nth_upd Let_def
      split: option.split)

lemma relink_code_eq: "node_ok h a \<Longrightarrow> relink_code h a = Inr (relink h a)"
  by (auto simp: node_ok_def relink_code_def relink_def load_def store_next_def store_prev_def nth_upd Let_def
      split: option.split)

lemma bindE_if_Inr: "(if b then bindE x f else Inl e) = bindE (if b then x else Inl e) f"
  by simp

lemma lift_code:
  assumes "e < length h" "n_match (h ! e) = Some m" "n_next (h ! e) \<noteq> None" "n_prev (h ! e) \<noteq> Some e" "n_next (h ! e) \<noteq> Some e"
  shows "lift h e = bindE (unlink_code h e) (\<lambda>u. unlink_code u m)"
proof -
  have m: "n_match (h1 ! e) = Some m \<and> e < length h1" if "store_next h p v = Inr h1" for h1 p v
    using that assms(1,2) by (auto simp: store_next_def nth_upd split: option.splits if_splits)
  have m2: "n_match (h2 ! e) = Some m \<and> e < length h2"
    if "store_prev h1 p v = Inr h2" "n_match (h1 ! e) = Some m \<and> e < length h1" for h1 h2 p v
    using that by (auto simp: store_prev_def nth_upd split: option.splits if_splits)
  have nn: "n_next (h1 ! e) \<noteq> None" if "store_next h (n_prev (h ! e)) v = Inr h1" for h1 v
    using that assms(3,4) by (auto simp: store_next_def nth_upd split: option.splits if_splits)
  show ?thesis
  proof (cases "store_next h (n_prev (h ! e)) (n_next (h ! e))")
    case (Inl err)
    with assms(1) show ?thesis by (simp add: lift_def unlink_code_def load_def)
  next
    case (Inr h1)
    note i1 = m [OF Inr] nn [OF Inr]
    show ?thesis
    proof (cases "store_prev h1 (n_next (h1 ! e)) (n_prev (h1 ! e))")
      case (Inl err)
      with assms(1) Inr i1 show ?thesis by (simp add: lift_def unlink_code_def load_def)
    next
      case 2: (Inr h2)
      with assms(1) Inr i1 m2 [OF 2 i1(1)] show ?thesis by (simp add: lift_def unlink_code_def load_def)
    qed
  qed
qed

lemma unlift_code:
  assumes "e < length h" "n_match (h ! e) = Some m" "relink_code h m = Inr u" "length u = length h" "n_next (u ! e) \<noteq> None"
    "n_prev (u ! e) \<noteq> Some e"
  shows "unlift h e = relink_code u e"
proof -
  have "unlift h e = bindE (relink_code h m) (\<lambda>h.
     bindE (load h (Some e)) (\<lambda>e'.
     bindE (store_next h (n_prev e') (Some e)) (\<lambda>h.
     bindE (load h (Some e)) (\<lambda>e'.
     store_prev h (n_next e') (Some e)))))"
  proof -
    have "load h (Some e) = Inr (h ! e)" using assms(1) by (simp add: load_def)
    then show ?thesis unfolding unlift_def relink_code_def bindE_assoc by (simp only: bindE_simps assms(2))
  qed
  also have "\<dots> = relink_code u e"
  proof (cases "store_next u (n_prev (u ! e)) (Some e)")
    case (Inl err)
    with assms show ?thesis by (simp add: relink_code_def load_def)
  next
    case (Inr h1)
    then have "n_next (h1 ! e) \<noteq> None"
      using assms(5,6) by (auto simp: store_next_def nth_upd split: option.splits if_splits)
    with assms(3) Inr show ?thesis by (simp add: relink_code_def load_def)
  qed
  finally show ?thesis .
qed

text \<open>A call and its return in the list.\<close>

lemma lift_eq:
  assumes "dlist h (xs @ e # ys @ m # zs)" "xs \<noteq> []" "n_match (h ! e) = Some m"
  shows "lift h e = Inr (unlink (unlink h e) m)"
proof -
  have d1: "dlist h (xs @ e # (ys @ m # zs))" using assms(1) by simp
  have d2: "dlist (unlink h e) ((xs @ ys) @ m # zs)" using unlink_dlist(1) [OF d1 assms(2)] by simp
  note n = dlist_node [OF d1 assms(2)]
  have "lift h e = bindE (unlink_code h e) (\<lambda>u. unlink_code u m)"
    using n assms(3) by (intro lift_code) auto
  then show ?thesis
    using unlink_code_eq [OF dlist_node_ok [OF d1 assms(2)]] unlink_code_eq [OF dlist_node_ok [OF d2]] assms(2)
    by simp
qed

lemma node_ok_unlink: "node_ok h a \<Longrightarrow> unlink h a ! a = h ! a \<Longrightarrow> node_ok (unlink h a) a"
  by (simp add: node_ok_def)

lemma unlift_lift:
  assumes "dlist h (xs @ e # ys @ m # zs)" "xs \<noteq> []" "n_match (h ! e) = Some m"
  shows "unlift (unlink (unlink h e) m) e = Inr h"
proof -
  have d1: "dlist h (xs @ e # (ys @ m # zs))" using assms(1) by simp
  have d2: "dlist (unlink h e) ((xs @ ys) @ m # zs)" using unlink_dlist(1) [OF d1 assms(2)] by simp
  have ne: "xs @ ys \<noteq> []" using assms(2) by simp
  note n = dlist_node [OF d1 assms(2)]
  let ?u = "unlink h e"
  let ?w = "unlink ?u m"
  have "node_ok ?w m" by (rule node_ok_unlink [OF dlist_node_ok [OF d2 ne] unlink_dlist(2) [OF d2 ne]])
  then have 1: "relink_code ?w m = Inr ?u" by (simp add: relink_code_eq relink_unlink [OF d2 ne])
  have e: "?u ! e = h ! e" by (rule unlink_dlist(2) [OF d1 assms(2)])
  have "node_ok ?u e" by (rule node_ok_unlink [OF dlist_node_ok [OF d1 assms(2)] e])
  then have 2: "relink_code ?u e = Inr h" by (simp add: relink_code_eq relink_unlink [OF d1 assms(2)])
  show ?thesis using n assms(3) by (subst unlift_code [OF _ _ 1]) (auto simp: e 2)
qed

lemma lift_dlist:
  assumes "dlist h (xs @ e # ys @ m # zs)" "xs \<noteq> []"
  shows "dlist (unlink (unlink h e) m) (xs @ ys @ zs)"
proof -
  have d1: "dlist h (xs @ e # (ys @ m # zs))" using assms(1) by simp
  have d2: "dlist (unlink h e) ((xs @ ys) @ m # zs)" using unlink_dlist(1) [OF d1 assms(2)] by simp
  show ?thesis using unlink_dlist(1) [OF d2] assms(2) by simp
qed

subsection \<open>Building the list\<close>

text \<open>\<^verbatim>\<open>insertBefore\<close> of a new node in front of the first one.\<close>

definition pushed :: "('i, 'o) heap \<Rightarrow> ('i, 'o) node \<Rightarrow> nat \<Rightarrow> ('i, 'o) heap" where
  "pushed h nd r =
     (let h = h @ [nd]; a = length h - 1; h = h[r := (h ! r)\<lparr>n_prev := Some a\<rparr>]
      in h[a := (h ! a)\<lparr>n_next := Some r\<rparr>])"

lemma insertBefore_front:
  assumes "r < length h" "n_prev (h ! r) = None"
  shows "insertBefore (h @ [nd]) (length h) (Some r) = Inr (pushed h nd r)"
  using assms by (simp add: insertBefore_def load_def store_prev_def store_next_def pushed_def Let_def nth_append)

lemma pushed_fields:
  assumes "r < length h"
  shows "length (pushed h nd r) = Suc (length h)"
    "b < length h \<Longrightarrow> n_value (pushed h nd r ! b) = n_value (h ! b)"
    "b < length h \<Longrightarrow> n_match (pushed h nd r ! b) = n_match (h ! b)"
    "b < length h \<Longrightarrow> n_id (pushed h nd r ! b) = n_id (h ! b)"
    "b < length h \<Longrightarrow> n_next (pushed h nd r ! b) = n_next (h ! b)"
    "b < length h \<Longrightarrow> n_prev (pushed h nd r ! b) = (if b = r then Some (length h) else n_prev (h ! b))"
    "pushed h nd r ! length h = nd\<lparr>n_next := Some r\<rparr>"
  using assms by (auto simp: pushed_def Let_def nth_upd nth_append)

lemma dlist_pushed:
  assumes "dlist h (r # xs)"
  shows "dlist (pushed h nd r) (length h # r # xs)"
proof -
  have v: "a < length h" if "a \<in> set (r # xs)" for a
    using assms linked_valid that unfolding dlist_def by blast
  note f = pushed_fields [OF v [of r], where nd = nd, simplified]
  have "linked h (r # xs)" using assms by (simp add: dlist_def)
  then have "linked (pushed h nd r) (r # xs)"
  proof -
    have "linked (pushed h nd r) ys" if "linked h ys" "set ys \<subseteq> {..<length h}" "r \<notin> set (tl ys)" for ys
      using that
    proof (induction h ys rule: linked.induct)
      case (2 h a)
      then show ?case by (auto simp: pushed_def Let_def)
    next
      case (3 h a b ys)
      then show ?case by (cases ys) (auto simp: pushed_def Let_def nth_upd nth_append)
    qed simp
    from this [OF \<open>linked h (r # xs)\<close>] show ?thesis using assms v by (auto simp: dlist_def subset_iff)
  qed
  moreover have "n_next (pushed h nd r ! last (r # xs)) = None"
    using assms f(5) [OF v [OF last_in_set]] by (simp add: dlist_def)
  ultimately show ?thesis using assms v f by (auto simp: dlist_def)
qed

text \<open>The address of the first return of an operation among the entries; entry \<open>k\<close> of \<open>n\<close> is at \<open>n - 1 - k\<close>.\<close>

primrec ret_addr :: "('i, 'o) entry list \<Rightarrow> int \<Rightarrow> nat option" where
  "ret_addr [] i = None"
| "ret_addr (e # es) i = (if e_kind e = returnEntry \<and> e_id e = i then Some (length es) else ret_addr es i)"

primrec contents :: "('i, 'o) heap \<Rightarrow> ('i, 'o) entry list \<Rightarrow> bool" where
  "contents h [] = True"
| "contents h (e # es) =
     (n_value (h ! length es) = Some (e_value e) \<and> n_id (h ! length es) = e_id e \<and>
      n_match (h ! length es) = (if e_kind e = returnEntry then None else ret_addr es (e_id e)) \<and> contents h es)"

lemma contents_frame:
  assumes "contents h es"
    "\<And>b. b < length es \<Longrightarrow> n_value (h' ! b) = n_value (h ! b) \<and> n_id (h' ! b) = n_id (h ! b) \<and> n_match (h' ! b) = n_match (h ! b)"
  shows "contents h' es"
  using assms by (induction es) auto

lemma link_entries_eq:
  "\<exists>h. link_entries es = Inr (h, if es = [] then None else Some (length es - 1), ret_addr es) \<and>
     length h = length es \<and> contents h es \<and>
     (es \<noteq> [] \<longrightarrow> dlist h (rev [0..<length es]) \<and> n_prev (h ! (length es - 1)) = None)"
proof (induction es)
  case Nil
  then show ?case by (simp add: fun_eq_iff)
next
  case (Cons e es)
  then obtain h where h: "link_entries es = Inr (h, if es = [] then None else Some (length es - 1), ret_addr es)"
    "length h = length es" "contents h es"
    "es \<noteq> [] \<Longrightarrow> dlist h (rev [0..<length es]) \<and> n_prev (h ! (length es - 1)) = None" by blast
  define nd where "nd = \<lparr>n_value = Some (e_value e), n_match = (if e_kind e = returnEntry then None else ret_addr es (e_id e)),
    n_id = e_id e, n_next = None, n_prev = None\<rparr>"
  define h' where "h' = (if es = [] then h @ [nd] else pushed h nd (length es - 1))"
  have ret: "ret_addr (e # es) = (if e_kind e = returnEntry then (ret_addr es)(e_id e \<mapsto> length h) else ret_addr es)"
    using h(2) by (auto simp: fun_eq_iff)
  have ins: "insertBefore (h @ [nd]) (length h) (if es = [] then None else Some (length es - 1)) = Inr h'"
    using h(2,4) insertBefore_front [of "length es - 1" h nd] by (cases es) (simp_all add: h'_def insertBefore_def)
  have "link_entry e (h, root, ret_addr es) =
      bindE (insertBefore (h @ [nd]) (length h) root) (\<lambda>h'. Inr (h', Some (length h), ret_addr (e # es)))" for root
    unfolding ret by (cases "e_kind e = returnEntry") (simp_all add: link_entry_def nd_def Let_def)
  then have "link_entries (e # es) = Inr (h', Some (length es), ret_addr (e # es))"
    using h(1,2) ins by simp
  moreover have "length h' = length (e # es)" "contents h' (e # es)"
      "dlist h' (rev [0..<length (e # es)]) \<and> n_prev (h' ! (length (e # es) - 1)) = None"
  proof -
    show "length h' = length (e # es)" using h(2) pushed_fields(1) [of "length es - 1" h nd] by (cases es) (simp_all add: h'_def)
    have fields: "n_value (h' ! b) = n_value (h ! b) \<and> n_id (h' ! b) = n_id (h ! b) \<and> n_match (h' ! b) = n_match (h ! b)"
      if "b < length es" for b
      using that h(2) pushed_fields(2-6) [where b = b and h = h and nd = nd and r = "length es - 1"] by (cases es) (auto simp: h'_def)
    have new: "h' ! length es = (if es = [] then nd else nd\<lparr>n_next := Some (length es - 1)\<rparr>)"
      using h(2) pushed_fields(7) [of "length es - 1" h nd] by (cases es) (simp_all add: h'_def)
    show "contents h' (e # es)"
      using contents_frame [OF h(3) fields] new by (simp add: nd_def)
    show "dlist h' (rev [0..<length (e # es)]) \<and> n_prev (h' ! (length (e # es) - 1)) = None"
    proof (cases "es = []")
      case True
      then show ?thesis using new \<open>length h' = length (e # es)\<close> by (simp add: dlist_def nd_def)
    next
      case False
      then have "rev [0..<length es] = (length es - 1) # rev [0..<length es - 1]"
        by (cases es) simp_all
      then have "dlist h' (length h # (length es - 1) # rev [0..<length es - 1])"
        using dlist_pushed [of h "length es - 1" "rev [0..<length es - 1]" nd] h(4) [OF False] False by (simp add: h'_def)
      then show ?thesis using new False h(2) \<open>rev [0..<length es] = _\<close> by (simp add: nd_def)
    qed
  qed
  ultimately show ?case by auto
qed


end
