(* ===== verification/Porcupine_Search.thy ===== *)
theory Porcupine_Search
  imports Main
begin

section \<open>The linearizability checker: what the search decides\<close>

text \<open>
  Linearizability as such, without the checker's data structures: a history is a sequence of
  calls and returns of numbered operations, a problem adds the sequential specification.
  The search of \<^verbatim>\<open>src/porcupine/checker.go\<close> is a depth-first search through configurations
  (which operations have been linearized, and the state they lead to) with a cache of those
  already tried. \<open>search_inv\<close> is its invariant, and \<open>search_fails\<close> says that when it is
  back at the start with nothing left to try, there is no linearization.
\<close>

subsection \<open>Histories and linearizations\<close>

datatype ev = Cl nat | Rt nat

fun ident :: "ev \<Rightarrow> nat" where
  "ident (Cl i) = i"
| "ident (Rt i) = i"

record 's problem =
  p_n :: nat
  p_hist :: "ev list"
  p_init :: 's
  p_step :: "'s \<Rightarrow> nat \<Rightarrow> bool \<times> 's"
  p_eq :: "'s \<Rightarrow> 's \<Rightarrow> bool"

text \<open>\<open>before es x y\<close>: some occurrence of \<open>x\<close> in the sequence comes before one of \<open>y\<close>.\<close>

primrec before :: "'a list \<Rightarrow> 'a \<Rightarrow> 'a \<Rightarrow> bool" where
  "before [] x y = False"
| "before (e # es) x y = (e = x \<and> y \<in> set es \<or> before es x y)"

text \<open>Every operation is called once and returns once after that.\<close>

definition hist_ok :: "nat \<Rightarrow> ev list \<Rightarrow> bool" where
  "hist_ok n es =
     (distinct es \<and> set es = Cl ` {..<n} \<union> Rt ` {..<n} \<and> (\<forall>i < n. before es (Cl i) (Rt i)))"

text \<open>\<^verbatim>\<open>Equal\<close> is an equivalence of states that \<^verbatim>\<open>Step\<close> respects.\<close>

definition eq_ok :: "'s problem \<Rightarrow> bool" where
  "eq_ok P =
     ((\<forall>s. p_eq P s s) \<and> (\<forall>s t u. p_eq P s t \<and> p_eq P t u \<longrightarrow> p_eq P s u) \<and>
      (\<forall>s t i. p_eq P s t \<longrightarrow> fst (p_step P s i) = fst (p_step P t i) \<and>
         p_eq P (snd (p_step P s i)) (snd (p_step P t i))))"

primrec legal :: "'s problem \<Rightarrow> 's \<Rightarrow> nat list \<Rightarrow> bool" where
  "legal P s [] = True"
| "legal P s (i # ids) = (fst (p_step P s i) \<and> legal P (snd (p_step P s i)) ids)"

definition linearization :: "'s problem \<Rightarrow> nat list \<Rightarrow> bool" where
  "linearization P ids =
     (distinct ids \<and> set ids = {..<p_n P} \<and>
      (\<forall>j k. j < k \<and> k < length ids \<longrightarrow> \<not> before (p_hist P) (Rt (ids ! k)) (Cl (ids ! j))) \<and>
      legal P (p_init P) ids)"

definition linearizable :: "'s problem \<Rightarrow> bool" where
  "linearizable P = (\<exists>ids. linearization P ids)"

subsection \<open>Configurations\<close>

definition remaining :: "'s problem \<Rightarrow> nat set \<Rightarrow> ev list" where
  "remaining P S = filter (\<lambda>e. ident e \<notin> S) (p_hist P)"

fun calls_before :: "ev list \<Rightarrow> nat list" where
  "calls_before (Cl i # es) = i # calls_before es"
| "calls_before _ = []"

text \<open>The operations that can be linearized next: those called before the first return that remains.\<close>

definition minimal :: "'s problem \<Rightarrow> nat set \<Rightarrow> nat list" where
  "minimal P S = calls_before (remaining P S)"

inductive reach :: "'s problem \<Rightarrow> nat set \<Rightarrow> 's \<Rightarrow> bool" for P where
  reach_init: "reach P {} (p_init P)"
| reach_step: "reach P S s \<Longrightarrow> i \<in> set (minimal P S) \<Longrightarrow> fst (p_step P s i) \<Longrightarrow>
    reach P (insert i S) (snd (p_step P s i))"

lemma before_in_set: "before es x y \<Longrightarrow> x \<in> set es \<and> y \<in> set es"
  by (induction es) auto

lemma before_filter: "Q x \<Longrightarrow> Q y \<Longrightarrow> before (filter Q es) x y \<longleftrightarrow> before es x y"
  by (induction es) (auto dest: before_in_set)

lemma before_antisym: "distinct es \<Longrightarrow> before es x y \<Longrightarrow> \<not> before es y x"
  by (induction es) (auto dest: before_in_set)

lemma before_append: "before (xs @ ys) x y \<longleftrightarrow> before xs x y \<or> before ys x y \<or> x \<in> set xs \<and> y \<in> set ys"
  by (induction xs) auto

lemma before_total: "x \<in> set es \<Longrightarrow> y \<in> set es \<Longrightarrow> x \<noteq> y \<Longrightarrow> before es x y \<or> before es y x"
  by (induction es) auto

lemma calls_before_iff:
  "distinct es \<Longrightarrow> i \<in> set (calls_before es) \<longleftrightarrow> Cl i \<in> set es \<and> (\<forall>j. \<not> before es (Rt j) (Cl i))"
  by (induction es rule: calls_before.induct) (auto dest: before_in_set)

lemma calls_before_split: "\<exists>ys. es = map Cl (calls_before es) @ ys \<and> calls_before ys = []"
  by (induction es rule: calls_before.induct) auto

lemma calls_before_append: "calls_before (map Cl xs @ ys) = xs @ calls_before ys"
  by (induction xs) auto

lemma remaining_set: "hist_ok (p_n P) (p_hist P) \<Longrightarrow> set (remaining P S) = Cl ` ({..<p_n P} - S) \<union> Rt ` ({..<p_n P} - S)"
  by (auto simp: remaining_def hist_ok_def)

lemma remaining_distinct: "hist_ok (p_n P) (p_hist P) \<Longrightarrow> distinct (remaining P S)"
  by (simp add: remaining_def hist_ok_def)

lemma minimal_iff:
  assumes "hist_ok (p_n P) (p_hist P)"
  shows "i \<in> set (minimal P S) \<longleftrightarrow> i < p_n P \<and> i \<notin> S \<and> (\<forall>j. j \<notin> S \<longrightarrow> \<not> before (p_hist P) (Rt j) (Cl i))"
proof -
  have "before (remaining P S) (Rt j) (Cl i) \<longleftrightarrow> j \<notin> S \<and> i \<notin> S \<and> before (p_hist P) (Rt j) (Cl i)" for j
  proof (cases "j \<notin> S \<and> i \<notin> S")
    case True
    then show ?thesis by (simp add: remaining_def before_filter)
  next
    case False
    then show ?thesis using before_in_set [of "remaining P S" "Rt j" "Cl i"] by (auto simp: remaining_def)
  qed
  then show ?thesis
    using calls_before_iff [OF remaining_distinct [OF assms], of i S] remaining_set [OF assms, of S]
    by (auto simp: minimal_def)
qed

lemma reach_bound: "reach P S s \<Longrightarrow> hist_ok (p_n P) (p_hist P) \<Longrightarrow> S \<subseteq> {..<p_n P}"
  by (induction rule: reach.induct) (auto simp: minimal_iff)

subsection \<open>Linearizations are the paths to a complete configuration\<close>

primrec state_after :: "'s problem \<Rightarrow> 's \<Rightarrow> nat list \<Rightarrow> 's" where
  "state_after P s [] = s"
| "state_after P s (i # ids) = state_after P (snd (p_step P s i)) ids"

lemma legal_append: "legal P s (xs @ ys) \<longleftrightarrow> legal P s xs \<and> legal P (state_after P s xs) ys"
  by (induction xs arbitrary: s) auto

lemma state_after_append: "state_after P s (xs @ ys) = state_after P (state_after P s xs) ys"
  by (induction xs arbitrary: s) auto

text \<open>A sequence of operations each of which was minimal when it was taken.\<close>

definition path :: "'s problem \<Rightarrow> nat list \<Rightarrow> bool" where
  "path P ids = (legal P (p_init P) ids \<and> (\<forall>k < length ids. ids ! k \<in> set (minimal P (set (take k ids)))))"

lemma path_snoc:
  "path P (ids @ [i]) \<longleftrightarrow>
     path P ids \<and> i \<in> set (minimal P (set ids)) \<and> fst (p_step P (state_after P (p_init P) ids) i)"
  by (auto simp: path_def legal_append nth_append less_Suc_eq)

lemma reach_path: "reach P S s \<longleftrightarrow> (\<exists>ids. path P ids \<and> S = set ids \<and> s = state_after P (p_init P) ids)"
proof
  show "reach P S s \<Longrightarrow> \<exists>ids. path P ids \<and> S = set ids \<and> s = state_after P (p_init P) ids"
  proof (induction rule: reach.induct)
    case reach_init
    then show ?case by (auto simp: path_def intro: exI [of _ "[]"])
  next
    case (reach_step S s i)
    then obtain ids where "path P ids" "S = set ids" "s = state_after P (p_init P) ids" by blast
    with reach_step.hyps show ?case
      by (intro exI [of _ "ids @ [i]"]) (simp add: path_snoc state_after_append)
  qed
next
  assume "\<exists>ids. path P ids \<and> S = set ids \<and> s = state_after P (p_init P) ids"
  then obtain ids where "path P ids" "S = set ids" "s = state_after P (p_init P) ids" by blast
  then show "reach P S s"
  proof (induction ids arbitrary: S s rule: rev_induct)
    case Nil
    then show ?case by (simp add: reach_init)
  next
    case (snoc i ids)
    have "reach P (set ids) (state_after P (p_init P) ids)" using snoc path_snoc by blast
    with snoc.prems show ?case
      using reach_step [of P "set ids" "state_after P (p_init P) ids" i]
      by (auto simp: path_snoc state_after_append insert_commute)
  qed
qed

lemma path_distinct:
  assumes "hist_ok (p_n P) (p_hist P)" "path P ids"
  shows "distinct ids \<and> set ids \<subseteq> {..<p_n P}"
  using assms(2)
proof (induction ids rule: rev_induct)
  case (snoc i ids)
  then show ?case by (simp add: path_snoc minimal_iff [OF assms(1)])
qed simp

lemma linearization_path:
  assumes h: "hist_ok (p_n P) (p_hist P)"
  shows "linearization P ids \<longleftrightarrow> path P ids \<and> set ids = {..<p_n P}"
proof
  assume l: "linearization P ids"
  have "ids ! k \<in> set (minimal P (set (take k ids)))" if k: "k < length ids" for k
  proof -
    have d: "distinct ids" "set ids = {..<p_n P}" using l by (auto simp: linearization_def)
    have "ids ! k < p_n P" using d(2) k nth_mem [of k ids] by auto
    moreover have "ids ! k \<notin> set (take k ids)"
      using d(1) k by (metis distinct_take in_set_conv_nth length_take less_not_refl min_less_iff_conj nth_eq_iff_index_eq nth_take less_trans)
    moreover have "\<not> before (p_hist P) (Rt j) (Cl (ids ! k))" if j: "j \<notin> set (take k ids)" for j
    proof
      assume b: "before (p_hist P) (Rt j) (Cl (ids ! k))"
      then have "j < p_n P" using h before_in_set [OF b] by (auto simp: hist_ok_def)
      then obtain m where m: "m < length ids" "j = ids ! m" using d(2) by (metis in_set_conv_nth lessThan_iff)
      have "k \<le> m" using j m k by (metis in_set_conv_nth length_take min_less_iff_conj not_le nth_take)
      then consider "m = k" | "k < m" by linarith
      then show False
      proof cases
        case 1
        then have "before (p_hist P) (Cl j) (Rt j)" using h \<open>j < p_n P\<close> by (simp add: hist_ok_def)
        with b 1 m h show False using before_antisym by (metis hist_ok_def)
      next
        case 2
        then show False using l b m by (auto simp: linearization_def)
      qed
    qed
    ultimately show ?thesis by (simp add: minimal_iff [OF h])
  qed
  with l show "path P ids \<and> set ids = {..<p_n P}" by (simp add: linearization_def path_def)
next
  assume p: "path P ids \<and> set ids = {..<p_n P}"
  have "\<not> before (p_hist P) (Rt (ids ! k)) (Cl (ids ! j))" if "j < k" "k < length ids" for j k
  proof -
    have "ids ! k \<notin> set (take j ids)"
      using path_distinct [OF h] p that
      by (auto simp: in_set_conv_nth nth_eq_iff_index_eq)
    moreover have "ids ! j \<in> set (minimal P (set (take j ids)))" using p that by (auto simp: path_def)
    ultimately show ?thesis by (simp add: minimal_iff [OF h])
  qed
  then show "linearization P ids" using p path_distinct [OF h] by (simp add: linearization_def path_def)
qed

lemma linearizable_reach:
  assumes "hist_ok (p_n P) (p_hist P)"
  shows "linearizable P \<longleftrightarrow> (\<exists>s. reach P {..<p_n P} s)"
  unfolding linearizable_def linearization_path [OF assms] reach_path by auto

lemma reach_finite:
  assumes h: "hist_ok (p_n P) (p_hist P)"
  shows "finite {(S, s). reach P S s}"
proof -
  have "{(S, s). reach P S s} \<subseteq> (\<lambda>ids. (set ids, state_after P (p_init P) ids)) ` {ids. set ids \<subseteq> {..<p_n P} \<and> length ids \<le> p_n P}"
  proof clarify
    fix S s assume "reach P S s"
    then obtain ids where ids: "path P ids" "S = set ids" "s = state_after P (p_init P) ids"
      by (auto simp: reach_path)
    with path_distinct [OF h ids(1)] have "length ids \<le> p_n P"
      by (metis card_lessThan card_mono distinct_card finite_lessThan)
    with ids path_distinct [OF h ids(1)]
    show "(S, s) \<in> (\<lambda>ids. (set ids, state_after P (p_init P) ids)) ` {ids. set ids \<subseteq> {..<p_n P} \<and> length ids \<le> p_n P}"
      by auto
  qed
  moreover have "finite {ids. set ids \<subseteq> {..<p_n P} \<and> length ids \<le> p_n P}"
    by (rule finite_lists_length_le) simp
  ultimately show ?thesis by (meson finite_imageI finite_subset)
qed

subsection \<open>The invariant of the search\<close>

text \<open>
  The stack has the operations taken, the last one first, each with the state before it. A
  configuration is covered for some operations when each of them that the specification
  allows leads to a configuration in the cache, up to equality of states.
\<close>

definition ids_of :: "(nat \<times> 's) list \<Rightarrow> nat set" where
  "ids_of st = fst ` set st"

definition covered :: "'s problem \<Rightarrow> (nat set \<times> 's) set \<Rightarrow> nat set \<Rightarrow> 's \<Rightarrow> nat list \<Rightarrow> bool" where
  "covered P C S s is =
     (\<forall>i \<in> set is. fst (p_step P s i) \<longrightarrow>
        (\<exists>t. (insert i S, t) \<in> C \<and> p_eq P (snd (p_step P s i)) t))"

text \<open>\<open>ys\<close> is what is left to look at in the top configuration.\<close>

inductive stack_ok :: "'s problem \<Rightarrow> (nat set \<times> 's) set \<Rightarrow> (nat \<times> 's) list \<Rightarrow> 's \<Rightarrow> ev list \<Rightarrow> bool" for P C where
  stack_base: "remaining P {} = map Cl tried @ ys \<Longrightarrow> covered P C {} (p_init P) tried \<Longrightarrow>
    stack_ok P C [] (p_init P) ys"
| stack_push: "stack_ok P C st s0 ys0 \<Longrightarrow> remaining P (ids_of st) = xs @ Cl i # ys0 \<Longrightarrow>
    fst (p_step P s0 i) \<Longrightarrow> s = snd (p_step P s0 i) \<Longrightarrow> (insert i (ids_of st), s) \<in> C \<Longrightarrow>
    remaining P (insert i (ids_of st)) = map Cl tried @ ys \<Longrightarrow>
    covered P C (insert i (ids_of st)) s tried \<Longrightarrow> stack_ok P C ((i, s0) # st) s ys"

inductive_cases stack_push_cases: "stack_ok P C ((i, s0) # st) s ys"

inductive_cases stack_base_cases: "stack_ok P C [] s ys"

primrec confs :: "(nat \<times> 's) list \<Rightarrow> 's \<Rightarrow> (nat set \<times> 's) set" where
  "confs [] s = {}"
| "confs (f # st) s = insert (insert (fst f) (ids_of st), s) (confs st (snd f))"

definition search_inv :: "'s problem \<Rightarrow> (nat set \<times> 's) set \<Rightarrow> (nat \<times> 's) list \<Rightarrow> 's \<Rightarrow> ev list \<Rightarrow> bool" where
  "search_inv P C st s ys =
     (stack_ok P C st s ys \<and> (\<forall>(S, t) \<in> C. reach P S t) \<and>
      (\<forall>(S, t) \<in> C - confs st s. covered P C S t (minimal P S)) \<and>
      (\<forall>(S, t) \<in> C. S = {..<p_n P} \<longrightarrow> ids_of st = {..<p_n P}))"

lemma ids_of_Cons [simp]: "ids_of ((i, s) # st) = insert i (ids_of st)" "ids_of [] = {}"
  by (simp_all add: ids_of_def)

lemma covered_mono: "covered P C S s is \<Longrightarrow> C \<subseteq> C' \<Longrightarrow> covered P C' S s is"
  unfolding covered_def by blast

lemma covered_append: "covered P C S s (xs @ ys) \<longleftrightarrow> covered P C S s xs \<and> covered P C S s ys"
  by (auto simp: covered_def)

lemma stack_ok_mono: "stack_ok P C st s ys \<Longrightarrow> C \<subseteq> C' \<Longrightarrow> stack_ok P C' st s ys"
  by (induction rule: stack_ok.induct) (auto intro: stack_ok.intros covered_mono)

text \<open>The operations already looked at in the top configuration.\<close>

lemma stack_ok_tried:
  "stack_ok P C st s ys \<Longrightarrow> \<exists>tried. remaining P (ids_of st) = map Cl tried @ ys \<and> covered P C (ids_of st) s tried"
  by (induction rule: stack_ok.induct) auto

lemma stack_ok_skip:
  assumes "stack_ok P C st s (Cl i # ys)" "covered P C (ids_of st) s [i]"
  shows "stack_ok P C st s ys"
  using assms(1)
proof (cases rule: stack_ok.cases)
  case (stack_base tried)
  then have "stack_ok P C [] (p_init P) ys"
    using assms(2) by (intro stack_ok.stack_base [of P "tried @ [i]"]) (auto simp: covered_append)
  with stack_base show ?thesis by simp
next
  case (stack_push st' s0 ys0 xs j tried)
  have "stack_ok P C ((j, s0) # st') s ys"
  proof (rule stack_ok.stack_push [OF stack_push(2-6)])
    show "remaining P (insert j (ids_of st')) = map Cl (tried @ [i]) @ ys" using stack_push(7) by simp
    show "covered P C (insert j (ids_of st')) s (tried @ [i])"
      using stack_push(1,8) assms(2) by (simp add: covered_append)
  qed
  with stack_push(1) show ?thesis by simp
qed

lemma stack_ok_minimal:
  assumes "stack_ok P C st s ys"
  shows "\<exists>tried. minimal P (ids_of st) = tried @ calls_before ys \<and> covered P C (ids_of st) s tried"
  using stack_ok_tried [OF assms] by (auto simp: minimal_def calls_before_append)

lemma stack_ok_reach: "stack_ok P C st s ys \<Longrightarrow> reach P (ids_of st) s"
proof (induction rule: stack_ok.induct)
  case (stack_base tried ys)
  then show ?case by (simp add: reach_init)
next
  case (stack_push st s0 ys0 xs i s tried ys)
  obtain tried' where r: "remaining P (ids_of st) = map Cl tried' @ ys0" using stack_ok_tried [OF stack_push.hyps(1)] by blast
  from stack_push.hyps(2) r have "xs @ [Cl i] = map Cl tried'" by (metis append.assoc append_Cons append_Nil append_same_eq)
  then have "i \<in> set tried'" by (metis in_set_conv_decomp image_iff set_map ev.inject(1))
  then have "i \<in> set (minimal P (ids_of st))"
    unfolding minimal_def r by (simp add: calls_before_append)
  with stack_push show ?case using reach_step [of P "ids_of st" s0 i] by simp
qed

lemma search_invI:
  assumes "stack_ok P C st s ys" "\<And>S t. (S, t) \<in> C \<Longrightarrow> reach P S t"
    "\<And>S t. (S, t) \<in> C \<Longrightarrow> (S, t) \<notin> confs st s \<Longrightarrow> covered P C S t (minimal P S)"
    "\<And>S t. (S, t) \<in> C \<Longrightarrow> S = {..<p_n P} \<Longrightarrow> ids_of st = {..<p_n P}"
  shows "search_inv P C st s ys"
  using assms by (auto simp: search_inv_def)

lemma search_invD:
  assumes "search_inv P C st s ys"
  shows "stack_ok P C st s ys" "(S, t) \<in> C \<Longrightarrow> reach P S t"
    "(S, t) \<in> C \<Longrightarrow> (S, t) \<notin> confs st s \<Longrightarrow> covered P C S t (minimal P S)"
    "(S, t) \<in> C \<Longrightarrow> S = {..<p_n P} \<Longrightarrow> ids_of st = {..<p_n P}"
  using assms by (auto simp: search_inv_def)

lemma inv_start: "search_inv P {} [] (p_init P) (remaining P {})"
  by (rule search_invI) (auto simp: covered_def intro!: stack_base [of P "[]"])

lemma inv_skip:
  assumes inv: "search_inv P C st s (Cl i # ys)" and "covered P C (ids_of st) s [i]"
  shows "search_inv P C st s ys"
  using stack_ok_skip [OF search_invD(1) [OF inv] assms(2)] search_invD(2-) [OF inv]
  by (rule search_invI)

lemma inv_push:
  assumes inv: "search_inv P C st s (Cl i # ys)" and h: "hist_ok (p_n P) (p_hist P)" and e: "eq_ok P"
    and ok: "fst (p_step P s i)"
  defines "s' \<equiv> snd (p_step P s i)"
  shows "search_inv P (insert (insert i (ids_of st), s') C) ((i, s) # st) s' (remaining P (insert i (ids_of st)))"
proof -
  let ?C = "insert (insert i (ids_of st), s') C"
  note st = search_invD(1) [OF inv]
  obtain tried where rem: "remaining P (ids_of st) = map Cl tried @ Cl i # ys"
    using stack_ok_tried [OF st] by blast
  have i: "i \<in> set (minimal P (ids_of st))" by (simp add: minimal_def rem calls_before_append)
  have "p_eq P s' s'" using e by (simp add: eq_ok_def)
  then have "covered P ?C (ids_of st) s [i]" by (simp add: covered_def s'_def) blast
  then have "stack_ok P ?C st s ys" by (intro stack_ok_skip [OF stack_ok_mono [OF st]]) auto
  then have top: "stack_ok P ?C ((i, s) # st) s' (remaining P (insert i (ids_of st)))"
    using rem ok by (intro stack_push [where tried = "[]"]) (auto simp: s'_def covered_def)
  have full: "ids_of st \<noteq> {..<p_n P}" using i minimal_iff [OF h] by blast
  show ?thesis
  proof (rule search_invI [OF top])
    show "reach P S t" if "(S, t) \<in> ?C" for S t
      using that search_invD(2) [OF inv] stack_ok_reach [OF top] by auto
    show "covered P ?C S t (minimal P S)" if "(S, t) \<in> ?C" "(S, t) \<notin> confs ((i, s) # st) s'" for S t
    proof -
      have "(S, t) \<in> C" "(S, t) \<notin> confs st s" using that by auto
      from search_invD(3) [OF inv this] show ?thesis by (rule covered_mono) auto
    qed
    show "ids_of ((i, s) # st) = {..<p_n P}" if "(S, t) \<in> ?C" "S = {..<p_n P}" for S t
      using that search_invD(4) [OF inv] full by auto
  qed
qed

lemma inv_pop:
  assumes inv: "search_inv P C ((i, s0) # st) s (Rt j # ys)" and h: "hist_ok (p_n P) (p_hist P)"
  shows "\<exists>xs ys0. remaining P (ids_of st) = xs @ Cl i # ys0 \<and> search_inv P C st s0 ys0"
proof -
  note top = search_invD(1) [OF inv]
  from top obtain xs ys0 where st: "stack_ok P C st s0 ys0" "remaining P (ids_of st) = xs @ Cl i # ys0"
    by (auto elim: stack_push_cases)
  have closed: "covered P C (insert i (ids_of st)) s (minimal P (insert i (ids_of st)))"
    using stack_ok_minimal [OF top] by auto
  have "Rt j \<in> set (remaining P (insert i (ids_of st)))" using stack_ok_tried [OF top] by auto
  then have full: "insert i (ids_of st) \<noteq> {..<p_n P}" using remaining_set [OF h] by auto
  have "search_inv P C st s0 ys0"
  proof (rule search_invI [OF st(1) search_invD(2) [OF inv]])
    show "covered P C S t (minimal P S)" if "(S, t) \<in> C" "(S, t) \<notin> confs st s0" for S t
      using search_invD(3) [OF inv that(1)] that(2) closed by auto
    show "ids_of st = {..<p_n P}" if "(S, t) \<in> C" "S = {..<p_n P}" for S t
      using search_invD(4) [OF inv that] full by simp
  qed
  with st(2) show ?thesis by blast
qed

subsection \<open>What the end of the search means\<close>

lemma search_fails:
  assumes inv: "search_inv P C [] s (Rt j # ys)" and h: "hist_ok (p_n P) (p_hist P)" and e: "eq_ok P"
  shows "\<not> linearizable P"
proof -
  note top = search_invD(1) [OF inv]
  then have s: "s = p_init P" by (auto elim: stack_base_cases)
  have root: "covered P C {} (p_init P) (minimal P {})" using stack_ok_minimal [OF top] s by auto
  have closed: "covered P C S t (minimal P S)" if "(S, t) \<in> C" for S t
    using search_invD(3) [OF inv that] by simp
  have trans: "p_eq P a c" if "p_eq P a b" "p_eq P b c" for a b c using e that unfolding eq_ok_def by blast
  have cong: "fst (p_step P a i) = fst (p_step P b i)" "p_eq P (snd (p_step P a i)) (snd (p_step P b i))"
    if "p_eq P a b" for a b i using e that unfolding eq_ok_def by blast+
  have all: "(\<exists>t'. p_eq P t t' \<and> (S, t') \<in> C) \<or> S = {} \<and> t = p_init P" if "reach P S t" for S t
    using that
  proof (induction rule: reach.induct)
    case (reach_step S t i)
    then consider t' where "p_eq P t t'" "(S, t') \<in> C" | "S = {}" "t = p_init P" by blast
    then show ?case
    proof cases
      case 1
      then have "fst (p_step P t' i)" using cong reach_step.hyps(3) by simp
      then obtain u where "(insert i S, u) \<in> C" "p_eq P (snd (p_step P t' i)) u"
        using closed [OF 1(2)] reach_step.hyps(2) unfolding covered_def by blast
      then show ?thesis using trans cong(2) [OF 1(1)] by blast
    next
      case 2
      then show ?thesis using root reach_step.hyps(2,3) unfolding covered_def by blast
    qed
  qed simp
  have "Rt j \<in> set (remaining P {})" using stack_ok_tried [OF top] by auto
  then have n: "{..<p_n P} \<noteq> {}" using remaining_set [OF h, of "{}"] by auto
  have "\<not> reach P {..<p_n P} t" for t
    using all [of "{..<p_n P}" t] n search_invD(4) [OF inv] by auto
  then show ?thesis by (simp add: linearizable_reach [OF h])
qed

lemma search_succeeds:
  assumes inv: "search_inv P C st s ys" and h: "hist_ok (p_n P) (p_hist P)" and "remaining P (ids_of st) = []"
  shows "linearizable P"
proof -
  have r: "reach P (ids_of st) s" by (rule stack_ok_reach [OF search_invD(1) [OF inv]])
  have "{..<p_n P} \<subseteq> ids_of st" using remaining_set [OF h, of "ids_of st"] assms(3) by auto
  with reach_bound [OF r h] have "ids_of st = {..<p_n P}" by blast
  with r show ?thesis by (auto simp: linearizable_reach [OF h])
qed

text \<open>The measure of the search: configurations not yet in the cache, then the stack, then what is left to look at.\<close>

definition search_measure :: "'s problem \<Rightarrow> ((nat set \<times> 's) set \<times> (nat \<times> 's) list \<times> ev list) \<Rightarrow> nat \<times> nat \<times> nat" where
  "search_measure P = (\<lambda>(C, st, ys). (card ({(S, s). reach P S s} - C), length st, length ys))"

lemma measure_push:
  assumes "hist_ok (p_n P) (p_hist P)" "reach P S s" "(S, s) \<notin> C"
  shows "card ({(S, s). reach P S s} - insert (S, s) C) < card ({(S, s). reach P S s} - C)"
  using assms reach_finite [OF assms(1)] by (intro psubset_card_mono) auto

end
