(* ===== verification/Porcupine_Correct.thy ===== *)
theory Porcupine_Correct
  imports Porcupine_Heap Porcupine_Search
begin

section \<open>The linearizability checker: the search is right\<close>

text \<open>
  \<^verbatim>\<open>checkSingle\<close> of \<^verbatim>\<open>src/porcupine/checker.go\<close> against the search of \<open>Porcupine_Search\<close>: its heap is
  the history without the operations on the stack, its bit set is the set of those
  operations, its cache the set of configurations. One turn of its loop is one step of the
  search, so it ends, and it answers whether the history is linearizable.
\<close>

subsection \<open>Entries and events\<close>

definition ev_of :: "('i, 'o) entry \<Rightarrow> ev" where
  "ev_of e = (if e_kind e = callEntry then Cl (nat (e_id e)) else Rt (nat (e_id e)))"

text \<open>
  The entries of a history of \<open>n\<close> operations: numbered from 0, each called once and returning
  once after that, with inputs on the calls and outputs on the returns.
\<close>

definition entries_ok :: "nat \<Rightarrow> ('i, 'o) entry list \<Rightarrow> bool" where
  "entries_ok n es =
     (hist_ok n (map ev_of es) \<and>
      (\<forall>e \<in> set es. 0 \<le> e_id e \<and>
         (case e_value e of InputValue _ \<Rightarrow> e_kind e = callEntry | OutputValue _ \<Rightarrow> e_kind e = returnEntry)))"

fun input_of :: "('i, 'o) anyval \<Rightarrow> 'i option" where
  "input_of (InputValue i) = Some i"
| "input_of (OutputValue _) = None"

fun output_of :: "('i, 'o) anyval \<Rightarrow> 'o option" where
  "output_of (OutputValue out) = Some out"
| "output_of (InputValue _) = None"

definition op_value :: "('i, 'o) entry list \<Rightarrow> ev \<Rightarrow> ('i, 'o) anyval" where
  "op_value es v = e_value (the (find (\<lambda>e. ev_of e = v) es))"

definition problem_of :: "('s, 'i, 'o) Model \<Rightarrow> nat \<Rightarrow> ('i, 'o) entry list \<Rightarrow> 's problem" where
  "problem_of model n es =
     \<lparr>p_n = n, p_hist = map ev_of es, p_init = Init model,
      p_step = (\<lambda>s i. Step model s (the (input_of (op_value es (Cl i)))) (the (output_of (op_value es (Rt i))))),
      p_eq = state_equal model\<rparr>"

lemma problem_of_simps [simp]:
  "p_n (problem_of model n es) = n" "p_hist (problem_of model n es) = map ev_of es"
  "p_init (problem_of model n es) = Init model" "p_eq (problem_of model n es) = state_equal model"
  by (simp_all add: problem_of_def)

subsection \<open>Addresses\<close>

definition addrs :: "('i, 'o) entry list \<Rightarrow> nat list" where
  "addrs es = rev [0..<length es]"

definition entry_of :: "('i, 'o) entry list \<Rightarrow> nat \<Rightarrow> ('i, 'o) entry" where
  "entry_of es a = es ! (length es - 1 - a)"

definition aev :: "('i, 'o) entry list \<Rightarrow> nat \<Rightarrow> ev" where
  "aev es a = ev_of (entry_of es a)"

lemma map_entry_of: "map (entry_of es) (addrs es) = es"
  by (rule nth_equalityI) (simp_all add: addrs_def entry_of_def rev_nth)

lemma map_aev: "map (aev es) (addrs es) = map ev_of es"
proof -
  have "map (aev es) (addrs es) = map ev_of (map (entry_of es) (addrs es))" by (simp add: aev_def)
  then show ?thesis by (simp only: map_entry_of)
qed

lemma addrs_set [simp]: "a \<in> set (addrs es) \<longleftrightarrow> a < length es"
  by (simp add: addrs_def)

lemma aev_inject:
  assumes "entries_ok n es" "a < length es" "b < length es" "aev es a = aev es b"
  shows "a = b"
proof -
  have "distinct (map (aev es) (addrs es))" using assms(1) by (simp only: map_aev) (simp add: entries_ok_def hist_ok_def)
  then show ?thesis using assms(2-4) by (auto simp: distinct_map inj_on_def)
qed

text \<open>The node of the call and the node of the return of an operation.\<close>

definition ca :: "('i, 'o) entry list \<Rightarrow> nat \<Rightarrow> nat" where
  "ca es i = the (find (\<lambda>a. aev es a = Cl i) (addrs es))"

definition ra :: "('i, 'o) entry list \<Rightarrow> nat \<Rightarrow> nat" where
  "ra es i = the (find (\<lambda>a. aev es a = Rt i) (addrs es))"

lemma find_aev:
  assumes "v \<in> set (map ev_of es)"
  shows "the (find (\<lambda>a. aev es a = v) (addrs es)) < length es \<and> aev es (the (find (\<lambda>a. aev es a = v) (addrs es))) = v"
proof -
  have "v \<in> set (map (aev es) (addrs es))" using assms by (simp only: map_aev)
  then obtain a where "find (\<lambda>a. aev es a = v) (addrs es) = Some a"
    using find_None_iff [of "\<lambda>a. aev es a = v" "addrs es"] by (cases "find (\<lambda>a. aev es a = v) (addrs es)") auto
  then obtain k where "k < length (addrs es)" "a = addrs es ! k" "aev es a = v" by (auto simp: find_Some_iff)
  moreover from this have "a < length es" using addrs_set nth_mem by metis
  ultimately show ?thesis using \<open>find _ _ = Some a\<close> by simp
qed

lemma ca_ra:
  assumes "entries_ok n es" "i < n"
  shows "ca es i < length es" "aev es (ca es i) = Cl i" "ra es i < length es" "aev es (ra es i) = Rt i"
proof -
  have "Cl i \<in> set (map ev_of es)" "Rt i \<in> set (map ev_of es)"
    using assms unfolding entries_ok_def hist_ok_def by blast+
  then show "ca es i < length es" "aev es (ca es i) = Cl i" "ra es i < length es" "aev es (ra es i) = Rt i"
    using find_aev unfolding ca_def ra_def by blast+
qed

lemma op_value_addr:
  assumes "entries_ok n es" "a < length es"
  shows "op_value es (aev es a) = e_value (entry_of es a)"
proof -
  have d: "distinct (map ev_of es)" using assms(1) by (simp add: entries_ok_def hist_ok_def)
  have k: "length es - 1 - a < length es" using assms(2) by simp
  have "find (\<lambda>e. ev_of e = aev es a) es \<noteq> None"
    using nth_mem [OF k] by (auto simp: find_None_iff aev_def entry_of_def simp del: One_nat_def)
  then obtain e where e: "find (\<lambda>e. ev_of e = aev es a) es = Some e" by blast
  then obtain j where j: "j < length es" "e = es ! j" "ev_of (es ! j) = aev es a" by (auto simp: find_Some_iff)
  then have "map ev_of es ! j = map ev_of es ! (length es - 1 - a)" using k by (simp add: aev_def entry_of_def)
  then have "j = length es - 1 - a"
    using nth_eq_iff_index_eq [OF d, of j "length es - 1 - a"] j(1) k by (simp only: length_map)
  with e j show ?thesis by (simp add: op_value_def entry_of_def)
qed

subsection \<open>What the nodes hold\<close>

lemma contents_nth:
  "contents h es \<Longrightarrow> a < length es \<Longrightarrow>
   n_value (h ! a) = Some (e_value (entry_of es a)) \<and> n_id (h ! a) = e_id (entry_of es a) \<and>
   n_match (h ! a) = (if e_kind (entry_of es a) = returnEntry then None
     else ret_addr (drop (length es - a) es) (e_id (entry_of es a)))"
proof (induction es)
  case (Cons e es)
  show ?case
  proof (cases "a = length es")
    case True
    then show ?thesis using Cons.prems(1) by (simp add: entry_of_def)
  next
    case False
    then have a: "a < length es" using Cons.prems(2) by simp
    then have "length (e # es) - 1 - a = Suc (length es - 1 - a)" by simp
    then have "entry_of (e # es) a = entry_of es a" "drop (length (e # es) - a) (e # es) = drop (length es - a) es"
      using a by (simp_all add: entry_of_def Suc_diff_le)
    then show ?thesis using Cons a by simp
  qed
qed simp

lemma ret_addr_found:
  "\<forall>e \<in> set xs. 0 \<le> e_id e \<Longrightarrow> Rt i \<in> set (map ev_of xs) \<Longrightarrow>
   \<exists>b < length xs. ret_addr xs (int i) = Some b \<and> aev xs b = Rt i"
proof (induction xs)
  case (Cons e xs)
  show ?case
  proof (cases "e_kind e = returnEntry \<and> e_id e = int i")
    case True
    then show ?thesis by (auto simp: aev_def entry_of_def ev_of_def)
  next
    case False
    have "ev_of e \<noteq> Rt i" using False Cons.prems(1) by (cases "e_kind e") (auto simp: ev_of_def)
    then obtain b where "b < length xs" "ret_addr xs (int i) = Some b" "aev xs b = Rt i"
      using Cons by auto
    moreover from this(1) have "length (e # xs) - 1 - b = Suc (length xs - 1 - b)" by simp
    ultimately show ?thesis using False by (auto simp: aev_def entry_of_def)
  qed
qed simp

lemma aev_drop: "b < length es - k \<Longrightarrow> aev (drop k es) b = aev es b"
proof -
  assume "b < length es - k"
  then have "k + (length es - k - 1 - b) = length es - 1 - b" "k + (length es - k - 1 - b) \<le> length es" by simp_all
  then show ?thesis by (simp add: aev_def entry_of_def)
qed

lemma match_of_call:
  assumes ok: "entries_ok n es" and c: "contents h es" and i: "i < n"
  shows "n_match (h ! ca es i) = Some (ra es i)"
proof -
  note a = ca_ra [OF ok i]
  let ?a = "ca es i" and ?N = "length es"
  let ?k = "?N - 1 - ?a"
  have e: "ev_of (es ! ?k) = Cl i" using a(2) by (simp add: aev_def entry_of_def)
  then have kind: "e_kind (entry_of es ?a) = callEntry" and idn: "nat (e_id (entry_of es ?a)) = i"
    by (auto simp: ev_of_def entry_of_def split: if_splits)
  have k: "?k < ?N" using a(1) by simp
  then have pos: "0 \<le> e_id (entry_of es ?a)" using ok nth_mem by (fastforce simp: entries_ok_def entry_of_def)
  have split: "map ev_of es = map ev_of (take ?k es) @ Cl i # map ev_of (drop (Suc ?k) es)"
    using k e by (metis id_take_nth_drop list.simps(9) map_append)
  have "before (map ev_of es) (Cl i) (Rt i)" "distinct (map ev_of es)"
    using ok i by (auto simp: entries_ok_def hist_ok_def)
  then have "Rt i \<in> set (map ev_of (drop (Suc ?k) es))"
    unfolding split by (auto simp: before_append dest: before_in_set)
  moreover have "Suc ?k = ?N - ?a" using a(1) by simp
  ultimately obtain b where b: "b < length (drop (?N - ?a) es)" "ret_addr (drop (?N - ?a) es) (int i) = Some b"
      "aev (drop (?N - ?a) es) b = Rt i"
    using ret_addr_found [of "drop (?N - ?a) es" i] ok by (auto simp: entries_ok_def dest: in_set_dropD)
  have "aev es b = Rt i" using b(1,3) aev_drop [of b es "?N - ?a"] by simp
  moreover have "b < ?N" using b(1) by simp
  ultimately have "b = ra es i" using aev_inject [OF ok _ a(3)] a(4) by simp
  moreover have "e_id (entry_of es ?a) = int i" using idn pos by simp
  ultimately show ?thesis using contents_nth [OF c a(1)] kind b(2) by simp
qed

subsection \<open>The heap without the operations on the stack\<close>

definition rem_addrs :: "('i, 'o) entry list \<Rightarrow> nat set \<Rightarrow> nat list" where
  "rem_addrs es S = filter (\<lambda>a. ident (aev es a) \<notin> S) (addrs es)"

primrec heap_of :: "('i, 'o) entry list \<Rightarrow> ('i, 'o) heap \<Rightarrow> (nat \<times> 's) list \<Rightarrow> ('i, 'o) heap" where
  "heap_of es h [] = h"
| "heap_of es h (f # st) = unlink (unlink (heap_of es h st) (ca es (fst f))) (ra es (fst f))"

lemma map_rem_addrs: "map (aev es) (rem_addrs es S) = remaining (problem_of model n es) S"
proof -
  have "map (aev es) (rem_addrs es S) = filter (\<lambda>v. ident v \<notin> S) (map (aev es) (addrs es))"
    by (simp add: rem_addrs_def filter_map o_def)
  then show ?thesis by (simp only: map_aev remaining_def problem_of_simps)
qed

lemma rem_addrs_set: "set (rem_addrs es S) = {a. a < length es \<and> ident (aev es a) \<notin> S}"
  by (auto simp: rem_addrs_def)

lemma rem_addrs_distinct: "distinct (rem_addrs es S)"
  by (simp add: rem_addrs_def addrs_def)

lemma map_split: "map f xs = us @ y # vs \<Longrightarrow> \<exists>as a bs. xs = as @ a # bs \<and> f a = y \<and> map f as = us \<and> map f bs = vs"
  by (force simp: map_eq_append_conv map_eq_Cons_conv)

lemma before_split: "before es x y \<Longrightarrow> \<exists>xs ys zs. es = xs @ x # ys @ y # zs"
proof (induction es)
  case (Cons e es)
  show ?case
  proof (cases "e = x \<and> y \<in> set es")
    case True
    then obtain ys zs where "es = ys @ y # zs" by (meson split_list)
    with True have "e # es = [] @ x # ys @ y # zs" by simp
    then show ?thesis by blast
  next
    case False
    then obtain xs ys zs where "es = xs @ x # ys @ y # zs" using Cons by auto
    then have "e # es = (e # xs) @ x # ys @ y # zs" by simp
    then show ?thesis by blast
  qed
qed simp

text \<open>An operation that remains: its two nodes in the list, and the list without them.\<close>

lemma rem_addrs_split:
  assumes ok: "entries_ok n es" and i: "i < n" "i \<notin> S"
  shows "\<exists>xs ys zs. rem_addrs es S = xs @ ca es i # ys @ ra es i # zs \<and> rem_addrs es (insert i S) = xs @ ys @ zs"
proof -
  note a = ca_ra [OF ok i(1)]
  have h: "before (map ev_of es) (Cl i) (Rt i)" using ok i by (simp add: entries_ok_def hist_ok_def)
  have "before (filter (\<lambda>v. ident v \<notin> S) (map ev_of es)) (Cl i) (Rt i)"
    by (subst before_filter) (use h i in auto)
  then have "before (map (aev es) (rem_addrs es S)) (Cl i) (Rt i)"
    unfolding map_aev [symmetric] by (simp add: rem_addrs_def filter_map o_def)
  then obtain us vs ws where "map (aev es) (rem_addrs es S) = us @ Cl i # vs @ Rt i # ws"
    by (blast dest: before_split)
  then obtain xs c rest where 1: "rem_addrs es S = xs @ c # rest" "aev es c = Cl i" "map (aev es) rest = vs @ Rt i # ws"
    by (blast dest: map_split)
  then obtain ys r zs where "rest = ys @ r # zs" "aev es r = Rt i" by (blast dest: map_split)
  with 1 have r: "rem_addrs es S = xs @ c # ys @ r # zs" "aev es c = Cl i" "aev es r = Rt i" by simp_all
  have v: "c < length es" "r < length es" using r(1) rem_addrs_set [of es S] by auto
  then have cr: "c = ca es i" "r = ra es i" using aev_inject [OF ok] a r(2,3) by metis+
  have out: "ident (aev es b) \<noteq> i" if "b \<in> set xs \<union> set ys \<union> set zs" for b
  proof
    assume eq: "ident (aev es b) = i"
    have b: "b < length es" using that r(1) rem_addrs_set [of es S] by auto
    have "b \<noteq> c" "b \<noteq> r" using that rem_addrs_distinct [of es S] unfolding r(1) by auto
    moreover from eq have "aev es b = Cl i \<or> aev es b = Rt i" by (cases "aev es b") auto
    ultimately show False using aev_inject [OF ok b] v r(2,3) by metis
  qed
  have "rem_addrs es (insert i S) = filter (\<lambda>b. ident (aev es b) \<noteq> i) (rem_addrs es S)"
    unfolding rem_addrs_def filter_filter by (rule filter_cong) auto
  also have "\<dots> = xs @ ys @ zs"
    unfolding r(1) using out r(2,3) by (simp add: filter_id_conv)
  finally show ?thesis using r(1) cr by blast
qed

lemma heap_of_fields:
  "length (heap_of es h st) = length h" "contents h es \<Longrightarrow> contents (heap_of es h st) es"
  by (induction st) (auto intro: contents_frame)

lemma heap_of_dlist:
  assumes ok: "entries_ok n es" and h: "dlist h (N # addrs es)" "contents h es"
  shows "distinct (map fst st) \<Longrightarrow> ids_of st \<subseteq> {..<n} \<Longrightarrow> dlist (heap_of es h st) (N # rem_addrs es (ids_of st))"
proof (induction st)
  case Nil
  then show ?case using h(1) by (simp add: rem_addrs_def)
next
  case (Cons f st)
  obtain i s where f: "f = (i, s)" by fastforce
  then have i: "i < n" "i \<notin> ids_of st" using Cons.prems by (auto simp: ids_of_def)
  have IH: "dlist (heap_of es h st) (N # rem_addrs es (ids_of st))" using Cons f by auto
  from rem_addrs_split [OF ok i] obtain xs ys zs where s:
    "rem_addrs es (ids_of st) = xs @ ca es i # ys @ ra es i # zs" "rem_addrs es (insert i (ids_of st)) = xs @ ys @ zs"
    by blast
  from lift_dlist [of "heap_of es h st" "N # xs" "ca es i" ys "ra es i" zs] IH s show ?case by (simp add: f)
qed

text \<open>\<^verbatim>\<open>lift\<close> and \<^verbatim>\<open>unlift\<close> move between the heaps of a stack and of the stack with one more operation.\<close>

lemma lift_heap_of:
  assumes ok: "entries_ok n es" and h: "dlist h (N # addrs es)" "contents h es"
    and st: "distinct (map fst ((i, s) # st))" "ids_of ((i, s) # st) \<subseteq> {..<n}"
  shows "lift (heap_of es h st) (ca es i) = Inr (heap_of es h ((i, s) # st))"
    and "unlift (heap_of es h ((i, s) # st)) (ca es i) = Inr (heap_of es h st)"
proof -
  have i: "i < n" "i \<notin> ids_of st" using st by (auto simp: ids_of_def)
  have d: "dlist (heap_of es h st) (N # rem_addrs es (ids_of st))" using heap_of_dlist [OF ok h, of st] st by auto
  from rem_addrs_split [OF ok i] obtain xs ys zs where s: "rem_addrs es (ids_of st) = xs @ ca es i # ys @ ra es i # zs" by blast
  have m: "n_match (heap_of es h st ! ca es i) = Some (ra es i)"
    by (rule match_of_call [OF ok heap_of_fields(2) [OF h(2)] i(1)])
  have d': "dlist (heap_of es h st) ((N # xs) @ ca es i # ys @ ra es i # zs)" using d s by simp
  show "lift (heap_of es h st) (ca es i) = Inr (heap_of es h ((i, s) # st))"
    using lift_eq [OF d' _ m] by simp
  show "unlift (heap_of es h ((i, s) # st)) (ca es i) = Inr (heap_of es h st)"
    using unlift_lift [OF d' _ m] by simp
qed

subsection \<open>The cache\<close>

definition cache_ok :: "nat \<Rightarrow> 's cache \<Rightarrow> (nat set \<times> 's) set \<Rightarrow> bool" where
  "cache_ok n cache C =
     ((\<forall>k ce. ce \<in> set (cache k) \<longrightarrow> k = bs_hash (c_linearized ce) \<and> bs_holds n (c_linearized ce)) \<and>
      C = {(bits (c_linearized ce), c_state ce) | k ce. ce \<in> set (cache k)})"

lemma cacheContains_iff:
  assumes "cache_ok n cache C" "bs_holds n lin"
  shows "cacheContains model cache \<lparr>c_linearized = lin, c_state = s\<rparr> \<longleftrightarrow>
    (\<exists>t. (bits lin, t) \<in> C \<and> state_equal model s t)"
proof
  assume "cacheContains model cache \<lparr>c_linearized = lin, c_state = s\<rparr>"
  then obtain ce where "ce \<in> set (cache (bs_hash lin))" "lin = c_linearized ce" "state_equal model s (c_state ce)"
    by (auto simp: cacheContains_def list_ex_iff bs_equals_iff)
  then show "\<exists>t. (bits lin, t) \<in> C \<and> state_equal model s t" using assms(1) by (auto simp: cache_ok_def)
next
  assume "\<exists>t. (bits lin, t) \<in> C \<and> state_equal model s t"
  then obtain k ce where ce: "ce \<in> set (cache k)" "bits (c_linearized ce) = bits lin" "state_equal model s (c_state ce)"
    using assms(1) by (auto simp: cache_ok_def)
  have "bs_holds n (c_linearized ce)" "k = bs_hash (c_linearized ce)" using assms(1) ce(1) by (auto simp: cache_ok_def)
  then have "c_linearized ce = lin" using ce(2) assms(2) bits_inject by (auto simp: bs_holds_def)
  then show "cacheContains model cache \<lparr>c_linearized = lin, c_state = s\<rparr>"
    using ce \<open>k = _\<close> by (auto simp: cacheContains_def list_ex_iff bs_equals_iff)
qed

lemma cache_ok_insert:
  assumes "cache_ok n cache C" "bs_holds n lin"
  shows "cache_ok n (cache(bs_hash lin := cache (bs_hash lin) @ [\<lparr>c_linearized = lin, c_state = s\<rparr>])) (insert (bits lin, s) C)"
proof -
  let ?c = "cache(bs_hash lin := cache (bs_hash lin) @ [\<lparr>c_linearized = lin, c_state = s\<rparr>])"
  have C: "C = {(bits (c_linearized ce), c_state ce) | k ce. ce \<in> set (cache k)}" using assms(1) by (simp add: cache_ok_def)
  have mem: "ce \<in> set (?c k) \<longleftrightarrow> ce \<in> set (cache k) \<or> k = bs_hash lin \<and> ce = \<lparr>c_linearized = lin, c_state = s\<rparr>" for k ce
    by auto
  show ?thesis unfolding cache_ok_def mem
  proof
    show "\<forall>k ce. ce \<in> set (cache k) \<or> k = bs_hash lin \<and> ce = \<lparr>c_linearized = lin, c_state = s\<rparr> \<longrightarrow>
        k = bs_hash (c_linearized ce) \<and> bs_holds n (c_linearized ce)"
      using assms by (auto simp: cache_ok_def)
    show "insert (bits lin, s) C = {(bits (c_linearized ce), c_state ce) | k ce.
        ce \<in> set (cache k) \<or> k = bs_hash lin \<and> ce = \<lparr>c_linearized = lin, c_state = s\<rparr>}"
    proof (rule set_eqI)
      fix x
      show "x \<in> insert (bits lin, s) C \<longleftrightarrow> x \<in> {(bits (c_linearized ce), c_state ce) | k ce.
        ce \<in> set (cache k) \<or> k = bs_hash lin \<and> ce = \<lparr>c_linearized = lin, c_state = s\<rparr>}"
        unfolding C by (cases "x = (bits lin, s)") (force, auto)
    qed
  qed
qed


end
