(* ===== verification/Porcupine_Loop.thy ===== *)
theory Porcupine_Loop
  imports Porcupine_Correct
begin

section \<open>The linearizability checker: the loop is the search\<close>

text \<open>
  One turn of the loop of \<^verbatim>\<open>checkSingle\<close> (\<^verbatim>\<open>src/porcupine/checker.go\<close>) is one step of the search of
  \<open>Porcupine_Search\<close>: a simulation between the loop's variables and the state of the search.
  From it, that the loop ends and that its answer is right.
\<close>

subsection \<open>The state of the loop\<close>

definition first :: "'a list \<Rightarrow> 'a option" where
  "first xs = (case xs of [] \<Rightarrow> None | x # _ \<Rightarrow> Some x)"

lemma first_simps [simp]: "first [] = None" "first (x # xs) = Some x" "first xs = None \<longleftrightarrow> xs = []"
  by (simp_all add: first_def split: list.split)

text \<open>The list of the history behind the head node, which is at address \<open>length es\<close>.\<close>

definition base_ok :: "nat \<Rightarrow> ('i, 'o) entry list \<Rightarrow> ('i, 'o) heap \<Rightarrow> bool" where
  "base_ok n es h = (entries_ok n es \<and> dlist h (length es # addrs es) \<and> contents h es)"

definition frames :: "nat \<Rightarrow> (nat \<times> 's) list \<Rightarrow> bool" where
  "frames n stack = (distinct (map fst stack) \<and> ids_of stack \<subseteq> {..<n})"

text \<open>
  The variables of \<^verbatim>\<open>checkSingle\<close> against a state of the search: cache \<open>C\<close>, stack, state \<open>s\<close> and
  the events \<open>ys\<close> still to look at.
\<close>

definition sim ::
  "nat \<Rightarrow> ('i, 'o) entry list \<Rightarrow> ('i, 'o) heap \<Rightarrow> ('s, 'i, 'o) search \<Rightarrow> (nat set \<times> 's) set \<Rightarrow> (nat \<times> 's) list \<Rightarrow> 's \<Rightarrow> ev list \<Rightarrow> bool" where
  "sim n es h st C stack s ys =
     (sr_heap st = heap_of es h stack \<and> frames n stack \<and>
      (\<exists>pre as. rem_addrs es (ids_of stack) = pre @ as \<and> map (aev es) as = ys \<and> sr_entry st = first as) \<and>
      bs_holds n (sr_linearized st) \<and> bits (sr_linearized st) = ids_of stack \<and>
      cache_ok n (sr_cache st) C \<and> sr_calls st = rev (map (\<lambda>(i, s). (ca es i, s)) stack) \<and>
      sr_state st = s \<and> length (sr_longest st) = n)"

lemma dlist_head:
  assumes "dlist h (a # xs)"
  shows "load h (Some a) = Inr (h ! a)" "n_next (h ! a) = first xs"
  using assms by (cases xs; simp add: dlist_def load_def)+

lemma base_dlist:
  "base_ok n es h \<Longrightarrow> frames n stack \<Longrightarrow> dlist (heap_of es h stack) (length es # rem_addrs es (ids_of stack))"
  unfolding base_ok_def frames_def by (blast intro: heap_of_dlist)

lemma base_entry:
  assumes "base_ok n es h" "a < length es"
  shows "n_id (heap_of es h stack ! a) = int (ident (aev es a))"
    "n_value (heap_of es h stack ! a) = Some (op_value es (aev es a))"
    "n_match (heap_of es h stack ! a) = (case aev es a of Cl i \<Rightarrow> Some (ra es i) | Rt i \<Rightarrow> None)"
proof -
  have ok: "entries_ok n es" and c: "contents (heap_of es h stack) es"
    using assms(1) heap_of_fields(2) unfolding base_ok_def by blast+
  note e = contents_nth [OF c assms(2)]
  have "entry_of es a \<in> set es" using assms(2) by (simp add: entry_of_def)
  then have "0 \<le> e_id (entry_of es a)" using ok by (simp add: entries_ok_def)
  then show "n_id (heap_of es h stack ! a) = int (ident (aev es a))"
    using e by (simp add: aev_def ev_of_def)
  show "n_value (heap_of es h stack ! a) = Some (op_value es (aev es a))"
    using e op_value_addr [OF ok assms(2)] by simp
  show "n_match (heap_of es h stack ! a) = (case aev es a of Cl i \<Rightarrow> Some (ra es i) | Rt i \<Rightarrow> None)"
  proof (cases "aev es a")
    case (Cl i)
    have "Cl i \<in> set (map (aev es) (addrs es))" using Cl assms(2) by force
    then have i: "i < n" unfolding map_aev using ok by (auto simp: entries_ok_def hist_ok_def)
    have "a = ca es i" using aev_inject [OF ok assms(2)] ca_ra [OF ok i] Cl by metis
    then show ?thesis using match_of_call [OF ok c i] Cl by simp
  next
    case (Rt i)
    then have "e_kind (entry_of es a) = returnEntry" by (cases "e_kind (entry_of es a)") (auto simp: aev_def ev_of_def)
    then show ?thesis using e Rt by simp
  qed
qed

text \<open>The node the loop looks at.\<close>

lemma sim_node:
  assumes "base_ok n es h" "frames n stack" "rem_addrs es (ids_of stack) = pre @ a # as"
  shows "a < length es" "load (heap_of es h stack) (Some a) = Inr (heap_of es h stack ! a)"
    "n_next (heap_of es h stack ! a) = first as" "ident (aev es a) < n" "ident (aev es a) \<notin> ids_of stack"
proof -
  have a: "a < length es \<and> ident (aev es a) \<notin> ids_of stack"
    using rem_addrs_set [of es "ids_of stack"] unfolding assms(3) by auto
  then show "a < length es" "ident (aev es a) \<notin> ids_of stack" by simp_all
  have "dlist (heap_of es h stack) ((length es # pre) @ a # as)" using base_dlist [OF assms(1,2)] assms(3) by simp
  from dlist_node [OF this] show "load (heap_of es h stack) (Some a) = Inr (heap_of es h stack ! a)"
      "n_next (heap_of es h stack ! a) = first as"
    by (simp_all add: load_def) (cases as; simp)
  have "aev es a \<in> set (map (aev es) (addrs es))" using a by simp
  then show "ident (aev es a) < n" unfolding map_aev using assms(1) by (auto simp: base_ok_def entries_ok_def hist_ok_def)
qed

subsection \<open>One turn\<close>

lemma simI:
  assumes "sr_heap st = heap_of es h stack" "frames n stack" "rem_addrs es (ids_of stack) = pre @ as"
    "map (aev es) as = ys" "sr_entry st = first as" "bs_holds n (sr_linearized st)" "bits (sr_linearized st) = ids_of stack"
    "cache_ok n (sr_cache st) C" "sr_calls st = rev (map (\<lambda>(i, s). (ca es i, s)) stack)" "sr_state st = s"
    "length (sr_longest st) = n"
  shows "sim n es h st C stack s ys"
  using assms unfolding sim_def by blast

lemma simD:
  assumes "sim n es h st C stack s ys"
  shows "sr_heap st = heap_of es h stack" "frames n stack" "bs_holds n (sr_linearized st)"
    "bits (sr_linearized st) = ids_of stack" "cache_ok n (sr_cache st) C"
    "sr_calls st = rev (map (\<lambda>(i, s). (ca es i, s)) stack)" "sr_state st = s" "length (sr_longest st) = n"
    "\<exists>pre as. rem_addrs es (ids_of stack) = pre @ as \<and> map (aev es) as = ys \<and> sr_entry st = first as"
  using assms unfolding sim_def by blast+

lemma keep_longest_ok:
  "set ids \<subseteq> {0..<int n} \<Longrightarrow> length l = n \<Longrightarrow> \<exists>l'. keep_longest sq ids l = Inr l' \<and> length l' = n"
proof (induction ids arbitrary: l)
  case (Cons i ids)
  then have "0 \<le> i" "i < len l" by (auto simp: len_def)
  with Cons show ?case by (auto simp: index_ok set_index_ok)
qed simp

lemma op_value_kind:
  assumes "entries_ok n es" "i < n"
  shows "\<exists>x. op_value es (Cl i) = InputValue x" "\<exists>x. op_value es (Rt i) = OutputValue x"
proof -
  note a = ca_ra [OF assms]
  have v: "op_value es (Cl i) = e_value (entry_of es (ca es i))" "op_value es (Rt i) = e_value (entry_of es (ra es i))"
    using op_value_addr [OF assms(1) a(1)] op_value_addr [OF assms(1) a(3)] a(2,4) by simp_all
  have mem: "entry_of es (ca es i) \<in> set es" "entry_of es (ra es i) \<in> set es" using a by (simp_all add: entry_of_def)
  have k: "e_kind (entry_of es (ca es i)) = callEntry" "e_kind (entry_of es (ra es i)) \<noteq> callEntry"
    using a(2,4) by (auto simp: aev_def ev_of_def split: if_splits)
  have kinds: "case e_value e of InputValue _ \<Rightarrow> e_kind e = callEntry | OutputValue _ \<Rightarrow> e_kind e = returnEntry" if "e \<in> set es" for e
    using assms(1) that by (simp add: entries_ok_def)
  show "\<exists>x. op_value es (Cl i) = InputValue x"
    using kinds [OF mem(1)] k(1) v(1) by (cases "e_value (entry_of es (ca es i))") auto
  show "\<exists>x. op_value es (Rt i) = OutputValue x"
    using kinds [OF mem(2)] k(2) v(2) by (cases "e_value (entry_of es (ra es i))") auto
qed

lemma model_step_ok:
  assumes "entries_ok n es" "i < n"
  shows "model_step model s (Some (op_value es (Cl i))) (Some (op_value es (Rt i))) = Inr (p_step (problem_of model n es) s i)"
  using op_value_kind [OF assms] by (auto simp: model_step_def problem_of_def)

lemma frames_push: "frames n stack \<Longrightarrow> i < n \<Longrightarrow> i \<notin> ids_of stack \<Longrightarrow> frames n ((i, s) # stack)"
  by (auto simp: frames_def ids_of_def)

text \<open>A call: skipped when the specification does not allow it or the configuration is in the cache, else taken.\<close>

lemma turn_call:
  fixes model :: "('s, 'i, 'o) Model"
  assumes base: "base_ok n es h" and sim: "sim n es h st C stack s (Cl i # ys)"
  defines "P \<equiv> problem_of model n es"
  defines "s' \<equiv> snd (p_step P s i)"
  shows "\<exists>st'. check_turn model cp (length es) st = Inr (Some st') \<and>
    (if fst (p_step P s i) \<and> \<not> (\<exists>t. (insert i (ids_of stack), t) \<in> C \<and> p_eq P s' t)
     then sim n es h st' (insert (insert i (ids_of stack), s') C) ((i, s) # stack) s' (remaining P (insert i (ids_of stack)))
     else sim n es h st' C stack s ys)"
proof -
  have ok: "entries_ok n es" and hd: "dlist h (length es # addrs es)" "contents h es" using base by (auto simp: base_ok_def)
  from sim obtain pre a as where a: "rem_addrs es (ids_of stack) = pre @ a # as" "aev es a = Cl i" "map (aev es) as = ys"
      "sr_entry st = Some a"
    using simD(9) by (fastforce simp: map_eq_Cons_conv)
  have fr: "frames n stack" and hp: "sr_heap st = heap_of es h stack" and ss: "sr_state st = s"
    and b: "bs_holds n (sr_linearized st)" "bits (sr_linearized st) = ids_of stack" and c: "cache_ok n (sr_cache st) C"
    using simD [OF sim] by simp_all
  note nd = sim_node [OF base fr a(1)] and en = base_entry [OF base]
  have i: "i < n" "i \<notin> ids_of stack" using nd(4,5) a(2) by simp_all
  note cr = ca_ra [OF ok i(1)]
  have ac: "a = ca es i" using aev_inject [OF ok nd(1) cr(1)] a(2) cr(2) by simp
  obtain b' where b': "bs_set (sr_linearized st) i = Inr b'" "bs_holds n b'" "bits b' = insert i (ids_of stack)"
    using bitset.add [OF b(1) i(1)] b(2) by auto
  have len: "length (heap_of es h stack) > ra es i"
    using heap_of_fields(1) [of es h stack] linked_valid [of h "length es # addrs es" "length es"] hd(1) cr(3) by (auto simp: dlist_def)
  have e: "load (heap_of es h stack) (Some a) = Inr (heap_of es h stack ! a)"
      "n_match (heap_of es h stack ! a) = Some (ra es i)" "n_id (heap_of es h stack ! a) = int i"
      "n_next (heap_of es h stack ! a) = first as" "n_value (heap_of es h stack ! a) = Some (op_value es (Cl i))"
      "load (heap_of es h stack) (Some (ra es i)) = Inr (heap_of es h stack ! ra es i)"
      "n_value (heap_of es h stack ! ra es i) = Some (op_value es (Rt i))"
    using nd en [OF nd(1)] en [OF cr(3)] a(2,4) cr(4) hp len by (simp_all add: load_def)
  have cont: "cacheContains model (sr_cache st) \<lparr>c_linearized = b', c_state = s'\<rparr> \<longleftrightarrow>
      (\<exists>t. (insert i (ids_of stack), t) \<in> C \<and> p_eq P s' t)"
    using cacheContains_iff [OF c b'(2)] b'(3) by (simp add: P_def)
  note step = model_step_ok [OF ok i(1), of model s, folded P_def]
  let ?skip = "st\<lparr>sr_entry := first as\<rparr>"
  have skip: "sim n es h ?skip C stack s ys"
    using simD [OF sim] a by (intro simI [where pre = "pre @ [a]" and as = as]) simp_all
  show ?thesis
  proof (cases "fst (p_step P s i) \<and> \<not> (\<exists>t. (insert i (ids_of stack), t) \<in> C \<and> p_eq P s' t)")
    case False
    have "check_turn model cp (length es) st = Inr (Some ?skip)"
      using False step cont b'(1) by (cases "p_step P s i") (auto simp: check_turn_def try_call_def e ss hp s'_def a(4))
    with False skip show ?thesis by auto
  next
    case True
    let ?h = "heap_of es h ((i, s) # stack)"
    have fr': "frames n ((i, s) # stack)" by (rule frames_push [OF fr i])
    have lift: "lift (heap_of es h stack) a = Inr ?h"
      unfolding ac using fr' by (intro lift_heap_of(1) [OF ok hd]) (simp_all only: frames_def)
    note head = dlist_head [OF base_dlist [OF base fr']]
    let ?st = "st\<lparr>sr_cache := (sr_cache st)(bs_hash b' := sr_cache st (bs_hash b') @ [\<lparr>c_linearized = b', c_state = s'\<rparr>]),
      sr_calls := sr_calls st @ [(a, s)], sr_state := s', sr_linearized := b', sr_heap := ?h,
      sr_entry := first (rem_addrs es (insert i (ids_of stack)))\<rparr>"
    have "check_turn model cp (length es) st = Inr (Some ?st)"
      using True step cont b'(1) lift head by (cases "p_step P s i") (auto simp: check_turn_def try_call_def e ss hp s'_def Let_def a(4))
    moreover have "sim n es h ?st (insert (insert i (ids_of stack), s') C) ((i, s) # stack) s' (remaining P (insert i (ids_of stack)))"
      using simD [OF sim] fr' b' cache_ok_insert [OF c b'(2), of s'] ac map_rem_addrs [of es "insert i (ids_of stack)" model n]
      by (intro simI [where pre = "[]" and as = "rem_addrs es (insert i (ids_of stack))"]) (simp_all add: P_def)
    ultimately show ?thesis using True by auto
  qed
qed


text \<open>A return: the end when the stack is empty, else the last operation is put back.\<close>

lemma turn_return_end:
  fixes s :: 's
  assumes base: "base_ok n es h" and sim: "sim n es h st C [] s (Rt j # ys)"
  shows "check_turn model cp (length es) st = Inr None"
proof -
  from simD(9) [OF sim] obtain pre a as where a: "rem_addrs es (ids_of ([] :: (nat \<times> 's) list)) = pre @ a # as" "aev es a = Rt j"
      "sr_entry st = Some a"
    by (fastforce simp: map_eq_Cons_conv)
  note nd = sim_node [OF base simD(2) [OF sim] a(1)] and en = base_entry [OF base]
  show ?thesis using nd(2) en(3) [OF nd(1), of "[]"] a(2,3) simD(1,6) [OF sim] by (simp add: check_turn_def backtrack_def)
qed

lemma call_ids_stack:
  assumes "base_ok n es h" "frames n stack"
  shows "call_ids (heap_of es h stack') (rev (map (\<lambda>(i, s). (ca es i, s)) stack)) = map int (rev (map fst stack))"
proof -
  have "n_id (heap_of es h stack' ! ca es i) = int i" if "(i, s) \<in> set stack" for i s
  proof -
    have "i < n" using that assms(2) by (force simp: frames_def ids_of_def)
    then have "ca es i < length es" "aev es (ca es i) = Cl i" using ca_ra [of n es i] assms(1) by (simp_all add: base_ok_def)
    then show ?thesis using base_entry(1) [OF assms(1), of "ca es i" stack'] by simp
  qed
  then show ?thesis by (auto simp: call_ids_def rev_map)
qed

lemma turn_return_pop:
  assumes base: "base_ok n es h" and sim: "sim n es h st C ((i, s0) # stack) s (Rt j # ys)"
    and rem: "remaining (problem_of model n es) (ids_of stack) = xs @ Cl i # ys0"
  shows "\<exists>st'. check_turn model cp (length es) st = Inr (Some st') \<and> sim n es h st' C stack s0 ys0"
proof -
  let ?stack = "(i, s0) # stack"
  have ok: "entries_ok n es" and hd: "dlist h (length es # addrs es)" "contents h es" using base by (auto simp: base_ok_def)
  from simD(9) [OF sim] obtain pre a as where a: "rem_addrs es (ids_of ?stack) = pre @ a # as" "aev es a = Rt j"
      "sr_entry st = Some a"
    by (fastforce simp: map_eq_Cons_conv)
  note d = simD [OF sim]
  note nd = sim_node [OF base d(2) a(1)] and en = base_entry [OF base]
  have fr: "frames n stack" and i: "i < n" "i \<notin> ids_of stack" using d(2) by (auto simp: frames_def ids_of_def)
  note cr = ca_ra [OF ok i(1)]
  obtain b' where b': "bs_clear (sr_linearized st) i = Inr b'" "bs_holds n b'" "bits b' = ids_of stack"
    using bitset.del [OF d(3) i(1)] d(4) i(2) by auto
  have sq: "call_ids (sr_heap st) (sr_calls st) = map int (rev (map fst ?stack))"
    using call_ids_stack [OF base d(2), of ?stack] d(1,6) by simp
  have "set (map int (rev (map fst ?stack))) \<subseteq> {0..<int n}" using d(2) by (auto simp: frames_def ids_of_def)
  from keep_longest_ok [OF this d(8)] obtain l' where l': "length l' = n"
      "(if cp then keep_longest (call_ids (sr_heap st) (sr_calls st)) (call_ids (sr_heap st) (sr_calls st)) (sr_longest st)
        else Inr (sr_longest st)) = Inr l'"
    using d(8) unfolding sq by (cases cp) auto
  have unl: "unlift (heap_of es h ?stack) (ca es i) = Inr (heap_of es h stack)"
    using d(2) by (intro lift_heap_of(2) [OF ok hd]) (simp_all only: frames_def)
  obtain pre0 as0 where r0: "rem_addrs es (ids_of stack) = pre0 @ ca es i # as0" "map (aev es) as0 = ys0"
  proof -
    from rem have "map (aev es) (rem_addrs es (ids_of stack)) = xs @ Cl i # ys0" by (simp only: map_rem_addrs [of es "ids_of stack" model n])
    then obtain p c q where s: "rem_addrs es (ids_of stack) = p @ c # q" "aev es c = Cl i" "map (aev es) q = ys0"
      by (blast dest: map_split)
    moreover have "c < length es" using s(1) rem_addrs_set [of es "ids_of stack"] by auto
    ultimately show thesis using aev_inject [OF ok _ cr(1)] cr(2) that by metis
  qed
  note nd0 = sim_node [OF base fr r0(1)]
  have ld: "load (heap_of es h ?stack) (Some (ca es i)) = Inr (heap_of es h ?stack ! ca es i)"
    using nd0(2) heap_of_fields(1) [of es h stack] heap_of_fields(1) [of es h ?stack] by (auto simp: load_def split: if_splits)
  let ?st = "st\<lparr>sr_longest := l', sr_state := s0, sr_linearized := b', sr_calls := butlast (sr_calls st),
    sr_heap := heap_of es h stack, sr_entry := first as0\<rparr>"
  have idc: "n_id (heap_of es h ?stack ! ca es i) = int i" using en(1) [OF cr(1)] cr(2) by simp
  have top: "sr_calls st \<noteq> []" "last (sr_calls st) = (ca es i, s0)" using d(6) by simp_all
  have "backtrack cp st = Inr (Some ?st)"
    using l'(2) ld b'(1) unl nd0(2,3) idc top
    by (cases cp) (simp_all add: backtrack_def Let_def d(1) del: heap_of.simps)
  then have "check_turn model cp (length es) st = Inr (Some ?st)"
    using nd(2) en(3) [OF nd(1), of ?stack] a(2,3) d(1) by (simp add: check_turn_def del: heap_of.simps)
  moreover have "sim n es h ?st C stack s0 ys0"
    using d fr b' l' r0 by (intro simI [where pre = "pre0 @ [ca es i]" and as = as0]) simp_all
  ultimately show ?thesis by blast
qed


subsection \<open>The loop\<close>

lemma stack_path:
  "stack_ok P C stack s ys \<Longrightarrow> path P (rev (map fst stack)) \<and> s = state_after P (p_init P) (rev (map fst stack))"
proof (induction rule: stack_ok.induct)
  case (stack_base tried ys)
  then show ?case by (simp add: path_def)
next
  case (stack_push st s0 ys0 xs i s tried ys)
  obtain tried' where r: "remaining P (ids_of st) = map Cl tried' @ ys0" using stack_ok_tried [OF stack_push.hyps(1)] by blast
  from stack_push.hyps(2) r have "xs @ [Cl i] = map Cl tried'" by (metis append.assoc append_Cons append_Nil append_same_eq)
  then have "i \<in> set tried'" by (metis in_set_conv_decomp image_iff set_map ev.inject(1))
  then have "i \<in> set (minimal P (ids_of st))" unfolding minimal_def r by (simp add: calls_before_append)
  with stack_push show ?case by (simp add: path_snoc state_after_append ids_of_def)
qed

text \<open>What the end of the loop is: the answer, and with a positive one the stack is a linearization.\<close>

definition search_done :: "'s problem \<Rightarrow> ('i, 'o) entry list \<Rightarrow> ('i, 'o) heap \<Rightarrow> bool \<times> ('s, 'i, 'o) search \<Rightarrow> bool" where
  "search_done P es h r =
     (length (sr_longest (snd r)) = p_n P \<and>
      (fst r \<longrightarrow> (\<exists>C stack s ys. sim (p_n P) es h (snd r) C stack s ys \<and> linearization P (rev (map fst stack)))))"

lemma something_left:
  assumes h: "hist_ok (p_n P) (p_hist P)" and st: "stack_ok P C stack s ys" and "remaining P (ids_of stack) \<noteq> []"
  shows "ys \<noteq> []"
proof
  assume "ys = []"
  then obtain tried where r: "remaining P (ids_of stack) = map Cl tried" using stack_ok_tried [OF st] by auto
  with assms(3) obtain i where "i \<in> set tried" by (cases tried) auto
  then have "Cl i \<in> set (remaining P (ids_of stack))" using r by simp
  then have "Rt i \<in> set (remaining P (ids_of stack))" using remaining_set [OF h, of "ids_of stack"] by auto
  then show False using r by auto
qed

lemma stack_complete:
  assumes h: "hist_ok (p_n P) (p_hist P)" and st: "stack_ok P C stack s ys" and "remaining P (ids_of stack) = []"
  shows "linearization P (rev (map fst stack))"
proof -
  have "{..<p_n P} \<subseteq> ids_of stack" using remaining_set [OF h, of "ids_of stack"] assms(3) by auto
  moreover have "ids_of stack \<subseteq> {..<p_n P}" by (rule reach_bound [OF stack_ok_reach [OF st] h])
  ultimately have "set (rev (map fst stack)) = {..<p_n P}" by (auto simp: ids_of_def)
  then show ?thesis using stack_path [OF st] linearization_path [OF h] by blast
qed

text \<open>With enough fuel the loop ends, and unless it is killed its answer is whether there is a linearization.\<close>

definition settles ::
  "('s, 'i, 'o) Model \<Rightarrow> bool \<Rightarrow> (nat \<Rightarrow> bool) \<Rightarrow> 's problem \<Rightarrow> ('i, 'o) entry list \<Rightarrow> ('i, 'o) heap \<Rightarrow> ('s, 'i, 'o) search \<Rightarrow> bool" where
  "settles model cp kill P es h st =
     (\<exists>f0. \<forall>fuel k. f0 \<le> fuel \<longrightarrow> (\<exists>r. check_loop model cp kill (length es) k fuel st = Inr (Some r) \<and>
        search_done P es h r \<and> ((\<forall>k. \<not> kill k) \<longrightarrow> fst r = linearizable P)))"

lemma settlesI:
  assumes "\<And>fuel k. \<exists>r. check_loop model cp kill (length es) k (Suc fuel) st = Inr (Some r) \<and>
      search_done P es h r \<and> ((\<forall>k. \<not> kill k) \<longrightarrow> fst r = linearizable P)"
  shows "settles model cp kill P es h st"
  unfolding settles_def
proof (intro exI [of _ 1] allI impI)
  fix fuel :: nat and k assume "1 \<le> fuel"
  then show "\<exists>r. check_loop model cp kill (length es) k fuel st = Inr (Some r) \<and>
      search_done P es h r \<and> ((\<forall>k. \<not> kill k) \<longrightarrow> fst r = linearizable P)"
    using assms by (cases fuel) auto
qed

lemma sim_head:
  assumes "base_ok n es h" "sim n es h st C stack s ys"
  shows "load (sr_heap st) (Some (length es)) = Inr (sr_heap st ! length es)"
    "n_next (sr_heap st ! length es) = None \<longleftrightarrow> remaining (problem_of model n es) (ids_of stack) = []"
proof -
  note head = dlist_head [OF base_dlist [OF assms(1) simD(2) [OF assms(2)]], folded simD(1) [OF assms(2)]]
  then show "load (sr_heap st) (Some (length es)) = Inr (sr_heap st ! length es)" by simp
  show "n_next (sr_heap st ! length es) = None \<longleftrightarrow> remaining (problem_of model n es) (ids_of stack) = []"
    unfolding map_rem_addrs [symmetric] using head by simp
qed

lemma search_done_False: "sim (p_n P) es h st C stack s ys \<Longrightarrow> search_done P es h (False, st)"
  using simD(8) by (auto simp: search_done_def)

lemma settles_next:
  assumes head: "load (sr_heap st) (Some (length es)) = Inr (sr_heap st ! length es)" "n_next (sr_heap st ! length es) \<noteq> None"
    and fin: "search_done P es h (False, st)"
    and turn: "check_turn model cp (length es) st = Inr (Some st')" and nxt: "settles model cp kill P es h st'"
  shows "settles model cp kill P es h st"
proof -
  from nxt obtain f0 where f0: "\<forall>fuel k. f0 \<le> fuel \<longrightarrow> (\<exists>r. check_loop model cp kill (length es) k fuel st' = Inr (Some r) \<and>
        search_done P es h r \<and> ((\<forall>k. \<not> kill k) \<longrightarrow> fst r = linearizable P))"
    unfolding settles_def by blast
  have "\<exists>r. check_loop model cp kill (length es) k fuel st = Inr (Some r) \<and>
        search_done P es h r \<and> ((\<forall>k. \<not> kill k) \<longrightarrow> fst r = linearizable P)" if "Suc f0 \<le> fuel" for fuel k
  proof -
    from that obtain f where "fuel = Suc f" "f0 \<le> f" by (cases fuel) auto
    with f0 head turn fin show ?thesis by (cases "kill k") auto
  qed
  then show ?thesis unfolding settles_def by blast
qed

abbreviation search_less :: "((nat \<times> nat \<times> nat) \<times> (nat \<times> nat \<times> nat)) set" where
  "search_less \<equiv> less_than <*lex*> less_than <*lex*> less_than"

lemma wf_search_less: "wf search_less"
  by (intro wf_lex_prod wf_less_than)

lemma measure_decreases:
  "(search_measure P (C, stack, ys), search_measure P (C, stack, v # ys)) \<in> search_less"
  "(search_measure P (C, stack, ys), search_measure P (C, f # stack, zs)) \<in> search_less"
  by (auto simp: search_measure_def)

text \<open>A turn of the loop makes a step of the search, or there is no linearization.\<close>

definition progress ::
  "('s, 'i, 'o) Model \<Rightarrow> bool \<Rightarrow> 's problem \<Rightarrow> ('i, 'o) entry list \<Rightarrow> ('i, 'o) heap \<Rightarrow> ('s, 'i, 'o) search \<Rightarrow> nat \<times> nat \<times> nat \<Rightarrow> bool" where
  "progress model cp P es h st m =
     (\<exists>st' C stack s ys. check_turn model cp (length es) st = Inr (Some st') \<and> search_inv P C stack s ys \<and>
        sim (p_n P) es h st' C stack s ys \<and> (search_measure P (C, stack, ys), m) \<in> search_less)"

lemma progressI:
  assumes "check_turn model cp (length es) st = Inr (Some st')" "search_inv P C stack s ys"
    "sim (p_n P) es h st' C stack s ys" "(search_measure P (C, stack, ys), m) \<in> search_less"
  shows "progress model cp P es h st m"
  using assms unfolding progress_def by blast

lemma step_call:
  assumes base: "base_ok n es h" and P: "P = problem_of model n es" and e: "eq_ok P"
    and inv: "search_inv P C stack s (Cl i # ys)" and sim: "sim n es h st C stack s (Cl i # ys)"
  shows "progress model cp P es h st (search_measure P (C, stack, Cl i # ys))"
proof -
  let ?S = "insert i (ids_of stack)" and ?s = "snd (p_step P s i)"
  let ?take = "fst (p_step P s i) \<and> \<not> (\<exists>t. (?S, t) \<in> C \<and> p_eq P ?s t)"
  have ho: "hist_ok (p_n P) (p_hist P)" and pn: "p_n P = n" using base by (simp_all add: P base_ok_def entries_ok_def)
  from turn_call [OF base sim, of model cp, folded P] obtain st' where t:
    "check_turn model cp (length es) st = Inr (Some st')"
    "if ?take then sim n es h st' (insert (?S, ?s) C) ((i, s) # stack) ?s (remaining P ?S) else sim n es h st' C stack s ys" by blast
  show ?thesis
  proof (cases ?take)
    case True
    have "p_eq P ?s ?s" using e by (simp add: eq_ok_def)
    with True have new: "(?S, ?s) \<notin> C" by blast
    have inv2: "search_inv P (insert (?S, ?s) C) ((i, s) # stack) ?s (remaining P ?S)"
      using inv_push [OF inv ho e] True by blast
    have "reach P ?S ?s" using stack_ok_reach [OF search_invD(1) [OF inv2]] by simp
    from measure_push [OF ho this new]
    show ?thesis using t(2) True by (intro progressI [OF t(1) inv2]) (simp_all add: search_measure_def pn)
  next
    case False
    then have "covered P C (ids_of stack) s [i]" by (auto simp: covered_def)
    note inv2 = inv_skip [OF inv this]
    have "sim n es h st' C stack s ys" using t(2) False by (simp only: if_False)
    with inv2 show ?thesis by (intro progressI [OF t(1)]) (auto simp: pn intro: measure_decreases)
  qed
qed

lemma step_return:
  assumes base: "base_ok n es h" and P: "P = problem_of model n es"
    and inv: "search_inv P C (f # stack) s (Rt j # ys)" and sim: "sim n es h st C (f # stack) s (Rt j # ys)"
  shows "progress model cp P es h st (search_measure P (C, f # stack, Rt j # ys))"
proof -
  have ho: "hist_ok (p_n P) (p_hist P)" and pn: "p_n P = n" using base by (simp_all add: P base_ok_def entries_ok_def)
  obtain i s0 where f: "f = (i, s0)" by fastforce
  from inv_pop [OF inv [unfolded f] ho] obtain xs ys0 where
    p: "remaining P (ids_of stack) = xs @ Cl i # ys0" "search_inv P C stack s0 ys0" by blast
  from turn_return_pop [OF base sim [unfolded f] p(1) [unfolded P]] obtain st' where
    "check_turn model cp (length es) st = Inr (Some st')" "sim n es h st' C stack s0 ys0" by blast
  with p(2) show ?thesis by (intro progressI) (auto simp: pn intro: measure_decreases)
qed

lemma check_loop_settles:
  fixes model :: "('s, 'i, 'o) Model"
  assumes base: "base_ok n es h" and P: "P = problem_of model n es" and e: "eq_ok P"
  shows "\<forall>C stack s ys st. search_measure P (C, stack, ys) = m \<longrightarrow> search_inv P C stack s ys \<longrightarrow> sim n es h st C stack s ys \<longrightarrow>
    settles model cp kill P es h st"
proof (induction m rule: wf_induct_rule [OF wf_search_less])
  case (1 m)
  have ho: "hist_ok (p_n P) (p_hist P)" and pn: "p_n P = n" using base by (simp_all add: P base_ok_def entries_ok_def)
  show ?case
  proof (intro allI impI)
    fix C stack s ys st
    assume m: "search_measure P (C, stack, ys) = m" and inv: "search_inv P C stack s ys" and sim: "sim n es h st C stack s ys"
    note st = search_invD(1) [OF inv]
    note head = sim_head(1) [OF base sim] sim_head(2) [OF base sim, of model, folded P]
    have fin: "search_done P es h (False, st)" using search_done_False [of P] sim by (simp add: pn)
    have go: "settles model cp kill P es h st" if left: "remaining P (ids_of stack) \<noteq> []" and pr: "progress model cp P es h st m"
    proof -
      from pr obtain st' C' stack' s' ys' where p: "check_turn model cp (length es) st = Inr (Some st')"
        "search_inv P C' stack' s' ys'" "sim n es h st' C' stack' s' ys'" "(search_measure P (C', stack', ys'), m) \<in> search_less"
        unfolding progress_def pn by blast
      then have "settles model cp kill P es h st'" using 1 by blast
      then show ?thesis using head(2) left by (intro settles_next [OF head(1) _ fin p(1)]) simp
    qed
    show "settles model cp kill P es h st"
    proof (cases "remaining P (ids_of stack) = []")
      case True
      have "linearization P (rev (map fst stack))" by (rule stack_complete [OF ho st True])
      then have "search_done P es h (True, st)" "linearizable P"
        using sim simD(8) [OF sim] by (auto simp: search_done_def pn linearizable_def)
      then show ?thesis using head True by (intro settlesI) auto
    next
      case False
      from something_left [OF ho st False] consider (call) i ys' where "ys = Cl i # ys'"
        | (stuck) j ys' where "ys = Rt j # ys'" "stack = []" | (pop) j ys' f stack' where "ys = Rt j # ys'" "stack = f # stack'"
        by (metis ev.exhaust list.exhaust)
      then show ?thesis
      proof cases
        case call
        then show ?thesis using step_call [OF base P e] inv sim m go [OF False] by blast
      next
        case stuck
        then have "check_turn model cp (length es) st = Inr None" "\<not> linearizable P"
          using turn_return_end [OF base, of st C s j ys'] search_fails [of P C s j ys', OF _ ho e] sim inv by simp_all
        then show ?thesis using head False fin by (intro settlesI) auto
      next
        case pop
        then show ?thesis using step_return [OF base P] inv sim m go [OF False] by blast
      qed
    qed
  qed
qed


subsection \<open>checkSingle\<close>

lemma list_length_dlist:
  "linked h xs \<Longrightarrow> (xs \<noteq> [] \<Longrightarrow> n_next (h ! last xs) = None) \<Longrightarrow> length xs < fuel \<Longrightarrow>
   list_length fuel h (first xs) l = Inr (Some (l + length xs))"
proof (induction xs arbitrary: fuel l)
  case Nil
  then show ?case by (cases fuel) auto
next
  case (Cons a xs)
  from Cons.prems(3) obtain f where f: "fuel = Suc f" "length xs < f" by (cases fuel) auto
  have "a < length h" "linked h xs" "n_next (h ! a) = first xs"
    using Cons.prems by (cases xs; simp)+
  with Cons.IH [of f "l + 1"] Cons.prems(2) f show ?case by (cases xs) (simp_all add: load_def)
qed

lemma entries_ok_length: "entries_ok n es \<Longrightarrow> length es = 2 * n"
proof -
  assume "entries_ok n es"
  then have d: "distinct (map ev_of es)" and s: "set (map ev_of es) = Cl ` {..<n} \<union> Rt ` {..<n}"
    by (simp_all only: entries_ok_def hist_ok_def)
  have "length es = card (set (map ev_of es))" using distinct_card [OF d] by simp
  also have "\<dots> = card (Cl ` {..<n}) + card (Rt ` {..<n})" unfolding s by (rule card_Un_disjoint) auto
  also have "\<dots> = n + n" by (simp add: card_image inj_on_def)
  finally show ?thesis by simp
qed

text \<open>The list before the loop.\<close>

lemma start_heap:
  assumes ok: "entries_ok n es"
  defines "hd0 \<equiv> \<lparr>n_value = None, n_match = None, n_id = -1, n_next = None, n_prev = None\<rparr>"
  shows "\<exists>h0 h. makeLinkedEntries es = Inr (h0, first (addrs es)) \<and> length h0 = length es \<and>
    (\<forall>fuel. length es < fuel \<longrightarrow> list_length fuel h0 (first (addrs es)) 0 = Inr (Some (2 * n))) \<and>
    insertBefore (h0 @ [hd0]) (length es) (first (addrs es)) = Inr h \<and> base_ok n es h"
proof -
  from link_entries_eq [of es] obtain h0 where
    l: "link_entries es = Inr (h0, if es = [] then None else Some (length es - 1), ret_addr es)" "length h0 = length es"
      "contents h0 es" and d: "es \<noteq> [] \<Longrightarrow> dlist h0 (addrs es) \<and> n_prev (h0 ! (length es - 1)) = None"
    unfolding addrs_def by blast
  have f: "first (addrs es) = (if es = [] then None else Some (length es - 1))"
    by (cases es) (simp_all add: addrs_def)
  have mk: "makeLinkedEntries es = Inr (h0, first (addrs es))" using l(1) f by (simp add: makeLinkedEntries_def)
  have la: "length (addrs es) = length es" by (simp add: addrs_def)
  have lk: "linked h0 (addrs es)" "addrs es \<noteq> [] \<Longrightarrow> n_next (h0 ! last (addrs es)) = None"
    using d by (cases "es = []"; simp add: addrs_def dlist_def)+
  have ll: "list_length fuel h0 (first (addrs es)) 0 = Inr (Some (2 * n))" if "length es < fuel" for fuel
    using list_length_dlist [OF lk, of fuel 0] that la entries_ok_length [OF ok] by simp
  have "\<exists>h. insertBefore (h0 @ [hd0]) (length es) (first (addrs es)) = Inr h \<and> dlist h (length es # addrs es) \<and> contents h es"
  proof (cases es)
    case Nil
    then show ?thesis using l(2) by (simp add: addrs_def insertBefore_def dlist_def hd0_def)
  next
    case (Cons e es')
    let ?r = "length es'"
    have a: "addrs es = ?r # rev [0..<?r]" using Cons by (simp add: addrs_def)
    have r: "?r < length h0" "n_prev (h0 ! ?r) = None" using d Cons l(2) by auto
    have "insertBefore (h0 @ [hd0]) (length es) (Some ?r) = Inr (pushed h0 hd0 ?r)"
      using insertBefore_front [OF r, of hd0] l(2) by simp
    moreover have "dlist (pushed h0 hd0 ?r) (length es # addrs es)"
      using dlist_pushed [of h0 ?r "rev [0..<?r]" hd0] d Cons a l(2) by simp
    moreover have "contents (pushed h0 hd0 ?r) es"
      using l(2) pushed_fields(2-4) [OF r(1)] by (intro contents_frame [OF l(3)]) auto
    ultimately show ?thesis using a by auto
  qed
  then show ?thesis using mk l(2) ll ok unfolding base_ok_def by blast
qed

text \<open>The variables before the loop are the start of the search.\<close>

lemma start_sim:
  assumes "base_ok n es h"
  shows "sim n es h \<lparr>sr_heap = h, sr_entry = first (addrs es), sr_linearized = newBitset n, sr_cache = (\<lambda>_. []),
      sr_calls = [], sr_longest = replicate n None, sr_state = Init model\<rparr> {} [] (Init model)
    (remaining (problem_of model n es) {})"
  using bitset.empty map_rem_addrs [of es "{}" model n]
  by (intro simI [where pre = "[]" and as = "addrs es"]) (simp_all add: frames_def rem_addrs_def cache_ok_def)

lemma checkSingle_settles:
  assumes ok: "entries_ok n es" and e: "eq_ok (problem_of model n es)"
  shows "\<exists>f0. \<forall>fuel \<ge> f0. \<exists>ans l. checkSingle model cp kill fuel es = Inr (Some (ans, l)) \<and> length l = n \<and>
    (ans \<longrightarrow> (\<exists>ids. linearization (problem_of model n es) ids \<and> l = replicate n (Some (map int ids)))) \<and>
    ((\<forall>k. \<not> kill k) \<longrightarrow> ans = linearizable (problem_of model n es))"
proof -
  let ?P = "problem_of model n es"
  from start_heap [OF ok] obtain h0 h where
    mk: "makeLinkedEntries es = Inr (h0, first (addrs es))" "length h0 = length es"
      "\<And>fuel. length es < fuel \<Longrightarrow> list_length fuel h0 (first (addrs es)) 0 = Inr (Some (2 * n))"
      "insertBefore (h0 @ [\<lparr>n_value = None, n_match = None, n_id = -1, n_next = None, n_prev = None\<rparr>]) (length es) (first (addrs es)) = Inr h"
    and base: "base_ok n es h" by blast
  let ?st = "\<lparr>sr_heap = h, sr_entry = first (addrs es), sr_linearized = newBitset n, sr_cache = (\<lambda>_. []),
      sr_calls = [], sr_longest = replicate n None, sr_state = Init model\<rparr>"
  have "settles model cp kill ?P es h ?st"
    using check_loop_settles [OF base refl e] start_sim [OF base] inv_start [of ?P] by (simp only: problem_of_simps) blast
  then obtain f0 where f0: "\<And>fuel. f0 \<le> fuel \<Longrightarrow> \<exists>r. check_loop model cp kill (length es) 0 fuel ?st = Inr (Some r) \<and>
        search_done ?P es h r \<and> ((\<forall>k. \<not> kill k) \<longrightarrow> fst r = linearizable ?P)"
    unfolding settles_def by blast
  have "\<exists>ans l. checkSingle model cp kill fuel es = Inr (Some (ans, l)) \<and> length l = n \<and>
    (ans \<longrightarrow> (\<exists>ids. linearization ?P ids \<and> l = replicate n (Some (map int ids)))) \<and>
    ((\<forall>k. \<not> kill k) \<longrightarrow> ans = linearizable ?P)" if "max f0 (Suc (length es)) \<le> fuel" for fuel
  proof -
    from f0 [of fuel] that obtain ans st where r: "check_loop model cp kill (length es) 0 fuel ?st = Inr (Some (ans, st))"
        "search_done ?P es h (ans, st)" "(\<forall>k. \<not> kill k) \<longrightarrow> ans = linearizable ?P" by auto
    have run: "checkSingle model cp kill fuel es =
        (if ans then Inr (Some (True, replicate n (Some (call_ids (sr_heap st) (sr_calls st))))) else Inr (Some (False, sr_longest st)))"
      using mk that r(1) by (simp add: checkSingle_def Let_def)
    show ?thesis
    proof (cases ans)
      case True
      with r(2) obtain C stack s ys where s: "sim n es h st C stack s ys" "linearization ?P (rev (map fst stack))"
        by (auto simp: search_done_def)
      have "call_ids (sr_heap st) (sr_calls st) = map int (rev (map fst stack))"
        using call_ids_stack [OF base simD(2) [OF s(1)], of stack] simD(1,6) [OF s(1)] by simp
      with True run s(2) r(3) show ?thesis by auto
    next
      case False
      with run r(2,3) show ?thesis by (intro exI [of _ False] exI [of _ "sr_longest st"]) (simp add: search_done_def)
    qed
  qed
  then show ?thesis by blast
qed


end
