(* ===== verification/Porcupine_Entries.thy ===== *)
theory Porcupine_Entries
  imports Porcupine_Loop
begin

section \<open>The linearizability checker: operations and partitions\<close>

text \<open>
  From the checker's entries to what a user of \<^verbatim>\<open>src/porcupine\<close> knows: the operations with
  their times, or the events in their order. \<open>op_linearizable\<close> is linearizability of
  operations; \<^verbatim>\<open>makeEntries\<close>, \<^verbatim>\<open>renumber\<close> and \<^verbatim>\<open>convertEntries\<close> give entries the search can work
  on, and the results of the partitions add up to the result of the whole check.
\<close>

subsection \<open>Linearizability of operations\<close>

text \<open>
  The definition of linearizability over the operations themselves: an order of all of them
  that the model accepts and in which no operation comes before one that had returned before
  it was called.
\<close>

primrec accepts :: "('s, 'i, 'o) Model \<Rightarrow> 's \<Rightarrow> ('i, 'o) Operation list \<Rightarrow> bool" where
  "accepts model s [] = True"
| "accepts model s (v # ops) =
     (let (ok, s') = Step model s (Input v) (Output v) in ok \<and> accepts model s' ops)"

definition op_linearization :: "('s, 'i, 'o) Model \<Rightarrow> ('i, 'o) Operation list \<Rightarrow> nat list \<Rightarrow> bool" where
  "op_linearization model ops ids =
     (distinct ids \<and> set ids = {..<length ops} \<and>
      (\<forall>j k. j < k \<and> k < length ids \<longrightarrow> \<not> Return (ops ! (ids ! k)) < Call (ops ! (ids ! j))) \<and>
      accepts model (Init model) (map (\<lambda>i. ops ! i) ids))"

definition op_linearizable :: "('s, 'i, 'o) Model \<Rightarrow> ('i, 'o) Operation list \<Rightarrow> bool" where
  "op_linearizable model ops = (\<exists>ids. op_linearization model ops ids)"

text \<open>Clocks that do not go back, and no return at the very time of another operation's call.\<close>

definition timed :: "('i, 'o) Operation list \<Rightarrow> bool" where
  "timed ops = ((\<forall>v \<in> set ops. Call v < Return v) \<and> (\<forall>v \<in> set ops. \<forall>w \<in> set ops. Return v \<noteq> Call w))"

lemma operation_entries_ev:
  "distinct (map ev_of (operation_entries (int k) ops)) \<and>
   set (map ev_of (operation_entries (int k) ops)) = Cl ` {k..<k + length ops} \<union> Rt ` {k..<k + length ops}"
proof (induction ops arbitrary: k)
  case (Cons v ops)
  let ?es = "operation_entries (int (Suc k)) ops"
  have k: "{k..<k + length (v # ops)} = insert k {Suc k..<Suc k + length ops}" by auto
  have s: "int k + 1 = int (Suc k)" by simp
  have "map ev_of (operation_entries (int k) (v # ops)) = Cl k # Rt k # map ev_of ?es"
    unfolding operation_entries.simps s by (simp add: ev_of_def)
  moreover have "distinct (Cl k # Rt k # map ev_of ?es)" "set (Cl k # Rt k # map ev_of ?es) =
      Cl ` insert k {Suc k..<Suc k + length ops} \<union> Rt ` insert k {Suc k..<Suc k + length ops}"
    using Cons [of "Suc k"] by (auto simp del: set_map of_nat_Suc)
  ultimately show ?case unfolding k by metis
qed simp

lemma operation_entries_mem:
  "e \<in> set (operation_entries (int k) ops) \<Longrightarrow> \<exists>i < length ops. e_id e = int (k + i) \<and>
     (e_kind e = callEntry \<and> e_value e = InputValue (Input (ops ! i)) \<and> e_time e = Call (ops ! i) \<or>
      e_kind e = returnEntry \<and> e_value e = OutputValue (Output (ops ! i)) \<and> e_time e = Return (ops ! i))"
proof (induction ops arbitrary: k)
  case (Cons v ops)
  have s: "int k + 1 = int (Suc k)" by simp
  from Cons.prems consider "e_id e = int k \<and> (e_kind e = callEntry \<and> e_value e = InputValue (Input v) \<and> e_time e = Call v \<or>
      e_kind e = returnEntry \<and> e_value e = OutputValue (Output v) \<and> e_time e = Return v)"
    | "e \<in> set (operation_entries (int (Suc k)) ops)"
    unfolding operation_entries.simps s by auto
  then show ?case
  proof cases
    case 1
    then show ?thesis by (intro exI [of _ 0]) auto
  next
    case 2
    from Cons.IH [OF this] obtain i where "i < length ops" "e_id e = int (Suc k + i)"
      "(e_kind e = callEntry \<and> e_value e = InputValue (Input (ops ! i)) \<and> e_time e = Call (ops ! i) \<or>
      e_kind e = returnEntry \<and> e_value e = OutputValue (Output (ops ! i)) \<and> e_time e = Return (ops ! i))" by blast
    then show ?thesis by (intro exI [of _ "Suc i"]) auto
  qed
qed simp

lemma before_time:
  "sorted (map e_time es) \<Longrightarrow> before (map ev_of es) v w \<Longrightarrow>
   \<exists>e \<in> set es. \<exists>f \<in> set es. ev_of e = v \<and> ev_of f = w \<and> e_time e \<le> e_time f"
  by (induction es) auto

text \<open>What the sorted entries of a history say of its operations.\<close>

lemma makeEntries_facts:
  fixes ops :: "('i, 'o) Operation list"
  assumes "sorts_byTime sort_byTime"
  defines "es \<equiv> makeEntries sort_byTime ops"
  shows "distinct (map ev_of es)" "set (map ev_of es) = Cl ` {..<length ops} \<union> Rt ` {..<length ops}"
    "sorted (map e_time es)" "e \<in> set es \<Longrightarrow> 0 \<le> e_id e"
    "e \<in> set es \<Longrightarrow> case e_value e of InputValue _ \<Rightarrow> e_kind e = callEntry | OutputValue _ \<Rightarrow> e_kind e = returnEntry"
    "e \<in> set es \<Longrightarrow> ev_of e = Cl i \<Longrightarrow> e_value e = InputValue (Input (ops ! i)) \<and> e_time e = Call (ops ! i)"
    "e \<in> set es \<Longrightarrow> ev_of e = Rt i \<Longrightarrow> e_value e = OutputValue (Output (ops ! i)) \<and> e_time e = Return (ops ! i)"
proof -
  have m: "mset es = mset (operation_entries (int 0) ops)" and "sorted (map e_time es)"
    using assms(1) by (simp_all add: es_def makeEntries_def sorts_byTime_def)
  then show "sorted (map e_time es)" by simp
  have s: "set es = set (operation_entries (int 0) ops)" using m by (rule mset_eq_setD)
  have "mset (map ev_of es) = mset (map ev_of (operation_entries (int 0) ops))" using m by simp
  then show "distinct (map ev_of es)" "set (map ev_of es) = Cl ` {..<length ops} \<union> Rt ` {..<length ops}"
    using operation_entries_ev [of 0 ops] mset_eq_imp_distinct_iff mset_eq_setD by (metis, metis add_0 lessThan_atLeast0)
  show "0 \<le> e_id e" if "e \<in> set es" using operation_entries_mem that s by fastforce
  show "case e_value e of InputValue _ \<Rightarrow> e_kind e = callEntry | OutputValue _ \<Rightarrow> e_kind e = returnEntry" if "e \<in> set es"
    using operation_entries_mem [of e 0 ops] that s by auto
  show "e_value e = InputValue (Input (ops ! i)) \<and> e_time e = Call (ops ! i)" if "e \<in> set es" "ev_of e = Cl i"
    using operation_entries_mem [of e 0 ops] that s by (auto simp: ev_of_def split: if_splits)
  show "e_value e = OutputValue (Output (ops ! i)) \<and> e_time e = Return (ops ! i)" if "e \<in> set es" "ev_of e = Rt i"
    using operation_entries_mem [of e 0 ops] that s by (auto simp: ev_of_def split: if_splits)
qed

lemma makeEntries_before:
  assumes "sorts_byTime sort_byTime" "timed ops" "i < length ops" "j < length ops"
  shows "before (map ev_of (makeEntries sort_byTime ops)) (Cl i) (Rt i)"
    "before (map ev_of (makeEntries sort_byTime ops)) (Rt i) (Cl j) \<longleftrightarrow> Return (ops ! i) < Call (ops ! j)"
proof -
  let ?es = "makeEntries sort_byTime ops"
  have mem: "Cl i \<in> set (map ev_of ?es)" "Rt i \<in> set (map ev_of ?es)" "Cl j \<in> set (map ev_of ?es)"
    using assms(3,4) makeEntries_facts(2) [OF assms(1), of ops] by auto
  have t: "Call (ops ! i) < Return (ops ! i)" "Return (ops ! i) \<noteq> Call (ops ! j)"
    using assms by (simp_all add: timed_def)
  have rc: "before (map ev_of ?es) (Rt a) (Cl b) \<Longrightarrow> Return (ops ! a) \<le> Call (ops ! b)" for a b
    using before_time [OF makeEntries_facts(3) [OF assms(1)], of ops] makeEntries_facts(6,7) [OF assms(1)] by metis
  have cr: "before (map ev_of ?es) (Cl b) (Rt a) \<Longrightarrow> Call (ops ! b) \<le> Return (ops ! a)" for a b
    using before_time [OF makeEntries_facts(3) [OF assms(1)], of ops] makeEntries_facts(6,7) [OF assms(1)] by metis
  show "before (map ev_of ?es) (Cl i) (Rt i)"
    using before_total [OF mem(1,2)] rc [of i i] t(1) by auto
  show "before (map ev_of ?es) (Rt i) (Cl j) \<longleftrightarrow> Return (ops ! i) < Call (ops ! j)"
    using before_total [OF mem(2,3)] rc [of i j] cr [of j i] t(2) by auto
qed

lemma makeEntries_ok:
  assumes "sorts_byTime sort_byTime" "timed ops"
  shows "entries_ok (length ops) (makeEntries sort_byTime ops)"
  unfolding entries_ok_def hist_ok_def
  using makeEntries_facts(1,2,4,5) [OF assms(1)] makeEntries_before(1) [OF assms] by (intro conjI ballI allI impI) assumption+

lemma makeEntries_value:
  assumes "sorts_byTime sort_byTime" "i < length ops"
  shows "op_value (makeEntries sort_byTime ops) (Cl i) = InputValue (Input (ops ! i))"
    "op_value (makeEntries sort_byTime ops) (Rt i) = OutputValue (Output (ops ! i))"
proof -
  let ?es = "makeEntries sort_byTime ops"
  have "\<exists>e \<in> set ?es. ev_of e = v \<and> op_value ?es v = e_value e" if "v \<in> set (map ev_of ?es)" for v
  proof -
    from that have "find (\<lambda>e. ev_of e = v) ?es \<noteq> None" by (auto simp: find_None_iff)
    then obtain e where "find (\<lambda>e. ev_of e = v) ?es = Some e" by blast
    moreover from this have "e \<in> set ?es" "ev_of e = v" by (auto simp: find_Some_iff)
    ultimately show ?thesis by (auto simp: op_value_def)
  qed
  then show "op_value ?es (Cl i) = InputValue (Input (ops ! i))" "op_value ?es (Rt i) = OutputValue (Output (ops ! i))"
    using makeEntries_facts(2) [OF assms(1), of ops] makeEntries_facts(6,7) [OF assms(1), where ops = ops] assms(2) by (metis UnI1 UnI2 image_eqI lessThan_iff)+
qed


subsection \<open>From the checker's problem to the operations\<close>

text \<open>\<^verbatim>\<open>model.Equal\<close> as the search relies on it: it relates a state to itself, is transitive, and \<^verbatim>\<open>Step\<close> respects it.\<close>

definition equal_ok :: "('s, 'i, 'o) Model \<Rightarrow> bool" where
  "equal_ok model =
     ((\<forall>s. state_equal model s s) \<and>
      (\<forall>s t u. state_equal model s t \<and> state_equal model t u \<longrightarrow> state_equal model s u) \<and>
      (\<forall>s t i out. state_equal model s t \<longrightarrow> fst (Step model s i out) = fst (Step model t i out) \<and>
         state_equal model (snd (Step model s i out)) (snd (Step model t i out))))"

lemma equal_ok_eq_ok: "equal_ok model \<Longrightarrow> eq_ok (problem_of model n es)"
  unfolding equal_ok_def eq_ok_def problem_of_def problem.simps by blast

lemma fillDefault_equal_ok: "Equal model = None \<Longrightarrow> equal_ok (fillDefault model)"
  by (simp add: equal_ok_def state_equal_def fillDefault_def Let_def ShallowEqual_def)

lemma legal_accepts:
  assumes "sorts_byTime sort_byTime"
  shows "set ids \<subseteq> {..<length ops} \<Longrightarrow>
    legal (problem_of model (length ops) (makeEntries sort_byTime ops)) s ids \<longleftrightarrow> accepts model s (map (\<lambda>i. ops ! i) ids)"
proof (induction ids arbitrary: s)
  case (Cons i ids)
  have "p_step (problem_of model (length ops) (makeEntries sort_byTime ops)) s i = Step model s (Input (ops ! i)) (Output (ops ! i))"
    using makeEntries_value [OF assms] Cons.prems by (simp add: problem_of_def)
  with Cons show ?case by (cases "Step model s (Input (ops ! i)) (Output (ops ! i))") auto
qed simp

lemma linearization_ops:
  assumes "sorts_byTime sort_byTime" "timed ops"
  shows "linearization (problem_of model (length ops) (makeEntries sort_byTime ops)) ids \<longleftrightarrow> op_linearization model ops ids"
proof (cases "distinct ids \<and> set ids = {..<length ops}")
  case True
  then have i: "ids ! k < length ops" if "k < length ids" for k using nth_mem [OF that] by auto
  have "before (map ev_of (makeEntries sort_byTime ops)) (Rt (ids ! k)) (Cl (ids ! j)) \<longleftrightarrow>
      Return (ops ! (ids ! k)) < Call (ops ! (ids ! j))" if "j < k" "k < length ids" for j k
    using makeEntries_before(2) [OF assms] i that by simp
  then show ?thesis
    using True legal_accepts [OF assms(1), of ids ops model "Init model"]
    by (auto simp: linearization_def op_linearization_def)
next
  case False
  then show ?thesis by (auto simp: linearization_def op_linearization_def)
qed

text \<open>\<^verbatim>\<open>checkSingle\<close> on the entries of a history.\<close>

lemma checkSingle_ops:
  assumes "sorts_byTime sort_byTime" "timed ops" "equal_ok model"
  shows "\<exists>f0. \<forall>fuel \<ge> f0. \<exists>ans l. checkSingle model cp kill fuel (makeEntries sort_byTime ops) = Inr (Some (ans, l)) \<and>
    length l = length ops \<and>
    (ans \<longrightarrow> (\<exists>ids. op_linearization model ops ids \<and> l = replicate (length ops) (Some (map int ids)))) \<and>
    ((\<forall>k. \<not> kill k) \<longrightarrow> ans = op_linearizable model ops)"
  using checkSingle_settles [OF makeEntries_ok [OF assms(1,2)] equal_ok_eq_ok [OF assms(3)]]
  unfolding linearizable_def op_linearizable_def linearization_ops [OF assms(1,2)] .

subsection \<open>The results of the partitions\<close>

text \<open>The results that arrive before the timer fires, if it does.\<close>

definition received :: "nat option \<Rightarrow> 'a list \<Rightarrow> 'a list" where
  "received timeout results = (case timeout of None \<Rightarrow> results | Some t \<Rightarrow> take t results)"

declare collect.simps [simp del]

lemma collect_spec:
  assumes "timeout = None \<or> (\<exists>t. timeout = Some t \<and> cnt \<le> t)" "results \<noteq> []" "n = cnt + length results"
  shows "\<exists>timedOut. collect ci n timeout cnt results =
    Inr (False \<notin> set (received (map_option (\<lambda>t. t - cnt) timeout) results), timedOut) \<and>
    (False \<notin> set (received (map_option (\<lambda>t. t - cnt) timeout) results) \<longrightarrow>
       timedOut = (\<exists>t. timeout = Some t \<and> t < n))"
  using assms
proof (induction results arbitrary: cnt)
  case (Cons r rest)
  show ?case
  proof (cases "timeout = Some cnt")
    case True
    then show ?thesis using Cons.prems by (subst collect.simps) (auto simp: received_def)
  next
    case False
    have d: "received (map_option (\<lambda>t. t - cnt) timeout) (r # rest) = r # received (map_option (\<lambda>t. t - Suc cnt) timeout) rest"
      using Cons.prems(1) False by (auto simp: received_def take_Cons' split: option.split)
    show ?thesis
    proof (cases "rest = []")
      case True
      have "received (map_option (\<lambda>t. t - Suc cnt) timeout) ([] :: bool list) = []" by (simp add: received_def split: option.split)
      moreover have "collect ci n timeout cnt (r # rest) = Inr (r, False)"
        using False True Cons.prems(3) by (cases r) (simp_all add: collect.simps [of ci "Suc cnt" timeout cnt])
      moreover have "\<not> (\<exists>t. timeout = Some t \<and> t < n)" using False True Cons.prems by auto
      ultimately show ?thesis unfolding d using True by (intro exI [of _ False]) simp
    next
      case rest: False
      have "timeout = None \<or> (\<exists>t. timeout = Some t \<and> Suc cnt \<le> t)" using Cons.prems(1) False by (auto simp: Suc_le_eq)
      from Cons.IH [OF this rest] Cons.prems obtain tO where IH:
        "collect ci n timeout (Suc cnt) rest = Inr (False \<notin> set (received (map_option (\<lambda>t. t - Suc cnt) timeout) rest), tO)"
        "False \<notin> set (received (map_option (\<lambda>t. t - Suc cnt) timeout) rest) \<longrightarrow> tO = (\<exists>t. timeout = Some t \<and> t < n)"
        by auto
      have "\<not> n \<le> cnt + 1" using rest Cons.prems(3) by (cases rest) auto
      then show ?thesis unfolding d using False IH
        by (cases r; cases ci) (auto simp: collect.simps [of ci n timeout cnt] collect.simps [of True n timeout cnt] collect.simps [of False n timeout cnt])
    qed
  qed
qed simp

lemma checkParallel_eq:
  assumes "results \<noteq> []"
  shows "checkParallel ci timeout (length results) results =
    Inr (if False \<in> set (received timeout results) then Illegal
         else if \<exists>t. timeout = Some t \<and> t < length results then Unknown else Ok)"
proof -
  have "map_option (\<lambda>t. t - 0) timeout = timeout" by (cases timeout) auto
  with collect_spec [of timeout 0 results "length results" ci] assms obtain tO where
    "collect ci (length results) timeout 0 results = Inr (False \<notin> set (received timeout results), tO)"
    "False \<notin> set (received timeout results) \<longrightarrow> tO = (\<exists>t. timeout = Some t \<and> t < length results)"
    by (cases timeout) auto
  then show ?thesis by (simp add: checkParallel_def check_result_def)
qed

lemma run_all_eq:
  assumes "\<forall>i \<in> set order. i < length hs"
    "\<forall>h \<in> set hs. \<exists>f0. \<forall>fuel \<ge> f0. \<exists>l. checkSingle model ci (\<lambda>_. False) fuel h = Inr (Some (lin h, l))"
  shows "\<exists>f0. \<forall>fuel \<ge> f0. run_all model ci fuel hs order = Inr (Some (map (\<lambda>i. lin (hs ! i)) order))"
  using assms(1)
proof (induction order)
  case (Cons i order)
  then obtain f1 where f1: "\<forall>fuel \<ge> f1. run_all model ci fuel hs order = Inr (Some (map (\<lambda>i. lin (hs ! i)) order))" by auto
  have i: "i < length hs" using Cons.prems by simp
  then obtain f2 where f2: "\<forall>fuel \<ge> f2. \<exists>l. checkSingle model ci (\<lambda>_. False) fuel (hs ! i) = Inr (Some (lin (hs ! i), l))"
    using assms(2) nth_mem by blast
  have "run_all model ci fuel hs (i # order) = Inr (Some (map (\<lambda>i. lin (hs ! i)) (i # order)))" if "max f1 f2 \<le> fuel" for fuel
  proof -
    from f2 that obtain l where "checkSingle model ci (\<lambda>_. False) fuel (hs ! i) = Inr (Some (lin (hs ! i), l))" by auto
    moreover have "index hs (int i) = Inr (hs ! i)" using i by (simp add: index_def len_def)
    ultimately show ?thesis using f1 that by simp
  qed
  then show ?case by blast
qed simp

text \<open>The goroutines finish in any order.\<close>

lemma order_set:
  assumes "mset order = mset [0..<n]"
  shows "set order = {..<n}" "length order = n"
proof -
  have "set order = set [0..<n]" by (rule mset_eq_setD [OF assms])
  then show "set order = {..<n}" by (simp add: atLeast0LessThan)
  have "length order = length [0..<n]" by (rule mset_eq_length [OF assms])
  then show "length order = n" by simp
qed

lemma check_partitions_eq:
  assumes order: "mset order = mset [0..<length hs]" and "hs \<noteq> []"
    and "\<forall>h \<in> set hs. \<exists>f0. \<forall>fuel \<ge> f0. \<exists>l. checkSingle (fillDefault model) ci (\<lambda>_. False) fuel h = Inr (Some (lin h, l))"
  shows "\<exists>f0. \<forall>fuel \<ge> f0. check_partitions model ci timeout fuel order hs =
    Inr (Some (if False \<in> set (received timeout (map (\<lambda>i. lin (hs ! i)) order)) then Illegal
         else if \<exists>t. timeout = Some t \<and> t < length hs then Unknown else Ok))"
proof -
  note o = order_set [OF order]
  have "\<forall>i \<in> set order. i < length hs" using o(1) by simp
  from run_all_eq [OF this assms(3)] obtain f0 where
    "\<forall>fuel \<ge> f0. run_all (fillDefault model) ci fuel hs order = Inr (Some (map (\<lambda>i. lin (hs ! i)) order))" by blast
  moreover have "map (\<lambda>i. lin (hs ! i)) order \<noteq> []" using o(2) assms(2) by auto
  ultimately show ?thesis
    using checkParallel_eq [of "map (\<lambda>i. lin (hs ! i)) order" ci timeout] o(2)
    by (intro exI [of _ f0]) (simp add: check_partitions_def)
qed

lemma all_in_order:
  assumes "mset order = mset [0..<length hs]"
  shows "False \<notin> set (map (\<lambda>i. lin (hs ! i)) order) \<longleftrightarrow> (\<forall>h \<in> set hs. lin h)"
  using order_set(1) [OF assms] by (fastforce simp: in_set_conv_nth)


subsection \<open>Operations, partition by partition\<close>

lemma fillDefault_simps [simp]:
  "Init (fillDefault model) = Init model" "Step (fillDefault model) = Step model"
  "Partition (fillDefault model) = (case Partition model of None \<Rightarrow> Some NoPartition | Some p \<Rightarrow> Some p)"
  by (auto simp: fillDefault_def Let_def split: option.split)

lemma op_linearizable_fillDefault [simp]: "op_linearizable (fillDefault model) ops = op_linearizable model ops"
proof -
  have "accepts (fillDefault model) s xs = accepts model s xs" for s xs by (induction xs arbitrary: s) simp_all
  then show ?thesis by (simp add: op_linearizable_def op_linearization_def)
qed

definition partition_ops :: "('s, 'i, 'o) Model \<Rightarrow> ('i, 'o) Operation list \<Rightarrow> ('i, 'o) Operation list list" where
  "partition_ops model history = (case Partition model of None \<Rightarrow> NoPartition history | Some p \<Rightarrow> p history)"

lemma operation_partitions_eq:
  "operation_partitions sort_byTime model history = map (makeEntries sort_byTime) (partition_ops model history)"
  by (auto simp: operation_partitions_def partition_ops_def Let_def split: option.split)

lemma CheckOperations_settles:
  assumes sort: "sorts_byTime sort_byTime" and e: "equal_ok (fillDefault model)"
    and t: "\<forall>p \<in> set (partition_ops model history). timed p" and "partition_ops model history \<noteq> []"
    and order: "mset order = mset [0..<length (partition_ops model history)]"
  shows "\<exists>f0. \<forall>fuel \<ge> f0. CheckOperations sort_byTime model history fuel order =
    Inr (Some (\<forall>p \<in> set (partition_ops model history). op_linearizable model p))"
proof -
  let ?ps = "partition_ops model history"
  let ?hs = "map (makeEntries sort_byTime) ?ps"
  define lin where "lin = (\<lambda>h. \<exists>p \<in> set ?ps. h = makeEntries sort_byTime p \<and> op_linearizable model p)"
  have dec: "\<exists>f0. \<forall>fuel \<ge> f0. \<exists>l. checkSingle (fillDefault model) False (\<lambda>_. False) fuel (makeEntries sort_byTime p) =
      Inr (Some (op_linearizable model p, l))" if "p \<in> set ?ps" for p
    using checkSingle_ops [OF sort _ e, of p False "\<lambda>_. False"] t that by fastforce
  have lin: "lin (makeEntries sort_byTime p) = op_linearizable model p" if p: "p \<in> set ?ps" for p
  proof
    assume "lin (makeEntries sort_byTime p)"
    then obtain q where q: "q \<in> set ?ps" "makeEntries sort_byTime p = makeEntries sort_byTime q" "op_linearizable model q"
      by (auto simp: lin_def)
    from dec [OF p] dec [OF q(1)] obtain f1 f2 where
      "\<forall>fuel \<ge> f1. \<exists>l. checkSingle (fillDefault model) False (\<lambda>_. False) fuel (makeEntries sort_byTime p) = Inr (Some (op_linearizable model p, l))"
      "\<forall>fuel \<ge> f2. \<exists>l. checkSingle (fillDefault model) False (\<lambda>_. False) fuel (makeEntries sort_byTime q) = Inr (Some (op_linearizable model q, l))"
      by blast
    from this(1) [rule_format, of "max f1 f2"] this(2) [rule_format, of "max f1 f2"] q(2,3)
    show "op_linearizable model p" by auto
  qed (use p in \<open>auto simp: lin_def\<close>)
  have "\<forall>h \<in> set ?hs. \<exists>f0. \<forall>fuel \<ge> f0. \<exists>l. checkSingle (fillDefault model) False (\<lambda>_. False) fuel h = Inr (Some (lin h, l))"
    using dec lin by simp
  moreover have "mset order = mset [0..<length ?hs]" "?hs \<noteq> []" using order assms(4) by simp_all
  ultimately obtain f0 where "\<forall>fuel \<ge> f0. check_partitions model False None fuel order ?hs =
    Inr (Some (if False \<in> set (received None (map (\<lambda>i. lin (?hs ! i)) order)) then Illegal
         else if \<exists>t. None = Some t \<and> t < length ?hs then Unknown else Ok))"
    using check_partitions_eq by blast
  moreover have "False \<notin> set (received None (map (\<lambda>i. lin (?hs ! i)) order)) \<longleftrightarrow> (\<forall>p \<in> set ?ps. op_linearizable model p)"
    using all_in_order [of order ?hs lin] order lin by (simp add: received_def)
  ultimately show ?thesis
    by (intro exI [of _ f0]) (auto simp: CheckOperations_def checkOperations_def operation_partitions_eq)
qed


subsection \<open>The entries of a history of events\<close>

text \<open>
  A history of events: each operation is called once and returns once after that; its number
  is any identifier.
\<close>

definition event_key :: "('i, 'o) Event \<Rightarrow> EventKind \<times> int" where
  "event_key v = (ev_Kind v, ev_Id v)"

definition events_ok :: "('i, 'o) Event list \<Rightarrow> bool" where
  "events_ok events =
     (distinct (map event_key events) \<and>
      (\<forall>v \<in> set events. case ev_Value v of InputValue _ \<Rightarrow> ev_Kind v = CallEvent | OutputValue _ \<Rightarrow> ev_Kind v = ReturnEvent) \<and>
      (\<forall>v \<in> set events. before (map event_key events) (CallEvent, ev_Id v) (ReturnEvent, ev_Id v)))"

lemma renumber_loop_eq:
  assumes "inj_on (\<lambda>x. the (m x)) (dom m)" "(\<lambda>x. the (m x)) ` dom m = {0..<int k}"
  shows "\<exists>f k'. renumber_loop m (int k) events = map (\<lambda>v. v\<lparr>ev_Id := f (ev_Id v)\<rparr>) events \<and>
    (\<forall>x y. m x = Some y \<longrightarrow> f x = y) \<and> inj_on f (dom m \<union> ev_Id ` set events) \<and>
    f ` (dom m \<union> ev_Id ` set events) = {0..<int k'}"
  using assms
proof (induction events arbitrary: m k)
  case Nil
  then show ?case by (intro exI [of _ "\<lambda>x. the (m x)"] exI [of _ k]) simp
next
  case (Cons v events)
  show ?case
  proof (cases "m (ev_Id v)")
    case (Some r)
    from Cons.IH [OF Cons.prems] obtain f k' where
      f: "renumber_loop m (int k) events = map (\<lambda>v. v\<lparr>ev_Id := f (ev_Id v)\<rparr>) events" "\<forall>x y. m x = Some y \<longrightarrow> f x = y"
        "inj_on f (dom m \<union> ev_Id ` set events)" "f ` (dom m \<union> ev_Id ` set events) = {0..<int k'}" by (elim exE conjE) (rule that)
    have "dom m \<union> ev_Id ` set (v # events) = dom m \<union> ev_Id ` set events" using Some by auto
    with f Some show ?thesis by (intro exI [of _ f] exI [of _ k']) simp
  next
    case None
    let ?m = "m(ev_Id v \<mapsto> int k)"
    have "(\<lambda>x. the (?m x)) ` dom m = (\<lambda>x. the (m x)) ` dom m" using None by (intro image_cong) auto
    then have d: "(\<lambda>x. the (?m x)) ` dom m = {0..<int k}" using Cons.prems(2) by simp
    have "inj_on (\<lambda>x. the (?m x)) (dom m) = inj_on (\<lambda>x. the (m x)) (dom m)" using None by (intro inj_on_cong) auto
    moreover have "dom ?m = insert (ev_Id v) (dom m)" "dom m - {ev_Id v} = dom m" "the (?m (ev_Id v)) = int k" using None by auto
    ultimately have "inj_on (\<lambda>x. the (?m x)) (dom ?m)" "(\<lambda>x. the (?m x)) ` dom ?m = insert (int k) {0..<int k}"
      using Cons.prems(1) by (simp_all only: inj_on_insert image_insert d) simp
    moreover have "insert (int k) {0..<int k} = {0..<int (Suc k)}" by auto
    ultimately have "inj_on (\<lambda>x. the (?m x)) (dom ?m)" "(\<lambda>x. the (?m x)) ` dom ?m = {0..<int (Suc k)}" by simp_all
    from Cons.IH [OF this] obtain f k' where
      f: "renumber_loop ?m (int (Suc k)) events = map (\<lambda>v. v\<lparr>ev_Id := f (ev_Id v)\<rparr>) events" "\<forall>x y. ?m x = Some y \<longrightarrow> f x = y"
        "inj_on f (dom ?m \<union> ev_Id ` set events)" "f ` (dom ?m \<union> ev_Id ` set events) = {0..<int k'}" by (elim exE conjE) (rule that)
    have "dom ?m \<union> ev_Id ` set events = dom m \<union> ev_Id ` set (v # events)" by auto
    moreover have "f (ev_Id v) = int k" using f(2) by simp
    moreover have "f x = y" if "m x = Some y" for x y
    proof -
      have "?m x = Some y" using that None by auto
      with f(2) show ?thesis by blast
    qed
    ultimately show ?thesis using f(1,3,4) None by (intro exI [of _ f] exI [of _ k']) (simp add: add.commute)
  qed
qed

lemma renumber_eq:
  "\<exists>f. renumber events = map (\<lambda>v. v\<lparr>ev_Id := f (ev_Id v)\<rparr>) events \<and> inj_on f (ev_Id ` set events) \<and>
    f ` ev_Id ` set events = {0..<int (card (ev_Id ` set events))}"
proof -
  from renumber_loop_eq [of Map.empty 0 events] obtain f k' where
    f: "renumber_loop Map.empty (int 0) events = map (\<lambda>v. v\<lparr>ev_Id := f (ev_Id v)\<rparr>) events"
      "inj_on f (ev_Id ` set events)" "f ` ev_Id ` set events = {0..<int k'}" by auto
  have "card (ev_Id ` set events) = k'" using card_image [OF f(2)] f(3) by simp
  with f show ?thesis by (auto simp: renumber_def)
qed

lemma before_map: "before xs x y \<Longrightarrow> before (map F xs) (F x) (F y)"
  by (induction xs) auto

lemma map_enumerate: "(\<And>i x. F (i, x) = g x) \<Longrightarrow> map F (enumerate k xs) = map g xs"
  by (induction xs arbitrary: k) simp_all

lemma convertEntries_ev:
  "map ev_of (convertEntries xs) = map (\<lambda>v. if ev_Kind v = CallEvent then Cl (nat (ev_Id v)) else Rt (nat (ev_Id v))) xs"
proof -
  have kd: "ev_Kind v = CallEvent \<longleftrightarrow> ev_Kind v \<noteq> ReturnEvent" for v :: "('a, 'b) Event" by (cases "ev_Kind v") auto
  show ?thesis unfolding convertEntries_def map_map by (rule map_enumerate) (simp add: ev_of_def kd)
qed

lemma convertEntries_mem:
  assumes "e \<in> set (convertEntries xs)"
  shows "\<exists>w \<in> set xs. e_kind e = (if ev_Kind w = ReturnEvent then returnEntry else callEntry) \<and>
    e_value e = ev_Value w \<and> e_id e = ev_Id w"
proof -
  from assms obtain i w where "(i, w) \<in> set (enumerate 0 xs)"
      "e_kind e = (if ev_Kind w = ReturnEvent then returnEntry else callEntry)" "e_value e = ev_Value w" "e_id e = ev_Id w"
    by (auto simp: convertEntries_def)
  moreover from this(1) have "w \<in> set xs" by (auto simp: in_set_enumerate_eq)
  ultimately show ?thesis by blast
qed

lemma convertEntries_ok:
  assumes ok: "events_ok events"
  shows "entries_ok (card (ev_Id ` set events)) (convertEntries (renumber events))"
proof -
  let ?n = "card (ev_Id ` set events)"
  obtain f where r: "renumber events = map (\<lambda>v. v\<lparr>ev_Id := f (ev_Id v)\<rparr>) events" and inj: "inj_on f (ev_Id ` set events)"
    and img: "f ` ev_Id ` set events = {0..<int ?n}" using renumber_eq [of events] by blast
  define F where "F = (\<lambda>(k, i). if k = CallEvent then Cl (nat (f i)) else Rt (nat (f i)))"
  have evs: "map ev_of (convertEntries (renumber events)) = map F (map event_key events)"
    by (simp add: convertEntries_ev r F_def event_key_def o_def)
  have nn: "0 \<le> f (ev_Id v)" "f (ev_Id v) < int ?n" if "v \<in> set events" for v using img that by auto
  have injF: "inj_on F (set (map event_key events))"
  proof (rule inj_onI)
    fix p q assume "p \<in> set (map event_key events)" "q \<in> set (map event_key events)" "F p = F q"
    then obtain v w where vw: "v \<in> set events" "w \<in> set events" "p = event_key v" "q = event_key w" "F (event_key v) = F (event_key w)" by auto
    then have "f (ev_Id v) = f (ev_Id w)" "ev_Kind v = CallEvent \<longleftrightarrow> ev_Kind w = CallEvent"
      using eq_nat_nat_iff [OF nn(1) [OF vw(1)] nn(1) [OF vw(2)]] by (auto simp: F_def event_key_def split: if_splits)
    moreover from this(1) have "ev_Id v = ev_Id w" using inj vw(1,2) by (auto simp: inj_on_def)
    ultimately show "p = q" using vw(3,4) by (cases "ev_Kind v"; cases "ev_Kind w") (auto simp: event_key_def)
  qed
  have "distinct (map F (map event_key events))" using ok injF by (simp add: events_ok_def distinct_map comp_inj_on)
  moreover have bef: "before (map F (map event_key events)) (Cl i) (Rt i)" if "i < ?n" for i
  proof -
    have "int i \<in> f ` ev_Id ` set events" unfolding img using that by simp
    then obtain v where v: "v \<in> set events" "f (ev_Id v) = int i" by auto
    then have "before (map event_key events) (CallEvent, ev_Id v) (ReturnEvent, ev_Id v)" using ok by (simp add: events_ok_def)
    from before_map [OF this, of F] v show ?thesis by (simp add: F_def)
  qed
  moreover have mem: "Cl i \<in> set (map F (map event_key events)) \<and> Rt i \<in> set (map F (map event_key events))" if "i < ?n" for i
    by (rule before_in_set [OF bef [OF that]])
  moreover have "set (map F (map event_key events)) = Cl ` {..<?n} \<union> Rt ` {..<?n}"
  proof
    show "set (map F (map event_key events)) \<subseteq> Cl ` {..<?n} \<union> Rt ` {..<?n}"
    proof
      fix x assume "x \<in> set (map F (map event_key events))"
      then obtain v where v: "v \<in> set events" "x = F (event_key v)" by auto
      have "nat (f (ev_Id v)) \<in> {..<?n}" using nn [OF v(1)] by (simp add: nat_less_iff)
      then show "x \<in> Cl ` {..<?n} \<union> Rt ` {..<?n}" unfolding v(2) F_def event_key_def by simp
    qed
    show "Cl ` {..<?n} \<union> Rt ` {..<?n} \<subseteq> set (map F (map event_key events))"
      using mem by (intro Un_least image_subsetI) blast+
  qed
  ultimately have "hist_ok ?n (map ev_of (convertEntries (renumber events)))" unfolding evs hist_ok_def by blast
  moreover have "0 \<le> e_id e \<and> (case e_value e of InputValue _ \<Rightarrow> e_kind e = callEntry | OutputValue _ \<Rightarrow> e_kind e = returnEntry)"
    if "e \<in> set (convertEntries (renumber events))" for e
  proof -
    from convertEntries_mem [OF that] obtain w where w: "w \<in> set (renumber events)"
        "e_kind e = (if ev_Kind w = ReturnEvent then returnEntry else callEntry)" "e_value e = ev_Value w" "e_id e = ev_Id w" by blast
    then obtain v where "v \<in> set events" "w = v\<lparr>ev_Id := f (ev_Id v)\<rparr>" unfolding r by auto
    with w ok nn show ?thesis by (auto simp: events_ok_def split: anyval.splits)
  qed
  ultimately show ?thesis by (simp add: entries_ok_def)
qed


subsection \<open>Linearizations as rearrangements\<close>

lemma perm_indices:
  "mset xs = mset ys \<Longrightarrow> \<exists>ids. distinct ids \<and> set ids = {..<length ys} \<and> xs = map (\<lambda>i. ys ! i) ids"
proof (induction xs arbitrary: ys)
  case Nil
  then show ?case by simp
next
  case (Cons x xs)
  then have "x \<in> set ys" by (metis list.set_intros(1) mset_eq_setD)
  then obtain as bs where ys: "ys = as @ x # bs" by (meson split_list)
  with Cons.prems have "mset xs = mset (as @ bs)" by simp
  from Cons.IH [OF this] obtain ids where ids: "distinct ids" "set ids = {..<length (as @ bs)}" "xs = map (\<lambda>i. (as @ bs) ! i) ids" by blast
  define p where "p = length as"
  define g where "g i = (if i < p then i else Suc i)" for i
  have "strict_mono g" unfolding strict_mono_def g_def by auto
  then have g: "inj g" by (rule strict_mono_imp_inj_on)
  have np: "p \<noteq> g i" for i unfolding g_def by (cases "i < p") auto
  have "set (p # map g ids) = {..<length ys}"
  proof
    have mem: "i \<in> set ids \<longleftrightarrow> i < length as + length bs" for i unfolding ids(2) by simp
    then have "g i < length ys" if "i \<in> set ids" for i using that by (simp add: ys p_def g_def)
    moreover have "p < length ys" by (simp add: ys p_def)
    ultimately show "set (p # map g ids) \<subseteq> {..<length ys}" by auto
    show "{..<length ys} \<subseteq> set (p # map g ids)"
    proof
      fix i assume i: "i \<in> {..<length ys}"
      consider "i = p" | "i < p" | "p < i" by linarith
      then show "i \<in> set (p # map g ids)"
      proof cases
        case 2
        then have "i \<in> set ids" "i = g i" using mem by (auto simp: p_def g_def)
        then show ?thesis by (metis image_eqI list.set_intros(2) list.set_map)
      next
        case 3
        then obtain k where k: "i = Suc k" "p \<le> k" by (cases i) auto
        with i have "k \<in> set ids" "i = g k" using mem by (auto simp: p_def g_def ys)
        then show ?thesis by (metis image_eqI list.set_intros(2) list.set_map)
      qed simp
    qed
  qed
  moreover have "distinct (p # map g ids)" using ids(1) np inj_on_subset [OF g, of "set ids"] by (auto simp: distinct_map)
  moreover have nth: "ys ! g i = (as @ bs) ! i" for i
    unfolding ys g_def p_def by (cases "i < length as") (simp_all add: nth_append Suc_diff_le)
  moreover have "ys ! p = x" by (simp add: ys p_def)
  then have "x # xs = map (\<lambda>i. ys ! i) (p # map g ids)" using ids(3) nth by (simp add: o_def)
  ultimately show ?case by (intro exI [of _ "p # map g ids"] conjI)
qed

lemma mset_indices: "distinct ids \<Longrightarrow> set ids = {..<length ys} \<Longrightarrow> mset (map (\<lambda>i. ys ! i) ids) = mset ys"
proof -
  assume "distinct ids" "set ids = {..<length ys}"
  then have "mset ids = mset [0..<length ys]"
    by (subst set_eq_iff_mset_eq_distinct [symmetric]) (simp_all add: atLeast0LessThan)
  then have "image_mset (\<lambda>i. ys ! i) (mset ids) = image_mset (\<lambda>i. ys ! i) (mset [0..<length ys])" by simp
  also have "\<dots> = mset (map (\<lambda>i. ys ! i) [0..<length ys])" by simp
  finally show ?thesis by (simp add: map_nth)
qed

definition in_time :: "('i, 'o) Operation list \<Rightarrow> bool" where
  "in_time xs = sorted_wrt (\<lambda>v w. \<not> Return w < Call v) xs"

lemma op_linearizable_perm:
  "op_linearizable model ops \<longleftrightarrow> (\<exists>xs. mset xs = mset ops \<and> in_time xs \<and> accepts model (Init model) xs)"
proof
  assume "op_linearizable model ops"
  then obtain ids where ids: "op_linearization model ops ids" by (auto simp: op_linearizable_def)
  have "in_time (map (\<lambda>i. ops ! i) ids)" using ids by (auto simp: op_linearization_def in_time_def sorted_wrt_iff_nth_less)
  then show "\<exists>xs. mset xs = mset ops \<and> in_time xs \<and> accepts model (Init model) xs"
    using ids mset_indices [of ids ops] by (intro exI [of _ "map (\<lambda>i. ops ! i) ids"]) (simp add: op_linearization_def)
next
  assume "\<exists>xs. mset xs = mset ops \<and> in_time xs \<and> accepts model (Init model) xs"
  then obtain xs where xs: "mset xs = mset ops" "in_time xs" "accepts model (Init model) xs" by blast
  then obtain ids where "distinct ids" "set ids = {..<length ops}" "xs = map (\<lambda>i. ops ! i) ids" using perm_indices by blast
  with xs have "op_linearization model ops ids" by (auto simp: op_linearization_def in_time_def sorted_wrt_iff_nth_less)
  then show "op_linearizable model ops" by (auto simp: op_linearizable_def)
qed


end
