(* ===== verification/Porcupine_Events.thy ===== *)
theory Porcupine_Events
  imports Porcupine_Entries
begin

section \<open>The linearizability checker: events and operations agree\<close>

text \<open>
  \<^verbatim>\<open>CheckEvents\<close> and \<^verbatim>\<open>CheckOperations\<close> of \<^verbatim>\<open>src/porcupine/porcupine.go\<close> take the same history in two
  forms. \<^verbatim>\<open>renumber\<close> gives the operations new numbers, which does not matter for
  linearizability, so the two answers are the same.
\<close>

subsection \<open>New numbers for the operations\<close>

primrec ren :: "(nat \<Rightarrow> nat) \<Rightarrow> ev \<Rightarrow> ev" where
  "ren f (Cl i) = Cl (f i)"
| "ren f (Rt i) = Rt (f i)"

definition renamed :: "(nat \<Rightarrow> nat) \<Rightarrow> 's problem \<Rightarrow> 's problem \<Rightarrow> bool" where
  "renamed f P P' =
     (p_n P' = p_n P \<and> p_init P' = p_init P \<and> p_hist P' = map (ren f) (p_hist P) \<and>
      bij_betw f {..<p_n P} {..<p_n P} \<and> (\<forall>s. \<forall>i < p_n P. p_step P' s (f i) = p_step P s i))"

lemma before_map_inj: "inj_on F (insert x (insert y (set xs))) \<Longrightarrow> before (map F xs) (F x) (F y) \<longleftrightarrow> before xs x y"
proof (induction xs)
  case (Cons a xs)
  have "inj_on F (insert x (insert y (set xs)))" using Cons.prems by (rule inj_on_subset) auto
  moreover have "F a = F x \<longleftrightarrow> a = x" "F y \<in> F ` set xs \<longleftrightarrow> y \<in> set xs" using Cons.prems by (auto simp: inj_on_def)
  ultimately show ?case using Cons.IH by simp
qed simp

lemma ren_inj: "inj_on f {..<n} \<Longrightarrow> inj_on (ren f) (Cl ` {..<n} \<union> Rt ` {..<n})"
  by (auto simp: inj_on_def)

lemma renamed_legal:
  "renamed f P P' \<Longrightarrow> set ids \<subseteq> {..<p_n P} \<Longrightarrow> legal P' s (map f ids) \<longleftrightarrow> legal P s ids"
  by (induction ids arbitrary: s) (auto simp: renamed_def)

lemma renamed_linearizable:
  assumes r: "renamed f P P'" and h: "hist_ok (p_n P) (p_hist P)" and "linearizable P"
  shows "linearizable P'"
proof -
  from assms(3) obtain ids where ids: "linearization P ids" by (auto simp: linearizable_def)
  have f: "bij_betw f {..<p_n P} {..<p_n P}" and hist: "p_hist P' = map (ren f) (p_hist P)" and n: "p_n P' = p_n P"
    and i: "p_init P' = p_init P" using r by (auto simp: renamed_def)
  have s: "set ids = {..<p_n P}" "distinct ids" using ids by (auto simp: linearization_def)
  have inj: "inj_on f {..<p_n P}" and img: "f ` {..<p_n P} = {..<p_n P}" using f by (auto simp: bij_betw_def)
  have bef: "before (p_hist P') (Rt (f a)) (Cl (f b)) \<longleftrightarrow> before (p_hist P) (Rt a) (Cl b)" if "a < p_n P" "b < p_n P" for a b
  proof -
    have "insert (Rt a) (insert (Cl b) (set (p_hist P))) \<subseteq> Cl ` {..<p_n P} \<union> Rt ` {..<p_n P}"
      using h that by (auto simp: hist_ok_def)
    from before_map_inj [OF inj_on_subset [OF ren_inj [OF inj] this]] show ?thesis by (simp add: hist)
  qed
  have nth: "ids ! k < p_n P" if "k < length ids" for k using s(1) nth_mem [OF that] by auto
  have "linearization P' (map f ids)"
    unfolding linearization_def
  proof (intro conjI allI impI)
    show "distinct (map f ids)" using s inj by (simp add: distinct_map)
    show "set (map f ids) = {..<p_n P'}" using s(1) img n by simp
    show "legal P' (p_init P') (map f ids)"
      using renamed_legal [OF r, of ids] s(1) i ids by (simp add: linearization_def)
    fix j k assume jk: "j < k \<and> k < length (map f ids)"
    then have "\<not> before (p_hist P) (Rt (ids ! k)) (Cl (ids ! j))" using ids by (simp add: linearization_def)
    then show "\<not> before (p_hist P') (Rt (map f ids ! k)) (Cl (map f ids ! j))"
      using jk bef nth by simp
  qed
  then show ?thesis by (auto simp: linearizable_def)
qed

lemma renamed_sym:
  assumes r: "renamed f P P'" and h: "hist_ok (p_n P) (p_hist P)"
  shows "\<exists>g. renamed g P' P"
proof -
  define g where "g = the_inv_into {..<p_n P} f"
  have f: "bij_betw f {..<p_n P} {..<p_n P}" using r by (simp add: renamed_def)
  then have gf: "g (f i) = i" if "i < p_n P" for i using that unfolding g_def bij_betw_def by (simp add: the_inv_into_f_f)
  have "bij_betw g {..<p_n P} {..<p_n P}" using bij_betw_the_inv_into [OF f] by (simp add: g_def)
  moreover have "map (ren g) (map (ren f) (p_hist P)) = p_hist P"
  proof -
    have "ren g (ren f v) = v" if "v \<in> set (p_hist P)" for v
    proof -
      have "v \<in> Cl ` {..<p_n P} \<union> Rt ` {..<p_n P}" using that h by (simp add: hist_ok_def)
      then show ?thesis using gf by auto
    qed
    then show ?thesis by (simp add: map_idI)
  qed
  moreover have "p_step P s (g j) = p_step P' s j" if "j < p_n P" for s j
  proof -
    from that f obtain i where "i < p_n P" "j = f i" by (auto simp: bij_betw_def)
    with r gf show ?thesis by (simp add: renamed_def)
  qed
  ultimately show ?thesis using r by (intro exI [of _ g]) (simp add: renamed_def)
qed

lemma renamed_hist_ok:
  assumes "renamed f P P'" "hist_ok (p_n P) (p_hist P)" "hist_ok (p_n P') (p_hist P')"
  shows "linearizable P \<longleftrightarrow> linearizable P'"
  using renamed_linearizable [OF assms(1,2)] renamed_sym [OF assms(1,2)] renamed_linearizable [OF _ assms(3)] by blast


subsection \<open>The events of some entries\<close>

definition event_of :: "('i, 'o) entry \<Rightarrow> ('i, 'o) Event" where
  "event_of e =
     \<lparr>ev_ClientId = e_clientId e, ev_Kind = (if e_kind e = callEntry then CallEvent else ReturnEvent),
      ev_Value = e_value e, ev_Id = e_id e\<rparr>"

primrec key_of :: "ev \<Rightarrow> EventKind \<times> int" where
  "key_of (Cl i) = (CallEvent, int i)"
| "key_of (Rt i) = (ReturnEvent, int i)"

lemma key_event_of: "0 \<le> e_id e \<Longrightarrow> event_key (event_of e) = key_of (ev_of e)"
  by (simp add: event_key_def event_of_def ev_of_def)

lemma key_of_inj: "inj key_of"
proof (rule injI)
  show "key_of v = key_of w \<Longrightarrow> v = w" for v w by (cases v; cases w) auto
qed

lemma events_of_ok:
  assumes "entries_ok n es"
  shows "events_ok (map event_of es)" "ev_Id ` set (map event_of es) = int ` {..<n}"
proof -
  have pos: "0 \<le> e_id e" and val: "case e_value e of InputValue _ \<Rightarrow> e_kind e = callEntry | OutputValue _ \<Rightarrow> e_kind e = returnEntry"
    if "e \<in> set es" for e using assms that by (simp_all add: entries_ok_def)
  have keys: "map event_key (map event_of es) = map key_of (map ev_of es)" using pos by (simp add: key_event_of)
  have h: "hist_ok n (map ev_of es)" using assms by (simp add: entries_ok_def)
  have idn: "e_id e = int (ident (ev_of e))" if "e \<in> set es" for e using pos [OF that] by (simp add: ev_of_def)
  have ids: "ident (ev_of e) < n" if "e \<in> set es" for e
  proof -
    have "ev_of e \<in> Cl ` {..<n} \<union> Rt ` {..<n}" using h that unfolding hist_ok_def by auto
    then show ?thesis by auto
  qed
  show "ev_Id ` set (map event_of es) = int ` {..<n}"
  proof
    show "ev_Id ` set (map event_of es) \<subseteq> int ` {..<n}" using idn ids by (auto simp: event_of_def)
    show "int ` {..<n} \<subseteq> ev_Id ` set (map event_of es)"
    proof (rule image_subsetI)
      fix i assume "i \<in> {..<n}"
      then have "Cl i \<in> set (map ev_of es)" using h by (simp add: hist_ok_def)
      then obtain e where "e \<in> set es" "ev_of e = Cl i" by auto
      with idn show "int i \<in> ev_Id ` set (map event_of es)" by (force simp: event_of_def)
    qed
  qed
  have "before (map key_of (map ev_of es)) (CallEvent, e_id e) (ReturnEvent, e_id e)" if "e \<in> set es" for e
    using before_map [of "map ev_of es" "Cl (ident (ev_of e))" "Rt (ident (ev_of e))" key_of] h ids [OF that] idn [OF that]
    by (simp add: hist_ok_def)
  moreover have "distinct (map key_of (map ev_of es))"
    using h inj_on_subset [OF key_of_inj] by (simp only: distinct_map hist_ok_def) simp
  moreover have "case ev_Value (event_of e) of InputValue _ \<Rightarrow> ev_Kind (event_of e) = CallEvent
      | OutputValue _ \<Rightarrow> ev_Kind (event_of e) = ReturnEvent" if "e \<in> set es" for e
    using val [OF that] by (auto simp: event_of_def split: anyval.splits)
  moreover have "ev_Id (event_of e) = e_id e" for e :: "('a, 'b) entry" by (simp add: event_of_def)
  ultimately show "events_ok (map event_of es)" unfolding events_ok_def keys by auto
qed

lemma op_value_nth:
  assumes "entries_ok n es" "k < length es"
  shows "op_value es (ev_of (es ! k)) = e_value (es ! k)"
  using op_value_addr [OF assms(1), of "length es - 1 - k"] assms(2) by (simp add: aev_def entry_of_def)

text \<open>The entries that \<^verbatim>\<open>CheckEvents\<close> works on are those of \<^verbatim>\<open>CheckOperations\<close> under new numbers.\<close>

lemma renamed_entries:
  assumes ok: "entries_ok n es"
  shows "\<exists>f. renamed f (problem_of model n es) (problem_of model n (convertEntries (renumber (map event_of es))))"
proof -
  let ?evs = "map event_of es"
  let ?es = "convertEntries (renumber ?evs)"
  have card: "card (ev_Id ` set ?evs) = n" using events_of_ok(2) [OF ok] by (simp add: card_image)
  then have ok': "entries_ok n ?es" using convertEntries_ok [OF events_of_ok(1) [OF ok]] by simp
  from renumber_eq [of ?evs] card obtain F where F: "renumber ?evs = map (\<lambda>v. v\<lparr>ev_Id := F (ev_Id v)\<rparr>) ?evs"
      "inj_on F (int ` {..<n})" "F ` int ` {..<n} = {0..<int n}" unfolding events_of_ok(2) [OF ok] by auto
  define f where "f i = nat (F (int i))" for i
  have Fr: "0 \<le> F (int i)" "F (int i) < int n" if "i < n" for i using F(3) that by auto
  have "inj_on f {..<n}"
    using F(2) Fr by (auto simp: inj_on_def f_def eq_nat_nat_iff)
  moreover have "f ` {..<n} \<subseteq> {..<n}" using Fr by (auto simp: f_def nat_less_iff)
  ultimately have bij: "bij_betw f {..<n} {..<n}" by (simp add: bij_betw_def endo_inj_surj)
  have pos: "0 \<le> e_id e" if "e \<in> set es" for e using ok that by (simp add: entries_ok_def)
  have evs: "map ev_of ?es = map (ren f) (map ev_of es)"
    unfolding convertEntries_ev F(1) using pos by (auto simp: event_of_def ev_of_def f_def)
  have len: "length ?es = length es" using arg_cong [OF evs, of length] by simp
  have val: "e_value (?es ! k) = e_value (es ! k)" if "k < length es" for k
    using that len by (simp add: convertEntries_def F(1) event_of_def nth_enumerate_eq)
  have "op_value ?es (ren f v) = op_value es v" if "v \<in> set (map ev_of es)" for v
  proof -
    from that obtain k where k: "k < length es" "v = ev_of (es ! k)" by (auto simp: in_set_conv_nth)
    have "ren f v = ev_of (?es ! k)" using arg_cong [OF evs, of "\<lambda>xs. xs ! k"] k len by simp
    then show ?thesis using op_value_nth [OF ok', of k] op_value_nth [OF ok k(1)] k val len by simp
  qed
  moreover have "Cl i \<in> set (map ev_of es)" "Rt i \<in> set (map ev_of es)" if "i < n" for i
    using ok that unfolding entries_ok_def hist_ok_def by blast+
  ultimately have "op_value ?es (Cl (f i)) = op_value es (Cl i)" "op_value ?es (Rt (f i)) = op_value es (Rt i)" if "i < n" for i
    using that by (metis ren.simps(1), metis ren.simps(2))
  then show ?thesis using evs bij by (intro exI [of _ f]) (simp add: renamed_def problem_of_def)
qed


subsection \<open>Events under other numbers\<close>

text \<open>The event of an entry when the operations have the numbers \<open>g 0\<close>, \<open>g 1\<close> and so on.\<close>

definition event_as :: "(int \<Rightarrow> int) \<Rightarrow> ('i, 'o) entry \<Rightarrow> ('i, 'o) Event" where
  "event_as g e = (event_of e)\<lparr>ev_Id := g (e_id e)\<rparr>"

lemma renumber_loop_as:
  assumes "inj_on g (dom m \<union> ev_Id ` set evs)" "\<And>i. i \<in> dom m \<union> ev_Id ` set evs \<Longrightarrow> m' (g i) = m i"
  shows "renumber_loop m' k (map (\<lambda>v. v\<lparr>ev_Id := g (ev_Id v)\<rparr>) evs) = renumber_loop m k evs"
  using assms
proof (induction evs arbitrary: m m' k)
  case (Cons v evs)
  let ?i = "ev_Id v" and ?D = "dom m \<union> ev_Id ` set (v # evs)"
  have at: "m' (g ?i) = m ?i" by (rule Cons.prems(2)) simp
  show ?case
  proof (cases "m ?i")
    case (Some r)
    have "renumber_loop m' k (map (\<lambda>v. v\<lparr>ev_Id := g (ev_Id v)\<rparr>) evs) = renumber_loop m k evs"
    proof (rule Cons.IH)
      show "inj_on g (dom m \<union> ev_Id ` set evs)" using Cons.prems(1) by (rule inj_on_subset) auto
      show "m' (g i) = m i" if "i \<in> dom m \<union> ev_Id ` set evs" for i by (rule Cons.prems(2)) (use that in auto)
    qed
    then show ?thesis using Some at by simp
  next
    case None
    have "renumber_loop (m'(g ?i \<mapsto> k)) (k + 1) (map (\<lambda>v. v\<lparr>ev_Id := g (ev_Id v)\<rparr>) evs)
      = renumber_loop (m(?i \<mapsto> k)) (k + 1) evs"
    proof (rule Cons.IH)
      show "inj_on g (dom (m(?i \<mapsto> k)) \<union> ev_Id ` set evs)" using Cons.prems(1) by (rule inj_on_subset) auto
      fix i assume "i \<in> dom (m(?i \<mapsto> k)) \<union> ev_Id ` set evs"
      then have i: "i \<in> ?D" by auto
      have "g i = g ?i \<longleftrightarrow> i = ?i" using inj_onD [OF Cons.prems(1), of i ?i] i by auto
      then show "(m'(g ?i \<mapsto> k)) (g i) = (m(?i \<mapsto> k)) i" using Cons.prems(2) [OF i] by simp
    qed
    then show ?thesis using None at by simp
  qed
qed simp

lemma renumber_event_as:
  assumes "inj_on g (e_id ` set es)"
  shows "renumber (map (event_as g) es) = renumber (map event_of es)"
proof -
  have id: "ev_Id (event_of e) = e_id e" for e :: "('a, 'b) entry" by (simp add: event_of_def)
  have "inj_on g (dom Map.empty \<union> ev_Id ` set (map event_of es))" using assms by (simp add: image_image id)
  from renumber_loop_as [OF this, of Map.empty 0]
  have "renumber (map (\<lambda>v. v\<lparr>ev_Id := g (ev_Id v)\<rparr>) (map event_of es)) = renumber (map event_of es)"
    by (simp add: renumber_def)
  moreover have "map (\<lambda>v. v\<lparr>ev_Id := g (ev_Id v)\<rparr>) (map event_of es) = map (event_as g) es"
    by (simp add: event_as_def id)
  ultimately show ?thesis by (simp only:)
qed

lemma CheckEvents_settles:
  assumes ev: "events_ok events" and e: "equal_ok (fillDefault model)" and none: "PartitionEvent model = None"
  shows "\<exists>f0. \<forall>fuel \<ge> f0. CheckEvents model events fuel [0] =
    Inr (Some (linearizable (problem_of (fillDefault model) (card (ev_Id ` set events)) (convertEntries (renumber events)))))"
proof -
  let ?es = "convertEntries (renumber events)"
  let ?lin = "linearizable (problem_of (fillDefault model) (card (ev_Id ` set events)) ?es)"
  have parts: "event_partitions model events = [?es]"
    using none by (simp add: event_partitions_def fillDefault_def NoPartitionEvent_def Let_def)
  from checkSingle_settles [OF convertEntries_ok [OF ev] equal_ok_eq_ok [OF e], of False "\<lambda>_. False"]
  have "\<exists>f0. \<forall>fuel \<ge> f0. \<exists>l. checkSingle (fillDefault model) False (\<lambda>_. False) fuel ?es = Inr (Some (?lin, l))" by fastforce
  then have "\<exists>f0. \<forall>fuel \<ge> f0. check_partitions model False None fuel [0] [?es] = Inr (Some (if False \<in> set (received None (map (\<lambda>i. ?lin) [0 :: nat])) then Illegal
         else if \<exists>t. None = Some t \<and> t < length [?es] then Unknown else Ok))"
    by (intro check_partitions_eq [where lin = "\<lambda>_. ?lin"]) simp_all
  then obtain f0 where "\<forall>fuel \<ge> f0. check_partitions model False None fuel [0] [?es] = Inr (Some (if ?lin then Ok else Illegal))"
    by (cases ?lin) (auto simp: received_def)
  then show ?thesis unfolding CheckEvents_def checkEvents_def parts by (intro exI [of _ f0]) simp
qed

end
