(* ===== verification/Kv_Linearizable.thy ===== *)
theory Kv_Linearizable
  imports Porcupine_Entries Kv_Model
begin

section \<open>Checking the store key by key\<close>

text \<open>
  \<^verbatim>\<open>KvModel\<close> of \<^verbatim>\<open>src/models/kv.go\<close> partitions the history of the service by key and checks each
  key by itself. This theory shows that nothing is lost: a history of the whole store, whose
  state is the value of every key, is linearizable exactly when the history of each key is.
\<close>

subsection \<open>The whole store\<close>

abbreviation op_key :: "kv_operation \<Rightarrow> string" where
  "op_key v \<equiv> kv_Key (Input v)"

definition store_step :: "(string \<Rightarrow> string) \<Rightarrow> KvInput \<Rightarrow> KvOutput \<Rightarrow> bool \<times> (string \<Rightarrow> string)" where
  "store_step s inp out =
     (let (ok, v) = KvModel_Step (s (kv_Key inp)) inp out in (ok, s(kv_Key inp := v)))"

definition KvStore :: "(string \<Rightarrow> string, KvInput, KvOutput) Model" where
  "KvStore =
     \<lparr>Partition = None, PartitionEvent = None, Init = (\<lambda>_. KvModel_Init), Step = store_step, Equal = None\<rparr>"

lemma accepts_local:
  "accepts KvStore s xs \<longleftrightarrow> (\<forall>k. accepts KvModel (s k) (filter (\<lambda>v. op_key v = k) xs))"
proof (induction xs arbitrary: s)
  case (Cons v xs)
  obtain ok u where st: "KvModel_Step (s (op_key v)) (Input v) (Output v) = (ok, u)" by fastforce
  have "accepts KvStore s (v # xs) \<longleftrightarrow> ok \<and> (\<forall>k. accepts KvModel ((s(op_key v := u)) k) (filter (\<lambda>v. op_key v = k) xs))"
    using Cons st by (simp add: KvStore_def store_step_def)
  also have "\<dots> \<longleftrightarrow> (\<forall>k. accepts KvModel (s k) (filter (\<lambda>w. op_key w = k) (v # xs)))"
    using st by (auto simp: KvModel_def)
  finally show ?case .
qed simp

subsection \<open>Linearization points\<close>

text \<open>
  Each operation of a linearization with a time at which it can be taken to happen: the
  latest call up to it, which lies between its own call and its return.
\<close>

primrec points :: "int \<Rightarrow> ('i, 'o) Operation list \<Rightarrow> (int \<times> ('i, 'o) Operation) list" where
  "points m [] = []"
| "points m (v # xs) = (max m (Call v), v) # points (max m (Call v)) xs"

lemma points_snd [simp]: "map snd (points m xs) = xs"
  by (induction xs arbitrary: m) simp_all

lemma points_ge: "p \<in> set (points m xs) \<Longrightarrow> m \<le> fst p \<and> Call (snd p) \<le> fst p"
  by (induction xs arbitrary: m) fastforce+

lemma points_sorted: "sorted (map fst (points m xs))"
  by (induction xs arbitrary: m) (auto dest: points_ge)

lemma points_le:
  "in_time xs \<Longrightarrow> \<forall>v \<in> set xs. Call v \<le> Return v \<and> m \<le> Return v \<Longrightarrow> p \<in> set (points m xs) \<Longrightarrow> fst p \<le> Return (snd p)"
proof (induction xs arbitrary: m)
  case (Cons v xs)
  have "\<forall>w \<in> set xs. Call w \<le> Return w \<and> max m (Call v) \<le> Return w" using Cons.prems by (auto simp: in_time_def not_less)
  moreover have "in_time xs" using Cons.prems(1) by (simp add: in_time_def)
  ultimately have "fst p \<le> Return (snd p)" if "p \<in> set (points (max m (Call v)) xs)" using Cons.IH that by blast
  with Cons.prems(2,3) show ?case by auto
qed simp

lemma points_key: "p \<in> set (points m xs) \<Longrightarrow> snd p \<in> set xs"
  using points_snd [of m xs] by (metis image_eqI list.set_map)

subsection \<open>Merging the keys\<close>

lemma mset_by_key:
  "distinct ks \<Longrightarrow> mset (concat (map (\<lambda>k. filter (\<lambda>v. f v = k) xs) ks)) = mset (filter (\<lambda>v. f v \<in> set ks) xs)"
proof (induction ks)
  case (Cons k ks)
  have "mset (filter (\<lambda>v. f v \<in> set (k # ks)) xs) = mset (filter (\<lambda>v. f v = k) xs) + mset (filter (\<lambda>v. f v \<in> set ks) xs)"
    using Cons.prems by (induction xs) auto
  with Cons show ?case by simp
qed simp

lemma filter_concat_key:
  assumes "distinct ks" "\<And>j p. j \<in> set ks \<Longrightarrow> p \<in> set (g j) \<Longrightarrow> f p = j" "k \<in> set ks"
  shows "filter (\<lambda>p. f p = k) (concat (map g ks)) = g k"
  using assms
proof (induction ks)
  case (Cons j ks)
  have own: "filter (\<lambda>p. f p = j) (g j) = g j" using Cons.prems(2) by (simp add: filter_id_conv)
  show ?case
  proof (cases "j = k")
    case True
    have "filter (\<lambda>p. f p = k) (concat (map g ks)) = []" using Cons.prems True by (fastforce simp: filter_empty_conv)
    with True own show ?thesis by simp
  next
    case False
    have "filter (\<lambda>p. f p = k) (g j) = []" using Cons.prems(2) [of j] False by (auto simp: filter_empty_conv)
    with False Cons show ?thesis by simp
  qed
qed simp

definition merged :: "int \<Rightarrow> (string \<Rightarrow> kv_operation list) \<Rightarrow> string list \<Rightarrow> kv_operation list" where
  "merged m lin ks = map snd (sort_key fst (concat (map (\<lambda>k. points m (lin k)) ks)))"

lemma merged_key:
  assumes "distinct ks" "\<And>k v. k \<in> set ks \<Longrightarrow> v \<in> set (lin k) \<Longrightarrow> op_key v = k" "k \<in> set ks"
  shows "filter (\<lambda>v. op_key v = k) (merged m lin ks) = lin k"
proof -
  let ?L = "concat (map (\<lambda>k. points m (lin k)) ks)"
  have "filter (\<lambda>p. op_key (snd p) = k) ?L = points m (lin k)"
    using assms points_key by (intro filter_concat_key) blast+
  then have "filter (\<lambda>p. op_key (snd p) = k) (sort_key fst ?L) = points m (lin k)"
    using sort_key_id_if_sorted [OF points_sorted] by (simp add: filter_sort)
  then show ?thesis by (simp add: merged_def filter_map o_def)
qed

lemma merged_in_time:
  assumes "\<And>k. k \<in> set ks \<Longrightarrow> in_time (lin k)" "\<And>k v. k \<in> set ks \<Longrightarrow> v \<in> set (lin k) \<Longrightarrow> Call v \<le> Return v \<and> m \<le> Return v"
  shows "in_time (merged m lin ks)"
proof -
  let ?L = "concat (map (\<lambda>k. points m (lin k)) ks)"
  have ends: "Call (snd p) \<le> fst p \<and> fst p \<le> Return (snd p)" if "p \<in> set ?L" for p
  proof -
    from that obtain k where k: "k \<in> set ks" "p \<in> set (points m (lin k))" by auto
    with points_ge [OF k(2)] points_le [OF assms(1) _ k(2)] assms(2) show ?thesis by blast
  qed
  have "sorted_wrt (\<lambda>p q. fst p \<le> fst q) (sort_key fst ?L)"
    using sorted_sort_key [of fst ?L] by (simp add: sorted_map)
  then have "sorted_wrt (\<lambda>p q. \<not> Return (snd q) < Call (snd p)) (sort_key fst ?L)"
  proof (rule sorted_wrt_mono_rel [rotated])
    show "\<not> Return (snd q) < Call (snd p)"
      if "p \<in> set (sort_key fst ?L)" "q \<in> set (sort_key fst ?L)" "fst p \<le> fst q" for p q
      using ends [of p, folded set_sort [of fst ?L]] ends [of q, folded set_sort [of fst ?L]] that by fastforce
  qed
  then show ?thesis by (simp add: in_time_def merged_def sorted_wrt_map)
qed


lemma merged_mset:
  assumes "\<And>k. mset (lin k) = mset (filter (\<lambda>v. op_key v = k) history)"
  shows "mset (merged m lin (remdups (map op_key history))) = mset history"
proof -
  let ?ks = "remdups (map op_key history)"
  have "mset (merged m lin ?ks) = mset (map snd (concat (map (\<lambda>k. points m (lin k)) ?ks)))" by (simp add: merged_def)
  also have "\<dots> = mset (concat (map lin ?ks))" by (simp only: map_concat map_map o_def points_snd)
  also have "\<dots> = mset (concat (map (\<lambda>k. filter (\<lambda>v. op_key v = k) history) ?ks))"
    using assms by (simp add: mset_concat o_def)
  also have "\<dots> = mset history" by (subst mset_by_key) (auto simp: filter_id_conv)
  finally show ?thesis .
qed

text \<open>Linearizability is local.\<close>

lemma local_linearizable:
  assumes "\<forall>v \<in> set history. Call v < Return v"
  shows "op_linearizable KvStore history \<longleftrightarrow> (\<forall>k. op_linearizable KvModel (filter (\<lambda>v. op_key v = k) history))"
proof
  assume "op_linearizable KvStore history"
  then obtain xs where xs: "mset xs = mset history" "in_time xs" "accepts KvStore (Init KvStore) xs"
    by (auto simp: op_linearizable_perm)
  show "\<forall>k. op_linearizable KvModel (filter (\<lambda>v. op_key v = k) history)"
  proof
    fix k
    let ?ys = "filter (\<lambda>v. op_key v = k) xs"
    have "mset ?ys = mset (filter (\<lambda>v. op_key v = k) history)" using xs(1) by simp
    moreover have "in_time ?ys" using xs(2) by (simp add: in_time_def sorted_wrt_filter)
    moreover have "accepts KvModel (Init KvModel) ?ys"
      using xs(3) unfolding accepts_local by (simp add: KvStore_def KvModel_def)
    ultimately show "op_linearizable KvModel (filter (\<lambda>v. op_key v = k) history)" unfolding op_linearizable_perm by blast
  qed
next
  assume all: "\<forall>k. op_linearizable KvModel (filter (\<lambda>v. op_key v = k) history)"
  then have "\<forall>k. \<exists>xs. mset xs = mset (filter (\<lambda>v. op_key v = k) history) \<and> in_time xs \<and> accepts KvModel (Init KvModel) xs"
    unfolding op_linearizable_perm .
  then obtain lin where lin: "\<And>k. mset (lin k) = mset (filter (\<lambda>v. op_key v = k) history)" "\<And>k. in_time (lin k)"
      "\<And>k. accepts KvModel (Init KvModel) (lin k)" by metis
  define ks where "ks = remdups (map op_key history)"
  obtain m where m: "\<forall>v \<in> set history. m \<le> Return v"
  proof
    show "\<forall>v \<in> set history. Min (Return ` set history) \<le> Return v" by simp
  qed
  have mem: "v \<in> set (lin k) \<longleftrightarrow> v \<in> set history \<and> op_key v = k" for k v using mset_eq_setD [OF lin(1)] by auto
  let ?xs = "merged m lin ks"
  have ms: "mset ?xs = mset history" unfolding ks_def by (rule merged_mset [OF lin(1)])
  have "in_time ?xs" using lin(2) mem m assms by (intro merged_in_time) force+
  moreover have "accepts KvStore (Init KvStore) ?xs"
    unfolding accepts_local
  proof
    fix k
    show "accepts KvModel (Init KvStore k) (filter (\<lambda>v. op_key v = k) ?xs)"
    proof (cases "k \<in> set ks")
      case True
      then have "filter (\<lambda>v. op_key v = k) ?xs = lin k" using mem by (intro merged_key) (auto simp: ks_def)
      then show ?thesis using lin(3) by (simp add: KvStore_def KvModel_def)
    next
      case False
      have "set ?xs = set history" using ms by (rule mset_eq_setD)
      then have "filter (\<lambda>v. op_key v = k) ?xs = []" using False by (auto simp: ks_def filter_empty_conv)
      then show ?thesis by simp
    qed
  qed
  ultimately show "op_linearizable KvStore history" using ms unfolding op_linearizable_perm by blast
qed

text \<open>The partitions of \<^verbatim>\<open>KvModel\<close> are the histories of the keys that occur.\<close>

lemma partition_all_keys:
  "(\<forall>p \<in> set (KvModel_Partition history). op_linearizable KvModel p) \<longleftrightarrow>
   (\<forall>k. op_linearizable KvModel (filter (\<lambda>v. op_key v = k) history))"
proof
  assume all: "\<forall>p \<in> set (KvModel_Partition history). op_linearizable KvModel p"
  show "\<forall>k. op_linearizable KvModel (filter (\<lambda>v. op_key v = k) history)"
  proof
    fix k
    show "op_linearizable KvModel (filter (\<lambda>v. op_key v = k) history)"
    proof (cases "k \<in> op_key ` set history")
      case True
      then show ?thesis using all by (auto simp: KvModel_Partition_eq)
    next
      case False
      then have "filter (\<lambda>v. op_key v = k) history = []" by (auto simp: filter_empty_conv)
      then show ?thesis by (simp add: op_linearizable_perm in_time_def)
    qed
  qed
qed (auto simp: KvModel_Partition_eq)

end
