(* ===== verification/Porcupine_Properties.thy ===== *)
theory Porcupine_Properties
  imports Porcupine_Events Kv_Linearizable
begin

section \<open>The linearizability checker: the properties\<close>

text \<open>
  The statements about \<^verbatim>\<open>src/porcupine\<close> and about the model of the key/value service in
  \<^verbatim>\<open>src/models/kv.go\<close>, each with a witness on a concrete history.
\<close>

subsection \<open>A concrete history\<close>

text \<open>A put of \<open>1\<close> and, overlapping it, a get that sees \<open>1\<close>.\<close>

definition exPut :: kv_operation where
  "exPut = \<lparr>ClientId = 0, Input = \<lparr>kv_Op = 1, kv_Key = ''x'', kv_Value = ''1''\<rparr>, Call = 0, Output = \<lparr>kvo_Value = ''''\<rparr>, Return = 3\<rparr>"

definition exGet :: kv_operation where
  "exGet = \<lparr>ClientId = 1, Input = \<lparr>kv_Op = 0, kv_Key = ''x'', kv_Value = ''''\<rparr>, Call = 1, Output = \<lparr>kvo_Value = ''1''\<rparr>, Return = 2\<rparr>"

lemmas ex_ops = exPut_def exGet_def

lemma sort_key_sorts: "sorts_byTime (sort_key e_time)"
  by (simp add: sorts_byTime_def)

lemma ex_timed: "timed [exGet, exPut]" "timed [exPut]"
  by (simp_all add: timed_def ex_ops)

lemma ex_partition: "partition_ops KvModel [exGet, exPut] = [[exGet, exPut]]"
  by (simp add: partition_ops_def KvModel_def KvModel_Partition_eq ex_ops)

lemma ex_store: "op_linearizable KvStore [exGet, exPut]"
proof -
  have "accepts KvStore (Init KvStore) [exPut, exGet]"
    by (simp add: ex_ops KvStore_def store_step_def KvModel_Step_def)
  moreover have "in_time [exPut, exGet]" by (simp add: in_time_def ex_ops)
  moreover have "mset [exPut, exGet] = mset [exGet, exPut]" by simp
  ultimately show ?thesis unfolding op_linearizable_perm by blast
qed

lemma ex_filter: "filter (\<lambda>v. op_key v = ''x'') [exGet, exPut] = [exGet, exPut]"
  by (simp add: ex_ops)

lemma ex_model: "op_linearizable (fillDefault KvModel) [exGet, exPut]"
proof -
  have "\<forall>v \<in> set [exGet, exPut]. Call v < Return v" by (simp add: ex_ops)
  from local_linearizable [OF this] ex_store have "op_linearizable KvModel (filter (\<lambda>v. op_key v = ''x'') [exGet, exPut])" by blast
  then show ?thesis unfolding ex_filter by simp
qed

lemma ex_equal_ok: "equal_ok (fillDefault KvModel)"
  by (rule fillDefault_equal_ok) (simp add: KvModel_def)

subsection \<open>The search\<close>

text \<open>
  C3. The search of checkSingle ends on every history in which each operation is called once
  and returns once after that, and its answer is whether the history has a linearization.
  With a positive answer every operation's entry in the second result is such a
  linearization. When another goroutine kills the search, a positive answer is still right.
\<close>

theorem checkSingle_decides:
  assumes "entries_ok n es" and "eq_ok (problem_of model n es)"
  shows "\<exists>f0. \<forall>fuel \<ge> f0. \<exists>ans l. checkSingle model cp kill fuel es = Inr (Some (ans, l)) \<and> length l = n \<and>
    (ans \<longrightarrow> (\<exists>ids. linearization (problem_of model n es) ids \<and> l = replicate n (Some (map int ids)))) \<and>
    ((\<forall>k. \<not> kill k) \<longrightarrow> ans = linearizable (problem_of model n es))"
  by (rule checkSingle_settles [OF assms])

theorem checkSingle_decides_witness:
  "\<exists>fuel ids. checkSingle (fillDefault KvModel) True (\<lambda>_. False) fuel (makeEntries (sort_key e_time) [exGet, exPut]) =
      Inr (Some (True, [Some (map int ids), Some (map int ids)])) \<and> op_linearization (fillDefault KvModel) [exGet, exPut] ids"
proof -
  let ?es = "makeEntries (sort_key e_time) [exGet, exPut]"
  have ok: "entries_ok 2 ?es" using makeEntries_ok [OF sort_key_sorts ex_timed(1)] by (simp add: numeral_2_eq_2)
  have lin: "linearization (problem_of (fillDefault KvModel) 2 ?es) ids = op_linearization (fillDefault KvModel) [exGet, exPut] ids" for ids
    using linearization_ops [OF sort_key_sorts ex_timed(1), of "fillDefault KvModel" ids] by (simp add: numeral_2_eq_2)
  have "linearizable (problem_of (fillDefault KvModel) 2 ?es)"
    using ex_model unfolding linearizable_def lin op_linearizable_def by simp
  with checkSingle_decides [OF ok equal_ok_eq_ok [OF ex_equal_ok], of True "\<lambda>_. False"] obtain f0 l ids where
    "checkSingle (fillDefault KvModel) True (\<lambda>_. False) f0 ?es = Inr (Some (True, l))"
    "linearization (problem_of (fillDefault KvModel) 2 ?es) ids" "l = replicate 2 (Some (map int ids))" by fastforce
  then show ?thesis unfolding lin by (auto simp: numeral_2_eq_2)
qed


text \<open>
  Taking a call and its return out of the list with lift and putting them back with unlift
  gives back exactly the heap there was; in between the list is the one without the two.
\<close>

theorem unlift_undoes_lift:
  assumes "dlist h (xs @ e # ys @ m # zs)" and "xs \<noteq> []" and "n_match (h ! e) = Some m"
  shows "\<exists>h'. lift h e = Inr h' \<and> dlist h' (xs @ ys @ zs) \<and> unlift h' e = Inr h"
  using lift_eq [OF assms] lift_dlist [OF assms(1,2)] unlift_lift [OF assms] by blast

definition exHeap :: "(nat, nat) heap" where
  "exHeap =
     [\<lparr>n_value = Some (OutputValue 7), n_match = None, n_id = 0, n_next = None, n_prev = Some 1\<rparr>,
      \<lparr>n_value = Some (InputValue 5), n_match = Some 0, n_id = 0, n_next = Some 0, n_prev = Some 2\<rparr>,
      \<lparr>n_value = None, n_match = None, n_id = -1, n_next = Some 1, n_prev = None\<rparr>]"

theorem unlift_undoes_lift_witness:
  "\<exists>h'. lift exHeap 1 = Inr h' \<and> dlist h' [2] \<and> unlift h' 1 = Inr exHeap"
proof -
  have "dlist exHeap ([2] @ 1 # [] @ 0 # [])" "n_match (exHeap ! 1) = Some 0"
    by (simp_all add: dlist_def exHeap_def)
  from unlift_undoes_lift [OF this(1) _ this(2)] show ?thesis by simp
qed

text \<open>
  C35. The bit set of a search is a set of numbers below 64 times its length: set, clear and
  get add, remove and look up the number, popcnt counts, and an index beyond the words is
  a panic. Two bit sets are equal when they have the same length and the same numbers.
\<close>

theorem bitset_is_a_set:
  "(if pos < 64 * length b then
      (\<exists>b' b''. bs_set b pos = Inr b' \<and> bits b' = insert pos (bits b) \<and> bs_clear b pos = Inr b'' \<and> bits b'' = bits b - {pos}) \<and>
      bs_get b pos = Inr (pos \<in> bits b)
    else bs_set b pos = Inl IndexOutOfRange \<and> bs_clear b pos = Inl IndexOutOfRange \<and> bs_get b pos = Inl IndexOutOfRange) \<and>
   popcnt b = card (bits b) \<and> bs_equals b c = (length b = length c \<and> bits b = bits c)"
proof -
  have "bs_equals b c = (length b = length c \<and> bits b = bits c)"
    using bits_inject [of b c] by (auto simp: bs_equals_iff)
  moreover have "bs_set b pos = Inl IndexOutOfRange \<and> bs_clear b pos = Inl IndexOutOfRange \<and> bs_get b pos = Inl IndexOutOfRange"
    if "\<not> pos < 64 * length b"
    using that by (simp add: bs_set_def bs_clear_def bs_get_def bitsetIndex_def index_def len_def pos_div)
  ultimately show ?thesis using bs_set_bits [of pos b] bs_clear_bits [of pos b] bs_get_bits [of pos b] popcnt_card [of b] by auto
qed

subsection \<open>The whole check\<close>

text \<open>
  checkParallel on at least one partition: the results may arrive in any order. It says
  Illegal as soon as a negative result is among those that arrived before the timer, Unknown
  when the timer came first, and Ok only when all results arrived and are positive.
\<close>

theorem checkParallel_result:
  assumes "results \<noteq> []"
  shows "checkParallel computeInfo timeout (length results) results =
    Inr (if False \<in> set (received timeout results) then Illegal
         else if (\<exists>t. timeout = Some t \<and> t < length results) then Unknown else Ok)"
  by (rule checkParallel_eq [OF assms])

theorem checkParallel_result_witness:
  "checkParallel True (Some 2) 3 [True, True, False] = Inr Unknown \<and> checkParallel False None 3 [True, True, False] = Inr Illegal"
  using checkParallel_result [of "[True, True, False]" True "Some 2"] checkParallel_result [of "[True, True, False]" False None]
  by (simp add: received_def numeral_3_eq_3)

text \<open>
  C4. CheckOperations with KvModel, which checks each key by itself and in any order of the
  keys, ends and says whether the history of the whole store is linearizable, for a sort
  that sorts by time and histories in which no return has the time of a call.
\<close>

theorem CheckOperations_kv:
  assumes "sorts_byTime sort_byTime" and "timed history" and "history \<noteq> []"
    and "mset order = mset [0..<length (KvModel_Partition history)]"
  shows "\<exists>f0. \<forall>fuel \<ge> f0. CheckOperations sort_byTime KvModel history fuel order = Inr (Some (op_linearizable KvStore history))"
proof -
  have parts: "partition_ops KvModel history = KvModel_Partition history" by (simp add: partition_ops_def KvModel_def)
  have t: "\<forall>p \<in> set (KvModel_Partition history). timed p"
    using assms(2) by (auto simp: KvModel_Partition_eq timed_def)
  have ne: "KvModel_Partition history \<noteq> []" using assms(3) by (cases history) (auto simp: KvModel_Partition_eq dest: arg_cong [of _ _ set])
  have "\<forall>v \<in> set history. Call v < Return v" using assms(2) by (simp add: timed_def)
  then have "(\<forall>p \<in> set (KvModel_Partition history). op_linearizable KvModel p) = op_linearizable KvStore history"
    using local_linearizable partition_all_keys by simp
  then show ?thesis
    using CheckOperations_settles [OF assms(1) ex_equal_ok, of history order] t ne assms(4) unfolding parts by simp
qed

theorem CheckOperations_kv_witness:
  "\<exists>fuel. CheckOperations (sort_key e_time) KvModel [exGet, exPut] fuel [0] = Inr (Some True)"
proof -
  have "length (KvModel_Partition [exGet, exPut]) = 1" using ex_partition by (simp add: partition_ops_def KvModel_def)
  then have "mset [0] = mset [0..<length (KvModel_Partition [exGet, exPut])]" by simp
  from CheckOperations_kv [OF sort_key_sorts ex_timed(1) _ this] ex_store show ?thesis by auto
qed

lemma CheckEvents_CheckOperations_plain:
  assumes "sorts_byTime sort_byTime" and "timed ops" and "equal_ok (fillDefault model)"
    and "PartitionEvent model = None" and "Partition model = None"
  shows "\<exists>f0. \<forall>fuel \<ge> f0. CheckEvents model (map event_of (makeEntries sort_byTime ops)) fuel [0] =
    CheckOperations sort_byTime model ops fuel [0]"
proof -
  let ?es = "makeEntries sort_byTime ops" and ?n = "length ops"
  have ok: "entries_ok ?n ?es" by (rule makeEntries_ok [OF assms(1,2)])
  note ev = events_of_ok [OF ok]
  have card: "card (ev_Id ` set (map event_of ?es)) = ?n" unfolding ev(2) by (simp add: card_image)
  let ?P = "problem_of (fillDefault model) ?n ?es" and ?P' = "problem_of (fillDefault model) ?n (convertEntries (renumber (map event_of ?es)))"
  obtain f where f: "renamed f ?P ?P'" using renamed_entries [OF ok] by blast
  have "entries_ok ?n (convertEntries (renumber (map event_of ?es)))" using convertEntries_ok [OF ev(1)] card by simp
  then have "linearizable ?P' \<longleftrightarrow> linearizable ?P"
    using renamed_hist_ok [OF f] ok by (simp add: entries_ok_def)
  also have "\<dots> \<longleftrightarrow> op_linearizable model ops"
    using linearization_ops [OF assms(1,2), of "fillDefault model"] op_linearizable_fillDefault [of model ops]
    by (simp add: linearizable_def op_linearizable_def)
  finally have lin: "linearizable ?P' = op_linearizable model ops" .
  from CheckEvents_settles [OF ev(1) assms(3,4)] obtain f1 where
    1: "\<forall>fuel \<ge> f1. CheckEvents model (map event_of ?es) fuel [0] = Inr (Some (op_linearizable model ops))" unfolding card lin by blast
  have parts: "partition_ops model ops = [ops]" using assms(5) by (simp add: partition_ops_def NoPartition_def)
  from CheckOperations_settles [OF assms(1,3), of ops "[0]"] obtain f2 where
    2: "\<forall>fuel \<ge> f2. CheckOperations sort_byTime model ops fuel [0] = Inr (Some (op_linearizable model ops))"
    unfolding parts using assms(2) by auto
  have "\<forall>fuel \<ge> max f1 f2. CheckEvents model (map event_of ?es) fuel [0] = CheckOperations sort_byTime model ops fuel [0]"
    using 1 2 by simp
  then show ?thesis by blast
qed

text \<open>
  C34. The same history as operations and as events gives the same answer: CheckEvents on the
  calls and returns in the order of their times, where the operations carry any numbers
  \<open>g 0\<close>, \<open>g 1\<close> and so on that are all different, answers what CheckOperations answers, for a
  model without partition functions; then there is one partition, and the order of the
  goroutines is the one of a single goroutine.
\<close>

theorem CheckEvents_CheckOperations:
  assumes "sorts_byTime sort_byTime" and "timed ops" and "equal_ok (fillDefault model)"
    and "PartitionEvent model = None" and "Partition model = None" and "inj_on g {0..<int (length ops)}"
  shows "\<exists>f0. \<forall>fuel \<ge> f0. CheckEvents model (map (event_as g) (makeEntries sort_byTime ops)) fuel [0] =
    CheckOperations sort_byTime model ops fuel [0]"
proof -
  let ?es = "makeEntries sort_byTime ops"
  have "e_id ` set ?es = int ` {..<length ops}"
    using events_of_ok(2) [OF makeEntries_ok [OF assms(1,2)]] by (simp add: image_image event_of_def)
  then have "renumber (map (event_as g) ?es) = renumber (map event_of ?es)"
    using renumber_event_as [of g ?es] assms(6) by (simp add: image_int_atLeastLessThan lessThan_atLeast0)
  then have "event_partitions model (map (event_as g) ?es) = event_partitions model (map event_of ?es)"
    using assms(4) by (simp add: event_partitions_def fillDefault_def NoPartitionEvent_def Let_def)
  then have "CheckEvents model (map (event_as g) ?es) fuel [0] = CheckEvents model (map event_of ?es) fuel [0]" for fuel
    by (simp add: CheckEvents_def checkEvents_def)
  then show ?thesis using CheckEvents_CheckOperations_plain [OF assms(1-5)] by simp
qed

theorem CheckEvents_CheckOperations_witness:
  "\<exists>fuel. CheckEvents KvStore (map (event_as (\<lambda>i. 40 - 7 * i)) (makeEntries (sort_key e_time) [exGet, exPut])) fuel [0] =
      CheckOperations (sort_key e_time) KvStore [exGet, exPut] fuel [0] \<and>
    CheckOperations (sort_key e_time) KvStore [exGet, exPut] fuel [0] = Inr (Some True)"
proof -
  have e: "equal_ok (fillDefault KvStore)" by (rule fillDefault_equal_ok) (simp add: KvStore_def)
  have "PartitionEvent KvStore = None" "Partition KvStore = None" by (simp_all add: KvStore_def)
  from CheckEvents_CheckOperations [OF sort_key_sorts ex_timed(1) e this, of "\<lambda>i. 40 - 7 * i"] obtain f1 where
    1: "\<forall>fuel \<ge> f1. CheckEvents KvStore (map (event_as (\<lambda>i. 40 - 7 * i)) (makeEntries (sort_key e_time) [exGet, exPut])) fuel [0] =
      CheckOperations (sort_key e_time) KvStore [exGet, exPut] fuel [0]" by (auto simp: inj_on_def)
  have parts: "partition_ops KvStore [exGet, exPut] = [[exGet, exPut]]" by (simp add: partition_ops_def KvStore_def NoPartition_def)
  from CheckOperations_settles [OF sort_key_sorts e, of "[exGet, exPut]" "[0]"] obtain f2 where
    2: "\<forall>fuel \<ge> f2. CheckOperations (sort_key e_time) KvStore [exGet, exPut] fuel [0] = Inr (Some True)"
    unfolding parts using ex_timed(1) ex_store by auto
  show ?thesis using 1 2 by (intro exI [of _ "max f1 f2"]) simp
qed

text \<open>
  A history without operations never gets an answer: KvModel's Partition gives no
  partition at all, no goroutine is started, and checkParallel waits for a result for ever.
\<close>

theorem CheckOperations_empty_blocks:
  "CheckOperations sort_byTime KvModel [] fuel [] = Inl Blocked"
proof -
  have "operation_partitions sort_byTime KvModel [] = []"
    by (simp add: operation_partitions_eq partition_ops_def KvModel_def KvModel_Partition_eq)
  then show ?thesis
    by (simp add: CheckOperations_def checkOperations_def check_partitions_def checkParallel_def collect.simps)
qed

end
