(* ===== verification/Porcupine_Partial.thy ===== *)
theory Porcupine_Partial
  imports Porcupine_Entries
begin

section \<open>The linearizability checker: partial linearizations\<close>

text \<open>
  What \<^verbatim>\<open>checkSingle\<close> of \<^verbatim>\<open>src/porcupine/checker.go\<close> collects in \<^verbatim>\<open>longest\<close>: every list in it is a sequence of operations that the
  model accepts one after the other, whatever the answer and whenever the search is stopped.
\<close>

subsection \<open>What the list operations leave alone\<close>

definition same_payload :: "('i, 'o) heap \<Rightarrow> ('i, 'o) heap \<Rightarrow> bool" where
  "same_payload h h' \<longleftrightarrow>
     map n_value h' = map n_value h \<and> map n_id h' = map n_id h \<and> map n_match h' = map n_match h"

lemma same_payload_refl [simp]: "same_payload h h"
  by (simp add: same_payload_def)

lemma same_payload_trans: "same_payload h h' \<Longrightarrow> same_payload h' h'' \<Longrightarrow> same_payload h h''"
  by (simp add: same_payload_def)

lemma same_payloadD:
  assumes "same_payload h h'"
  shows "length h' = length h" "a < length h \<Longrightarrow> n_value (h' ! a) = n_value (h ! a)"
    "a < length h \<Longrightarrow> n_id (h' ! a) = n_id (h ! a)" "a < length h \<Longrightarrow> n_match (h' ! a) = n_match (h ! a)"
proof -
  show l: "length h' = length h" using assms unfolding same_payload_def by (metis length_map)
  show "a < length h \<Longrightarrow> n_value (h' ! a) = n_value (h ! a)" "a < length h \<Longrightarrow> n_id (h' ! a) = n_id (h ! a)"
    "a < length h \<Longrightarrow> n_match (h' ! a) = n_match (h ! a)"
    using assms l unfolding same_payload_def by (metis nth_map)+
qed

lemma map_update_field: "a < length h \<Longrightarrow> f (x :: 'b) = f (h ! a) \<Longrightarrow> map f (h[a := x]) = map f h"
  by (simp add: map_update list_update_same_conv)

lemma store_payload:
  "store_next h p v = Inr h' \<Longrightarrow> same_payload h h'" "store_prev h p v = Inr h' \<Longrightarrow> same_payload h h'"
  by (auto simp: store_next_def store_prev_def same_payload_def map_update_field split: option.split_asm if_split_asm)

lemma lift_payload: "lift h a = Inr h' \<Longrightarrow> same_payload h h'"
  by (auto simp: lift_def bindE_eq_Inr split: if_split_asm dest!: store_payload intro: same_payload_trans)

lemma unlift_payload: "unlift h a = Inr h' \<Longrightarrow> same_payload h h'"
  by (auto simp: unlift_def bindE_eq_Inr split: if_split_asm dest!: store_payload intro: same_payload_trans)

lemma insertBefore_payload: "insertBefore h n mark = Inr h' \<Longrightarrow> same_payload h h'"
  by (auto simp: insertBefore_def Let_def bindE_eq_Inr split: if_split_asm dest!: store_payload intro: same_payload_trans)

subsection \<open>Sequences that the model accepts\<close>

text \<open>The state after a sequence of operations of a problem, if each of them is accepted.\<close>

primrec replay :: "'s problem \<Rightarrow> 's \<Rightarrow> nat list \<Rightarrow> 's option" where
  "replay P s [] = Some s"
| "replay P s (i # ids) = (let (ok, s') = p_step P s i in if ok then replay P s' ids else None)"

lemma replay_append: "replay P s (xs @ ys) = Option.bind (replay P s xs) (\<lambda>s'. replay P s' ys)"
  by (induction xs arbitrary: s) (auto split: prod.split)

text \<open>A sequence of numbers of operations that can be replayed from the start.\<close>

definition replayable :: "'s problem \<Rightarrow> int list \<Rightarrow> bool" where
  "replayable P sq \<longleftrightarrow> (\<exists>ids s. sq = map int ids \<and> set ids \<subseteq> {..<p_n P} \<and> replay P (p_init P) ids = Some s)"

text \<open>The stack of \<^verbatim>\<open>calls\<close>: each state is the one reached by the operations below it.\<close>

definition calls_ok :: "'s problem \<Rightarrow> ('i, 'o) entry list \<Rightarrow> (nat \<times> 's) list \<Rightarrow> 's \<Rightarrow> bool" where
  "calls_ok P es calls s \<longleftrightarrow>
     (\<exists>ids. map fst calls = map (ca es) ids \<and> set ids \<subseteq> {..<p_n P} \<and> replay P (p_init P) ids = Some s \<and>
       (\<forall>k < length calls. replay P (p_init P) (take k ids) = Some (snd (calls ! k))))"

definition collects :: "'s problem \<Rightarrow> ('i, 'o) entry list \<Rightarrow> ('i, 'o) heap \<Rightarrow> ('s, 'i, 'o) search \<Rightarrow> bool" where
  "collects P es h st \<longleftrightarrow>
     same_payload h (sr_heap st) \<and> calls_ok P es (sr_calls st) (sr_state st) \<and>
     (\<forall>sq. Some sq \<in> set (sr_longest st) \<longrightarrow> replayable P sq)"

subsection \<open>The nodes of calls\<close>

definition heap_ok :: "nat \<Rightarrow> ('i, 'o) entry list \<Rightarrow> ('i, 'o) heap \<Rightarrow> bool" where
  "heap_ok n es h \<longleftrightarrow> base_ok n es h \<and> length h = length es + 1 \<and> n_match (h ! length es) = None"

lemma heap_okD:
  assumes "heap_ok n es h"
  shows "base_ok n es h" "length h = length es + 1" "n_match (h ! length es) = None" "entries_ok n es"
  using assms by (simp_all add: heap_ok_def base_ok_def)

lemma call_node:
  assumes h: "heap_ok n es h" and g: "same_payload h g" and a: "load g (Some a) = Inr e" "n_match e \<noteq> None"
  shows "\<exists>i < n. a = ca es i \<and> n_id e = int i \<and> n_value e = Some (op_value es (Cl i)) \<and>
    n_match e = Some (ra es i) \<and> load g (n_match e) = Inr (g ! ra es i) \<and> n_value (g ! ra es i) = Some (op_value es (Rt i))"
proof -
  note p = same_payloadD [OF g] and hd0 = heap_okD [OF h]
  have e: "a < length h" "e = g ! a" using a(1) p(1) by (auto simp: load_def split: if_split_asm)
  then have m: "n_match (h ! a) \<noteq> None" using a(2) p(4) by simp
  then have "a \<noteq> length es" using hd0(3) by metis
  then have al: "a < length es" using e(1) hd0(2) by simp
  note b = base_entry [OF hd0(1) al, of "[]", simplified]
  obtain i where i: "aev es a = Cl i" using b(3) m by (cases "aev es a") auto
  have "Cl i \<in> set (map (aev es) (addrs es))" using i al by force
  then have "i < n" unfolding map_aev using hd0(4) by (auto simp: entries_ok_def hist_ok_def)
  note c = ca_ra [OF hd0(4) this]
  note r = base_entry [OF hd0(1) c(3), of "[]", simplified]
  have "a = ca es i" using aev_inject [OF hd0(4) al c(1)] c(2) i by simp
  moreover have "ra es i < length h" using c(3) hd0(2) by simp
  ultimately show ?thesis using \<open>i < n\<close> b r i e p c by (auto simp: load_def)
qed

lemma call_ids_eq:
  assumes h: "heap_ok n es h" and "same_payload h g" "map fst calls = map (ca es) ids" "set ids \<subseteq> {..<n}"
  shows "call_ids g calls = map int ids"
proof -
  have "n_id (g ! ca es i) = int i" if "i \<in> set ids" for i
  proof -
    have "i < n" using that assms(4) by auto
    note c = ca_ra [OF heap_okD(4) [OF h] this]
    then show ?thesis
      using base_entry(1) [OF heap_okD(1) [OF h] c(1), of "[]"] same_payloadD(3) [OF assms(2), of "ca es i"] heap_okD(2) [OF h] by simp
  qed
  then have "map (\<lambda>a. n_id (g ! a)) (map (ca es) ids) = map int ids" by simp
  moreover have "call_ids g calls = map (\<lambda>a. n_id (g ! a)) (map fst calls)" by (simp add: call_ids_def case_prod_beta)
  ultimately show ?thesis by (simp only: assms(3))
qed

lemma stack_replayable:
  assumes "heap_ok n es h" "same_payload h g" "calls_ok (problem_of model n es) es calls s"
  shows "replayable (problem_of model n es) (call_ids g calls)"
  using assms(3) call_ids_eq [OF assms(1,2)] unfolding calls_ok_def replayable_def by auto

text \<open>A call that the model accepts goes on top of the stack; taking the top off gives back its state.\<close>

lemma stack_push:
  assumes "calls_ok P es calls s" "i < p_n P" "p_step P s i = (True, s')"
  shows "calls_ok P es (calls @ [(ca es i, s)]) s'"
proof -
  obtain ids where ids: "map fst calls = map (ca es) ids" "set ids \<subseteq> {..<p_n P}" "replay P (p_init P) ids = Some s"
    "\<And>k. k < length calls \<Longrightarrow> replay P (p_init P) (take k ids) = Some (snd (calls ! k))"
    using assms(1) unfolding calls_ok_def by blast
  have l: "length calls = length ids" using ids(1) by (metis length_map)
  have "replay P (p_init P) (ids @ [i]) = Some s'" using ids(3) assms(3) by (simp add: replay_append)
  moreover have "replay P (p_init P) (take k (ids @ [i])) = Some (snd ((calls @ [(ca es i, s)]) ! k))"
    if "k < length (calls @ [(ca es i, s)])" for k
    using that ids(3,4) l by (cases "k < length calls") (auto simp: nth_append)
  ultimately show ?thesis unfolding calls_ok_def using ids(1,2) assms(2) by (intro exI [of _ "ids @ [i]"]) auto
qed

lemma stack_pop:
  assumes "calls_ok P es calls s" "calls \<noteq> []"
  shows "calls_ok P es (butlast calls) (snd (last calls))"
proof -
  obtain ids where ids: "map fst calls = map (ca es) ids" "set ids \<subseteq> {..<p_n P}"
    "\<And>k. k < length calls \<Longrightarrow> replay P (p_init P) (take k ids) = Some (snd (calls ! k))"
    using assms(1) unfolding calls_ok_def by blast
  have l: "length calls = length ids" using ids(1) by (metis length_map)
  have "map fst (butlast calls) = map (ca es) (butlast ids)" by (simp add: map_butlast ids(1))
  moreover have "replay P (p_init P) (butlast ids) = Some (snd (last calls))"
    using ids(3) [of "length calls - 1"] assms(2) l length_greater_0_conv [of calls]
    by (simp add: butlast_conv_take last_conv_nth)
  moreover have "replay P (p_init P) (take k (butlast ids)) = Some (snd (butlast calls ! k))" if "k < length (butlast calls)" for k
    using ids(3) [of k] that l by (simp add: take_butlast nth_butlast)
  ultimately show ?thesis unfolding calls_ok_def using ids(2) in_set_butlastD by (intro exI [of _ "butlast ids"]) fastforce
qed

lemma keep_longest_set:
  "keep_longest sq ids l = Inr l' \<Longrightarrow> set l' \<subseteq> insert (Some sq) (set l)"
proof (induction ids arbitrary: l)
  case (Cons i ids)
  show ?case
  proof (cases "keep_longest sq ids l = Inr l'")
    case True
    then show ?thesis using Cons.IH by blast
  next
    case False
    then obtain l1 where "set_index l i (Some sq) = Inr l1" "keep_longest sq ids l1 = Inr l'"
      using Cons.prems by (auto simp: bindE_eq_Inr split: if_split_asm)
    moreover from this have "set l1 \<subseteq> insert (Some sq) (set l)"
      by (auto simp: set_index_eq_Inr dest: set_update_subset_insert [THEN subsetD])
    ultimately show ?thesis using Cons.IH by blast
  qed
qed auto

subsection \<open>The loop keeps the lists replayable\<close>

lemma try_call_collects:
  assumes h: "heap_ok n es h" and st: "collects (problem_of model n es) es h st"
    and e: "load (sr_heap st) (Some ent) = Inr e" "n_match e \<noteq> None" and run: "try_call model headp ent e st = Inr st'"
  shows "collects (problem_of model n es) es h st'"
proof -
  let ?P = "problem_of model n es"
  have g: "same_payload h (sr_heap st)" "calls_ok ?P es (sr_calls st) (sr_state st)"
    "\<And>sq. Some sq \<in> set (sr_longest st) \<Longrightarrow> replayable ?P sq"
    using st unfolding collects_def by blast+
  obtain i where i: "i < n" "ent = ca es i" "n_value e = Some (op_value es (Cl i))" "load (sr_heap st) (n_match e) = Inr (sr_heap st ! ra es i)"
    "n_value (sr_heap st ! ra es i) = Some (op_value es (Rt i))"
    using call_node [OF h g(1) e] by blast
  obtain x y where v: "op_value es (Cl i) = InputValue x" "op_value es (Rt i) = OutputValue y"
    using op_value_kind [OF heap_okD(4) [OF h] i(1)] by blast
  obtain ok s' where step: "Step model (sr_state st) x y = (ok, s')" by (cases "Step model (sr_state st) x y")
  have p: "p_step ?P (sr_state st) i = (ok, s')" using v step by (simp add: problem_of_def)
  show ?thesis
  proof (cases "sr_calls st' = sr_calls st")
    case True
    then have "\<exists>en. st' = st\<lparr>sr_entry := en\<rparr>"
      using run i v step by (auto simp: try_call_def model_step_def bindE_eq_Inr Let_def split: if_split_asm)
    then show ?thesis using st by (auto simp: collects_def)
  next
    case False
    then have r: "ok" "sr_calls st' = sr_calls st @ [(ca es i, sr_state st)]" "sr_state st' = s'" "sr_longest st' = sr_longest st"
      "lift (sr_heap st) ent = Inr (sr_heap st')"
      using run i v step by (auto simp: try_call_def model_step_def bindE_eq_Inr Let_def split: if_split_asm)
    have "calls_ok ?P es (sr_calls st') (sr_state st')" using stack_push [OF g(2), of i s'] r i(1) p by simp
    then show ?thesis using same_payload_trans [OF g(1) lift_payload [OF r(5)]] g(3) r(4) by (simp add: collects_def)
  qed
qed

lemma backtrack_collects:
  assumes h: "heap_ok n es h" and st: "collects (problem_of model n es) es h st"
    and run: "backtrack cp st = Inr (Some st')"
  shows "collects (problem_of model n es) es h st'"
proof -
  let ?P = "problem_of model n es" and ?sq = "call_ids (sr_heap st) (sr_calls st)"
  have g: "same_payload h (sr_heap st)" "calls_ok ?P es (sr_calls st) (sr_state st)"
    "\<And>sq. Some sq \<in> set (sr_longest st) \<Longrightarrow> replayable ?P sq"
    using st unfolding collects_def by blast+
  have ne: "sr_calls st \<noteq> []" using run by (auto simp: backtrack_def)
  obtain ent s where top: "last (sr_calls st) = (ent, s)" by fastforce
  obtain l where l: "(if cp then keep_longest ?sq ?sq (sr_longest st) else Inr (sr_longest st)) = Inr l"
    "sr_longest st' = l" "sr_calls st' = butlast (sr_calls st)" "sr_state st' = snd (last (sr_calls st))"
    "unlift (sr_heap st) (fst (last (sr_calls st))) = Inr (sr_heap st')"
    using run ne top by (auto simp: backtrack_def bindE_eq_Inr Let_def simp del: bindE_if)
  have "replayable ?P sq" if "Some sq \<in> set l" for sq
  proof -
    have "Some sq \<in> insert (Some ?sq) (set (sr_longest st))"
      using l(1) that keep_longest_set [of ?sq ?sq "sr_longest st" l] by (auto split: if_split_asm)
    then show ?thesis using g(3) stack_replayable [OF h g(1,2)] by auto
  qed
  then show ?thesis
    using same_payload_trans [OF g(1) unlift_payload [OF l(5)]] stack_pop [OF g(2) ne] l(2-4) by (simp add: collects_def)
qed

lemma check_loop_collects:
  assumes h: "heap_ok n es h"
  shows "collects (problem_of model n es) es h st \<Longrightarrow> check_loop model cp kill headp k fuel st = Inr (Some (ans, st')) \<Longrightarrow>
    collects (problem_of model n es) es h st'"
proof (induction fuel arbitrary: k st)
  case (Suc fuel)
  consider "st' = st" | st1 where "check_turn model cp headp st = Inr (Some st1)"
      "check_loop model cp kill headp (k + 1) fuel st1 = Inr (Some (ans, st'))"
    using Suc.prems(2) by (auto simp: bindE_eq_Inr split: if_split_asm option.split_asm)
  then show ?case
  proof cases
    case 2
    obtain e where e: "load (sr_heap st) (sr_entry st) = Inr e"
      "(if n_match e \<noteq> None then bindE (try_call model headp (the (sr_entry st)) e st) (\<lambda>st. Inr (Some st)) else backtrack cp st) = Inr (Some st1)"
      using 2(1) by (auto simp: check_turn_def bindE_eq_Inr)
    have "collects (problem_of model n es) es h st1"
    proof (cases "n_match e = None")
      case True
      then show ?thesis using e(2) backtrack_collects [OF h Suc.prems(1)] by simp
    next
      case False
      have "sr_entry st \<noteq> None" using e(1) by (cases "sr_entry st") (simp_all add: load_def)
      then show ?thesis using e False try_call_collects [OF h Suc.prems(1), of "the (sr_entry st)" e headp st1]
        by (auto simp: bindE_eq_Inr)
    qed
    then show ?thesis using Suc.IH 2(2) by blast
  qed (use Suc.prems in simp)
qed simp

text \<open>\<^verbatim>\<open>checkSingle\<close>: every list it returns can be replayed.\<close>

lemma checkSingle_replayable:
  assumes ok: "entries_ok n es" and run: "checkSingle model cp kill fuel es = Inr (Some (ans, l))"
    and sq: "Some sq \<in> set l"
  shows "replayable (problem_of model n es) sq"
proof -
  let ?hd = "\<lparr>n_value = None, n_match = None, n_id = -1, n_next = None, n_prev = None\<rparr>"
  obtain h0 h where mk: "makeLinkedEntries es = Inr (h0, first (addrs es))" "length h0 = length es"
      "insertBefore (h0 @ [?hd]) (length es) (first (addrs es)) = Inr h" "base_ok n es h"
    using start_heap [OF ok] by blast
  note p = same_payloadD [OF insertBefore_payload [OF mk(3)]]
  have h: "heap_ok n es h" using mk(2,4) p(1) p(4) [of "length es"] nth_append_length [of h0 ?hd "[]"] by (simp add: heap_ok_def)
  obtain y where y: "list_length fuel h0 (first (addrs es)) 0 = Inr (Some y)"
    using run mk by (auto simp: checkSingle_def bindE_eq_Inr Let_def split: option.split_asm)
  define st0 where "st0 = \<lparr>sr_heap = h, sr_entry = first (addrs es), sr_linearized = newBitset (y div 2), sr_cache = (\<lambda>_. []),
      sr_calls = [], sr_longest = replicate (y div 2) None, sr_state = Init model\<rparr>"
  obtain st where st: "check_loop model cp kill (length es) 0 fuel st0 = Inr (Some (ans, st))"
      "l = (if ans then replicate (y div 2) (Some (call_ids (sr_heap st) (sr_calls st))) else sr_longest st)"
    using run mk y by (cases "check_loop model cp kill (length es) 0 fuel st0")
      (auto simp: checkSingle_def Let_def st0_def split: option.split_asm if_split_asm)
  have "collects (problem_of model n es) es h st0" by (auto simp: collects_def calls_ok_def st0_def)
  from check_loop_collects [OF h this st(1)] have c: "collects (problem_of model n es) es h st" .
  then show ?thesis
    using sq st(2) stack_replayable [OF h] by (auto simp: collects_def split: if_split_asm)
qed

end
