(* ===== verification/Porcupine_Visual.thy ===== *)
theory Porcupine_Visual
  imports Porcupine_Partial
begin

section \<open>The linearizability checker: data for the visualization\<close>

text \<open>
  Models \<^verbatim>\<open>computeVisualizationData\<close> of \<^verbatim>\<open>src/porcupine/visualization.go\<close> and the part of \<^verbatim>\<open>checkParallel\<close> that collects the
  partial linearizations for it. The two functions of a model that describe operations and states in words are arguments;
  a value of the wrong kind fails a type assertion. So are \<^verbatim>\<open>sort.Slice\<close> and the order in which Go runs through a map.
  Writing the data out as JSON inside the constant HTML page is left out.
\<close>

subsection \<open>The data\<close>

record historyElement =
  he_ClientId :: int
  he_Start :: int
  he_End :: int
  he_Description :: string

record linearizationStep =
  ls_Index :: int
  ls_StateDescription :: string

record partitionVisualizationData =
  pv_History :: "historyElement list"
  pv_PartialLinearizations :: "linearizationStep list list"
  pv_Largest :: "int \<rightharpoonup> int"

definition zero_historyElement :: historyElement where
  "zero_historyElement = \<lparr>he_ClientId = 0, he_Start = 0, he_End = 0, he_Description = ''''\<rparr>"

subsection \<open>Collecting the partial linearizations\<close>

text \<open>
  The first loop puts the pointers of \<^verbatim>\<open>longest\<close> that are not nil into a map, the second runs through its keys in an order Go does not
  say and copies the list behind each. A pointer stands here for the list it points to; \<open>ks\<close> are the lists behind the keys in the order of the
  second loop, where a list comes twice if two pointers lead to equal lists.
\<close>

definition longest_set :: "int list option list \<Rightarrow> int list set" where
  "longest_set longest = fold (\<lambda>v set. case v of None \<Rightarrow> set | Some k \<Rightarrow> insert k set) longest {}"

definition collect_partials :: "int list list \<Rightarrow> int list list" where
  "collect_partials ks =
     foldl (\<lambda>partials k. let arr = foldl (\<lambda>arr (i, v). arr[i := v]) (replicate (length k) 0) (enumerate 0 k)
                        in partials @ [arr]) [] ks"

text \<open>What the two loops together guarantee, whatever the order.\<close>

definition is_partials :: "int list option list \<Rightarrow> int list list \<Rightarrow> bool" where
  "is_partials longest partials \<longleftrightarrow> Some ` set partials = set longest - {None}"

lemma copy_list: "foldl (\<lambda>arr (i, v). arr[i := v]) (xs @ replicate (length k) 0) (enumerate (length xs) k) = xs @ k"
proof (induction k arbitrary: xs)
  case (Cons v k)
  have "(xs @ replicate (length (v # k)) 0)[length xs := v] = (xs @ [v]) @ replicate (length k) 0"
    by (simp add: list_update_append)
  then show ?case using Cons.IH [of "xs @ [v]"] by simp
qed simp

lemma collect_partials_eq: "collect_partials ks = ks"
proof -
  have copy: "foldl (\<lambda>arr (i, v). arr[i := v]) (replicate (length k) 0) (enumerate 0 k) = k" for k :: "int list"
    using copy_list [of "[]" k] by simp
  have "foldl (\<lambda>partials k. let arr = foldl (\<lambda>arr (i, v). arr[i := v]) (replicate (length k) 0) (enumerate 0 k)
      in partials @ [arr]) ps ks = ps @ ks" for ps :: "int list list"
    unfolding copy by (induction ks arbitrary: ps) (simp_all add: Let_def)
  then show ?thesis by (simp add: collect_partials_def)
qed

lemma longest_set_eq: "longest_set longest = {k. Some k \<in> set longest}"
proof -
  have "fold (\<lambda>v set. case v of None \<Rightarrow> set | Some k \<Rightarrow> insert k set) xs S = S \<union> {k. Some k \<in> set xs}" for xs and S :: "int list set"
    by (induction xs arbitrary: S) (auto split: option.split)
  then show ?thesis by (simp add: longest_set_def)
qed

lemma is_partials_iff: "is_partials longest (collect_partials ks) \<longleftrightarrow> set ks = longest_set longest"
proof -
  have "set longest - {None} = Some ` {k. Some k \<in> set longest}" by (auto simp: image_iff) (metis option.exhaust)
  then show ?thesis by (simp add: is_partials_def collect_partials_eq longest_set_eq inj_image_eq_iff)
qed

subsection \<open>The history\<close>

definition describe :: "('i \<Rightarrow> 'o \<Rightarrow> string) \<Rightarrow> ('i, 'o) anyval option \<Rightarrow> ('i, 'o) anyval \<Rightarrow> string go" where
  "describe describeOperation v w =
     (case (v, w) of (Some (InputValue i), OutputValue out) \<Rightarrow> Inr (describeOperation i out) | _ \<Rightarrow> Inl TypeAssertion)"

text \<open>The first loop: \<^verbatim>\<open>history\<close>, \<^verbatim>\<open>callValue\<close> and \<^verbatim>\<open>returnValue\<close>.\<close>

definition vis_entry ::
  "('i \<Rightarrow> 'o \<Rightarrow> string) \<Rightarrow> ('i, 'o) entry
     \<Rightarrow> historyElement list \<times> (int \<rightharpoonup> ('i, 'o) anyval) \<times> (int \<rightharpoonup> ('i, 'o) anyval)
     \<Rightarrow> (historyElement list \<times> (int \<rightharpoonup> ('i, 'o) anyval) \<times> (int \<rightharpoonup> ('i, 'o) anyval)) go" where
  "vis_entry describeOperation elem = (\<lambda>(history, callValue, returnValue).
     bindE (index history (e_id elem)) (\<lambda>x.
     case e_kind elem of
       callEntry \<Rightarrow>
         bindE (set_index history (e_id elem) (x\<lparr>he_ClientId := e_clientId elem, he_Start := e_time elem\<rparr>)) (\<lambda>history.
         Inr (history, callValue(e_id elem \<mapsto> e_value elem), returnValue))
     | returnEntry \<Rightarrow>
         bindE (describe describeOperation (callValue (e_id elem)) (e_value elem)) (\<lambda>d.
         bindE (set_index history (e_id elem) (x\<lparr>he_End := e_time elem, he_Description := d\<rparr>)) (\<lambda>history.
         Inr (history, callValue, returnValue(e_id elem \<mapsto> e_value elem))))))"

subsection \<open>The partial linearizations\<close>

primrec vis_steps ::
  "('s, 'i, 'o) Model \<Rightarrow> ('s \<Rightarrow> string) \<Rightarrow> (int \<rightharpoonup> ('i, 'o) anyval) \<Rightarrow> (int \<rightharpoonup> ('i, 'o) anyval) \<Rightarrow> 's \<Rightarrow> int list
     \<Rightarrow> linearizationStep list go" where
  "vis_steps model describeState callValue returnValue state [] = Inr []"
| "vis_steps model describeState callValue returnValue state (histId # partial) =
     bindE (model_step model state (callValue histId) (returnValue histId)) (\<lambda>(ok, state).
     if ok \<noteq> True then Inl (Panic ''valid partial linearization returned non-ok result from model step'')
     else
       bindE (vis_steps model describeState callValue returnValue state partial) (\<lambda>steps.
       Inr (\<lparr>ls_Index = histId, ls_StateDescription = describeState state\<rparr> # steps)))"

text \<open>\<^verbatim>\<open>largestSize\<close> and \<^verbatim>\<open>largestIndex\<close> for one operation of a list with number \<open>i\<close> and length \<open>l\<close>.\<close>

definition note_largest :: "int \<Rightarrow> int \<Rightarrow> int \<Rightarrow> (int \<rightharpoonup> int) \<times> (int \<rightharpoonup> int) \<Rightarrow> (int \<rightharpoonup> int) \<times> (int \<rightharpoonup> int)" where
  "note_largest i l histId = (\<lambda>(largestSize, largestIndex).
     if (case largestSize histId of None \<Rightarrow> 0 | Some k \<Rightarrow> k) < l
     then (largestSize(histId \<mapsto> l), largestIndex(histId \<mapsto> i))
     else (largestSize, largestIndex))"

definition vis_partial ::
  "('s, 'i, 'o) Model \<Rightarrow> ('s \<Rightarrow> string) \<Rightarrow> (int \<rightharpoonup> ('i, 'o) anyval) \<Rightarrow> (int \<rightharpoonup> ('i, 'o) anyval) \<Rightarrow> nat \<times> int list
     \<Rightarrow> linearizationStep list list \<times> (int \<rightharpoonup> int) \<times> (int \<rightharpoonup> int)
     \<Rightarrow> (linearizationStep list list \<times> (int \<rightharpoonup> int) \<times> (int \<rightharpoonup> int)) go" where
  "vis_partial model describeState callValue returnValue = (\<lambda>(i, partial) (linearizations, largest).
     bindE (vis_steps model describeState callValue returnValue (Init model) partial) (\<lambda>linearization.
     Inr (linearizations @ [linearization], fold (note_largest (int i) (len partial)) partial largest)))"

definition vis_partition ::
  "('s, 'i, 'o) Model \<Rightarrow> ('i \<Rightarrow> 'o \<Rightarrow> string) \<Rightarrow> ('s \<Rightarrow> string) \<Rightarrow> (int list list \<Rightarrow> int list list)
     \<Rightarrow> ('i, 'o) entry list \<Rightarrow> int list list \<Rightarrow> partitionVisualizationData go" where
  "vis_partition model describeOperation describeState sortSlice entries partials =
     (let n = length entries div 2 in
      bindE (foldE (vis_entry describeOperation) entries (replicate n zero_historyElement, Map.empty, Map.empty))
        (\<lambda>(history, callValue, returnValue).
      let partials = sortSlice partials in
      bindE (foldE (vis_partial model describeState callValue returnValue) (enumerate 0 partials) ([], Map.empty, Map.empty))
        (\<lambda>(linearizations, largestSize, largestIndex).
      Inr \<lparr>pv_History = history, pv_PartialLinearizations = linearizations, pv_Largest = largestIndex\<rparr>)))"

text \<open>\<^verbatim>\<open>info.history\<close> and \<^verbatim>\<open>info.partialLinearizations\<close> are two slices with an element per partition.\<close>

definition computeVisualizationData ::
  "('s, 'i, 'o) Model \<Rightarrow> ('i \<Rightarrow> 'o \<Rightarrow> string) \<Rightarrow> ('s \<Rightarrow> string) \<Rightarrow> (int list list \<Rightarrow> int list list)
     \<Rightarrow> ('i, 'o) entry list list \<Rightarrow> int list list list \<Rightarrow> partitionVisualizationData list go" where
  "computeVisualizationData model describeOperation describeState sortSlice history partialLinearizations =
     (let model = fillDefault model in
      foldE (\<lambda>(partition, entries) data.
        bindE (index partialLinearizations (int partition)) (\<lambda>partials.
        bindE (vis_partition model describeOperation describeState sortSlice entries partials) (\<lambda>d.
        Inr (data @ [d])))) (enumerate 0 history) [])"

text \<open>What \<^verbatim>\<open>sort.Slice\<close> promises for the order by decreasing length.\<close>

definition sorts_longest_first :: "(int list list \<Rightarrow> int list list) \<Rightarrow> bool" where
  "sorts_longest_first sortSlice \<longleftrightarrow>
     (\<forall>ps. mset (sortSlice ps) = mset ps \<and> sorted_wrt (\<lambda>p q. length q \<le> length p) (sortSlice ps))"

end
