(* ===== verification/Porcupine_Visual_Properties.thy ===== *)
theory Porcupine_Visual_Properties
  imports Porcupine_Visual Porcupine_Properties
begin

section \<open>The linearizability checker: what the visualization shows\<close>

text \<open>
  The check of a history with its partial linearizations, followed by the computation of what the page shows: it does not panic, and it
  shows the history's operations and the lists that were found.
\<close>

subsection \<open>The history\<close>

text \<open>An entry of operation \<open>i\<close> of a history.\<close>

definition entry_for :: "('i, 'o) Operation list \<Rightarrow> nat \<Rightarrow> ('i, 'o) entry \<Rightarrow> bool" where
  "entry_for ops i e \<longleftrightarrow>
     i < length ops \<and> e_id e = int i \<and> e_clientId e = ClientId (ops ! i) \<and>
     (e_kind e = callEntry \<and> ev_of e = Cl i \<and> e_value e = InputValue (Input (ops ! i)) \<and> e_time e = Call (ops ! i) \<or>
      e_kind e = returnEntry \<and> ev_of e = Rt i \<and> e_value e = OutputValue (Output (ops ! i)) \<and> e_time e = Return (ops ! i))"

lemma operation_entries_for:
  "e \<in> set (operation_entries (int k) ops) \<Longrightarrow> \<exists>i < length ops. e_id e = int (k + i) \<and> e_clientId e = ClientId (ops ! i) \<and>
     (e_kind e = callEntry \<and> e_value e = InputValue (Input (ops ! i)) \<and> e_time e = Call (ops ! i) \<or>
      e_kind e = returnEntry \<and> e_value e = OutputValue (Output (ops ! i)) \<and> e_time e = Return (ops ! i))"
proof (induction ops arbitrary: k)
  case (Cons v ops)
  have s: "int k + 1 = int (Suc k)" by simp
  show ?case
  proof (cases "e \<in> set (operation_entries (int (Suc k)) ops)")
    case True
    then obtain i where "i < length ops" "e_id e = int (Suc k + i)" "e_clientId e = ClientId (ops ! i)"
      "(e_kind e = callEntry \<and> e_value e = InputValue (Input (ops ! i)) \<and> e_time e = Call (ops ! i) \<or>
       e_kind e = returnEntry \<and> e_value e = OutputValue (Output (ops ! i)) \<and> e_time e = Return (ops ! i))"
      using Cons.IH by blast
    then show ?thesis by (intro exI [of _ "Suc i"]) auto
  next
    case False
    then have "e_id e = int k \<and> e_clientId e = ClientId v \<and>
       (e_kind e = callEntry \<and> e_value e = InputValue (Input v) \<and> e_time e = Call v \<or>
        e_kind e = returnEntry \<and> e_value e = OutputValue (Output v) \<and> e_time e = Return v)"
      using Cons.prems unfolding operation_entries.simps s by auto
    then show ?thesis by (intro exI [of _ 0]) auto
  qed
qed simp

lemma makeEntries_for:
  assumes "sorts_byTime sort_byTime" "e \<in> set (makeEntries sort_byTime ops)"
  shows "\<exists>i. entry_for ops i e"
proof -
  have "set (makeEntries sort_byTime ops) = set (operation_entries (int 0) ops)"
    using assms(1) by (intro mset_eq_setD) (simp add: makeEntries_def sorts_byTime_def)
  then have "e \<in> set (operation_entries (int 0) ops)" using assms(2) by simp
  from operation_entries_for [OF this] show ?thesis by (auto simp: entry_for_def ev_of_def)
qed

text \<open>What the first loop has after the events \<open>V\<close>.\<close>

definition shown :: "('i \<Rightarrow> 'o \<Rightarrow> string) \<Rightarrow> ('i, 'o) Operation list \<Rightarrow> ev set \<Rightarrow> nat \<Rightarrow> historyElement" where
  "shown dop ops V i =
     \<lparr>he_ClientId = (if Cl i \<in> V then ClientId (ops ! i) else 0), he_Start = (if Cl i \<in> V then Call (ops ! i) else 0),
      he_End = (if Rt i \<in> V then Return (ops ! i) else 0),
      he_Description = (if Rt i \<in> V then dop (Input (ops ! i)) (Output (ops ! i)) else '''')\<rparr>"

definition call_values :: "('i, 'o) Operation list \<Rightarrow> ev set \<Rightarrow> int \<rightharpoonup> ('i, 'o) anyval" where
  "call_values ops V k = (if 0 \<le> k \<and> Cl (nat k) \<in> V then Some (InputValue (Input (ops ! nat k))) else None)"

definition return_values :: "('i, 'o) Operation list \<Rightarrow> ev set \<Rightarrow> int \<rightharpoonup> ('i, 'o) anyval" where
  "return_values ops V k = (if 0 \<le> k \<and> Rt (nat k) \<in> V then Some (OutputValue (Output (ops ! nat k))) else None)"

definition vis_state where
  "vis_state dop ops V = (map (shown dop ops V) [0..<length ops], call_values ops V, return_values ops V)"

lemma values_insert:
  "call_values ops (insert (Cl i) V) = (call_values ops V)(int i \<mapsto> InputValue (Input (ops ! i)))"
  "call_values ops (insert (Rt i) V) = call_values ops V"
  "return_values ops (insert (Rt i) V) = (return_values ops V)(int i \<mapsto> OutputValue (Output (ops ! i)))"
  "return_values ops (insert (Cl i) V) = return_values ops V"
  by (auto simp: call_values_def return_values_def fun_eq_iff)

lemma map_update_at:
  assumes "i < n" "\<And>j. j < n \<Longrightarrow> j \<noteq> i \<Longrightarrow> g j = f j"
  shows "(map f [0..<n])[i := g i] = map g [0..<n]"
  using assms by (intro nth_equalityI) (auto simp: nth_list_update)

lemma vis_entry_for:
  assumes "entry_for ops i e" "ev_of e = Rt i \<longrightarrow> Cl i \<in> V"
  shows "vis_entry dop e (vis_state dop ops V) = Inr (vis_state dop ops (insert (ev_of e) V))"
proof -
  have i: "i < length ops" "e_id e = int i" using assms(1) by (simp_all add: entry_for_def)
  have upd: "(map (shown dop ops V) [0..<length ops])[i := shown dop ops (insert (ev_of e) V) i] =
      map (shown dop ops (insert (ev_of e) V)) [0..<length ops]"
    using i(1) assms(1) by (intro map_update_at) (auto simp: shown_def entry_for_def)
  have ix: "index (map (shown dop ops V) [0..<length ops]) (int i) = Inr (shown dop ops V i)"
    "set_index (map (shown dop ops V) [0..<length ops]) (int i) x = Inr ((map (shown dop ops V) [0..<length ops])[i := x])" for x
    using i(1) by (simp_all add: index_def set_index_def len_def)
  show ?thesis
  proof (cases "e_kind e")
    case callEntry
    then have "(shown dop ops V i)\<lparr>he_ClientId := e_clientId e, he_Start := e_time e\<rparr> = shown dop ops (insert (ev_of e) V) i"
      using assms(1) by (auto simp: shown_def entry_for_def)
    then show ?thesis using callEntry assms(1) i ix upd by (auto simp: vis_entry_def vis_state_def entry_for_def values_insert)
  next
    case returnEntry
    then have r: "ev_of e = Rt i" "e_value e = OutputValue (Output (ops ! i))" using assms(1) by (auto simp: entry_for_def)
    have "(shown dop ops V i)\<lparr>he_End := e_time e, he_Description := dop (Input (ops ! i)) (Output (ops ! i))\<rparr> =
        shown dop ops (insert (ev_of e) V) i"
      using assms(1) returnEntry by (auto simp: shown_def entry_for_def)
    moreover have "describe dop (call_values ops V (int i)) (e_value e) = Inr (dop (Input (ops ! i)) (Output (ops ! i)))"
      using assms(2) r by (simp add: describe_def call_values_def)
    ultimately show ?thesis using returnEntry r i ix upd by (simp add: vis_entry_def vis_state_def values_insert)
  qed
qed

lemma vis_entries:
  assumes "\<And>e. e \<in> set es \<Longrightarrow> \<exists>i. entry_for ops i e"
    and "\<And>i xs e ys. es = xs @ e # ys \<Longrightarrow> ev_of e = Rt i \<Longrightarrow> Cl i \<in> V \<union> ev_of ` set xs"
  shows "foldE (vis_entry dop) es (vis_state dop ops V) = Inr (vis_state dop ops (V \<union> ev_of ` set es))"
  using assms
proof (induction es arbitrary: V)
  case (Cons e es)
  obtain i where i: "entry_for ops i e" using Cons.prems(1) by auto
  have "ev_of e = Rt i \<longrightarrow> Cl i \<in> V" using Cons.prems(2) [of "[]" e es] by auto
  from vis_entry_for [OF i this] have "vis_entry dop e (vis_state dop ops V) = Inr (vis_state dop ops (insert (ev_of e) V))" .
  moreover have "foldE (vis_entry dop) es (vis_state dop ops (insert (ev_of e) V)) =
      Inr (vis_state dop ops (insert (ev_of e) V \<union> ev_of ` set es))"
    using Cons.prems(1) Cons.prems(2) [of "e # _"] by (intro Cons.IH) auto
  ultimately show ?case by simp
qed simp

lemma vis_history:
  assumes "sorts_byTime sort_byTime" "timed ops"
  defines "es \<equiv> makeEntries sort_byTime ops" and "V \<equiv> Cl ` {..<length ops} \<union> Rt ` {..<length ops}"
  shows "foldE (vis_entry dop) es (replicate (length ops) zero_historyElement, Map.empty, Map.empty) = Inr (vis_state dop ops V)"
proof -
  have "(replicate (length ops) zero_historyElement, Map.empty, Map.empty) = vis_state dop ops {}"
    by (auto simp: vis_state_def shown_def zero_historyElement_def call_values_def return_values_def map_replicate_const fun_eq_iff
        intro!: nth_equalityI)
  moreover have "foldE (vis_entry dop) es (vis_state dop ops {}) = Inr (vis_state dop ops ({} \<union> ev_of ` set es))"
  proof (rule vis_entries)
    show "\<exists>i. entry_for ops i e" if "e \<in> set es" for e using makeEntries_for [OF assms(1)] that by (simp add: es_def)
    fix i xs e ys assume s: "es = xs @ e # ys" "ev_of e = Rt i"
    have ev: "Rt i \<in> set (map ev_of es)" using s by force
    then have "i < length ops" using makeEntries_facts(2) [OF assms(1), of ops] by (auto simp: es_def)
    then have "before (map ev_of es) (Cl i) (Rt i)" using makeEntries_before(1) [OF assms(1,2)] by (simp add: es_def)
    then obtain us vs ws where sp: "map ev_of es = us @ Cl i # vs @ Rt i # ws" using before_split by metis
    have d: "distinct (map ev_of es)" using makeEntries_facts(1) [OF assms(1)] by (simp add: es_def)
    have "map ev_of xs @ Rt i # map ev_of ys = (us @ Cl i # vs) @ Rt i # ws" using s sp by simp
    then have "map ev_of xs = us @ Cl i # vs" using d s by (subst (asm) append_Cons_eq_iff) auto
    then show "Cl i \<in> {} \<union> ev_of ` set xs" by (metis Un_iff in_set_conv_decomp set_map)
  qed
  moreover have "ev_of ` set es = V" using makeEntries_facts(2) [OF assms(1), of ops] by (simp add: es_def V_def)
  ultimately show ?thesis by simp
qed

subsection \<open>The lists\<close>

lemma vis_steps_replay:
  assumes v: "\<And>i. i \<in> set ids \<Longrightarrow> cv (int i) = Some (InputValue (x i)) \<and> rv (int i) = Some (OutputValue (y i))"
    and p: "\<And>s i. i \<in> set ids \<Longrightarrow> p_step P s i = Step model s (x i) (y i)"
  shows "replay P s ids \<noteq> None \<Longrightarrow>
    \<exists>steps. vis_steps model dst cv rv s (map int ids) = Inr steps \<and> map ls_Index steps = map int ids"
  using v p
proof (induction ids arbitrary: s)
  case (Cons i ids)
  obtain ok s' where st: "Step model s (x i) (y i) = (ok, s')" by (cases "Step model s (x i) (y i)")
  have ok: "ok" "replay P s' ids \<noteq> None" using Cons.prems(1,3) st by (auto split: if_split_asm)
  obtain steps where "vis_steps model dst cv rv s' (map int ids) = Inr steps" "map ls_Index steps = map int ids"
    using Cons.IH [OF ok(2)] Cons.prems(2,3) by auto
  then show ?case using Cons.prems(2) st ok(1) by (simp add: model_step_def)
qed simp

lemma note_largest_list:
  "fold (note_largest m l) p (sz, ix) =
    (\<lambda>i. if i \<in> set p \<and> (case sz i of None \<Rightarrow> 0 | Some k \<Rightarrow> k) < l then Some l else sz i,
     \<lambda>i. if i \<in> set p \<and> (case sz i of None \<Rightarrow> 0 | Some k \<Rightarrow> k) < l then Some m else ix i)"
  by (induction p arbitrary: sz ix) (auto simp: note_largest_def fun_eq_iff)

text \<open>The first list an operation is in.\<close>

definition first_list :: "int list list \<Rightarrow> int \<Rightarrow> nat \<Rightarrow> bool" where
  "first_list qs i m \<longleftrightarrow> m < length qs \<and> i \<in> set (qs ! m) \<and> (\<forall>k < m. i \<notin> set (qs ! k))"

lemma first_list_snoc:
  "first_list (qs @ [p]) i m \<longleftrightarrow> first_list qs i m \<or> m = length qs \<and> i \<in> set p \<and> (\<forall>k < length qs. i \<notin> set (qs ! k))"
  unfolding first_list_def by (auto simp: nth_append less_Suc_eq split: if_split_asm)

lemma first_list_unique: "first_list qs i m \<Longrightarrow> first_list qs i m' \<Longrightarrow> m = m'"
  unfolding first_list_def by (metis linorder_neqE_nat)

lemma first_list_exists:
  assumes "k < length qs" "i \<in> set (qs ! k)"
  shows "\<exists>m. first_list qs i m"
proof -
  let ?m = "LEAST k. k < length qs \<and> i \<in> set (qs ! k)"
  have m: "?m < length qs \<and> i \<in> set (qs ! ?m)" by (rule LeastI [of _ k]) (use assms in blast)
  moreover have "i \<notin> set (qs ! j)" if "j < ?m" for j
    using not_less_Least [OF that] that m by (meson less_trans)
  ultimately show ?thesis unfolding first_list_def by blast
qed

definition largest_ok :: "int list list \<Rightarrow> (int \<rightharpoonup> int) \<times> (int \<rightharpoonup> int) \<Rightarrow> bool" where
  "largest_ok qs = (\<lambda>(sz, ix). \<forall>i.
     (\<forall>m. first_list qs i m \<longrightarrow> ix i = Some (int m) \<and> sz i = Some (len (qs ! m))) \<and>
     ((\<nexists>m. first_list qs i m) \<longrightarrow> ix i = None \<and> sz i = None))"

lemma largest_snoc:
  assumes "largest_ok qs sx" "\<And>q. q \<in> set qs \<Longrightarrow> length p \<le> length q"
  shows "largest_ok (qs @ [p]) (fold (note_largest (int (length qs)) (len p)) p sx)"
proof -
  obtain sz ix where sx: "sx = (sz, ix)" by (cases sx)
  have old: "\<And>i m. first_list qs i m \<Longrightarrow> ix i = Some (int m) \<and> sz i = Some (len (qs ! m))"
    "\<And>i. \<nexists>m. first_list qs i m \<Longrightarrow> ix i = None \<and> sz i = None"
    using assms(1) unfolding largest_ok_def sx by blast+
  have keep: "\<not> (case sz i of None \<Rightarrow> 0 | Some k \<Rightarrow> k) < len p" if "first_list qs i m" for i m
    using old(1) [OF that] assms(2) [of "qs ! m"] that by (simp add: first_list_def len_def)
  have new: "(case sz i of None \<Rightarrow> 0 | Some k \<Rightarrow> k) < len p" if "\<nexists>m. first_list qs i m" "i \<in> set p" for i
    using old(2) [OF that(1)] that(2) by (cases p) (auto simp: len_def)
  have last: "first_list (qs @ [p]) i m \<longleftrightarrow> m = length qs \<and> i \<in> set p" if "\<nexists>m. first_list qs i m" for i m
    using that first_list_exists [of _ qs i] unfolding first_list_snoc by blast
  have both: "first_list (qs @ [p]) i m \<longleftrightarrow> first_list qs i m" if "first_list qs i k" for i k m
    using that unfolding first_list_snoc by (auto simp: first_list_def)
  define ix' where "ix' = (\<lambda>i. if i \<in> set p \<and> (case sz i of None \<Rightarrow> 0 | Some k \<Rightarrow> k) < len p then Some (int (length qs)) else ix i)"
  define sz' where "sz' = (\<lambda>i. if i \<in> set p \<and> (case sz i of None \<Rightarrow> 0 | Some k \<Rightarrow> k) < len p then Some (len p) else sz i)"
  have 1: "ix' i = Some (int m) \<and> sz' i = Some (len ((qs @ [p]) ! m))" if f: "first_list (qs @ [p]) i m" for i m
  proof (cases "\<exists>k. first_list qs i k")
    case True
    then have m: "first_list qs i m" using f both by blast
    then show ?thesis using old(1) [OF m] keep [OF m] by (auto simp: ix'_def sz'_def first_list_def nth_append)
  next
    case False
    then have "m = length qs" "i \<in> set p" using f last by blast+
    then show ?thesis using new [OF False] by (simp add: ix'_def sz'_def)
  qed
  have 2: "ix' i = None \<and> sz' i = None" if "\<nexists>m. first_list (qs @ [p]) i m" for i
  proof -
    have n: "\<nexists>m. first_list qs i m" using that both by blast
    then have "i \<notin> set p" using last that by blast
    then show ?thesis using old(2) [OF n] by (simp add: ix'_def sz'_def)
  qed
  have "fold (note_largest (int (length qs)) (len p)) p sx = (sz', ix')" unfolding sx note_largest_list sz'_def ix'_def ..
  then show ?thesis using 1 2 unfolding largest_ok_def by simp
qed

lemma vis_partials:
  assumes "\<And>q. q \<in> set qs \<Longrightarrow> \<exists>steps. vis_steps model dst cv rv (Init model) q = Inr steps \<and> map ls_Index steps = q"
    and "sorted_wrt (\<lambda>p q. length q \<le> length p) qs"
  shows "\<exists>lins sx. foldE (vis_partial model dst cv rv) (enumerate 0 qs) ([], Map.empty, Map.empty) = Inr (lins, sx) \<and>
    map (map ls_Index) lins = qs \<and> largest_ok qs sx"
  using assms
proof (induction qs rule: rev_induct)
  case Nil
  then show ?case by (simp add: largest_ok_def first_list_def)
next
  case (snoc q qs)
  obtain lins sx where ih: "foldE (vis_partial model dst cv rv) (enumerate 0 qs) ([], Map.empty, Map.empty) = Inr (lins, sx)"
    "map (map ls_Index) lins = qs" "largest_ok qs sx"
    using snoc.IH snoc.prems by (auto simp: sorted_wrt_append)
  obtain steps where "vis_steps model dst cv rv (Init model) q = Inr steps" "map ls_Index steps = q" using snoc.prems(1) by auto
  moreover have "largest_ok (qs @ [q]) (fold (note_largest (int (length qs)) (len q)) q sx)"
    using snoc.prems(2) by (intro largest_snoc [OF ih(3)]) (simp add: sorted_wrt_append)
  ultimately show ?case using ih by (simp add: enumerate_append_eq foldE_append vis_partial_def)
qed

subsection \<open>The page\<close>

text \<open>A list that can be replayed is a sequence of operations that the model accepts, and its steps can be shown.\<close>

lemma makeEntries_step:
  assumes "sorts_byTime sort_byTime" "i < length ops"
  shows "p_step (problem_of model (length ops) (makeEntries sort_byTime ops)) s i = Step model s (Input (ops ! i)) (Output (ops ! i))"
  using makeEntries_value [OF assms] by (simp add: problem_of_def)

lemma replayable_shown:
  assumes "sorts_byTime sort_byTime" "replayable (problem_of model (length ops) (makeEntries sort_byTime ops)) p"
  defines "V \<equiv> Cl ` {..<length ops} \<union> Rt ` {..<length ops}"
  shows "\<exists>st. vis_steps model dst (call_values ops V) (return_values ops V) (Init model) p = Inr st \<and> map ls_Index st = p"
    and "\<exists>ids. p = map int ids \<and> set ids \<subseteq> {..<length ops} \<and> accepts model (Init model) (map (\<lambda>i. ops ! i) ids)"
proof -
  let ?P = "problem_of model (length ops) (makeEntries sort_byTime ops)"
  obtain ids s where ids: "p = map int ids" "set ids \<subseteq> {..<length ops}" "replay ?P (Init model) ids = Some s"
    using assms(2) unfolding replayable_def by auto
  show "\<exists>st. vis_steps model dst (call_values ops V) (return_values ops V) (Init model) p = Inr st \<and> map ls_Index st = p"
    unfolding ids(1)
    by (rule vis_steps_replay [where P = ?P and x = "\<lambda>i. Input (ops ! i)" and y = "\<lambda>i. Output (ops ! i)"])
      (use ids(2,3) in \<open>auto simp: makeEntries_step [OF assms(1)] call_values_def return_values_def V_def\<close>)
  have "accepts model s (map (\<lambda>i. ops ! i) ids)" if "replay ?P s ids \<noteq> None" "set ids \<subseteq> {..<length ops}" for s ids
    using that by (induction ids arbitrary: s) (auto simp: makeEntries_step [OF assms(1)] split: prod.split_asm if_split_asm)
  then show "\<exists>ids. p = map int ids \<and> set ids \<subseteq> {..<length ops} \<and> accepts model (Init model) (map (\<lambda>i. ops ! i) ids)"
    using ids by auto
qed

text \<open>
  C21. What the page shows of a history of operations: when the check of the history has ended, with whatever answer and
  also when it was stopped early, the computation of the data does not panic. Each operation is shown with its client, its times and
  its description; the lists shown are those that the check found, longest first, and each of them is a sequence of operations that
  the model accepts; and for an operation that is in some list the page points to a longest one.
\<close>

theorem visualization_shows_check:
  assumes "sorts_byTime sort_byTime" "timed ops" "sorts_longest_first sortSlice"
    and "checkSingle model True kill fuel (makeEntries sort_byTime ops) = Inr (Some (ans, longest))" "is_partials longest partials"
  shows "\<exists>data. vis_partition model dop dst sortSlice (makeEntries sort_byTime ops) partials = Inr data \<and>
    pv_History data = map (\<lambda>v. \<lparr>he_ClientId = ClientId v, he_Start = Call v, he_End = Return v,
      he_Description = dop (Input v) (Output v)\<rparr>) ops \<and>
    map (map ls_Index) (pv_PartialLinearizations data) = sortSlice partials \<and>
    (\<forall>p \<in> set partials. \<exists>ids. p = map int ids \<and> set ids \<subseteq> {..<length ops} \<and>
       accepts model (Init model) (map (\<lambda>i. ops ! i) ids)) \<and>
    (\<forall>i p. p \<in> set partials \<and> i \<in> set p \<longrightarrow>
       (\<exists>m. pv_Largest data i = Some (int m) \<and> m < length partials \<and> i \<in> set (sortSlice partials ! m) \<and>
          length p \<le> length (sortSlice partials ! m)))"
proof -
  let ?es = "makeEntries sort_byTime ops" and ?P = "problem_of model (length ops) (makeEntries sort_byTime ops)"
  let ?V = "Cl ` {..<length ops} \<union> Rt ` {..<length ops}" and ?qs = "sortSlice partials"
  have ok: "entries_ok (length ops) ?es" by (rule makeEntries_ok [OF assms(1,2)])
  have q: "mset ?qs = mset partials" "sorted_wrt (\<lambda>p q. length q \<le> length p) ?qs"
    using assms(3) unfolding sorts_longest_first_def by blast+
  note qs = mset_eq_setD [OF q(1)] mset_eq_length [OF q(1)]
  have rep: "replayable ?P p" if "p \<in> set partials" for p
    using checkSingle_replayable [OF ok assms(4)] that assms(5) unfolding is_partials_def by blast
  have steps: "\<exists>st. vis_steps model dst (call_values ops ?V) (return_values ops ?V) (Init model) p = Inr st \<and> map ls_Index st = p"
    if "p \<in> set ?qs" for p
    using replayable_shown(1) [OF assms(1) rep] that qs(1) by simp
  have acc: "\<exists>ids. p = map int ids \<and> set ids \<subseteq> {..<length ops} \<and> accepts model (Init model) (map (\<lambda>i. ops ! i) ids)"
    if "p \<in> set partials" for p
    by (rule replayable_shown(2) [OF assms(1) rep [OF that]])
  obtain lins sz ix where l: "foldE (vis_partial model dst (call_values ops ?V) (return_values ops ?V)) (enumerate 0 ?qs) ([], Map.empty, Map.empty)
      = Inr (lins, sz, ix)" "map (map ls_Index) lins = ?qs" "largest_ok ?qs (sz, ix)"
    using vis_partials [OF steps q(2)] by auto
  have hist: "map (shown dop ops ?V) [0..<length ops] = map (\<lambda>v. \<lparr>he_ClientId = ClientId v, he_Start = Call v, he_End = Return v,
      he_Description = dop (Input v) (Output v)\<rparr>) ops"
    by (intro nth_equalityI) (auto simp: shown_def)
  have "vis_partition model dop dst sortSlice ?es partials =
      Inr \<lparr>pv_History = map (shown dop ops ?V) [0..<length ops], pv_PartialLinearizations = lins, pv_Largest = ix\<rparr>"
    using vis_history [OF assms(1,2), of dop] l(1) entries_ok_length [OF ok] by (simp add: vis_partition_def vis_state_def)
  moreover have "\<exists>m. ix i = Some (int m) \<and> m < length partials \<and> i \<in> set (?qs ! m) \<and> length p \<le> length (?qs ! m)"
    if ip: "p \<in> set partials" "i \<in> set p" for i p
  proof -
    have "p \<in> set ?qs" using ip(1) qs(1) by simp
    then obtain k where k: "k < length ?qs" "?qs ! k = p" unfolding in_set_conv_nth by blast
    obtain m where m: "first_list ?qs i m" using first_list_exists [OF k(1)] k(2) ip(2) by auto
    then have "m \<le> k" using k ip(2) unfolding first_list_def by (metis not_le_imp_less)
    then have "length p \<le> length (?qs ! m)" using sorted_wrt_nth_less [OF q(2), of m k] k by (cases "m = k") auto
    then show ?thesis using l(3) m qs(2) unfolding largest_ok_def first_list_def by auto
  qed
  ultimately show ?thesis
    by (intro exI [of _ "\<lparr>pv_History = map (shown dop ops ?V) [0..<length ops], pv_PartialLinearizations = lins, pv_Largest = ix\<rparr>"])
      (use l(2) acc hist in simp)
qed

text \<open>The history of the theory \<^verbatim>\<open>Porcupine_Properties\<close>, with the lists put in order by a merge sort.\<close>

definition exLongestFirst :: "int list list \<Rightarrow> int list list" where
  "exLongestFirst ps = rev (sort_key length ps)"

lemma exLongestFirst_sorts: "sorts_longest_first exLongestFirst"
proof -
  have "sorted_wrt (\<lambda>p q. length p \<le> length q) (sort_key length ps)" for ps :: "int list list"
    using sorted_sort_key [of length ps] by (simp add: sorted_wrt_map)
  then show ?thesis by (simp add: sorts_longest_first_def exLongestFirst_def sorted_wrt_rev)
qed

theorem visualization_shows_check_witness:
  "\<exists>fuel longest partials data. checkSingle (fillDefault KvModel) True (\<lambda>_. False) fuel (makeEntries (sort_key e_time) [exGet, exPut])
       = Inr (Some (True, longest)) \<and> is_partials longest partials \<and>
     vis_partition (fillDefault KvModel) (\<lambda>i out. kv_Key i) (\<lambda>s. s) exLongestFirst (makeEntries (sort_key e_time) [exGet, exPut]) partials
       = Inr data \<and> map he_Start (pv_History data) = [1, 0]"
proof -
  obtain fuel ans longest where run: "checkSingle (fillDefault KvModel) True (\<lambda>_. False) fuel (makeEntries (sort_key e_time) [exGet, exPut])
      = Inr (Some (ans, longest))" "ans = op_linearizable (fillDefault KvModel) [exGet, exPut]"
    using checkSingle_ops [OF sort_key_sorts ex_timed(1) ex_equal_ok, of True "\<lambda>_. False"] by blast
  let ?ps = "map the (filter (\<lambda>v. v \<noteq> None) longest)"
  have p: "is_partials longest ?ps" by (force simp: is_partials_def)
  obtain data where d: "vis_partition (fillDefault KvModel) (\<lambda>i out. kv_Key i) (\<lambda>s. s) exLongestFirst
      (makeEntries (sort_key e_time) [exGet, exPut]) ?ps = Inr data"
    "pv_History data = map (\<lambda>v. \<lparr>he_ClientId = ClientId v, he_Start = Call v, he_End = Return v, he_Description = kv_Key (Input v)\<rparr>)
      [exGet, exPut]"
    using visualization_shows_check [OF sort_key_sorts ex_timed(1) exLongestFirst_sorts run(1) p, of "\<lambda>i out. kv_Key i" "\<lambda>s. s"] by blast
  have a: "ans = True" using run(2) ex_model by simp
  show ?thesis
  proof (rule exI [of _ fuel], rule exI [of _ longest], rule exI [of _ ?ps], rule exI [of _ data], intro conjI)
    show "map he_Start (pv_History data) = [1, 0]" unfolding d(2) by (simp add: ex_ops)
  qed (fact run(1) [unfolded a], fact p, fact d(1))
qed

end
