(* ===== verification/Mr_Master.thy ===== *)
theory Mr_Master
  imports Prelude
begin

section \<open>MapReduce: the master\<close>

text \<open>
  Models \<^verbatim>\<open>src/mr/master.go\<close> and the records of \<^verbatim>\<open>src/mr/rpc.go\<close>. The two circular lists of tasks
  live in one heap of nodes, with a pointer an index into it. A handler runs with the mutex
  held, so a request is one step; the loop that looks for a task has fuel, and \<open>None\<close> is running
  out of it. The renames of result files are kept in a list.
\<close>

subsection \<open>Data\<close>

record TaskNode =
  taskId :: int
  tn_next :: "nat option"
  tn_prev :: "nat option"

record StateArgs =
  a_Cat :: int
  a_TaskId :: int
  a_Finished :: bool
  a_Idle :: bool
  a_WorkerId :: int
  a_FileName :: string

record StateReply =
  r_Cat :: int
  r_TaskId :: int
  r_FileName :: string
  r_Nreduce :: int
  r_MapCount :: int
  r_WorkerId :: int
  r_FileNames :: "int list"

record Master =
  MapTasks :: "string list"
  ReduceTasks :: "int list"
  MapStatus :: "bool list"
  ReduceStatus :: "bool list"
  MapFinished :: int            \<comment> \<open>how many map tasks are not finished\<close>
  ReduceFinished :: int
  Nreduce :: int
  tnodes :: "TaskNode list"
  MapHead :: "nat option"
  ReduceHead :: "nat option"
  MapPointer :: "nat option"
  ReducePointer :: "nat option"
  workers :: int
  renames :: "(string \<times> string) list"

definition zero_StateReply :: StateReply where
  "zero_StateReply =
     \<lparr>r_Cat = 0, r_TaskId = 0, r_FileName = '''', r_Nreduce = 0, r_MapCount = 0, r_WorkerId = 0, r_FileNames = []\<rparr>"

subsection \<open>The lists of tasks\<close>

definition tload :: "TaskNode list \<Rightarrow> nat option \<Rightarrow> TaskNode go" where
  "tload h p =
     (case p of None \<Rightarrow> Inl NilDereference
      | Some a \<Rightarrow> if a < length h then Inr (h ! a) else Inl NilDereference)"

definition tstore :: "TaskNode list \<Rightarrow> nat option \<Rightarrow> (TaskNode \<Rightarrow> TaskNode) \<Rightarrow> TaskNode list go" where
  "tstore h p f =
     (case p of None \<Rightarrow> Inl NilDereference
      | Some a \<Rightarrow> if a < length h then Inr (h[a := f (h ! a)]) else Inl NilDereference)"

definition DeleteNode :: "TaskNode list \<Rightarrow> nat option \<Rightarrow> TaskNode list go" where
  "DeleteNode h node =
     bindE (tload h node) (\<lambda>nd.
     let temp = tn_prev nd in
     bindE (tstore h temp (\<lambda>t. t\<lparr>tn_next := tn_next nd\<rparr>)) (\<lambda>h.
     bindE (tload h node) (\<lambda>nd.
     tstore h (tn_next nd) (\<lambda>t. t\<lparr>tn_prev := temp\<rparr>))))"

definition AddNode :: "TaskNode list \<Rightarrow> nat option \<Rightarrow> nat option \<Rightarrow> TaskNode list go" where
  "AddNode h hdp node =
     bindE (tload h hdp) (\<lambda>hdn.
     let temp = tn_prev hdn in
     bindE (tstore h temp (\<lambda>t. t\<lparr>tn_next := node\<rparr>)) (\<lambda>h.
     bindE (tstore h node (\<lambda>t. t\<lparr>tn_prev := temp\<rparr>)) (\<lambda>h.
     bindE (tstore h node (\<lambda>t. t\<lparr>tn_next := hdp\<rparr>)) (\<lambda>h.
     tstore h hdp (\<lambda>t. t\<lparr>tn_prev := node\<rparr>)))))"

definition InitHead :: "TaskNode list \<Rightarrow> nat option \<Rightarrow> TaskNode list go" where
  "InitHead h hdp =
     bindE (tstore h hdp (\<lambda>t. t\<lparr>tn_next := hdp\<rparr>)) (\<lambda>h.
     bindE (tstore h hdp (\<lambda>t. t\<lparr>tn_prev := hdp\<rparr>)) (\<lambda>h.
     tstore h hdp (\<lambda>t. t\<lparr>taskId := -1\<rparr>)))"

text \<open>A new node is put at the end of the heap.\<close>

definition new_TaskNode :: "int \<Rightarrow> TaskNode" where
  "new_TaskNode i = \<lparr>taskId = i, tn_next = None, tn_prev = None\<rparr>"

fun add_tasks :: "TaskNode list \<Rightarrow> nat option \<Rightarrow> int \<Rightarrow> nat \<Rightarrow> TaskNode list go" where
  "add_tasks h hdp i 0 = Inr h"
| "add_tasks h hdp i (Suc k) =
     bindE (AddNode (h @ [new_TaskNode i]) hdp (Some (length h))) (\<lambda>h. add_tasks h hdp (i + 1) k)"

text \<open>\<^verbatim>\<open>make\<close> needs a number of reduce tasks that is not negative.\<close>

definition MakeMaster :: "string list \<Rightarrow> nat \<Rightarrow> Master go" where
  "MakeMaster files nReduce =
     (let h = [new_TaskNode 0, new_TaskNode 0]; mapHead = Some 0; reduceHead = Some 1 in
      bindE (InitHead h mapHead) (\<lambda>h.
      bindE (InitHead h reduceHead) (\<lambda>h.
      bindE (add_tasks h mapHead 0 (length files)) (\<lambda>h.
      bindE (add_tasks h reduceHead 0 nReduce) (\<lambda>h.
      bindE (tload h mapHead) (\<lambda>mh.
      bindE (tload h reduceHead) (\<lambda>rh.
      Inr \<lparr>MapTasks = files, ReduceTasks = replicate (length files) 0, MapStatus = replicate (length files) False,
           ReduceStatus = replicate nReduce False, MapFinished = len files, ReduceFinished = int nReduce,
           Nreduce = int nReduce, tnodes = h, MapHead = mapHead, ReduceHead = reduceHead,
           MapPointer = tn_next mh, ReducePointer = tn_next rh, workers = 0, renames = []\<rparr>)))))))"

subsection \<open>Assigning a task\<close>

text \<open>The loop of \<^verbatim>\<open>assignTask\<close>: the first node from \<open>task\<close> on that is not the head and not finished; finished ones are deleted.\<close>

fun find_task :: "nat \<Rightarrow> TaskNode list \<Rightarrow> nat option \<Rightarrow> bool list \<Rightarrow> nat option \<Rightarrow> (TaskNode list \<times> nat option) option go" where
  "find_task 0 h hdp status task = Inr None"
| "find_task (Suc fuel) h hdp status task =
     (if task = hdp then bindE (tload h task) (\<lambda>nd. find_task fuel h hdp status (tn_next nd))
      else
        bindE (tload h task) (\<lambda>nd.
        bindE (index status (taskId nd)) (\<lambda>finished.
        if finished then
          bindE (DeleteNode h task) (\<lambda>h.
          bindE (tload h task) (\<lambda>nd.
          find_task fuel h hdp status (tn_next nd)))
        else Inr (Some (h, task)))))"

definition assignTask :: "nat \<Rightarrow> Master \<Rightarrow> StateReply \<Rightarrow> (Master \<times> StateReply) option go" where
  "assignTask fuel m reply =
     (if MapFinished m > 0 then
        let reply = reply\<lparr>r_Cat := 1\<rparr> in
        bindE (find_task fuel (tnodes m) (MapHead m) (MapStatus m) (MapPointer m)) (\<lambda>r.
        case r of None \<Rightarrow> Inr None
        | Some (h, task) \<Rightarrow>
            bindE (tload h task) (\<lambda>nd.
            bindE (index (MapTasks m) (taskId nd)) (\<lambda>f.
            let reply = reply\<lparr>r_TaskId := taskId nd, r_FileName := f, r_Nreduce := Nreduce m\<rparr> in
            Inr (Some (m\<lparr>tnodes := h, MapPointer := tn_next nd\<rparr>, reply)))))
      else if ReduceFinished m > 0 then
        let reply = reply\<lparr>r_Cat := 2\<rparr> in
        bindE (find_task fuel (tnodes m) (ReduceHead m) (ReduceStatus m) (ReducePointer m)) (\<lambda>r.
        case r of None \<Rightarrow> Inr None
        | Some (h, task) \<Rightarrow>
            bindE (tload h task) (\<lambda>nd.
            let reply = reply\<lparr>r_TaskId := taskId nd, r_Nreduce := Nreduce m, r_MapCount := len (MapStatus m),
                              r_FileNames := ReduceTasks m\<rparr> in
            Inr (Some (m\<lparr>tnodes := h, MapPointer := tn_next nd\<rparr>, reply))))
      else Inr (Some (m, reply\<lparr>r_Cat := 0\<rparr>)))"

subsection \<open>Requests\<close>

text \<open>What a request does with a report that a task is finished.\<close>

definition report_finished :: "Master \<Rightarrow> StateArgs \<Rightarrow> Master go" where
  "report_finished m args =
     (let reduce = (if a_Cat args = 2 then
          bindE (index (ReduceStatus m) (a_TaskId args)) (\<lambda>finished.
          if \<not> finished then
            bindE (set_index (ReduceStatus m) (a_TaskId args) True) (\<lambda>status.
            Inr (m\<lparr>ReduceStatus := status, ReduceFinished := ReduceFinished m - 1,
                   renames := renames m @ [(a_FileName args, ''mr-out-'' @ Itoa (a_TaskId args))]\<rparr>))
          else Inr m)
        else Inr m)
      in
      if a_Cat args = 1 then
        bindE (index (MapStatus m) (a_TaskId args)) (\<lambda>finished.
        if \<not> finished then
          bindE (set_index (MapStatus m) (a_TaskId args) True) (\<lambda>status.
          bindE (set_index (ReduceTasks m) (a_TaskId args) (a_WorkerId args)) (\<lambda>tasks.
          Inr (m\<lparr>MapStatus := status, MapFinished := MapFinished m - 1, ReduceTasks := tasks\<rparr>)))
        else reduce)
      else reduce)"

definition RequestHandler :: "nat \<Rightarrow> Master \<Rightarrow> StateArgs \<Rightarrow> StateReply \<Rightarrow> (Master \<times> StateReply) option go" where
  "RequestHandler fuel m args reply =
     (let reply = reply\<lparr>r_WorkerId := a_WorkerId args\<rparr> in
      bindE (if a_Finished args then report_finished m args else Inr m) (\<lambda>m.
      if a_Idle args then
        if a_WorkerId args = 0 then
          assignTask fuel (m\<lparr>workers := workers m + 1\<rparr>) (reply\<lparr>r_WorkerId := workers m + 1\<rparr>)
        else assignTask fuel m reply
      else Inr (Some (m, reply))))"

definition Done :: "Master \<Rightarrow> bool" where
  "Done m = (if MapFinished m = 0 \<and> ReduceFinished m = 0 then True else False)"

end
