(* ===== verification/Mr_Tasks.thy ===== *)
theory Mr_Tasks
  imports Mr_Master
begin

section \<open>MapReduce: the lists of tasks\<close>

text \<open>
  What the master of \<^verbatim>\<open>src/mr/master.go\<close> keeps true of a circular list of tasks, also when a
  pointer is left at a node that has been deleted: following the pointers skips finished tasks
  only. So the loop of \<^verbatim>\<open>assignTask\<close> ends at the next task that is not finished.
\<close>

subsection \<open>The next task that is not finished\<close>

definition open_from :: "bool list \<Rightarrow> nat \<Rightarrow> nat option" where
  "open_from st i = find (\<lambda>t. \<not> st ! t) [i..<length st]"

text \<open>Round the circle.\<close>

definition next_open :: "bool list \<Rightarrow> nat \<Rightarrow> nat option" where
  "next_open st i = (case open_from st i of Some t \<Rightarrow> Some t | None \<Rightarrow> open_from st 0)"

lemma open_from_step:
  "i < length st \<Longrightarrow> open_from st i = (if st ! i then open_from st (Suc i) else Some i)"
  "length st \<le> i \<Longrightarrow> open_from st i = None"
  by (simp_all add: open_from_def upt_conv_Cons)

lemma open_from_skip:
  assumes "i \<le> j" "\<And>r. i \<le> r \<Longrightarrow> r < j \<Longrightarrow> st ! r" "j \<le> length st"
  shows "open_from st i = open_from st j"
  using assms
proof (induction "j - i" arbitrary: i)
  case (Suc d)
  then have "i < j" by simp
  then have "open_from st i = open_from st (Suc i)" using Suc.prems by (simp add: open_from_step(1))
  also have "\<dots> = open_from st j" using Suc \<open>i < j\<close> by (intro Suc.hyps(1)) auto
  finally show ?case .
qed simp

lemma open_from_Some: "open_from st i = Some t \<Longrightarrow> i \<le> t \<and> t < length st \<and> \<not> st ! t"
  by (auto simp: open_from_def find_Some_iff)

lemma open_from_None: "open_from st i = None \<longleftrightarrow> (\<forall>t. i \<le> t \<and> t < length st \<longrightarrow> st ! t)"
  by (auto simp: open_from_def find_None_iff)

lemma next_open_Some: "next_open st i = Some t \<Longrightarrow> t < length st \<and> \<not> st ! t"
  by (auto simp: next_open_def open_from_Some split: option.splits)

lemma next_open_None: "next_open st i = None \<longleftrightarrow> (\<forall>t < length st. st ! t)"
  by (auto simp: next_open_def open_from_None dest: open_from_Some split: option.splits)

subsection \<open>Links\<close>

text \<open>
  The head is at \<open>hdp\<close>, the node of task \<open>i\<close> at \<open>b + i\<close>. Position 0 is the head as the start of the
  list, position \<open>i + 1\<close> the node of task \<open>i\<close>, and position \<open>n + 1\<close> the head as its end.
\<close>

definition apos :: "nat \<Rightarrow> nat \<Rightarrow> nat \<Rightarrow> nat \<Rightarrow> nat" where
  "apos hdp b n p = (if p = 0 \<or> p = n + 1 then hdp else b + p - 1)"

definition ring_at :: "nat \<Rightarrow> nat \<Rightarrow> nat \<Rightarrow> nat set" where
  "ring_at hdp b n = insert hdp {b..<b + n}"

definition next_ok :: "TaskNode list \<Rightarrow> nat \<Rightarrow> nat \<Rightarrow> bool list \<Rightarrow> nat \<Rightarrow> bool" where
  "next_ok h hdp b st p =
     (\<exists>q. p < q \<and> q \<le> length st + 1 \<and> tn_next (h ! apos hdp b (length st) p) = Some (apos hdp b (length st) q) \<and>
        (\<forall>r. p < r \<and> r < q \<longrightarrow> st ! (r - 1)))"

definition prev_ok :: "TaskNode list \<Rightarrow> nat \<Rightarrow> nat \<Rightarrow> bool list \<Rightarrow> nat \<Rightarrow> bool" where
  "prev_ok h hdp b st q =
     (\<exists>p. p < q \<and> tn_prev (h ! apos hdp b (length st) q) = Some (apos hdp b (length st) p) \<and>
        (\<forall>r. p < r \<and> r < q \<longrightarrow> st ! (r - 1)))"

definition links :: "TaskNode list \<Rightarrow> nat \<Rightarrow> nat \<Rightarrow> bool list \<Rightarrow> bool" where
  "links h hdp b st =
     (hdp < length h \<and> b + length st \<le> length h \<and> (hdp < b \<or> b + length st \<le> hdp) \<and>
      (\<forall>i < length st. taskId (h ! (b + i)) = int i) \<and>
      (\<forall>p \<le> length st. next_ok h hdp b st p) \<and>
      (\<forall>q. 0 < q \<and> q \<le> length st + 1 \<longrightarrow> prev_ok h hdp b st q))"

lemma linksD:
  assumes "links h hdp b st"
  shows "hdp < length h" "b + length st \<le> length h" "hdp < b \<or> b + length st \<le> hdp"
    "i < length st \<Longrightarrow> taskId (h ! (b + i)) = int i" "p \<le> length st \<Longrightarrow> next_ok h hdp b st p"
    "0 < q \<Longrightarrow> q \<le> length st + 1 \<Longrightarrow> prev_ok h hdp b st q"
  using assms by (auto simp: links_def)

lemma apos_inj:
  assumes "hdp < b \<or> b + n \<le> hdp" "apos hdp b n p = apos hdp b n q"
  shows "p \<le> n \<Longrightarrow> q \<le> n \<Longrightarrow> p = q" "0 < p \<Longrightarrow> p \<le> n + 1 \<Longrightarrow> 0 < q \<Longrightarrow> q \<le> n + 1 \<Longrightarrow> p = q"
  using assms by (auto simp: apos_def split: if_splits)

lemma apos_valid: "links h hdp b st \<Longrightarrow> p \<le> length st + 1 \<Longrightarrow> apos hdp b (length st) p < length h"
  using linksD(1,2) [of h hdp b st] by (auto simp: apos_def)

lemma apos_ring: "p \<le> n + 1 \<Longrightarrow> apos hdp b n p \<in> ring_at hdp b n"
  by (auto simp: apos_def ring_at_def)

text \<open>Only the nodes of the list matter, and finishing a task keeps everything.\<close>

lemma links_frame:
  assumes "links h hdp b st" "length h \<le> length h'" "\<And>a. a \<in> ring_at hdp b (length st) \<Longrightarrow> h' ! a = h ! a"
  shows "links h' hdp b st"
proof -
  have a: "h' ! apos hdp b (length st) p = h ! apos hdp b (length st) p" if "p \<le> length st + 1" for p
    using assms(3) apos_ring [OF that] by blast
  have "h' ! (b + i) = h ! (b + i)" if "i < length st" for i using assms(3) that by (simp add: ring_at_def)
  then show ?thesis using assms(1,2) a unfolding links_def next_ok_def prev_ok_def by auto
qed

lemma ok_mono:
  assumes "length st' = length st" "\<And>r. r < length st \<Longrightarrow> st ! r \<Longrightarrow> st' ! r"
  shows "next_ok h hdp b st p \<Longrightarrow> next_ok h hdp b st' p"
    "q \<le> length st + 1 \<Longrightarrow> prev_ok h hdp b st q \<Longrightarrow> prev_ok h hdp b st' q"
proof -
  have m: "st' ! (r - 1)" if "st ! (r - 1)" "p < r" "r < q" "q \<le> length st + 1" for p q r using assms(2) [of "r - 1"] that by simp
  show "next_ok h hdp b st p \<Longrightarrow> next_ok h hdp b st' p"
    unfolding next_ok_def assms(1) using m by blast
  show "q \<le> length st + 1 \<Longrightarrow> prev_ok h hdp b st q \<Longrightarrow> prev_ok h hdp b st' q"
    unfolding prev_ok_def assms(1) using m by blast
qed

lemma links_finish:
  assumes "links h hdp b st"
  shows "links h hdp b (st[i := True])"
proof -
  have m: "st[i := True] ! r" if "r < length st" "st ! r" for r using that by (cases "i = r") simp_all
  note ok = ok_mono [of "st[i := True]" st, OF length_list_update m]
  show ?thesis using assms ok unfolding links_def by simp
qed

subsection \<open>Deleting a finished task\<close>

text \<open>The node may have been deleted before.\<close>

definition ring_step :: "nat \<Rightarrow> nat \<Rightarrow> bool list \<Rightarrow> TaskNode list \<Rightarrow> TaskNode list \<Rightarrow> bool" where
  "ring_step hdp b st h h' =
     (links h' hdp b st \<and> length h' = length h \<and> (\<forall>a. a \<notin> ring_at hdp b (length st) \<longrightarrow> h' ! a = h ! a))"

lemma ring_step_refl: "links h hdp b st \<Longrightarrow> ring_step hdp b st h h"
  by (simp add: ring_step_def)

lemma ring_step_trans: "ring_step hdp b st h h' \<Longrightarrow> ring_step hdp b st h' h'' \<Longrightarrow> ring_step hdp b st h h''"
  by (simp add: ring_step_def)

lemma DeleteNode_ring:
  assumes l: "links h hdp b st" and p: "0 < p" "p \<le> length st" and fin: "st ! (p - 1)"
  shows "\<exists>h' q. DeleteNode h (Some (apos hdp b (length st) p)) = Inr h' \<and> ring_step hdp b st h h' \<and>
    tload h' (Some (apos hdp b (length st) p)) = Inr (h' ! apos hdp b (length st) p) \<and>
    tn_next (h' ! apos hdp b (length st) p) = Some (apos hdp b (length st) q) \<and>
    p < q \<and> q \<le> length st + 1 \<and> (\<forall>r. p < r \<and> r < q \<longrightarrow> st ! (r - 1))"
proof -
  let ?n = "length st"
  let ?at = "apos hdp b ?n"
  note inj = apos_inj [OF linksD(3) [OF l]] and val = apos_valid [OF l]
  obtain q where q: "p < q" "q \<le> ?n + 1" "tn_next (h ! ?at p) = Some (?at q)" "\<forall>r. p < r \<and> r < q \<longrightarrow> st ! (r - 1)"
    using linksD(5) [OF l p(2)] unfolding next_ok_def by blast
  obtain k where k: "k < p" "tn_prev (h ! ?at p) = Some (?at k)" "\<forall>r. k < r \<and> r < p \<longrightarrow> st ! (r - 1)"
    using linksD(6) [OF l p(1)] p(2) unfolding prev_ok_def by auto
  have kq: "\<forall>r. k < r \<and> r < q \<longrightarrow> st ! (r - 1)" using q(4) k(3) fin by (metis nat_neq_iff)
  have ne: "?at k \<noteq> ?at p" "?at q \<noteq> ?at p" using inj(1) [of k p] inj(2) [of q p] p k(1) q(1,2) by auto
  define h1 where "h1 = h[?at k := (h ! ?at k)\<lparr>tn_next := Some (?at q)\<rparr>]"
  define h' where "h' = h1[?at q := (h1 ! ?at q)\<lparr>tn_prev := Some (?at k)\<rparr>]"
  have vk: "?at k < length h" "?at p < length h" "?at q < length h" using val p k(1) q(2) by auto
  have del: "DeleteNode h (Some (?at p)) = Inr h'"
    using vk ne q(3) k(2) by (simp add: DeleteNode_def tload_def tstore_def h1_def h'_def)
  have nxt: "tn_next (h' ! a) = (if a = ?at k then Some (?at q) else tn_next (h ! a))" for a
    using vk by (auto simp: h'_def h1_def nth_list_update)
  have prv: "tn_prev (h' ! a) = (if a = ?at q then Some (?at k) else tn_prev (h ! a))" for a
    using vk by (auto simp: h'_def h1_def nth_list_update)
  have idn: "taskId (h' ! a) = taskId (h ! a)" for a using vk by (auto simp: h'_def h1_def nth_list_update)
  have "next_ok h' hdp b st r" if "r \<le> ?n" for r
  proof (cases "r = k")
    case True
    then show ?thesis using q(1,2) k(1) kq unfolding next_ok_def nxt by (intro exI [of _ q]) auto
  next
    case False
    then have "?at r \<noteq> ?at k" using inj(1) [of r k] that k(1) p(2) by auto
    then show ?thesis using linksD(5) [OF l that] unfolding next_ok_def nxt by simp
  qed
  moreover have "prev_ok h' hdp b st r" if "0 < r" "r \<le> ?n + 1" for r
  proof (cases "r = q")
    case True
    then show ?thesis using q(1) k(1) kq unfolding prev_ok_def prv by (intro exI [of _ k]) auto
  next
    case False
    then have "?at r \<noteq> ?at q" using inj(2) [of r q] that q(1,2) by auto
    then show ?thesis using linksD(6) [OF l that] unfolding prev_ok_def prv by simp
  qed
  moreover have len: "length h' = length h" by (simp add: h'_def h1_def)
  ultimately have "links h' hdp b st" using linksD(1-4) [OF l] unfolding links_def idn by auto
  moreover have "h' ! a = h ! a" if "a \<notin> ring_at hdp b ?n" for a
  proof -
    have "a \<noteq> ?at k" "a \<noteq> ?at q" using that apos_ring [of k ?n hdp b] apos_ring [of q ?n hdp b] p k(1) q(2) by auto
    then show ?thesis by (simp add: h'_def h1_def)
  qed
  ultimately show ?thesis
    using del q ne len vk nxt by (intro exI [of _ h'] exI [of _ q]) (auto simp: ring_step_def tload_def)
qed


subsection \<open>The loop ends at the next task\<close>

lemma apos_task: "t < n \<Longrightarrow> apos hdp b n (Suc t) = b + t"
  by (simp add: apos_def)

lemma task_not_head: "links h hdp b st \<Longrightarrow> 0 < p \<Longrightarrow> p \<le> length st \<Longrightarrow> apos hdp b (length st) p \<noteq> hdp"
  using linksD(3) [of h hdp b st] by (auto simp: apos_def)

lemma load_task:
  assumes "links h hdp b st" "0 < p" "p \<le> length st"
  shows "tload h (Some (apos hdp b (length st) p)) = Inr (h ! apos hdp b (length st) p)"
    "taskId (h ! apos hdp b (length st) p) = int (p - 1)" "index st (int (p - 1)) = Inr (st ! (p - 1))"
proof -
  have a: "apos hdp b (length st) p = b + (p - 1)" using assms by (simp add: apos_def)
  then show "taskId (h ! apos hdp b (length st) p) = int (p - 1)" using linksD(4) [OF assms(1), of "p - 1"] assms(2,3) by simp
  show "tload h (Some (apos hdp b (length st) p)) = Inr (h ! apos hdp b (length st) p)"
    using apos_valid [OF assms(1), of p] assms(3) by (simp add: tload_def)
  show "index st (int (p - 1)) = Inr (st ! (p - 1))" using assms(2,3) by (simp add: index_def len_def del: of_nat_diff)
qed

text \<open>One turn at a node.\<close>

lemma find_task_turn:
  assumes l: "links h hdp b st" and p: "0 < p" "p \<le> length st"
  shows "find_task (Suc fuel) h (Some hdp) st (Some (apos hdp b (length st) p)) =
      (if st ! (p - 1) then
        (case DeleteNode h (Some (apos hdp b (length st) p)) of Inl e \<Rightarrow> Inl e
         | Inr h' \<Rightarrow> bindE (tload h' (Some (apos hdp b (length st) p))) (\<lambda>nd. find_task fuel h' (Some hdp) st (tn_next nd)))
       else Inr (Some (h, Some (apos hdp b (length st) p))))"
  using task_not_head [OF l p] load_task [OF l p] by (simp add: bindE_def split: sum.split)

declare find_task.simps(2) [simp del]

lemma find_task_ahead:
  assumes "links h hdp b st" "0 < p" "p \<le> length st" "open_from st (p - 1) = Some t" "length st + 2 - p \<le> fuel"
  shows "\<exists>h'. find_task fuel h (Some hdp) st (Some (apos hdp b (length st) p)) = Inr (Some (h', Some (b + t))) \<and> ring_step hdp b st h h'"
  using assms
proof (induction "length st + 1 - p" arbitrary: p h fuel rule: less_induct)
  case less
  let ?at = "apos hdp b (length st)"
  obtain f where f: "fuel = Suc f" using less.prems(3,5) by (cases fuel) auto
  show ?case
  proof (cases "st ! (p - 1)")
    case False
    then have "t = p - 1" using less.prems(2-4) open_from_step(1) [of "p - 1" st] by simp
    then show ?thesis
      using False f find_task_turn [OF less.prems(1-3), of f] less.prems(2,3) ring_step_refl [OF less.prems(1)] apos_task [of t "length st" hdp b] by simp
  next
    case True
    from DeleteNode_ring [OF less.prems(1-3) True] obtain h' q where d: "DeleteNode h (Some (?at p)) = Inr h'" "ring_step hdp b st h h'"
      "tload h' (Some (?at p)) = Inr (h' ! ?at p)" "tn_next (h' ! ?at p) = Some (?at q)"
      "p < q" "q \<le> length st + 1" "\<forall>r. p < r \<and> r < q \<longrightarrow> st ! (r - 1)" by blast
    have "st ! r" if "p - 1 \<le> r" "r < q - 1" for r
    proof (cases "r = p - 1")
      case False
      then have "p < Suc r" "Suc r < q" using that by linarith+
      with d(7) [rule_format, of "Suc r"] show ?thesis by simp
    qed (use True in simp)
    then have "open_from st (p - 1) = open_from st (q - 1)" using d(5,6) by (intro open_from_skip) auto
    with less.prems(4) have o: "open_from st (q - 1) = Some t" by simp
    then have "q \<le> length st" using d(5) open_from_Some [OF o] by auto
    moreover have "links h' hdp b st" using d(2) by (simp add: ring_step_def)
    moreover have "length st + 1 - q < length st + 1 - p" "length st + 2 - q \<le> f"
      using d(5) \<open>q \<le> length st\<close> less.prems(3,5) f by linarith+
    ultimately obtain h'' where "find_task f h' (Some hdp) st (Some (?at q)) = Inr (Some (h'', Some (b + t)))" "ring_step hdp b st h' h''"
      using less.hyps [of q h' f] d(5) o by auto
    then show ?thesis
      using True f d find_task_turn [OF less.prems(1-3), of f] ring_step_trans [OF d(2)] by auto
  qed
qed

lemma find_task_head:
  assumes l: "links h hdp b st" and "open_from st 0 = Some t" "length st + 2 \<le> fuel"
  shows "\<exists>h'. find_task fuel h (Some hdp) st (Some hdp) = Inr (Some (h', Some (b + t))) \<and> ring_step hdp b st h h'"
proof -
  let ?at = "apos hdp b (length st)"
  obtain f where f: "fuel = Suc f" using assms(3) by (cases fuel) auto
  obtain q where q: "0 < q" "q \<le> length st + 1" "tn_next (h ! hdp) = Some (?at q)" "\<forall>r. 0 < r \<and> r < q \<longrightarrow> st ! (r - 1)"
    using linksD(5) [OF l, of 0] by (auto simp: next_ok_def apos_def)
  have "open_from st 0 = open_from st (q - 1)"
    using q(1,2) q(4) [rule_format, of "Suc _"] by (intro open_from_skip) auto
  with assms(2) have o: "open_from st (q - 1) = Some t" by simp
  then have "q \<le> length st" using open_from_Some [OF o] q(1) by auto
  from find_task_ahead [OF l q(1) this o, of f] assms(3) f q(1,3) linksD(1) [OF l] show ?thesis
    by (simp add: tload_def find_task.simps(2))
qed

lemma find_task_ring:
  assumes "links h hdp b st" "0 < p" "p \<le> length st + 1" "next_open st (p - 1) = Some t" "2 * length st + 3 \<le> fuel + p"
  shows "\<exists>h'. find_task fuel h (Some hdp) st (Some (apos hdp b (length st) p)) = Inr (Some (h', Some (b + t))) \<and> ring_step hdp b st h h'"
  using assms
proof (induction "length st + 1 - p" arbitrary: p h fuel rule: less_induct)
  case less
  let ?at = "apos hdp b (length st)"
  show ?case
  proof (cases "open_from st (p - 1)")
    case (Some u)
    then have "u = t" using less.prems(4) by (simp add: next_open_def)
    moreover have "p \<le> length st" using open_from_Some [OF Some] less.prems(2) by auto
    ultimately show ?thesis using find_task_ahead [OF less.prems(1,2), of u fuel] Some less.prems(5) by simp
  next
    case None
    then have o: "open_from st 0 = Some t" using less.prems(4) by (simp add: next_open_def)
    show ?thesis
    proof (cases "p = length st + 1")
      case True
      then show ?thesis using find_task_head [OF less.prems(1) o, of fuel] less.prems(5) by (simp add: apos_def)
    next
      case False
      then have pn: "p \<le> length st" using less.prems(3) by simp
      have True: "st ! (p - 1)" using None pn less.prems(2) by (simp add: open_from_None)
      obtain f where f: "fuel = Suc f" using less.prems(5) pn by (cases fuel) auto
      from DeleteNode_ring [OF less.prems(1,2) pn True] obtain h' q where d: "DeleteNode h (Some (?at p)) = Inr h'" "ring_step hdp b st h h'"
        "tload h' (Some (?at p)) = Inr (h' ! ?at p)" "tn_next (h' ! ?at p) = Some (?at q)"
        "p < q" "q \<le> length st + 1" by blast
      have "open_from st (q - 1) = None" using None d(5) by (auto simp: open_from_None)
      then have "next_open st (q - 1) = Some t" using o by (simp add: next_open_def)
      moreover have "links h' hdp b st" using d(2) by (simp add: ring_step_def)
      moreover have "length st + 1 - q < length st + 1 - p" "2 * length st + 3 \<le> f + q"
        using d(5) pn less.prems(5) f by linarith+
      ultimately obtain h'' where "find_task f h' (Some hdp) st (Some (?at q)) = Inr (Some (h'', Some (b + t)))" "ring_step hdp b st h' h''"
        using less.hyps [of q h' f] d(5,6) by auto
      then show ?thesis
        using True f d find_task_turn [OF less.prems(1,2) pn, of f] ring_step_trans [OF d(2)] by auto
    qed
  qed
qed

end
