(* ===== verification/Mr_Invariant.thy ===== *)
theory Mr_Invariant
  imports Mr_Tasks
begin

section \<open>MapReduce: the invariant of the master\<close>

text \<open>
  The states that the master of \<^verbatim>\<open>src/mr/master.go\<close> can reach from \<^verbatim>\<open>MakeMaster\<close> by requests, and what
  holds in all of them: the counters count, the lists of tasks are linked, and each
  result file has been renamed once.
\<close>

subsection \<open>Building the lists\<close>

definition ring_full :: "TaskNode list \<Rightarrow> nat \<Rightarrow> nat \<Rightarrow> nat \<Rightarrow> bool" where
  "ring_full h hdp b k =
     (length h = b + k \<and> hdp < b \<and> (\<forall>i < k. taskId (h ! (b + i)) = int i) \<and>
      (\<forall>p \<le> k. tn_next (h ! apos hdp b k p) = Some (apos hdp b k (p + 1))) \<and>
      (\<forall>q. 0 < q \<and> q \<le> k + 1 \<longrightarrow> tn_prev (h ! apos hdp b k q) = Some (apos hdp b k (q - 1))))"

lemma ring_full_links: "ring_full h hdp b k \<Longrightarrow> links h hdp b (replicate k False)"
proof -
  assume r: "ring_full h hdp b k"
  have "next_ok h hdp b (replicate k False) p" if "p \<le> k" for p
    using r that unfolding next_ok_def ring_full_def by (intro exI [of _ "p + 1"]) auto
  moreover have "prev_ok h hdp b (replicate k False) q" if "0 < q" "q \<le> k + 1" for q
    using r that unfolding prev_ok_def ring_full_def by (intro exI [of _ "q - 1"]) auto
  ultimately show ?thesis using r by (simp add: links_def ring_full_def)
qed

lemma AddNode_ring:
  assumes r: "ring_full h hdp b k"
  shows "\<exists>h'. AddNode (h @ [new_TaskNode (int k)]) (Some hdp) (Some (length h)) = Inr h' \<and> ring_full h' hdp b (k + 1) \<and>
    (\<forall>a < b. a \<noteq> hdp \<longrightarrow> h' ! a = h ! a)"
proof -
  let ?at = "apos hdp b k" and ?n = "length h"
  let ?g = "h @ [new_TaskNode (int k)]"
  have n: "?n = b + k" and hb: "hdp < b" and ids: "\<And>i. i < k \<Longrightarrow> taskId (h ! (b + i)) = int i"
    and nx: "\<And>p. p \<le> k \<Longrightarrow> tn_next (h ! ?at p) = Some (?at (p + 1))"
    and pv: "\<And>q. 0 < q \<Longrightarrow> q \<le> k + 1 \<Longrightarrow> tn_prev (h ! ?at q) = Some (?at (q - 1))"
    using r by (auto simp: ring_full_def)
  let ?t = "?at k"
  have t: "tn_prev (h ! hdp) = Some ?t" using pv [of "k + 1"] by (simp add: apos_def)
  have v: "?t < ?n" "hdp < ?n" using n hb by (auto simp: apos_def)
  define h' where "h' = (let g = ?g[?t := (?g ! ?t)\<lparr>tn_next := Some ?n\<rparr>];
      g = g[?n := (g ! ?n)\<lparr>tn_prev := Some ?t\<rparr>]; g = g[?n := (g ! ?n)\<lparr>tn_next := Some hdp\<rparr>]
    in g[hdp := (g ! hdp)\<lparr>tn_prev := Some ?n\<rparr>])"
  have add: "AddNode ?g (Some hdp) (Some ?n) = Inr h'"
    using v t by (simp add: AddNode_def tload_def tstore_def nth_append h'_def Let_def)
  have f: "length h' = b + (k + 1)"
    "tn_next (h' ! a) = (if a = ?t then Some ?n else if a = ?n then Some hdp else tn_next (?g ! a))"
    "tn_prev (h' ! a) = (if a = hdp then Some ?n else if a = ?n then Some ?t else tn_prev (?g ! a))"
    "taskId (h' ! a) = taskId (?g ! a)" for a
    using v n by (simp_all add: h'_def Let_def nth_list_update)
  have at: "apos hdp b (k + 1) p = ?at p" if "p \<le> k" for p using that by (simp add: apos_def)
  have new: "apos hdp b (k + 1) (k + 1) = ?n" "apos hdp b (k + 1) (k + 2) = hdp" using n by (simp_all add: apos_def)
  have inj: "?at p = ?at q \<Longrightarrow> p = q" if "p \<le> k" "q \<le> k" for p q using apos_inj(1) [of hdp b k p q] hb that by simp
  have old: "?at p < ?n" if "p \<le> k" for p using that n hb by (auto simp: apos_def)
  have nx': "tn_next (h' ! apos hdp b (k + 1) p) = Some (apos hdp b (k + 1) (p + 1))" if pk: "p \<le> k + 1" for p
  proof -
    consider "p = k + 1" | "p = k" | "p < k" using pk by linarith
    then show ?thesis
    proof cases
      case 3
      then show ?thesis using nx [of p] inj [of p k] old [of p] at [of p] at [of "p + 1"] by (auto simp: f nth_append)
    qed (use new at [of k] v in \<open>auto simp: f\<close>)
  qed
  have pv': "tn_prev (h' ! apos hdp b (k + 1) q) = Some (apos hdp b (k + 1) (q - 1))" if qk: "0 < q" "q \<le> k + 2" for q
  proof -
    consider "q = k + 2" | "q = k + 1" | "q \<le> k" using qk by linarith
    then show ?thesis
    proof cases
      case 3
      then have "?at q \<noteq> hdp" using qk(1) hb by (auto simp: apos_def)
      then show ?thesis using 3 qk pv [of q] old [of q] at [of q] at [of "q - 1"] by (auto simp: f nth_append)
    qed (use new at [of k] v in \<open>auto simp: f\<close>)
  qed
  have "taskId (h' ! (b + i)) = int i" if "i < k + 1" for i
    using that ids [of i] n by (cases "i = k") (auto simp: f nth_append new_TaskNode_def)
  then have "ring_full h' hdp b (k + 1)" using f(1) hb nx' pv' by (simp add: ring_full_def)
  moreover have "h' ! a = h ! a" if "a < b" "a \<noteq> hdp" for a
  proof -
    have "a \<noteq> ?t" "a \<noteq> ?n" using that n by (auto simp: apos_def)
    then show ?thesis using that n by (simp add: h'_def Let_def nth_append)
  qed
  ultimately show ?thesis using add by blast
qed

lemma add_tasks_ring:
  "ring_full h hdp b k \<Longrightarrow> \<exists>h'. add_tasks h (Some hdp) (int k) m = Inr h' \<and> ring_full h' hdp b (k + m) \<and>
    (\<forall>a < b. a \<noteq> hdp \<longrightarrow> h' ! a = h ! a)"
proof (induction m arbitrary: h k)
  case (Suc m)
  from AddNode_ring [OF Suc.prems] obtain h1 where 1: "AddNode (h @ [new_TaskNode (int k)]) (Some hdp) (Some (length h)) = Inr h1"
    "ring_full h1 hdp b (k + 1)" "\<forall>a < b. a \<noteq> hdp \<longrightarrow> h1 ! a = h ! a" by blast
  from Suc.IH [OF 1(2)] obtain h' where "add_tasks h1 (Some hdp) (int (k + 1)) m = Inr h'" "ring_full h' hdp b (k + 1 + m)"
    "\<forall>a < b. a \<noteq> hdp \<longrightarrow> h' ! a = h1 ! a" by blast
  with 1 show ?case by (simp add: add.commute)
qed auto


subsection \<open>The invariant\<close>

definition open_count :: "bool list \<Rightarrow> int" where
  "open_count st = len (filter Not st)"

definition out_name :: "nat \<Rightarrow> string" where
  "out_name i = ''mr-out-'' @ Itoa (int i)"

definition finished_tasks :: "bool list \<Rightarrow> nat set" where
  "finished_tasks st = {i. i < length st \<and> st ! i}"

definition master_inv :: "string list \<Rightarrow> nat \<Rightarrow> Master \<Rightarrow> bool" where
  "master_inv files nR m =
     (MapTasks m = files \<and> length (MapStatus m) = length files \<and> length (ReduceTasks m) = length files \<and>
      length (ReduceStatus m) = nR \<and> Nreduce m = int nR \<and> MapFinished m = open_count (MapStatus m) \<and>
      ReduceFinished m = open_count (ReduceStatus m) \<and> MapHead m = Some 0 \<and> ReduceHead m = Some 1 \<and>
      links (tnodes m) 0 2 (MapStatus m) \<and> links (tnodes m) 1 (2 + length files) (ReduceStatus m) \<and>
      (0 < MapFinished m \<longrightarrow> (\<exists>p. 0 < p \<and> p \<le> length files + 1 \<and> MapPointer m = Some (apos 0 2 (length files) p))) \<and>
      ReducePointer m = Some (apos 1 (2 + length files) nR 1) \<and>
      (\<exists>order. distinct order \<and> set order = finished_tasks (ReduceStatus m) \<and> map snd (renames m) = map out_name order))"

lemma open_count_finish: "i < length st \<Longrightarrow> \<not> st ! i \<Longrightarrow> open_count (st[i := True]) = open_count st - 1"
proof (induction st arbitrary: i)
  case (Cons x st)
  then show ?case by (cases i) (auto simp: open_count_def)
qed simp

lemma open_count_pos: "0 < open_count st \<longleftrightarrow> False \<in> set st" "0 \<le> open_count st"
  by (auto simp: open_count_def len_pos filter_empty_conv)

lemma open_count_zero: "open_count st = 0 \<longleftrightarrow> False \<notin> set st"
  using open_count_pos [of st] by linarith

lemma next_open_exists: "False \<in> set st \<Longrightarrow> \<exists>t. next_open st i = Some t"
proof -
  assume "False \<in> set st"
  then have "next_open st i \<noteq> None" by (auto simp: next_open_None in_set_conv_nth)
  then show ?thesis by blast
qed

lemma MakeMaster_inv:
  "\<exists>m. MakeMaster files nR = Inr m \<and> master_inv files nR m"
proof -
  let ?F = "length files"
  define h0 where "h0 = [\<lparr>taskId = -1, tn_next = Some 0, tn_prev = Some 0\<rparr>, \<lparr>taskId = -1, tn_next = Some 1, tn_prev = Some 1\<rparr>]"
  have init: "bindE (InitHead [new_TaskNode 0, new_TaskNode 0] (Some 0)) (\<lambda>h. InitHead h (Some 1)) = Inr h0"
    by (simp add: InitHead_def tstore_def new_TaskNode_def h0_def)
  have "ring_full h0 0 2 0" by (auto simp: ring_full_def h0_def apos_def)
  from add_tasks_ring [OF this, of ?F] obtain h1 where 1: "add_tasks h0 (Some 0) 0 ?F = Inr h1" "ring_full h1 0 2 ?F" "h1 ! 1 = h0 ! 1" by auto
  then have r1: "ring_full h1 1 (2 + ?F) 0"
    by (auto simp: ring_full_def h0_def apos_def)
  from add_tasks_ring [OF this, of nR] obtain h2 where 2: "add_tasks h1 (Some 1) 0 nR = Inr h2" "ring_full h2 1 (2 + ?F) nR"
    "\<forall>a < 2 + ?F. a \<noteq> 1 \<longrightarrow> h2 ! a = h1 ! a" by auto
  have l2: "links h2 1 (2 + ?F) (replicate nR False)" by (rule ring_full_links [OF 2(2)])
  have lens: "length h1 = 2 + ?F" "length h2 = 2 + ?F + nR" using 1(2) 2(2) by (simp_all add: ring_full_def)
  have l1: "links h2 0 2 (replicate ?F False)"
    using 2(3) lens by (intro links_frame [OF ring_full_links [OF 1(2)]]) (auto simp: ring_at_def)
  have nx1: "tn_next (h2 ! 0) = Some (apos 0 2 ?F 1)"
    using 1(2) 2(3) unfolding ring_full_def by (auto simp: apos_def)
  have nx2: "tn_next (h2 ! 1) = Some (apos 1 (2 + ?F) nR 1)"
    using 2(2) unfolding ring_full_def by (auto simp: apos_def)
  have "h2 \<noteq> []" using lens by auto
  have "MakeMaster files nR =
      Inr \<lparr>MapTasks = files, ReduceTasks = replicate ?F 0, MapStatus = replicate ?F False,
           ReduceStatus = replicate nR False, MapFinished = len files, ReduceFinished = int nR,
           Nreduce = int nR, tnodes = h2, MapHead = Some 0, ReduceHead = Some 1,
           MapPointer = tn_next (h2 ! 0), ReducePointer = tn_next (h2 ! 1), workers = 0, renames = []\<rparr>"
    using init 1(1) 2(1) lens \<open>h2 \<noteq> []\<close> by (simp add: MakeMaster_def Let_def bindE_assoc [symmetric] tload_def)
  moreover have "open_count (replicate k False) = int k" for k by (induction k) (auto simp: open_count_def)
  moreover have "finished_tasks (replicate nR False) = {}" by (simp add: finished_tasks_def)
  ultimately show ?thesis using l1 l2 nx1 nx2 by (simp add: master_inv_def len_def) (intro impI exI [of _ "Suc 0"]; simp)
qed


subsection \<open>Requests keep it\<close>

definition args_ok :: "string list \<Rightarrow> nat \<Rightarrow> StateArgs \<Rightarrow> bool" where
  "args_ok files nR args =
     (a_Finished args \<longrightarrow>
        (a_Cat args = 1 \<longrightarrow> 0 \<le> a_TaskId args \<and> a_TaskId args < len files) \<and>
        (a_Cat args = 2 \<longrightarrow> 0 \<le> a_TaskId args \<and> a_TaskId args < int nR))"

lemma master_invD:
  assumes "master_inv files nR m"
  shows "MapTasks m = files" "length (MapStatus m) = length files" "length (ReduceTasks m) = length files"
    "length (ReduceStatus m) = nR" "Nreduce m = int nR" "MapFinished m = open_count (MapStatus m)"
    "ReduceFinished m = open_count (ReduceStatus m)" "MapHead m = Some 0" "ReduceHead m = Some 1"
    "links (tnodes m) 0 2 (MapStatus m)" "links (tnodes m) 1 (2 + length files) (ReduceStatus m)"
    "0 < MapFinished m \<Longrightarrow> \<exists>p. 0 < p \<and> p \<le> length files + 1 \<and> MapPointer m = Some (apos 0 2 (length files) p)"
    "ReducePointer m = Some (apos 1 (2 + length files) nR 1)"
    "\<exists>order. distinct order \<and> set order = finished_tasks (ReduceStatus m) \<and> map snd (renames m) = map out_name order"
  using assms unfolding master_inv_def by blast+

lemma report_map:
  assumes i: "master_inv files nR m" and t: "t < length files" "\<not> MapStatus m ! t"
  shows "master_inv files nR (m\<lparr>MapStatus := (MapStatus m)[t := True], MapFinished := MapFinished m - 1,
    ReduceTasks := (ReduceTasks m)[t := w]\<rparr>)"
proof -
  note d = master_invD [OF i]
  have c: "open_count ((MapStatus m)[t := True]) = MapFinished m - 1" using open_count_finish [of t "MapStatus m"] t d(2,6) by simp
  have "links (tnodes m) 0 2 ((MapStatus m)[t := True])" by (rule links_finish [OF d(10)])
  with c d show ?thesis unfolding master_inv_def by simp
qed

lemma report_reduce:
  assumes i: "master_inv files nR m" and t: "t < nR" "\<not> ReduceStatus m ! t"
  shows "master_inv files nR (m\<lparr>ReduceStatus := (ReduceStatus m)[t := True], ReduceFinished := ReduceFinished m - 1,
    renames := renames m @ [(f, out_name t)]\<rparr>)"
proof -
  note d = master_invD [OF i]
  have c: "open_count ((ReduceStatus m)[t := True]) = ReduceFinished m - 1" using open_count_finish [of t "ReduceStatus m"] t d(4,7) by simp
  have l: "links (tnodes m) 1 (2 + length files) ((ReduceStatus m)[t := True])" by (rule links_finish [OF d(11)])
  obtain order where o: "distinct order" "set order = finished_tasks (ReduceStatus m)" "map snd (renames m) = map out_name order" using d(14) by blast
  have "finished_tasks ((ReduceStatus m)[t := True]) = insert t (finished_tasks (ReduceStatus m))"
    using t d(4) by (auto simp: finished_tasks_def nth_list_update)
  moreover have "t \<notin> finished_tasks (ReduceStatus m)" using t by (simp add: finished_tasks_def)
  ultimately have "\<exists>order. distinct order \<and> set order = finished_tasks ((ReduceStatus m)[t := True]) \<and>
      map snd (renames m @ [(f, out_name t)]) = map out_name order"
    using o by (intro exI [of _ "order @ [t]"]) auto
  with c l d show ?thesis unfolding master_inv_def by simp
qed

lemma report_inv:
  assumes i: "master_inv files nR m" and a: "args_ok files nR args" "a_Finished args"
  shows "\<exists>m'. report_finished m args = Inr m' \<and> master_inv files nR m' \<and> workers m' = workers m"
proof -
  note d = master_invD [OF i]
  define t where "t = nat (a_TaskId args)"
  consider (map) "a_Cat args = 1" | (reduce) "a_Cat args = 2" | (other) "a_Cat args \<noteq> 1" "a_Cat args \<noteq> 2" by blast
  then show ?thesis
  proof cases
    case map
    then have t: "a_TaskId args = int t" "t < length files" using a by (auto simp: args_ok_def t_def len_def)
    show ?thesis
    proof (cases "MapStatus m ! t")
      case True
      then show ?thesis using map t d(2) i by (simp add: report_finished_def index_def len_def)
    next
      case False
      then show ?thesis using map t d(2,3) report_map [OF i t(2) False]
        by (simp add: report_finished_def index_def set_index_def len_def)
    qed
  next
    case reduce
    then have t: "a_TaskId args = int t" "t < nR" using a by (auto simp: args_ok_def t_def)
    show ?thesis
    proof (cases "ReduceStatus m ! t")
      case True
      then show ?thesis using reduce t d(4) i by (simp add: report_finished_def index_def len_def)
    next
      case False
      then show ?thesis using reduce t d(4) report_reduce [OF i t(2) False, of "a_FileName args"]
        by (simp add: report_finished_def index_def set_index_def len_def out_name_def)
    qed
  next
    case other
    then show ?thesis using i by (simp add: report_finished_def)
  qed
qed


subsection \<open>Assigning keeps it\<close>

text \<open>What a reply to an idle worker says of the state it leaves.\<close>

definition assigned :: "string list \<Rightarrow> nat \<Rightarrow> Master \<Rightarrow> StateReply \<Rightarrow> bool" where
  "assigned files nR m r =
     (if False \<in> set (MapStatus m) then
        r_Cat r = 1 \<and> r_Nreduce r = int nR \<and>
        (\<exists>t < length files. r_TaskId r = int t \<and> \<not> MapStatus m ! t \<and> r_FileName r = files ! t)
      else if False \<in> set (ReduceStatus m) then
        r_Cat r = 2 \<and> r_MapCount r = len files \<and> r_FileNames r = ReduceTasks m \<and>
        (\<exists>t < nR. r_TaskId r = int t \<and> \<not> ReduceStatus m ! t \<and> (\<forall>u < t. ReduceStatus m ! u))
      else r_Cat r = 0)"

lemma ring_other:
  assumes "ring_step hdp b st h h'" "links h hdp' b' st'" "ring_at hdp b (length st) \<inter> ring_at hdp' b' (length st') = {}"
  shows "links h' hdp' b' st'"
  using assms by (intro links_frame [OF assms(2)]) (auto simp: ring_step_def)

lemma task_next:
  assumes "links h hdp b st" "t < length st"
  shows "tload h (Some (b + t)) = Inr (h ! (b + t))" "taskId (h ! (b + t)) = int t"
    "\<exists>p. 0 < p \<and> p \<le> length st + 1 \<and> tn_next (h ! (b + t)) = Some (apos hdp b (length st) p)"
proof -
  show "taskId (h ! (b + t)) = int t" using linksD(4) [OF assms] .
  show "tload h (Some (b + t)) = Inr (h ! (b + t))" using linksD(2) [OF assms(1)] assms(2) by (simp add: tload_def)
  show "\<exists>p. 0 < p \<and> p \<le> length st + 1 \<and> tn_next (h ! (b + t)) = Some (apos hdp b (length st) p)"
    using linksD(5) [OF assms(1), of "Suc t"] assms(2) apos_task [OF assms(2), of hdp b] unfolding next_ok_def
    by (metis Suc_leI gr_zeroI less_zeroE)
qed

lemma assign_map:
  assumes i: "master_inv files nR m" and f: "2 * length files + 3 \<le> fuel" and o: "False \<in> set (MapStatus m)"
  shows "\<exists>m' r. assignTask fuel m reply = Inr (Some (m', r)) \<and> master_inv files nR m' \<and> assigned files nR m' r \<and>
    MapStatus m' = MapStatus m \<and> ReduceStatus m' = ReduceStatus m \<and> r_WorkerId r = r_WorkerId reply"
proof -
  note d = master_invD [OF i]
  let ?F = "length files"
  have pos: "0 < MapFinished m" using o open_count_pos(1) [of "MapStatus m"] d(6) by simp
  then obtain p where p: "0 < p" "p \<le> ?F + 1" "MapPointer m = Some (apos 0 2 ?F p)" using d(12) by blast
  obtain t where t: "next_open (MapStatus m) (p - 1) = Some t" using next_open_exists [OF o] by blast
  from find_task_ring [OF d(10) p(1) _ t, of fuel] p(2) f obtain h' where
    h': "find_task fuel (tnodes m) (Some 0) (MapStatus m) (Some (apos 0 2 ?F p)) = Inr (Some (h', Some (2 + t)))"
      "ring_step 0 2 (MapStatus m) (tnodes m) h'" unfolding d(2) by auto
  have l1: "links h' 0 2 (MapStatus m)" using h'(2) by (simp add: ring_step_def)
  have l2: "links h' 1 (2 + ?F) (ReduceStatus m)"
    by (rule ring_other [OF h'(2) d(11)]) (auto simp: ring_at_def d(2))
  have tF: "t < ?F" "\<not> MapStatus m ! t" using next_open_Some [OF t] d(2) by simp_all
  note tn = task_next [OF l1, unfolded d(2), OF tF(1)]
  let ?m = "m\<lparr>tnodes := h', MapPointer := tn_next (h' ! (2 + t))\<rparr>"
  let ?r = "reply\<lparr>r_Cat := 1, r_TaskId := int t, r_FileName := files ! t, r_Nreduce := int nR\<rparr>"
  have "assignTask fuel m reply = Inr (Some (?m, ?r))"
    using pos h'(1) tn(1,2) tF(1) d(1,5,8) p(3) by (simp add: assignTask_def Let_def index_def len_def)
  moreover have "master_inv files nR ?m" using d l1 l2 tn(3) unfolding master_inv_def by simp
  moreover have "assigned files nR ?m ?r" using o tF by (simp add: assigned_def)
  ultimately show ?thesis by (intro exI [of _ ?m] exI [of _ ?r]) simp
qed

lemma assign_reduce:
  assumes i: "master_inv files nR m" and f: "2 * nR + 3 \<le> fuel" and o: "False \<notin> set (MapStatus m)" "False \<in> set (ReduceStatus m)"
  shows "\<exists>m' r. assignTask fuel m reply = Inr (Some (m', r)) \<and> master_inv files nR m' \<and> assigned files nR m' r \<and>
    MapStatus m' = MapStatus m \<and> ReduceStatus m' = ReduceStatus m \<and> r_WorkerId r = r_WorkerId reply"
proof -
  note d = master_invD [OF i]
  let ?F = "length files"
  have zero: "MapFinished m = 0" using o(1) open_count_zero [of "MapStatus m"] d(6) by simp
  have pos: "0 < ReduceFinished m" using o(2) open_count_pos(1) [of "ReduceStatus m"] d(7) by simp
  obtain t where t: "next_open (ReduceStatus m) 0 = Some t" using next_open_exists [OF o(2)] by blast
  from find_task_ring [OF d(11), of 1 t fuel] t f obtain h' where
    h': "find_task fuel (tnodes m) (Some 1) (ReduceStatus m) (Some (apos 1 (2 + ?F) nR 1)) = Inr (Some (h', Some (2 + ?F + t)))"
      "ring_step 1 (2 + ?F) (ReduceStatus m) (tnodes m) h'" unfolding d(4) by auto
  have l2: "links h' 1 (2 + ?F) (ReduceStatus m)" using h'(2) by (simp add: ring_step_def)
  have l1: "links h' 0 2 (MapStatus m)"
    by (rule ring_other [OF h'(2) d(10)]) (auto simp: ring_at_def d(2))
  have tR: "t < nR" "\<not> ReduceStatus m ! t" using next_open_Some [OF t] d(4) by simp_all
  have least: "ReduceStatus m ! u" if "u < t" for u
    using t that tR d(4) by (auto simp: next_open_def open_from_def find_Some_iff split: option.splits)
  note tn = task_next [OF l2, unfolded d(4), OF tR(1)]
  let ?m = "m\<lparr>tnodes := h', MapPointer := tn_next (h' ! (2 + ?F + t))\<rparr>"
  let ?r = "reply\<lparr>r_Cat := 2, r_TaskId := int t, r_Nreduce := int nR, r_MapCount := len files, r_FileNames := ReduceTasks m\<rparr>"
  have "assignTask fuel m reply = Inr (Some (?m, ?r))"
    using zero pos h'(1) tn(1,2) d(2,5,9,13) by (simp add: assignTask_def Let_def len_def)
  moreover have "master_inv files nR ?m" using d l1 l2 zero unfolding master_inv_def by simp
  moreover have "assigned files nR ?m ?r" using o tR least by (auto simp: assigned_def)
  ultimately show ?thesis by (intro exI [of _ ?m] exI [of _ ?r]) simp
qed

lemma assign_inv:
  assumes i: "master_inv files nR m" and f: "2 * max (length files) nR + 3 \<le> fuel"
  shows "\<exists>m' r. assignTask fuel m reply = Inr (Some (m', r)) \<and> master_inv files nR m' \<and> assigned files nR m' r \<and>
    MapStatus m' = MapStatus m \<and> ReduceStatus m' = ReduceStatus m \<and> r_WorkerId r = r_WorkerId reply"
proof (cases "False \<in> set (MapStatus m)")
  case True
  then show ?thesis using assign_map [OF i _ True] f by simp
next
  case map: False
  show ?thesis
  proof (cases "False \<in> set (ReduceStatus m)")
    case True
    then show ?thesis using assign_reduce [OF i _ map True] f by simp
  next
    case False
    have "MapFinished m = 0" "ReduceFinished m = 0"
      using map False open_count_zero master_invD(6,7) [OF i] by simp_all
    then show ?thesis using i map False by (simp add: assignTask_def assigned_def)
  qed
qed

lemma request_inv:
  assumes i: "master_inv files nR m" and a: "args_ok files nR args" and f: "2 * max (length files) nR + 3 \<le> fuel"
  shows "\<exists>m' r. RequestHandler fuel m args zero_StateReply = Inr (Some (m', r)) \<and> master_inv files nR m' \<and>
    (a_Idle args \<longrightarrow> assigned files nR m' r)"
proof -
  obtain m1 where m1: "(if a_Finished args then report_finished m args else Inr m) = Inr m1" "master_inv files nR m1"
    using report_inv [OF i a] i by (cases "a_Finished args") auto
  have m2: "master_inv files nR (m1\<lparr>workers := workers m1 + 1\<rparr>)" using m1(2) unfolding master_inv_def by simp
  show ?thesis
    using m1(1) assign_inv [OF m1(2) f, of "zero_StateReply\<lparr>r_WorkerId := a_WorkerId args\<rparr>"]
      assign_inv [OF m2 f, of "zero_StateReply\<lparr>r_WorkerId := workers m1 + 1\<rparr>"] m1(2)
    by (cases "a_Idle args"; cases "a_WorkerId args = 0") (auto simp: RequestHandler_def Let_def)
qed

subsection \<open>Reachable masters\<close>

inductive master_reach :: "string list \<Rightarrow> nat \<Rightarrow> Master \<Rightarrow> bool" for files nR where
  reach_make: "MakeMaster files nR = Inr m \<Longrightarrow> master_reach files nR m"
| reach_request: "master_reach files nR m \<Longrightarrow> args_ok files nR args \<Longrightarrow>
    RequestHandler fuel m args zero_StateReply = Inr (Some (m', r)) \<Longrightarrow> 2 * max (length files) nR + 3 \<le> fuel \<Longrightarrow>
    master_reach files nR m'"

lemma reach_inv: "master_reach files nR m \<Longrightarrow> master_inv files nR m"
proof (induction rule: master_reach.induct)
  case (reach_make m)
  then show ?case using MakeMaster_inv [of files nR] by auto
next
  case (reach_request m args fuel m' r)
  then show ?case using request_inv [of files nR m args fuel] by auto
qed

end
