(* ===== verification/Mr_Worker.thy ===== *)
theory Mr_Worker
  imports Mr_Master "HOL-Library.Word" "HOL-Library.List_Lexorder" "HOL-Library.Char_ord"
begin

section \<open>MapReduce: the worker, the sequential program and the applications\<close>

text \<open>
  Models \<^verbatim>\<open>src/mr/worker.go\<close>, \<^verbatim>\<open>src/main/mrsequential.go\<close> and the applications \<^verbatim>\<open>wc.go\<close> and
  \<^verbatim>\<open>indexer.go\<close> of \<^verbatim>\<open>src/mrapps\<close>. The files are a map from paths to contents and the directory
  \<^verbatim>\<open>lab_interFiles\<close>, which the master makes, exists. Text is ASCII: a string is its
  characters and its bytes. The two functions of an application, \<^verbatim>\<open>sort.Sort\<close>, \<^verbatim>\<open>unicode.IsLetter\<close>
  and the order in which \<^verbatim>\<open>range\<close> visits a map are arguments.
\<close>

unbundle bit_operations_syntax

subsection \<open>Keys, values and the hash\<close>

record KeyValue =
  kvKey :: string
  kvVal :: string

text \<open>\<^verbatim>\<open>fnv.New32a\<close>: for each byte, exclusive or and then a multiplication that wraps around.\<close>

definition fnv32a :: "string \<Rightarrow> 32 word" where
  "fnv32a key = foldl (\<lambda>h c. (h XOR of_char c) * 16777619) 2166136261 key"

definition ihash :: "string \<Rightarrow> int" where
  "ihash key = uint (fnv32a key AND 0x7fffffff)"

subsection \<open>Map tasks\<close>

type_synonym files = "string \<rightharpoonup> string"

definition inter_path :: "int \<Rightarrow> int \<Rightarrow> int \<Rightarrow> string" where
  "inter_path tid i worker =
     ''lab_interFiles/'' @ ''mr-'' @ Itoa tid @ ''-'' @ Itoa i @ ''-'' @ Itoa worker"

definition newline :: char where
  "newline = CHR 0x0A"

definition kv_line :: "string \<Rightarrow> string \<Rightarrow> string" where
  "kv_line k v = k @ '' '' @ v @ [newline]"

text \<open>The loop that puts the position of each pair into the list of its reduce task.\<close>

primrec fill_positions :: "int \<Rightarrow> nat \<Rightarrow> KeyValue list \<Rightarrow> nat list list \<Rightarrow> nat list list go" where
  "fill_positions nreduce i [] positions = Inr positions"
| "fill_positions nreduce i (kv # kvs) positions =
     (if nreduce = 0 then Inl DivideByZero
      else
        let hash = ihash (kvKey kv) mod nreduce in
        bindE (index positions hash) (\<lambda>ps.
        bindE (set_index positions hash (ps @ [i])) (\<lambda>positions.
        fill_positions nreduce (i + 1) kvs positions)))"

text \<open>The loop that writes a file for each reduce task, from number \<open>i\<close> on.\<close>

primrec write_inter :: "KeyValue list \<Rightarrow> int \<Rightarrow> int \<Rightarrow> int \<Rightarrow> nat list list \<Rightarrow> files \<Rightarrow> files" where
  "write_inter intermediate tid worker i [] fs = fs"
| "write_inter intermediate tid worker i (ps # positions) fs =
     write_inter intermediate tid worker (i + 1) positions
       (fs(inter_path tid i worker \<mapsto>
          concat (map (\<lambda>p. kv_line (kvKey (intermediate ! p)) (kvVal (intermediate ! p))) ps)))"

definition mapTask ::
  "(string \<Rightarrow> string \<Rightarrow> KeyValue list) \<Rightarrow> string \<Rightarrow> int \<Rightarrow> int \<Rightarrow> StateArgs \<times> files \<Rightarrow> (StateArgs \<times> files) go" where
  "mapTask mapf filename nreduce tid s =
     (let (args, fs) = s in
      case fs filename of
        None \<Rightarrow> Inl (Fatal ''cannot open'')
      | Some content \<Rightarrow>
          let intermediate = mapf filename content in
          if nreduce < 0 then Inl SliceBounds
          else
            bindE (fill_positions nreduce 0 intermediate (replicate (nat nreduce) [])) (\<lambda>positions.
            let fs = write_inter intermediate tid (a_WorkerId args) 0 positions fs in
            Inr (args\<lparr>a_Finished := True, a_Idle := True\<rparr>, fs)))"

subsection \<open>Reduce tasks\<close>

text \<open>
  \<^verbatim>\<open>fmt.Fscanf(file, "%s %s\n", &k, &v)\<close>: blanks are skipped, but not newlines, before each
  word; after the second one blanks, then a newline or the end of the file. The second
  component is what is left of the input, \<open>None\<close> for an error.
\<close>

definition blank :: "char \<Rightarrow> bool" where
  "blank c = (c \<in> {CHR '' '', CHR 0x09, CHR 0x0B, CHR 0x0C, CHR 0x0D})"

definition word_char :: "char \<Rightarrow> bool" where
  "word_char c = (\<not> blank c \<and> c \<noteq> newline)"

definition scan_result :: "string \<Rightarrow> string \<Rightarrow> string \<Rightarrow> KeyValue \<times> string option" where
  "scan_result k v s =
     (if k = [] then (\<lparr>kvKey = [], kvVal = []\<rparr>, None)
      else if v = [] then (\<lparr>kvKey = k, kvVal = []\<rparr>, None)
      else (\<lparr>kvKey = k, kvVal = v\<rparr>,
            (case s of [] \<Rightarrow> Some [] | c # rest \<Rightarrow> if c = newline then Some rest else None)))"

definition fscan_pair :: "string \<Rightarrow> KeyValue \<times> string option" where
  "fscan_pair s =
     (let s1 = dropWhile blank s; s2 = dropWhile blank (dropWhile word_char s1);
          s3 = dropWhile blank (dropWhile word_char s2)
      in scan_result (takeWhile word_char s1) (takeWhile word_char s2) s3)"

lemma scan_result_Some:
  "scan_result k v s = (kv, Some rest) \<Longrightarrow> k \<noteq> [] \<and> (rest = [] \<or> s = newline # rest)"
  by (auto simp: scan_result_def split: if_splits list.splits)

lemma fscan_shorter: "fscan_pair s = (kv, Some rest) \<Longrightarrow> length rest < length s"
proof -
  assume a: "fscan_pair s = (kv, Some rest)"
  define s1 s2 s3 where "s1 = dropWhile blank s" and "s2 = dropWhile blank (dropWhile word_char s1)"
    and "s3 = dropWhile blank (dropWhile word_char s2)"
  have r: "takeWhile word_char s1 \<noteq> []" "rest = [] \<or> s3 = newline # rest"
    using a scan_result_Some by (auto simp: fscan_pair_def s1_def s2_def s3_def Let_def)
  have "length s1 = length (takeWhile word_char s1) + length (dropWhile word_char s1)"
    by (metis length_append takeWhile_dropWhile_id)
  then have "length (dropWhile word_char s1) < length s1" using r(1) by simp
  moreover have "length s3 \<le> length (dropWhile word_char s1)"
    using length_dropWhile_le [of blank "dropWhile word_char s1"] length_dropWhile_le [of word_char s2]
      length_dropWhile_le [of blank "dropWhile word_char s2"] unfolding s2_def s3_def by linarith
  ultimately show ?thesis using r(2) length_dropWhile_le [of blank s] by (auto simp: s1_def)
qed

text \<open>The loop over one file appends the pair of every scan, also of the one that fails.\<close>

function scan_loop :: "string \<Rightarrow> KeyValue list" where
  "scan_loop s =
     (case fscan_pair s of (kv, None) \<Rightarrow> [kv] | (kv, Some rest) \<Rightarrow> kv # scan_loop rest)"
  by pat_completeness auto
termination by (relation "measure length") (auto dest: sym intro: fscan_shorter)

declare scan_loop.simps [simp del]

primrec read_files :: "int \<Rightarrow> int \<Rightarrow> files \<Rightarrow> int list \<Rightarrow> KeyValue list \<Rightarrow> KeyValue list go" where
  "read_files tid i fs [] pairs = Inr pairs"
| "read_files tid i fs (item # FileNames) pairs =
     (case fs (inter_path i tid item) of
        None \<Rightarrow> Inl (Fatal ''cannot open'')
      | Some content \<Rightarrow>
          let pairs = pairs @ scan_loop content in
          bindE (slice_to pairs (len pairs - 1)) (\<lambda>pairs.
          read_files tid (i + 1) fs FileNames pairs))"

definition readInterFiles :: "int \<Rightarrow> files \<Rightarrow> int list \<Rightarrow> KeyValue list go" where
  "readInterFiles tid fs FileNames = read_files tid 0 fs FileNames []"

text \<open>
  The loop over the sorted pairs: one line for each run of equal keys. The sequential
  program has the same loop.
\<close>

function reduce_lines :: "(string \<Rightarrow> string list \<Rightarrow> string) \<Rightarrow> KeyValue list \<Rightarrow> string list" where
  "reduce_lines reducef [] = []"
| "reduce_lines reducef (kv # kvs) =
     (let same = takeWhile (\<lambda>x. kvKey x = kvKey kv) kvs; rest = dropWhile (\<lambda>x. kvKey x = kvKey kv) kvs;
          values = kvVal kv # map kvVal same
      in kv_line (kvKey kv) (reducef (kvKey kv) values) # reduce_lines reducef rest)"
  by pat_completeness auto
termination by (relation "measure (\<lambda>(f, kvs). length kvs)") (auto simp: less_Suc_eq_le length_dropWhile_le)

definition out_path :: "int \<Rightarrow> int \<Rightarrow> string" where
  "out_path tid worker = ''out-'' @ Itoa tid @ ''-'' @ Itoa worker"

definition reduceTask ::
  "(KeyValue list \<Rightarrow> KeyValue list) \<Rightarrow> (string \<Rightarrow> string list \<Rightarrow> string) \<Rightarrow> StateReply \<Rightarrow> StateArgs \<times> files \<Rightarrow> (StateArgs \<times> files) go" where
  "reduceTask sort_ByKey reducef reply s =
     (let (args, fs) = s in
      bindE (readInterFiles (r_TaskId reply) fs (r_FileNames reply)) (\<lambda>intermediate.
      let intermediate = sort_ByKey intermediate;
          oname = out_path (r_TaskId reply) (r_WorkerId reply);
          fs = fs(oname \<mapsto> concat (reduce_lines reducef intermediate))
      in Inr (args\<lparr>a_Finished := True, a_Idle := True, a_FileName := oname\<rparr>, fs)))"

text \<open>What \<^verbatim>\<open>sort.Sort(ByKey(intermediate))\<close> promises.\<close>

definition sorts_ByKey :: "(KeyValue list \<Rightarrow> KeyValue list) \<Rightarrow> bool" where
  "sorts_ByKey sort_ByKey = (\<forall>kvs. mset (sort_ByKey kvs) = mset kvs \<and> sorted (map kvKey (sort_ByKey kvs)))"

subsection \<open>The loop of the worker\<close>

text \<open>One turn with the master's reply; the result is \<open>None\<close> as the next state when the worker returns.\<close>

definition Worker_turn where
  "Worker_turn sort_ByKey mapf reducef reply s =
     (let (args, fs) = s;
          args = args\<lparr>a_Cat := r_Cat reply, a_TaskId := r_TaskId reply, a_WorkerId := r_WorkerId reply, a_Finished := False\<rparr>
      in
      if r_Cat reply = 1 then
        bindE (mapTask mapf (r_FileName reply) (r_Nreduce reply) (r_TaskId reply) (args\<lparr>a_Idle := False\<rparr>, fs)) (\<lambda>s. Inr (Some s))
      else if r_Cat reply = 2 then
        bindE (reduceTask sort_ByKey reducef reply (args\<lparr>a_Idle := False\<rparr>, fs)) (\<lambda>s. Inr (Some s))
      else Inr None)"

definition first_args :: StateArgs where
  "first_args = \<lparr>a_Cat = 0, a_TaskId = 0, a_Finished = False, a_Idle = True, a_WorkerId = 0, a_FileName = ''''\<rparr>"

subsection \<open>The sequential program\<close>

primrec read_inputs :: "(string \<Rightarrow> string \<Rightarrow> KeyValue list) \<Rightarrow> files \<Rightarrow> string list \<Rightarrow> KeyValue list \<Rightarrow> KeyValue list go" where
  "read_inputs mapf fs [] intermediate = Inr intermediate"
| "read_inputs mapf fs (filename # names) intermediate =
     (case fs filename of
        None \<Rightarrow> Inl (Fatal ''cannot open'')
      | Some content \<Rightarrow> read_inputs mapf fs names (intermediate @ mapf filename content))"

definition mrsequential where
  "mrsequential sort_ByKey mapf reducef names fs =
     bindE (read_inputs mapf fs names []) (\<lambda>intermediate.
     Inr (fs(''mr-out-0'' \<mapsto> concat (reduce_lines reducef (sort_ByKey intermediate)))))"

subsection \<open>The applications\<close>

text \<open>\<^verbatim>\<open>strings.FieldsFunc\<close>: the longest runs of characters that are not separators.\<close>

function FieldsFunc :: "(char \<Rightarrow> bool) \<Rightarrow> string \<Rightarrow> string list" where
  "FieldsFunc ff s =
     (case dropWhile ff s of [] \<Rightarrow> []
      | c # cs \<Rightarrow> (c # takeWhile (\<lambda>x. \<not> ff x) cs) # FieldsFunc ff (dropWhile (\<lambda>x. \<not> ff x) cs))"
  by pat_completeness auto
termination
proof (relation "measure (\<lambda>(ff, s). length s)")
  fix ff :: "char \<Rightarrow> bool" and s c cs assume "dropWhile ff s = c # cs"
  then have "length (c # cs) \<le> length s" by (metis length_dropWhile_le)
  then show "((ff, dropWhile (\<lambda>x. \<not> ff x) cs), ff, s) \<in> measure (\<lambda>(ff, s). length s)"
    using length_dropWhile_le [of "\<lambda>x. \<not> ff x" cs] by simp
qed simp

declare FieldsFunc.simps [simp del]

definition wc_Map :: "(char \<Rightarrow> bool) \<Rightarrow> string \<Rightarrow> string \<Rightarrow> KeyValue list" where
  "wc_Map isLetter filename contents =
     map (\<lambda>w. \<lparr>kvKey = w, kvVal = ''1''\<rparr>) (FieldsFunc (\<lambda>r. \<not> isLetter r) contents)"

definition wc_Reduce :: "string \<Rightarrow> string list \<Rightarrow> string" where
  "wc_Reduce key values = Itoa (len values)"

text \<open>\<open>range_keys\<close> lists the keys of the map, a set of words, in the order in which \<^verbatim>\<open>range\<close> visits them.\<close>

definition indexer_Map :: "(char \<Rightarrow> bool) \<Rightarrow> (string set \<Rightarrow> string list) \<Rightarrow> string \<Rightarrow> string \<Rightarrow> KeyValue list" where
  "indexer_Map isLetter range_keys document value =
     (let m = set (FieldsFunc (\<lambda>x. \<not> isLetter x) value)
      in map (\<lambda>w. \<lparr>kvKey = w, kvVal = document\<rparr>) (range_keys m))"

fun Join :: "string list \<Rightarrow> string \<Rightarrow> string" where
  "Join [] sep = []"
| "Join [s] sep = s"
| "Join (s # ss) sep = s @ sep @ Join ss sep"

definition indexer_Reduce :: "string \<Rightarrow> string list \<Rightarrow> string" where
  "indexer_Reduce key values =
     (let values = sort values in Itoa (len values) @ '' '' @ Join values '','')"

end
