(* ===== verification/Mr_Files.thy ===== *)
theory Mr_Files
  imports Mr_Worker
begin

section \<open>MapReduce: the intermediate files\<close>

text \<open>
  The files that the workers of \<^verbatim>\<open>src/mr/worker.go\<close> exchange: different tasks and workers write
  different files, a map task puts each pair into the file of its reduce task, and
  reading such a file gives back the pairs that were written.
\<close>

subsection \<open>Names of files\<close>

lemma nat_digits_no: "CHR ''-'' \<notin> set (nat_digits n)" "newline \<notin> set (nat_digits n)"
  using nat_digits_chars [of "CHR ''-''" n] nat_digits_chars [of newline n] by (auto simp: newline_def)

lemma inter_path_inject:
  "inter_path (int t) (int r) (int w) = inter_path (int t') (int r') (int w') \<longleftrightarrow> t = t' \<and> r = r' \<and> w = w'"
proof
  assume "inter_path (int t) (int r) (int w) = inter_path (int t') (int r') (int w')"
  then have "Itoa (int t) @ ''-'' @ Itoa (int r) @ ''-'' @ Itoa (int w) = Itoa (int t') @ ''-'' @ Itoa (int r') @ ''-'' @ Itoa (int w')"
    by (simp add: inter_path_def)
  from Itoa_dash [OF this] Itoa_dash [of r "Itoa (int w)" r' "Itoa (int w')"] show "t = t' \<and> r = r' \<and> w = w'"
    by (simp add: Itoa_inject)
qed simp

lemma out_path_inject: "out_path (int t) (int w) = out_path (int t') (int w') \<longleftrightarrow> t = t' \<and> w = w'"
proof
  assume "out_path (int t) (int w) = out_path (int t') (int w')"
  then have "Itoa (int t) @ ''-'' @ Itoa (int w) = Itoa (int t') @ ''-'' @ Itoa (int w')" by (simp add: out_path_def)
  from Itoa_dash [OF this] show "t = t' \<and> w = w'" by (simp add: Itoa_inject)
qed simp

lemma out_not_inter: "out_path a b \<noteq> inter_path t r w"
  by (simp add: out_path_def inter_path_def)

subsection \<open>Reading what was written\<close>

definition plain :: "string \<Rightarrow> bool" where
  "plain s = (s \<noteq> [] \<and> list_all word_char s)"

lemma word_facts [simp]: "\<not> word_char newline" "\<not> word_char (CHR '' '')" "blank (CHR '' '')" "\<not> blank newline"
  by (simp_all add: word_char_def blank_def newline_def)

lemma takeWhile_word: "list_all P w \<Longrightarrow> \<not> P c \<Longrightarrow> takeWhile P (w @ c # xs) = w \<and> dropWhile P (w @ c # xs) = c # xs"
  by (induction w) auto

lemma dropWhile_blank: "plain w \<Longrightarrow> dropWhile blank (w @ xs) = w @ xs"
  by (cases w) (auto simp: plain_def word_char_def)

lemma fscan_line:
  assumes "plain k" "plain v"
  shows "fscan_pair (kv_line k v @ rest) = (\<lparr>kvKey = k, kvVal = v\<rparr>, Some rest)"
proof -
  have line: "kv_line k v @ rest = k @ CHR '' '' # v @ newline # rest" by (simp add: kv_line_def)
  have w: "list_all word_char k" "list_all word_char v" "k \<noteq> []" "v \<noteq> []" using assms by (simp_all add: plain_def)
  note 1 = takeWhile_word [OF w(1), of "CHR '' ''" "v @ newline # rest"] and 2 = takeWhile_word [OF w(2), of newline rest]
  have "dropWhile blank (CHR '' '' # v @ newline # rest) = v @ newline # rest" using dropWhile_blank [OF assms(2)] by simp
  then show ?thesis unfolding line fscan_pair_def Let_def dropWhile_blank [OF assms(1)]
    using 1 2 w(3,4) by (simp add: scan_result_def)
qed

lemma scan_lines:
  assumes "\<forall>kv \<in> set kvs. plain (kvKey kv) \<and> plain (kvVal kv)"
  shows "scan_loop (concat (map (\<lambda>kv. kv_line (kvKey kv) (kvVal kv)) kvs)) = kvs @ [\<lparr>kvKey = [], kvVal = []\<rparr>]"
  using assms
proof (induction kvs)
  case Nil
  then show ?case by (simp add: scan_loop.simps [of "[]"] fscan_pair_def scan_result_def)
next
  case (Cons kv kvs)
  then show ?case
    by (simp add: scan_loop.simps [of "kv_line _ _ @ _"] fscan_line)
qed

text \<open>A value of more than one word: the scan of its line fails, and the rest of the file is lost.\<close>

lemma scan_drops_rest:
  assumes "plain k" "plain v" "plain v'"
  shows "butlast (scan_loop (kv_line k (v @ '' '' @ v') @ rest)) = []"
proof -
  have line: "kv_line k (v @ '' '' @ v') @ rest = k @ CHR '' '' # v @ CHR '' '' # v' @ newline # rest" by (simp add: kv_line_def)
  have w: "list_all word_char k" "list_all word_char v" "k \<noteq> []" "v \<noteq> []" using assms by (simp_all add: plain_def)
  note 1 = takeWhile_word [OF w(1), of "CHR '' ''"] and 2 = takeWhile_word [OF w(2), of "CHR '' ''"]
  obtain c v2 where v': "v' = c # v2" "c \<noteq> newline" using assms(3) by (cases v') (auto simp: plain_def word_char_def)
  have "fscan_pair (kv_line k (v @ '' '' @ v') @ rest) = (\<lparr>kvKey = k, kvVal = v\<rparr>, None)"
    unfolding line fscan_pair_def Let_def dropWhile_blank [OF assms(1)]
    using 1 2 w(3,4) dropWhile_blank [OF assms(2)] dropWhile_blank [OF assms(3)] v' by (simp add: scan_result_def)
  then show ?thesis by (subst scan_loop.simps) simp
qed

subsection \<open>Writing\<close>

definition bucket :: "nat \<Rightarrow> string \<Rightarrow> nat" where
  "bucket n k = nat (ihash k mod int n)"

lemma bucket_less: "0 < n \<Longrightarrow> bucket n k < n"
  by (simp add: bucket_def nat_less_iff)

lemma bucket_int: "0 < n \<Longrightarrow> ihash k mod int n = int (bucket n k)"
  by (simp add: bucket_def)

lemma fill_positions_eq:
  assumes "0 < n"
  shows "length pos = n \<Longrightarrow> \<exists>pos'. fill_positions (int n) i kvs pos = Inr pos' \<and> length pos' = n \<and>
    (\<forall>r < n. pos' ! r = pos ! r @ map fst (filter (\<lambda>(j, kv). bucket n (kvKey kv) = r) (enumerate i kvs)))"
proof (induction kvs arbitrary: i pos)
  case (Cons kv kvs)
  let ?b = "bucket n (kvKey kv)"
  let ?pos = "pos[?b := pos ! ?b @ [i]]"
  have b: "?b < n" using bucket_less [OF assms] .
  have step: "fill_positions (int n) i (kv # kvs) pos = fill_positions (int n) (i + 1) kvs ?pos"
    using assms b Cons.prems by (simp add: bucket_int index_def set_index_def len_def Let_def)
  from Cons.IH [of ?pos "i + 1"] Cons.prems obtain pos' where
    "fill_positions (int n) (i + 1) kvs ?pos = Inr pos'" "length pos' = n"
    "\<forall>r < n. pos' ! r = ?pos ! r @ map fst (filter (\<lambda>(j, kv). bucket n (kvKey kv) = r) (enumerate (i + 1) kvs))" by auto
  then show ?case unfolding step using Cons.prems by (intro exI [of _ pos']) (auto simp: nth_list_update)
qed simp

lemma enumerate_filter:
  "map (\<lambda>p. (xs @ kvs) ! p) (map fst (filter (\<lambda>(j, kv). P kv) (enumerate (length xs) kvs))) = filter P kvs"
proof (induction kvs arbitrary: xs)
  case (Cons kv kvs)
  from Cons [of "xs @ [kv]"] show ?case by (simp add: nth_append)
qed simp

definition inter_content :: "nat \<Rightarrow> nat \<Rightarrow> KeyValue list \<Rightarrow> string" where
  "inter_content n r kvs =
     concat (map (\<lambda>kv. kv_line (kvKey kv) (kvVal kv)) (filter (\<lambda>kv. bucket n (kvKey kv) = r) kvs))"

lemma write_inter_other:
  "(\<And>r. r < length pos \<Longrightarrow> p \<noteq> inter_path (int t) (int (i + r)) (int w)) \<Longrightarrow>
   write_inter im (int t) (int w) (int i) pos fs p = fs p"
proof (induction pos arbitrary: i fs)
  case (Cons ps pos)
  have s: "int i + 1 = int (Suc i)" by simp
  have "write_inter im (int t) (int w) (int (Suc i)) pos fs' p = fs' p" for fs'
    using Cons.prems [of "Suc _"] by (intro Cons.IH) simp
  moreover have "p \<noteq> inter_path (int t) (int i) (int w)" using Cons.prems [of 0] by simp
  ultimately show ?case unfolding write_inter.simps s by simp
qed simp

lemma write_inter_at:
  "r < length pos \<Longrightarrow> write_inter im (int t) (int w) (int i) pos fs (inter_path (int t) (int (i + r)) (int w)) =
     Some (concat (map (\<lambda>q. kv_line (kvKey (im ! q)) (kvVal (im ! q))) (pos ! r)))"
proof (induction pos arbitrary: i fs r)
  case (Cons ps pos)
  have s: "int i + 1 = int (Suc i)" by simp
  show ?case
  proof (cases r)
    case 0
    have "write_inter im (int t) (int w) (int (Suc i)) pos fs' (inter_path (int t) (int i) (int w)) = fs' (inter_path (int t) (int i) (int w))" for fs'
      by (rule write_inter_other) (simp add: inter_path_inject del: of_nat_add of_nat_Suc)
    then show ?thesis unfolding write_inter.simps s using 0 by simp
  next
    case (Suc k)
    then show ?thesis unfolding write_inter.simps s using Cons.IH [of k "Suc i"] Cons.prems by (simp del: of_nat_add of_nat_Suc)
  qed
qed simp

text \<open>A map task: the file of each reduce task has the lines of its pairs, and nothing else changes.\<close>

lemma mapTask_files:
  assumes n: "0 < n" and f: "fs name = Some content" and w: "a_WorkerId args = int w"
  shows "\<exists>fs'. mapTask mapf name (int n) (int t) (args, fs) = Inr (args\<lparr>a_Finished := True, a_Idle := True\<rparr>, fs') \<and>
    (\<forall>r < n. fs' (inter_path (int t) (int r) (int w)) = Some (inter_content n r (mapf name content))) \<and>
    (\<forall>p. (\<forall>r < n. p \<noteq> inter_path (int t) (int r) (int w)) \<longrightarrow> fs' p = fs p)"
proof -
  let ?im = "mapf name content"
  from fill_positions_eq [OF n, of "replicate n []" 0 ?im] obtain pos where pos: "fill_positions (int n) 0 ?im (replicate n []) = Inr pos"
    "length pos = n" "\<forall>r < n. pos ! r = map fst (filter (\<lambda>(j, kv). bucket n (kvKey kv) = r) (enumerate 0 ?im))" by auto
  let ?fs = "write_inter ?im (int t) (int w) (int 0) pos fs"
  have "mapTask mapf name (int n) (int t) (args, fs) = Inr (args\<lparr>a_Finished := True, a_Idle := True\<rparr>, ?fs)"
    using f w pos(1) by (simp add: mapTask_def Let_def)
  moreover have "?fs (inter_path (int t) (int r) (int w)) = Some (inter_content n r ?im)" if "r < n" for r
  proof -
    have "map (\<lambda>p. ?im ! p) (pos ! r) = filter (\<lambda>kv. bucket n (kvKey kv) = r) ?im"
      using enumerate_filter [of "[]" ?im "\<lambda>kv. bucket n (kvKey kv) = r"] pos(3) that by simp
    from arg_cong [OF this, of "map (\<lambda>kv. kv_line (kvKey kv) (kvVal kv))"]
    have "map (\<lambda>q. kv_line (kvKey (?im ! q)) (kvVal (?im ! q))) (pos ! r) =
        map (\<lambda>kv. kv_line (kvKey kv) (kvVal kv)) (filter (\<lambda>kv. bucket n (kvKey kv) = r) ?im)"
      by (simp add: comp_def)
    then show ?thesis using write_inter_at [of r pos ?im t w 0 fs] that pos(2) by (simp add: inter_content_def)
  qed
  moreover have "?fs p = fs p" if "\<forall>r < n. p \<noteq> inter_path (int t) (int r) (int w)" for p
    using that pos(2) by (intro write_inter_other) simp
  ultimately show ?thesis by blast
qed

end
