(* ===== verification/Mr_Equivalence.thy ===== *)
theory Mr_Equivalence
  imports Mr_Files
begin

section \<open>MapReduce: the distributed run and the sequential one\<close>

text \<open>
  The map and reduce tasks of \<^verbatim>\<open>src/mr/worker.go\<close> together write the lines that
  \<^verbatim>\<open>src/main/mrsequential.go\<close> writes, for any assignment of the tasks to workers and also when
  map tasks are run more than once.
\<close>

subsection \<open>The lines for a list of pairs\<close>

definition vals :: "string \<Rightarrow> KeyValue list \<Rightarrow> string list" where
  "vals k kvs = map kvVal (filter (\<lambda>x. kvKey x = k) kvs)"

text \<open>The order of the values does not matter to the reduce function.\<close>

definition order_free :: "(string \<Rightarrow> string list \<Rightarrow> string) \<Rightarrow> bool" where
  "order_free reducef = (\<forall>k vs vs'. mset vs = mset vs' \<longrightarrow> reducef k vs = reducef k vs')"

definition key_lines :: "(string \<Rightarrow> string list \<Rightarrow> string) \<Rightarrow> KeyValue list \<Rightarrow> string multiset" where
  "key_lines reducef kvs = image_mset (\<lambda>k. kv_line k (reducef k (vals k kvs))) (mset_set (kvKey ` set kvs))"

lemma key_lines_run:
  assumes "\<forall>x \<in> set xs. kvKey x = k" "\<forall>x \<in> set ys. kvKey x \<noteq> k" "kvKey kv = k"
  shows "key_lines reducef (kv # xs @ ys) = add_mset (kv_line k (reducef k (kvVal kv # map kvVal xs))) (key_lines reducef ys)"
proof -
  have "filter (\<lambda>x. kvKey x = k) xs = xs" "filter (\<lambda>x. kvKey x = k) ys = []"
    using assms(1,2) by (simp_all add: filter_id_conv filter_empty_conv)
  then have v1: "vals k (kv # xs @ ys) = kvVal kv # map kvVal xs" using assms(3) by (simp add: vals_def)
  have v2: "vals j (kv # xs @ ys) = vals j ys" if "j \<in> kvKey ` set ys" for j
  proof -
    have "j \<noteq> k" using that assms(2) by blast
    then have "filter (\<lambda>x. kvKey x = j) xs = []" "kvKey kv \<noteq> j" using assms(1,3) by (auto simp: filter_empty_conv)
    then show ?thesis by (simp add: vals_def)
  qed
  have keys: "kvKey ` set (kv # xs @ ys) = insert k (kvKey ` set ys)" using assms(1,3) by auto
  have "k \<notin> kvKey ` set ys" using assms(2) by auto
  moreover have "image_mset (\<lambda>j. kv_line j (reducef j (vals j (kv # xs @ ys)))) (mset_set (kvKey ` set ys)) = key_lines reducef ys"
    unfolding key_lines_def using v2 by (intro image_mset_cong) auto
  ultimately show ?thesis unfolding key_lines_def keys by (simp add: v1 key_lines_def)
qed

lemma sorted_run:
  assumes "sorted (map kvKey (kv # kvs))" "x \<in> set (dropWhile (\<lambda>x. kvKey x = kvKey kv) kvs)"
  shows "kvKey x \<noteq> kvKey kv"
  using assms
proof (induction kvs)
  case (Cons y kvs)
  show ?case
  proof (cases "kvKey y = kvKey kv")
    case True
    then show ?thesis using Cons by simp
  next
    case False
    have "kvKey kv \<le> kvKey y" using Cons.prems(1) by simp
    moreover have "kvKey y \<le> kvKey x" using Cons.prems False by auto
    ultimately show ?thesis using False antisym [of "kvKey kv" "kvKey y"] by auto
  qed
qed simp

lemma reduce_lines_sorted:
  "sorted (map kvKey kvs) \<Longrightarrow> mset (reduce_lines reducef kvs) = key_lines reducef kvs"
proof (induction reducef kvs rule: reduce_lines.induct)
  case (1 reducef)
  then show ?case by (simp add: key_lines_def)
next
  case (2 reducef kv kvs)
  define xs ys where "xs = takeWhile (\<lambda>x. kvKey x = kvKey kv) kvs" and "ys = dropWhile (\<lambda>x. kvKey x = kvKey kv) kvs"
  have split: "kvs = xs @ ys" by (simp add: xs_def ys_def)
  have "\<forall>x \<in> set xs. kvKey x = kvKey kv" unfolding xs_def by (auto dest: set_takeWhileD)
  moreover have "\<forall>x \<in> set ys. kvKey x \<noteq> kvKey kv" unfolding ys_def using sorted_run [OF 2(2)] by blast
  ultimately have "key_lines reducef (kv # kvs) =
      add_mset (kv_line (kvKey kv) (reducef (kvKey kv) (kvVal kv # map kvVal xs))) (key_lines reducef ys)"
    unfolding split by (rule key_lines_run) simp
  moreover have "sorted (map kvKey ys)" using 2(2) unfolding split by (simp add: sorted_append)
  then have "mset (reduce_lines reducef ys) = key_lines reducef ys" using 2(1) [OF refl refl refl] unfolding ys_def by blast
  ultimately show ?case by (simp add: Let_def xs_def [symmetric] ys_def [symmetric])
qed

lemma reduce_lines_mset:
  assumes "sorts_ByKey sort_ByKey" "order_free reducef"
  shows "mset (reduce_lines reducef (sort_ByKey kvs)) = key_lines reducef kvs"
proof -
  have s: "mset (sort_ByKey kvs) = mset kvs" "sorted (map kvKey (sort_ByKey kvs))" using assms(1) by (auto simp: sorts_ByKey_def)
  have "mset (vals k (sort_ByKey kvs)) = mset (vals k kvs)" for k using s(1) by (simp add: vals_def)
  then have "reducef k (vals k (sort_ByKey kvs)) = reducef k (vals k kvs)" for k using assms(2) unfolding order_free_def by blast
  moreover have "set (sort_ByKey kvs) = set kvs" using s(1) by (rule mset_eq_setD)
  ultimately show ?thesis using reduce_lines_sorted [OF s(2)] by (simp add: key_lines_def)
qed

text \<open>The reduce tasks split the keys.\<close>

lemma key_lines_buckets:
  assumes "0 < n"
  shows "(\<Sum>r \<leftarrow> [0..<n]. key_lines reducef (filter (\<lambda>kv. bucket n (kvKey kv) = r) kvs)) = key_lines reducef kvs"
proof -
  let ?g = "\<lambda>k. kv_line k (reducef k (vals k kvs))" and ?K = "kvKey ` set kvs"
  have one: "key_lines reducef (filter (\<lambda>kv. bucket n (kvKey kv) = r) kvs) = image_mset ?g (mset_set {k \<in> ?K. bucket n k = r})" for r
  proof -
    have "kvKey ` set (filter (\<lambda>kv. bucket n (kvKey kv) = r) kvs) = {k \<in> ?K. bucket n k = r}" by auto
    moreover have "vals k (filter (\<lambda>kv. bucket n (kvKey kv) = r) kvs) = vals k kvs" if "bucket n k = r" for k
      unfolding vals_def filter_filter using that by (intro arg_cong [of _ _ "map kvVal"] filter_cong) auto
    ultimately show ?thesis unfolding key_lines_def by (auto intro!: image_mset_cong)
  qed
  have "(\<Sum>r \<leftarrow> [0..<m]. image_mset ?g (mset_set {k \<in> ?K. bucket n k = r})) = image_mset ?g (mset_set {k \<in> ?K. bucket n k < m})" for m
  proof (induction m)
    case (Suc m)
    have "{k \<in> ?K. bucket n k < Suc m} = {k \<in> ?K. bucket n k < m} \<union> {k \<in> ?K. bucket n k = m}" by auto
    then have "mset_set {k \<in> ?K. bucket n k < Suc m} = mset_set {k \<in> ?K. bucket n k < m} + mset_set {k \<in> ?K. bucket n k = m}"
      by (simp only:) (rule mset_set_Union; auto)
    with Suc show ?case by simp
  qed simp
  moreover have "{k \<in> ?K. bucket n k < n} = ?K" using bucket_less [OF assms] by auto
  ultimately show ?thesis unfolding one by (simp add: key_lines_def)
qed


subsection \<open>The turns of the workers\<close>

primrec run_turns where
  "run_turns sort_ByKey mapf reducef [] s = Inr s"
| "run_turns sort_ByKey mapf reducef (reply # replies) s =
     bindE (Worker_turn sort_ByKey mapf reducef reply s) (\<lambda>r.
     case r of None \<Rightarrow> Inr s | Some s \<Rightarrow> run_turns sort_ByKey mapf reducef replies s)"

text \<open>The replies of \<^verbatim>\<open>assignTask\<close> for map task \<open>t\<close> and reduce task \<open>r\<close> to worker \<open>w\<close>.\<close>

definition map_reply :: "string list \<Rightarrow> nat \<Rightarrow> nat \<times> nat \<Rightarrow> StateReply" where
  "map_reply names n job =
     zero_StateReply\<lparr>r_WorkerId := int (snd job), r_Cat := 1, r_TaskId := int (fst job), r_FileName := names ! fst job, r_Nreduce := int n\<rparr>"

definition reduce_reply :: "string list \<Rightarrow> nat \<Rightarrow> nat list \<Rightarrow> nat \<times> nat \<Rightarrow> StateReply" where
  "reduce_reply names n ws job =
     zero_StateReply\<lparr>r_WorkerId := int (snd job), r_Cat := 2, r_TaskId := int (fst job), r_Nreduce := int n,
       r_MapCount := len names, r_FileNames := map int ws\<rparr>"

lemma run_turns_append:
  assumes "\<forall>reply \<in> set xs. r_Cat reply \<noteq> 0 \<and> (r_Cat reply = 1 \<or> r_Cat reply = 2)"
  shows "run_turns sort_ByKey mapf reducef (xs @ ys) s =
    bindE (run_turns sort_ByKey mapf reducef xs s) (run_turns sort_ByKey mapf reducef ys)"
  using assms
proof (induction xs arbitrary: s)
  case (Cons reply xs)
  obtain args fs where s: "s = (args, fs)" by fastforce
  have "\<exists>x. Worker_turn sort_ByKey mapf reducef reply s = x \<and> (\<forall>v. x = Inr v \<longrightarrow> v \<noteq> None)"
    using Cons.prems by (auto simp: Worker_turn_def s Let_def bindE_def split: sum.splits)
  with Cons show ?case by (cases "Worker_turn sort_ByKey mapf reducef reply s") auto
qed simp

text \<open>The input files are there, outside the directory of the intermediate files, and the map function gives plain words.\<close>

definition inputs_ok :: "(string \<Rightarrow> string \<Rightarrow> KeyValue list) \<Rightarrow> string list \<Rightarrow> files \<Rightarrow> bool" where
  "inputs_ok mapf names fs =
     (\<forall>name \<in> set names. (\<forall>a b c. name \<noteq> inter_path a b c) \<and>
        (\<exists>content. fs name = Some content \<and> (\<forall>kv \<in> set (mapf name content). plain (kvKey kv) \<and> plain (kvVal kv))))"

definition pairs_of :: "(string \<Rightarrow> string \<Rightarrow> KeyValue list) \<Rightarrow> files \<Rightarrow> string \<Rightarrow> KeyValue list" where
  "pairs_of mapf fs name = mapf name (the (fs name))"

lemma run_maps:
  assumes n: "0 < n" and ok: "inputs_ok mapf names fs0" and jobs: "\<forall>job \<in> set jobs. fst job < length names"
    and same: "\<forall>p. (\<forall>a b c. p \<noteq> inter_path a b c) \<longrightarrow> fs p = fs0 p"
  shows "\<exists>args' fs'. run_turns sort_ByKey mapf reducef (map (map_reply names n) jobs) (args, fs) = Inr (args', fs') \<and>
    (\<forall>p. (\<forall>a b c. p \<noteq> inter_path a b c) \<longrightarrow> fs' p = fs0 p) \<and>
    (\<forall>job r. r < n \<longrightarrow> job \<in> set jobs \<longrightarrow>
       fs' (inter_path (int (fst job)) (int r) (int (snd job))) = Some (inter_content n r (pairs_of mapf fs0 (names ! fst job)))) \<and>
    (\<forall>job r. r < n \<longrightarrow> job \<notin> set jobs \<longrightarrow>
       fs' (inter_path (int (fst job)) (int r) (int (snd job))) = fs (inter_path (int (fst job)) (int r) (int (snd job))))"
  using jobs same
proof (induction jobs arbitrary: args fs)
  case (Cons job jobs)
  obtain t w where job: "job = (t, w)" by fastforce
  let ?name = "names ! t" and ?args = "args\<lparr>a_Cat := 1, a_TaskId := int t, a_WorkerId := int w, a_Finished := False, a_Idle := False\<rparr>"
  have t: "?name \<in> set names" using Cons.prems(1) job by simp
  then obtain content where c: "fs0 ?name = Some content" "fs ?name = Some content" using ok Cons.prems(2) unfolding inputs_ok_def by fastforce
  then have po: "pairs_of mapf fs0 ?name = mapf ?name content" by (simp add: pairs_of_def)
  have aw: "a_WorkerId ?args = int w" by simp
  from mapTask_files [where fs = fs and name = ?name and content = content and args = ?args and w = w and mapf = mapf and t = t, OF n c(2) aw] obtain fs1 where
    m: "mapTask mapf ?name (int n) (int t) (?args, fs) = Inr (?args\<lparr>a_Finished := True, a_Idle := True\<rparr>, fs1)"
    "\<forall>r < n. fs1 (inter_path (int t) (int r) (int w)) = Some (inter_content n r (mapf ?name content))"
    "\<forall>p. (\<forall>r < n. p \<noteq> inter_path (int t) (int r) (int w)) \<longrightarrow> fs1 p = fs p" by blast
  have turn: "Worker_turn sort_ByKey mapf reducef (map_reply names n job) (args, fs) = Inr (Some (?args\<lparr>a_Finished := True, a_Idle := True\<rparr>, fs1))"
    using m(1) by (simp add: Worker_turn_def map_reply_def zero_StateReply_def job Let_def)
  have same1: "\<forall>p. (\<forall>a b c. p \<noteq> inter_path a b c) \<longrightarrow> fs1 p = fs0 p" using m(3) Cons.prems(2) by auto
  have "\<forall>job \<in> set jobs. fst job < length names" using Cons.prems(1) by simp
  from Cons.IH [OF this same1, of "?args\<lparr>a_Finished := True, a_Idle := True\<rparr>"] obtain args' fs' where
    r: "run_turns sort_ByKey mapf reducef (map (map_reply names n) jobs) (?args\<lparr>a_Finished := True, a_Idle := True\<rparr>, fs1) = Inr (args', fs')"
    "\<forall>p. (\<forall>a b c. p \<noteq> inter_path a b c) \<longrightarrow> fs' p = fs0 p"
    "\<forall>job r. r < n \<longrightarrow> job \<in> set jobs \<longrightarrow>
       fs' (inter_path (int (fst job)) (int r) (int (snd job))) = Some (inter_content n r (pairs_of mapf fs0 (names ! fst job)))"
    "\<forall>job r. r < n \<longrightarrow> job \<notin> set jobs \<longrightarrow>
       fs' (inter_path (int (fst job)) (int r) (int (snd job))) = fs1 (inter_path (int (fst job)) (int r) (int (snd job)))" by blast
  have own: "fs' (inter_path (int t) (int r) (int w)) = Some (inter_content n r (pairs_of mapf fs0 ?name))" if "r < n" for r
    using r(3) [rule_format, OF that, of "(t, w)"] r(4) [rule_format, OF that, of "(t, w)"] m(2) that po by (cases "(t, w) \<in> set jobs") auto
  have other: "fs1 (inter_path (int (fst j)) (int r) (int (snd j))) = fs (inter_path (int (fst j)) (int r) (int (snd j)))" if "j \<noteq> (t, w)" for j r
    using m(3) that by (cases j) (auto simp: inter_path_inject)
  show ?case
    using turn r own other unfolding job by (intro exI [of _ args'] exI [of _ fs']) (auto simp del: Worker_turn_def)
qed auto


subsection \<open>Reading and reducing\<close>

lemma read_files_eq:
  assumes "\<And>j. j < length ws \<Longrightarrow> fs (inter_path (int (i + j)) (int r) (int (ws ! j))) =
      Some (concat (map (\<lambda>kv. kv_line (kvKey kv) (kvVal kv)) (bs ! j)))"
    and "length bs = length ws" and "\<forall>b \<in> set bs. \<forall>kv \<in> set b. plain (kvKey kv) \<and> plain (kvVal kv)"
  shows "read_files (int r) (int i) fs (map int ws) pairs = Inr (pairs @ concat bs)"
  using assms
proof (induction ws arbitrary: i bs pairs)
  case (Cons w ws)
  then obtain b bs' where bs: "bs = b # bs'" by (cases bs) auto
  have c: "fs (inter_path (int i) (int r) (int w)) = Some (concat (map (\<lambda>kv. kv_line (kvKey kv) (kvVal kv)) b))"
    using Cons.prems(1) [of 0] bs by simp
  have sc: "scan_loop (concat (map (\<lambda>kv. kv_line (kvKey kv) (kvVal kv)) b)) = b @ [\<lparr>kvKey = [], kvVal = []\<rparr>]"
    using Cons.prems(3) bs by (intro scan_lines) simp
  have sl: "slice_to (pairs @ b @ [x]) (len (pairs @ b @ [x]) - 1) = Inr (pairs @ b)" for x
  proof -
    have "len (pairs @ b @ [x]) - 1 = int (length (pairs @ b))" by (simp add: len_def)
    then show ?thesis by (simp add: slice_to_def len_def)
  qed
  have "read_files (int r) (int (Suc i)) fs (map int ws) (pairs @ b) = Inr ((pairs @ b) @ concat bs')"
    using Cons.prems(1) [of "Suc _"] Cons.prems(2,3) bs by (intro Cons.IH) auto
  then show ?case using c sc sl bs by (simp add: Let_def add.commute)
qed simp

text \<open>What reduce task \<open>r\<close> writes.\<close>

definition reduce_output where
  "reduce_output sort_ByKey reducef n kvs r =
     reduce_lines reducef (sort_ByKey (filter (\<lambda>kv. bucket n (kvKey kv) = r) kvs))"

definition inter_ready where
  "inter_ready mapf names ws n fs0 fs =
     (\<forall>t < length names. \<forall>r < n. fs (inter_path (int t) (int r) (int (ws ! t))) =
        Some (inter_content n r (pairs_of mapf fs0 (names ! t))))"

lemma readInterFiles_eq:
  assumes ok: "inputs_ok mapf names fs0" and l: "length ws = length names" and ready: "inter_ready mapf names ws n fs0 fs" and r: "r < n"
  shows "readInterFiles (int r) fs (map int ws) =
    Inr (filter (\<lambda>kv. bucket n (kvKey kv) = r) (concat (map (pairs_of mapf fs0) names)))"
proof -
  let ?f = "\<lambda>name. filter (\<lambda>kv. bucket n (kvKey kv) = r) (pairs_of mapf fs0 name)"
  have "plain (kvKey kv) \<and> plain (kvVal kv)" if "name \<in> set names" "kv \<in> set (?f name)" for name kv
    using that ok by (fastforce simp: inputs_ok_def pairs_of_def)
  then have "read_files (int r) (int 0) fs (map int ws) [] = Inr ([] @ concat (map ?f names))"
    using ready r l by (intro read_files_eq) (auto simp: inter_ready_def inter_content_def)
  then show ?thesis by (simp add: readInterFiles_def filter_concat o_def)
qed

lemma run_reduces:
  assumes ok: "inputs_ok mapf names fs0" and l: "length ws = length names" and "inter_ready mapf names ws n fs0 fs"
    and "\<forall>job \<in> set jobs. fst job < n"
  shows "\<exists>args' fs'. run_turns sort_ByKey mapf reducef (map (reduce_reply names n ws) jobs) (args, fs) = Inr (args', fs') \<and>
    (\<forall>job \<in> set jobs. fs' (out_path (int (fst job)) (int (snd job))) =
       Some (concat (reduce_output sort_ByKey reducef n (concat (map (pairs_of mapf fs0) names)) (fst job)))) \<and>
    (\<forall>job. job \<notin> set jobs \<longrightarrow> fs' (out_path (int (fst job)) (int (snd job))) = fs (out_path (int (fst job)) (int (snd job))))"
  using assms(3,4)
proof (induction jobs arbitrary: args fs)
  case (Cons job jobs)
  obtain r w where job: "job = (r, w)" by fastforce
  let ?kvs = "concat (map (pairs_of mapf fs0) names)"
  let ?out = "concat (reduce_output sort_ByKey reducef n ?kvs r)"
  let ?fs = "fs(out_path (int r) (int w) \<mapsto> ?out)"
  have "readInterFiles (int r) fs (map int ws) = Inr (filter (\<lambda>kv. bucket n (kvKey kv) = r) ?kvs)"
    using Cons.prems job by (intro readInterFiles_eq [OF ok l]) auto
  then obtain args1 where turn: "Worker_turn sort_ByKey mapf reducef (reduce_reply names n ws job) (args, fs) = Inr (Some (args1, ?fs))"
    by (simp add: Worker_turn_def reduce_reply_def zero_StateReply_def job Let_def reduceTask_def reduce_output_def)
  have "inter_ready mapf names ws n fs0 ?fs" using Cons.prems(1) by (simp add: inter_ready_def out_not_inter [symmetric])
  moreover have "\<forall>job \<in> set jobs. fst job < n" using Cons.prems(2) by simp
  ultimately obtain args' fs' where r: "run_turns sort_ByKey mapf reducef (map (reduce_reply names n ws) jobs) (args1, ?fs) = Inr (args', fs')"
    "\<forall>job \<in> set jobs. fs' (out_path (int (fst job)) (int (snd job))) = Some (concat (reduce_output sort_ByKey reducef n ?kvs (fst job)))"
    "\<forall>job. job \<notin> set jobs \<longrightarrow> fs' (out_path (int (fst job)) (int (snd job))) = ?fs (out_path (int (fst job)) (int (snd job)))"
    using Cons.IH by blast
  have "fs' (out_path (int r) (int w)) = Some ?out"
    using r(2,3) by (cases "(r, w) \<in> set jobs") auto
  moreover have "fs' (out_path (int (fst j)) (int (snd j))) = fs (out_path (int (fst j)) (int (snd j)))" if "j \<notin> set (job # jobs)" for j
  proof -
    have "out_path (int (fst j)) (int (snd j)) \<noteq> out_path (int r) (int w)" using that job by (cases j) (auto simp: out_path_inject)
    with that r(3) show ?thesis by simp
  qed
  ultimately show ?case using turn r(1,2) by (intro exI [of _ args'] exI [of _ fs']) (simp add: job)
qed auto

lemma read_inputs_eq:
  "\<forall>name \<in> set names. \<exists>content. fs name = Some content \<Longrightarrow>
   read_inputs mapf fs names acc = Inr (acc @ concat (map (pairs_of mapf fs) names))"
  by (induction names arbitrary: acc) (auto simp: pairs_of_def)


subsection \<open>The lines of a file\<close>

primrec lines_from :: "string \<Rightarrow> string \<Rightarrow> string list" where
  "lines_from line [] = (if line = [] then [] else [line])"
| "lines_from line (c # cs) =
     (if c = newline then (line @ [c]) # lines_from [] cs else lines_from (line @ [c]) cs)"

definition file_lines :: "string \<Rightarrow> string list" where
  "file_lines s = lines_from [] s"

definition is_line :: "string \<Rightarrow> bool" where
  "is_line l = (\<exists>xs. newline \<notin> set xs \<and> l = xs @ [newline])"

lemma lines_from_line: "newline \<notin> set xs \<Longrightarrow> lines_from acc (xs @ newline # ys) = (acc @ xs @ [newline]) # lines_from [] ys"
  by (induction xs arbitrary: acc) auto

lemma file_lines_concat: "\<forall>l \<in> set ls. is_line l \<Longrightarrow> file_lines (concat ls) = ls"
proof (induction ls)
  case (Cons l ls)
  then obtain xs where "newline \<notin> set xs" "l = xs @ [newline]" by (auto simp: is_line_def)
  with Cons show ?case using lines_from_line [of xs "[]" "concat ls"] by (simp add: file_lines_def)
qed (simp add: file_lines_def)

lemma reduce_lines_is_line:
  assumes "\<And>k vs. newline \<notin> set (reducef k vs)"
  shows "\<forall>kv \<in> set kvs. plain (kvKey kv) \<Longrightarrow> \<forall>l \<in> set (reduce_lines reducef kvs). is_line l"
proof (induction "length kvs" arbitrary: kvs rule: less_induct)
  case less
  show ?case
  proof (cases kvs)
    case (Cons kv kvs')
    let ?rest = "dropWhile (\<lambda>x. kvKey x = kvKey kv) kvs'"
    have "length ?rest < length kvs" using Cons length_dropWhile_le [of "\<lambda>x. kvKey x = kvKey kv" kvs'] by simp
    moreover have "\<forall>kv \<in> set ?rest. plain (kvKey kv)" using less.prems Cons by (auto dest: set_dropWhileD)
    ultimately have "\<forall>l \<in> set (reduce_lines reducef ?rest). is_line l" by (rule less.hyps)
    moreover have "is_line (kv_line (kvKey kv) (reducef (kvKey kv) vs))" for vs
    proof -
      have "newline \<notin> set (kvKey kv)" using less.prems Cons by (auto simp: plain_def list_all_iff)
      then have "newline \<notin> set (kvKey kv @ '' '' @ reducef (kvKey kv) vs)" using assms by (simp add: newline_def)
      then show ?thesis unfolding is_line_def kv_line_def by (metis append.assoc)
    qed
    ultimately show ?thesis using Cons by (simp add: Let_def)
  qed simp
qed


lemma outputs_mset:
  assumes "sorts_ByKey sort_ByKey" "order_free reducef" "0 < n"
  shows "mset (concat (map (reduce_output sort_ByKey reducef n kvs) [0..<n])) = mset (reduce_lines reducef (sort_ByKey kvs))"
proof -
  have "mset (concat (map (reduce_output sort_ByKey reducef n kvs) [0..<n])) =
      (\<Sum>r \<leftarrow> [0..<n]. key_lines reducef (filter (\<lambda>kv. bucket n (kvKey kv) = r) kvs))"
    by (simp add: mset_concat o_def reduce_output_def reduce_lines_mset [OF assms(1,2)])
  also have "\<dots> = mset (reduce_lines reducef (sort_ByKey kvs))"
    by (simp add: key_lines_buckets [OF assms(3)] reduce_lines_mset [OF assms(1,2)])
  finally show ?thesis .
qed

lemma sorts_set: "sorts_ByKey sort_ByKey \<Longrightarrow> set (sort_ByKey kvs) = set kvs"
  unfolding sorts_ByKey_def by (meson mset_eq_setD)

lemma plain_pairs: "inputs_ok mapf names fs \<Longrightarrow> kv \<in> set (concat (map (pairs_of mapf fs) names)) \<Longrightarrow> plain (kvKey kv) \<and> plain (kvVal kv)"
  by (fastforce simp: inputs_ok_def pairs_of_def)

end
