(* ===== verification/Mr_Properties.thy ===== *)
theory Mr_Properties
  imports Mr_Invariant Mr_Equivalence
begin

section \<open>MapReduce: the properties\<close>

text \<open>
  The statements about \<^verbatim>\<open>src/mr\<close>, each with a witness on a concrete job.
\<close>

subsection \<open>A concrete job\<close>

definition idle_worker :: "int \<Rightarrow> StateArgs" where
  "idle_worker w = first_args\<lparr>a_WorkerId := w\<rparr>"

definition finished_report :: "int \<Rightarrow> int \<Rightarrow> int \<Rightarrow> StateArgs" where
  "finished_report c t w =
     \<lparr>a_Cat = c, a_TaskId = t, a_Finished = True, a_Idle = False, a_WorkerId = w, a_FileName = ''out''\<rparr>"

text \<open>Two reduce tasks and no file, so that the reduce tasks come first.\<close>

definition exMaster :: Master where
  "exMaster = (case MakeMaster [] 2 of Inr m \<Rightarrow> m | Inl e \<Rightarrow> undefined)"

lemma exMaster_reach: "master_reach [] 2 exMaster"
proof -
  obtain m where "MakeMaster [] 2 = Inr m" using MakeMaster_inv by blast
  then show ?thesis unfolding exMaster_def by (simp add: reach_make)
qed

lemma exMaster_status: "MapStatus exMaster = []" "ReduceStatus exMaster = [False, False]"
  unfolding exMaster_def by code_simp+

subsection \<open>The master\<close>

text \<open>
  C37. In every state the master can reach, its counters are the numbers of tasks that are not
  finished, so Done says whether all tasks are; and the result files that have been
  renamed are those of the finished reduce tasks, each once, whatever reports came twice.
\<close>

theorem master_counts:
  assumes "master_reach files nR m"
  shows "MapFinished m = open_count (MapStatus m) \<and> ReduceFinished m = open_count (ReduceStatus m) \<and>
    Done m = (False \<notin> set (MapStatus m) \<and> False \<notin> set (ReduceStatus m)) \<and>
    (\<exists>order. distinct order \<and> set order = finished_tasks (ReduceStatus m) \<and> map snd (renames m) = map out_name order)"
  using master_invD(6,7,14) [OF reach_inv [OF assms]] open_count_zero [of "MapStatus m"] open_count_zero [of "ReduceStatus m"]
  by (simp add: Done_def)

theorem master_counts_witness:
  "ReduceFinished exMaster = 2 \<and> \<not> Done exMaster"
  using master_counts [OF exMaster_reach] by (simp add: exMaster_status open_count_def)

text \<open>
  C36. A request of an idle worker returns, within a number of turns of the master's loop
  that is linear in the number of tasks, and gets a map task that is not finished as long
  as there is one, after that the first reduce task that is not finished with the
  workers that did the map tasks, and the word to stop only when all tasks are finished.
\<close>

theorem request_assigned:
  assumes "master_reach files nR m" and "args_ok files nR args" and "a_Idle args"
    and "2 * max (length files) nR + 3 \<le> fuel"
  shows "\<exists>m' r. RequestHandler fuel m args zero_StateReply = Inr (Some (m', r)) \<and> assigned files nR m' r"
  using request_inv [OF reach_inv [OF assms(1)] assms(2,4)] assms(3) by blast

theorem request_assigned_witness:
  "\<exists>m' r. RequestHandler 7 exMaster (idle_worker 1) zero_StateReply = Inr (Some (m', r)) \<and> assigned [] 2 m' r"
  using request_assigned [OF exMaster_reach, of "idle_worker 1" 7]
  by (simp add: args_ok_def idle_worker_def first_args_def)

text \<open>
  The reduce tasks are not handed round: as long as no reduce task is finished between
  them, two requests one after the other get the same reduce task, because the pointer
  that assignTask moves in this branch is the one of the map tasks.
\<close>

theorem reduce_task_repeated:
  assumes "master_reach files nR m" and "False \<notin> set (MapStatus m)" and "False \<in> set (ReduceStatus m)"
    and "a_Idle args1" and "\<not> a_Finished args1" and "a_Idle args2" and "\<not> a_Finished args2"
    and "2 * max (length files) nR + 3 \<le> fuel"
  shows "\<exists>m1 r1 m2 r2. RequestHandler fuel m args1 zero_StateReply = Inr (Some (m1, r1)) \<and>
    RequestHandler fuel m1 args2 zero_StateReply = Inr (Some (m2, r2)) \<and> r_Cat r1 = 2 \<and> r_Cat r2 = 2 \<and> r_TaskId r2 = r_TaskId r1"
proof -
  have step: "\<exists>m' r. RequestHandler fuel n args zero_StateReply = Inr (Some (m', r)) \<and> master_inv files nR m' \<and>
      assigned files nR m' r \<and> MapStatus m' = MapStatus n \<and> ReduceStatus m' = ReduceStatus n"
    if n: "master_inv files nR n" and a: "a_Idle args" "\<not> a_Finished args" for n args
  proof -
    have "master_inv files nR (n\<lparr>workers := workers n + 1\<rparr>)" using n unfolding master_inv_def by simp
    from assign_inv [OF n assms(8), of "zero_StateReply\<lparr>r_WorkerId := a_WorkerId args\<rparr>"]
      assign_inv [OF this assms(8), of "zero_StateReply\<lparr>r_WorkerId := workers n + 1\<rparr>"]
    show ?thesis using a by (cases "a_WorkerId args = 0") (auto simp: RequestHandler_def Let_def)
  qed
  from step [OF reach_inv [OF assms(1)] assms(4,5)] obtain m1 r1 where 1: "RequestHandler fuel m args1 zero_StateReply = Inr (Some (m1, r1))"
    "master_inv files nR m1" "assigned files nR m1 r1" "MapStatus m1 = MapStatus m" "ReduceStatus m1 = ReduceStatus m" by blast
  from step [OF 1(2) assms(6,7)] obtain m2 r2 where 2: "RequestHandler fuel m1 args2 zero_StateReply = Inr (Some (m2, r2))"
    "assigned files nR m2 r2" "MapStatus m2 = MapStatus m" "ReduceStatus m2 = ReduceStatus m" using 1(4,5) by auto
  have "\<exists>t < nR. r_TaskId r1 = int t \<and> \<not> ReduceStatus m ! t \<and> (\<forall>u < t. ReduceStatus m ! u)"
    "\<exists>t < nR. r_TaskId r2 = int t \<and> \<not> ReduceStatus m ! t \<and> (\<forall>u < t. ReduceStatus m ! u)" "r_Cat r1 = 2 \<and> r_Cat r2 = 2"
    using 1(3-5) 2(2-4) assms(2,3) by (simp_all add: assigned_def)
  then have "r_TaskId r2 = r_TaskId r1" by (metis nat_neq_iff)
  with 1(1) 2(1) \<open>r_Cat r1 = 2 \<and> r_Cat r2 = 2\<close> show ?thesis by blast
qed

theorem reduce_task_repeated_witness:
  "\<exists>m1 r1 m2 r2. RequestHandler 7 exMaster (idle_worker 1) zero_StateReply = Inr (Some (m1, r1)) \<and>
    RequestHandler 7 m1 (idle_worker 2) zero_StateReply = Inr (Some (m2, r2)) \<and> r_Cat r1 = 2 \<and> r_Cat r2 = 2 \<and> r_TaskId r2 = r_TaskId r1"
  using reduce_task_repeated [OF exMaster_reach, of "idle_worker 1" "idle_worker 2" 7]
  by (simp add: exMaster_status idle_worker_def first_args_def)

subsection \<open>The whole computation\<close>

text \<open>
  C5. MapReduce computes what the sequential program computes: after map tasks run by any
  workers, each task at least once and some perhaps several times, and a reduce task for
  every number, the lines of the result files together are the lines of the
  file that mrsequential writes, for map functions that give plain words and reduce functions
  that do not depend on the order of the values.
\<close>

theorem mapreduce_sequential:
  assumes "sorts_ByKey sort_ByKey" and "order_free reducef" and "\<And>k vs. newline \<notin> set (reducef k vs)"
    and "0 < n" and "inputs_ok mapf names fs"
    and "length ws = length names" and "\<forall>job \<in> set jobs. fst job < length names"
    and "\<forall>t < length names. (t, ws ! t) \<in> set jobs" and "length rws = n"
  shows "\<exists>args' fs' fs'' out.
    run_turns sort_ByKey mapf reducef
      (map (map_reply names n) jobs @ map (reduce_reply names n ws) (zip [0..<n] rws)) (first_args, fs) = Inr (args', fs') \<and>
    mrsequential sort_ByKey mapf reducef names fs = Inr fs'' \<and> fs'' ''mr-out-0'' = Some out \<and>
    mset (concat (map (\<lambda>r. file_lines (the (fs' (out_path (int r) (int (rws ! r)))))) [0..<n])) = mset (file_lines out)"
proof -
  let ?kvs = "concat (map (pairs_of mapf fs) names)" and ?rjobs = "zip [0..<n] rws"
  let ?out = "reduce_output sort_ByKey reducef n ?kvs" and ?seq = "reduce_lines reducef (sort_ByKey ?kvs)"
  from run_maps [OF assms(4,5,7), of fs sort_ByKey reducef first_args] obtain args1 fs1 where
    1: "run_turns sort_ByKey mapf reducef (map (map_reply names n) jobs) (first_args, fs) = Inr (args1, fs1)"
    "\<forall>job r. r < n \<longrightarrow> job \<in> set jobs \<longrightarrow> fs1 (inter_path (int (fst job)) (int r) (int (snd job))) =
       Some (inter_content n r (pairs_of mapf fs (names ! fst job)))" by blast
  have ready: "inter_ready mapf names ws n fs fs1" unfolding inter_ready_def using 1(2) assms(8) by fastforce
  have rj: "\<forall>job \<in> set ?rjobs. fst job < n" by (auto dest: set_zip_leftD)
  from run_reduces [OF assms(5,6) ready rj, of sort_ByKey reducef args1] obtain args' fs' where
    2: "run_turns sort_ByKey mapf reducef (map (reduce_reply names n ws) ?rjobs) (args1, fs1) = Inr (args', fs')"
    "\<forall>job \<in> set ?rjobs. fs' (out_path (int (fst job)) (int (snd job))) = Some (concat (?out (fst job)))" by blast
  have run: "run_turns sort_ByKey mapf reducef (map (map_reply names n) jobs @ map (reduce_reply names n ws) ?rjobs) (first_args, fs) = Inr (args', fs')"
    using 1(1) 2(1) by (subst run_turns_append) (auto simp: map_reply_def)
  have files: "fs' (out_path (int r) (int (rws ! r))) = Some (concat (?out r))" if "r < n" for r
    using 2(2) [rule_format, of "?rjobs ! r"] nth_mem [of r ?rjobs] that assms(9) by simp
  have seqf: "mrsequential sort_ByKey mapf reducef names fs = Inr (fs(''mr-out-0'' \<mapsto> concat ?seq))"
    using read_inputs_eq [of names fs mapf "[]"] assms(5) by (fastforce simp: mrsequential_def inputs_ok_def)
  have plain: "\<forall>kv \<in> set (sort_ByKey (filter P ?kvs)). plain (kvKey kv)" for P
    using plain_pairs [OF assms(5)] sorts_set [OF assms(1)] by auto
  have "file_lines (concat (?out r)) = ?out r" for r
    unfolding reduce_output_def by (intro file_lines_concat reduce_lines_is_line assms(3) plain)
  then have "mset (concat (map (\<lambda>r. file_lines (the (fs' (out_path (int r) (int (rws ! r)))))) [0..<n])) = mset (concat (map ?out [0..<n]))"
    using files by (intro arg_cong [of _ _ "\<lambda>f. mset (concat f)"] map_cong) auto
  also have "\<dots> = mset ?seq" by (rule outputs_mset [OF assms(1,2,4)])
  also have "?seq = file_lines (concat ?seq)"
    using plain [of "\<lambda>_. True"] by (intro file_lines_concat [symmetric] reduce_lines_is_line assms(3)) simp
  finally show ?thesis using run seqf by simp
qed

text \<open>A file with the words \<open>a b a\<close>, two reduce tasks and two workers.\<close>

abbreviation exLetter :: "char \<Rightarrow> bool" where
  "exLetter c \<equiv> c \<noteq> CHR '' ''"

definition exFiles :: files where
  "exFiles = [''f'' \<mapsto> ''a b a'']"

lemma ex_words: "wc_Map exLetter ''f'' ''a b a'' = map (\<lambda>w. \<lparr>kvKey = w, kvVal = ''1''\<rparr>) [''a'', ''b'', ''a'']"
  by (simp add: wc_Map_def FieldsFunc.simps)

lemma ex_inputs: "inputs_ok (wc_Map exLetter) [''f''] exFiles"
  by (simp add: inputs_ok_def exFiles_def ex_words inter_path_def plain_def word_char_def blank_def newline_def)

lemma wc_Reduce_ok: "order_free wc_Reduce" "newline \<notin> set (wc_Reduce k vs)"
proof -
  show "order_free wc_Reduce" by (auto simp: order_free_def wc_Reduce_def len_def dest: mset_eq_length)
  show "newline \<notin> set (wc_Reduce k vs)" using nat_digits_no(2) by (simp add: wc_Reduce_def len_def Itoa_nat)
qed

lemma sort_ByKey_sorts: "sorts_ByKey (sort_key kvKey)"
  by (simp add: sorts_ByKey_def)

theorem mapreduce_sequential_witness:
  "\<exists>args' fs' fs'' out.
    run_turns (sort_key kvKey) (wc_Map exLetter) wc_Reduce
      (map (map_reply [''f''] 2) [(0, 2), (0, 1)] @ map (reduce_reply [''f''] 2 [1]) (zip [0..<2] [1, 2])) (first_args, exFiles) = Inr (args', fs') \<and>
    mrsequential (sort_key kvKey) (wc_Map exLetter) wc_Reduce [''f''] exFiles = Inr fs'' \<and> fs'' ''mr-out-0'' = Some out \<and>
    mset (concat (map (\<lambda>r. file_lines (the (fs' (out_path (int r) (int ([1, 2] ! r)))))) [0..<2])) = mset (file_lines out)"
  by (rule mapreduce_sequential [OF sort_ByKey_sorts wc_Reduce_ok(1) wc_Reduce_ok(2) _ ex_inputs]) simp_all

end
