(* ===== verification/Mr_Apps.thy ===== *)
theory Mr_Apps
  imports Mr_Equivalence
begin

section \<open>MapReduce: the applications that test the framework\<close>

text \<open>
  Models \<^verbatim>\<open>src/mrapps/crash.go\<close>, \<^verbatim>\<open>nocrash.go\<close>, \<^verbatim>\<open>mtiming.go\<close> and \<^verbatim>\<open>rtiming.go\<close>. A random number, the process
  number, the files of the directory as \<^verbatim>\<open>Readdirnames\<close> lists them, which processes are alive and the formatted time are
  arguments; leaving the program is a failure, and a delay has no effect.
\<close>

subsection \<open>Crashing, or not\<close>

definition crash_maybeCrash :: "int \<Rightarrow> unit go" where
  "crash_maybeCrash rr = (if rr < 330 then Inl (Fatal ''exit status 1'') else Inr ())"

definition nocrash_maybeCrash :: "int \<Rightarrow> unit go" where
  "nocrash_maybeCrash rr = (if False \<and> rr < 500 then Inl (Fatal ''exit status 1'') else Inr ())"

definition crash_Map :: "int \<Rightarrow> string \<Rightarrow> string \<Rightarrow> KeyValue list go" where
  "crash_Map rr filename contents =
     bindE (crash_maybeCrash rr) (\<lambda>_.
     Inr [\<lparr>kvKey = ''a'', kvVal = filename\<rparr>, \<lparr>kvKey = ''b'', kvVal = Itoa (len filename)\<rparr>,
          \<lparr>kvKey = ''c'', kvVal = Itoa (len contents)\<rparr>, \<lparr>kvKey = ''d'', kvVal = ''xyzzy''\<rparr>])"

definition crash_Reduce :: "int \<Rightarrow> string \<Rightarrow> string list \<Rightarrow> string go" where
  "crash_Reduce rr key values =
     bindE (crash_maybeCrash rr) (\<lambda>_. let vv = sort values in Inr (Join vv '' ''))"

definition nocrash_Map :: "int \<Rightarrow> string \<Rightarrow> string \<Rightarrow> KeyValue list go" where
  "nocrash_Map rr filename contents =
     bindE (nocrash_maybeCrash rr) (\<lambda>_.
     Inr [\<lparr>kvKey = ''a'', kvVal = filename\<rparr>, \<lparr>kvKey = ''b'', kvVal = Itoa (len filename)\<rparr>,
          \<lparr>kvKey = ''c'', kvVal = Itoa (len contents)\<rparr>, \<lparr>kvKey = ''d'', kvVal = ''xyzzy''\<rparr>])"

definition nocrash_Reduce :: "int \<Rightarrow> string \<Rightarrow> string list \<Rightarrow> string go" where
  "nocrash_Reduce rr key values =
     bindE (nocrash_maybeCrash rr) (\<lambda>_. let vv = sort values in Inr (Join vv '' ''))"

subsection \<open>Counting the workers that run\<close>

text \<open>
  \<^verbatim>\<open>fmt.Sscanf\<close> with a pattern that ends in \<^verbatim>\<open>%d\<close>: the pattern's text, blanks, a sign and digits; what comes after them is not
  read. A number that does not fit into 64 bits is an error.
\<close>

definition digit :: "char \<Rightarrow> bool" where
  "digit c \<longleftrightarrow> 48 \<le> (of_char c :: nat) \<and> (of_char c :: nat) \<le> 57"

definition scan_int :: "string \<Rightarrow> int option" where
  "scan_int s =
     (let s = dropWhile (\<lambda>c. c = CHR '' '') s;
          (neg, s) = (case s of c # cs \<Rightarrow> if c = CHR ''-'' then (True, cs) else if c = CHR ''+'' then (False, cs) else (False, s) | [] \<Rightarrow> (False, s));
          ds = takeWhile digit s;
          v = (if neg then - int (digits_val ds) else int (digits_val ds))
      in if ds = [] \<or> v < - (2 ^ 63) \<or> 2 ^ 63 \<le> v then None else Some v)"

definition scan_pid :: "string \<Rightarrow> string \<Rightarrow> int option" where
  "scan_pid phase name =
     (let pat = ''mr-worker-'' @ phase @ ''-'' in
      if take (length pat) name = pat then scan_int (drop (length pat) name) else None)"

definition worker_file :: "string \<Rightarrow> int \<Rightarrow> string" where
  "worker_file phase pid = ''mr-worker-'' @ phase @ ''-'' @ Itoa pid"

text \<open>
  \<^verbatim>\<open>nparallel\<close>: the file of the process is written, the directory is listed (\<open>readdir\<close>), each listed worker whose process
  exists is counted, and the file is removed.
\<close>

definition nparallel :: "(files \<Rightarrow> string list) \<Rightarrow> (int \<Rightarrow> bool) \<Rightarrow> int \<Rightarrow> string \<Rightarrow> files \<Rightarrow> (files \<times> int)" where
  "nparallel readdir alive pid phase fs =
     (let myfilename = worker_file phase pid;
          fs = fs(myfilename \<mapsto> ''x'');
          ret = foldl (\<lambda>ret name. case scan_pid phase name of
                  Some xpid \<Rightarrow> if alive xpid then ret + 1 else ret
                | None \<Rightarrow> ret) 0 (readdir fs)
      in (fs(myfilename := None), ret))"

definition mtiming_Map ::
  "(files \<Rightarrow> string list) \<Rightarrow> (int \<Rightarrow> bool) \<Rightarrow> int \<Rightarrow> string \<Rightarrow> string \<Rightarrow> string \<Rightarrow> files \<Rightarrow> files \<times> KeyValue list" where
  "mtiming_Map readdir alive pid ts filename contents fs =
     (let (fs, n) = nparallel readdir alive pid ''map'' fs
      in (fs, [\<lparr>kvKey = ''times-'' @ Itoa pid, kvVal = ts\<rparr>, \<lparr>kvKey = ''parallel-'' @ Itoa pid, kvVal = Itoa n\<rparr>]))"

definition mtiming_Reduce :: "string \<Rightarrow> string list \<Rightarrow> string" where
  "mtiming_Reduce key values = (let vv = sort values in Join vv '' '')"

definition rtiming_Map :: "string \<Rightarrow> string \<Rightarrow> KeyValue list" where
  "rtiming_Map filename contents =
     [\<lparr>kvKey = ''a'', kvVal = ''1''\<rparr>, \<lparr>kvKey = ''b'', kvVal = ''1''\<rparr>, \<lparr>kvKey = ''c'', kvVal = ''1''\<rparr>, \<lparr>kvKey = ''d'', kvVal = ''1''\<rparr>,
      \<lparr>kvKey = ''e'', kvVal = ''1''\<rparr>, \<lparr>kvKey = ''f'', kvVal = ''1''\<rparr>, \<lparr>kvKey = ''g'', kvVal = ''1''\<rparr>, \<lparr>kvKey = ''h'', kvVal = ''1''\<rparr>,
      \<lparr>kvKey = ''i'', kvVal = ''1''\<rparr>, \<lparr>kvKey = ''j'', kvVal = ''1''\<rparr>]"

definition rtiming_Reduce ::
  "(files \<Rightarrow> string list) \<Rightarrow> (int \<Rightarrow> bool) \<Rightarrow> int \<Rightarrow> string \<Rightarrow> string list \<Rightarrow> files \<Rightarrow> files \<times> string" where
  "rtiming_Reduce readdir alive pid key values fs =
     (let (fs, n) = nparallel readdir alive pid ''reduce'' fs in (fs, Itoa n))"

subsection \<open>Crashing changes nothing but whether a task is finished\<close>

text \<open>A task of the crashing application that comes to its end has the result of the other application.\<close>

lemma crash_agrees:
  "crash_Map rr f c = Inr kvs \<Longrightarrow> nocrash_Map rr' f c = Inr kvs"
  "crash_Reduce rr k vs = Inr v \<Longrightarrow> nocrash_Reduce rr' k vs = Inr v"
  "330 \<le> rr \<Longrightarrow> \<exists>kvs v. crash_Map rr f c = Inr kvs \<and> crash_Reduce rr k vs = Inr v"
  by (auto simp: crash_Map_def nocrash_Map_def crash_Reduce_def nocrash_Reduce_def crash_maybeCrash_def nocrash_maybeCrash_def
      split: if_split_asm)

text \<open>The order in which the values of a key arrive does not matter.\<close>

lemma sorting_reduces_order_free:
  assumes "mset vs = mset vs'"
  shows "crash_Reduce rr k vs = crash_Reduce rr k vs'" "nocrash_Reduce rr k vs = nocrash_Reduce rr k vs'"
    "mtiming_Reduce k vs = mtiming_Reduce k vs'" "indexer_Reduce k vs = indexer_Reduce k vs'"
proof -
  have "sort vs = sort vs'" using assms properties_for_sort [of "sort vs'" vs] by simp
  then show "crash_Reduce rr k vs = crash_Reduce rr k vs'" "nocrash_Reduce rr k vs = nocrash_Reduce rr k vs'"
    "mtiming_Reduce k vs = mtiming_Reduce k vs'" "indexer_Reduce k vs = indexer_Reduce k vs'"
    by (simp_all add: crash_Reduce_def nocrash_Reduce_def mtiming_Reduce_def indexer_Reduce_def Let_def)
qed

lemma indexer_order_free: "order_free indexer_Reduce"
  unfolding order_free_def using sorting_reduces_order_free(4) by blast

subsection \<open>What nparallel counts\<close>

lemma nat_digits_digit: "c \<in> set (nat_digits n) \<Longrightarrow> digit c"
proof (induction n rule: nat_digits.induct)
  case (1 n)
  show ?case
  proof (cases "n < 10")
    case True
    then show ?thesis using 1(2) by (simp add: nat_digits.simps [of n] digit_def)
  next
    case False
    then have "c \<in> set (nat_digits (n div 10)) \<or> c = char_of (48 + n mod 10)" using 1(2) by (auto simp: nat_digits.simps [of n])
    then show ?thesis using 1(1) False by (auto simp: digit_def)
  qed
qed

lemma nat_digits_first: "\<exists>c cs. nat_digits n = c # cs \<and> digit c"
proof -
  have "nat_digits n \<noteq> []" by (subst nat_digits.simps) simp
  then obtain c cs where "nat_digits n = c # cs" by (cases "nat_digits n") auto
  then show ?thesis using nat_digits_digit [of c n] by simp
qed

text \<open>A process finds the number in the name of its own file.\<close>

lemma scan_own_file:
  assumes "0 \<le> pid" "pid < 2 ^ 63"
  shows "scan_pid phase (worker_file phase pid) = Some pid"
proof -
  obtain c cs where c: "nat_digits (nat pid) = c # cs" "digit c" using nat_digits_first by blast
  have i: "Itoa pid = c # cs" using assms(1) c(1) by (simp add: Itoa_def)
  have t: "takeWhile digit (c # cs) = c # cs" using nat_digits_digit [of _ "nat pid"] c(1) unfolding takeWhile_eq_all_conv by simp
  have no: "c \<noteq> CHR '' ''" "c \<noteq> CHR ''-''" "c \<noteq> CHR ''+''" using c(2) by (auto simp: digit_def)
  have v: "int (digits_val (c # cs)) = pid" using nat_digits_val [of "nat pid"] c(1) assms(1) by simp
  have "- (2 ^ 63) \<le> pid" using assms(1) by (rule order_trans [rotated]) simp
  then have "scan_int (Itoa pid) = Some pid"
    unfolding i scan_int_def Let_def using no v assms(2) by (simp add: t del: takeWhile.simps)
  then show ?thesis by (simp add: scan_pid_def worker_file_def Let_def)
qed

lemma nparallel_count:
  "snd (nparallel readdir alive pid phase fs) =
     int (length (filter (\<lambda>name. \<exists>xpid. scan_pid phase name = Some xpid \<and> alive xpid) (readdir (fs(worker_file phase pid \<mapsto> ''x'')))))"
proof -
  have "foldl (\<lambda>ret name. case scan_pid phase name of Some xpid \<Rightarrow> if alive xpid then ret + 1 else ret | None \<Rightarrow> ret) a names =
      a + int (length (filter (\<lambda>name. \<exists>xpid. scan_pid phase name = Some xpid \<and> alive xpid) names))" for names a
    by (induction names arbitrary: a) (auto split: option.splits)
  then show ?thesis by (simp add: nparallel_def Let_def)
qed

text \<open>It leaves no file behind, and counts at least the process itself.\<close>

lemma nparallel_sees_itself:
  assumes "0 \<le> pid" "pid < 2 ^ 63" "alive pid" "\<And>fs. set (readdir fs) = dom fs" "fs (worker_file phase pid) = None"
  shows "fst (nparallel readdir alive pid phase fs) = fs" "1 \<le> snd (nparallel readdir alive pid phase fs)"
proof -
  show "fst (nparallel readdir alive pid phase fs) = fs" using assms(5) by (auto simp: nparallel_def Let_def)
  let ?names = "readdir (fs(worker_file phase pid \<mapsto> ''x''))"
  have "worker_file phase pid \<in> set (filter (\<lambda>name. \<exists>xpid. scan_pid phase name = Some xpid \<and> alive xpid) ?names)"
    using scan_own_file [OF assms(1,2)] assms(3,4) by simp
  from length_pos_if_in_set [OF this] show "1 \<le> snd (nparallel readdir alive pid phase fs)"
    unfolding nparallel_count by linarith
qed

end
