(* ===== verification/Spec2Isabelle.thy ===== *)
theory Spec2Isabelle
  imports Raft_Properties Raft_Broadcast Kv_Properties Rpc_Properties Harness_Properties Kv_Harness_Properties
    Harness_Stats Shard_Properties Sm_Harness Sk_Harness_Properties Porcupine_Properties Porcupine_Visual_Properties Mr_Properties Mr_Apps
begin

text \<open>
  A verification library for this repository, a set of solutions of the MIT 6.824 labs in Go. All source
  paths are below \<^verbatim>\<open>src/src\<close>.

  \<^bold>\<open>The program and its parts.\<close>
  \<^item> \<^verbatim>\<open>labrpc\<close> is a simulated network: clients call methods of servers through named ends; the network delays, drops and reorders
    messages, and tests enable, disable and delete ends and servers. \<^verbatim>\<open>labgob\<close> checks the types and values it encodes.
  \<^item> \<^verbatim>\<open>raft\<close> is the consensus protocol: peers elect a leader, the leader replicates a log, entries are committed and sent to the
    service through a channel; a persister keeps the state over crashes; snapshots shorten the log.
  \<^item> \<^verbatim>\<open>kvraft\<close> is a key/value service on top of a Raft log, with clerks that retry requests; \<^verbatim>\<open>shardmaster\<close> and \<^verbatim>\<open>shardkv\<close> have
    the clerks of a sharded service, whose servers the repository leaves empty.
  \<^item> \<^verbatim>\<open>porcupine\<close> checks histories of clients for linearizability, with the sequential model in \<^verbatim>\<open>models/kv.go\<close>.
  \<^item> \<^verbatim>\<open>mr\<close>, \<^verbatim>\<open>mrapps\<close> and \<^verbatim>\<open>main/mrsequential.go\<close> are MapReduce: a master hands out tasks, workers run them on files.
  \<^item> \<^verbatim>\<open>config.go\<close> in \<^verbatim>\<open>raft\<close>, \<^verbatim>\<open>kvraft\<close>, \<^verbatim>\<open>shardmaster\<close> and \<^verbatim>\<open>shardkv\<close> are the harnesses that put the parts together for the tests.

  \<^bold>\<open>How code becomes definitions.\<close> A struct is a record, a tagged choice a datatype; an operation takes the state and returns the
  new one. A run-time failure (index out of range, nil dereference, nil map write, failed assertion, fatal error, waiting for ever) is a
  value of the sum type \<^typ>\<open>'a go\<close> of the theory \<open>Prelude\<close>. A goroutine is split at the places where it gives up its mutex or
  waits, and each part is an operation; theorems about interleavings are about sequences of these operations. Pointers that the code
  follows and changes (the lists of the checker and of the MapReduce master) are addresses in an explicit heap. Bit sets and hashes are
  on words; other integers only count and are unbounded, but for the indices that \<^verbatim>\<open>AppendEntries\<close> computes from a \<^verbatim>\<open>PrevLogIndex\<close>
  that only the sender vouches for: these are cut to 64 bits (\<open>goint\<close>), and the theorems about that handler say which numbers have to fit.

  \<^bold>\<open>Theories, in the order of the program.\<close>
  \<^item> \<open>Prelude\<close>: failures, slices, maps that may be nil, decimal numbers, and the lemmas that all components share.
  \<^item> \<open>Persister\<close>: \<^verbatim>\<open>raft/persister.go\<close> and the encoding of Raft's state and snapshots.
    \<open>Raft_State\<close>, \<open>Raft_Rpc\<close>, \<open>Raft_Leader\<close>: the operations of \<^verbatim>\<open>raft/raft.go\<close>: local ones, handlers, and the candidate's and
    leader's goroutines; \<open>Raft_Broadcast\<close>: the leader loops that are not used any more.
    \<open>Raft_Local\<close>, \<open>Raft_Log\<close>: well-formedness, what is saved, the log by absolute index. \<open>Raft_Node\<close>: one peer as a step relation with crashes,
    and the contract of a voter as a locale. \<open>Raft_Election\<close>: a cluster with any message delay, loss and reordering, in which the two unlocked
    reads of an election loop and its critical section are separate steps, and the locale of majority elections; \<open>raced\<close> records the
    peers that became leader although they had stepped down after the reads. \<open>Raft_Replication\<close>: handlers and replies on logs. \<open>Raft_Properties\<close>: election safety but for raced peers and a reachable state with two leaders of one term, one vote per term, durable
    terms, crash recovery, effects of AppendEntries, compaction and snapshots, commitment, and the scenarios behind the findings.
  \<^item> \<open>Kv_Server\<close>, \<open>Kv_Clerk\<close>: \<^verbatim>\<open>kvraft/server.go\<close> and \<^verbatim>\<open>kvraft/client.go\<close>; \<open>Kv_Apply\<close>: the applier against a machine of two maps;
    \<open>Kv_Model\<close>: \<^verbatim>\<open>models/kv.go\<close>; \<open>Kv_Linearizable\<close>: the per-key model against the whole store; \<open>Kv_Properties\<close>: exactly-once execution,
    agreement of replicas, restart from snapshots, reads and writes follow the model, waiting handlers get their answers on every server
    at work that has not installed a snapshot, clerks find the leader; and how a repeated read breaks exactly-once execution.
  \<^item> \<open>Labgob\<close>, \<open>Labrpc\<close>: \<^verbatim>\<open>labgob/labgob.go\<close> and \<^verbatim>\<open>labrpc/labrpc.go\<close>; \<open>Labrpc_Steps\<close>: calls, network, handlers and reconfigurations as a
    step relation; \<open>Rpc_Properties\<close>: a positive reply is the result of the one run of the handler on that request, a deleted server stays
    silent, a reliable call can be served, and the check of types ends and reports each field once.
  \<^item> \<open>Raft_Config\<close>, \<open>Raft_Harness\<close>, \<open>Raft_Checks\<close>, \<open>Harness_Properties\<close>: \<^verbatim>\<open>raft/config.go\<close>; partitions, restarts, and that the checks of the
    tests mean what they say on any run of a cluster (\<^verbatim>\<open>checkOneLeader\<close> fails only when it meets a raced peer). \<open>Kv_Config\<close>, \<open>Kv_Harness\<close>, \<open>Kv_Harness_Properties\<close>: \<^verbatim>\<open>kvraft/config.go\<close>.
    \<open>Harness_Stats\<close>: the time limit and the numbers that the two report, which are those of the calls and operations made.
  \<^item> \<open>Shard_Clerk\<close>, \<open>Shard_Properties\<close>: the clerks of \<^verbatim>\<open>shardmaster\<close> and \<^verbatim>\<open>shardkv\<close>, which never return with the empty handlers of the
    repository, and return with servers that answer. \<open>Sm_Config\<close>, \<open>Sm_Harness\<close>: \<^verbatim>\<open>shardmaster/config.go\<close>, whose
    operations refine those of \<^verbatim>\<open>kvraft/config.go\<close> (a locale of operations on a part of the state, interpreted on the two harnesses).
    \<open>Sk_Config\<close>, \<open>Sk_Harness\<close>, \<open>Sk_Harness_Properties\<close>: \<^verbatim>\<open>shardkv/config.go\<close>; the network is described by the random names drawn so
    far and which of their ends are on; creation, for which sizes it fails, and restarts of whole groups.
  \<^item> \<open>Porcupine_Model\<close>, \<open>Porcupine_Bitset\<close>, \<open>Porcupine_Checker\<close>: \<^verbatim>\<open>porcupine\<close>; \<open>Porcupine_Search\<close>: the search for a linearization as an
    abstract relation, complete and terminating; \<open>Porcupine_Heap\<close>, \<open>Porcupine_Correct\<close>, \<open>Porcupine_Loop\<close>: the linked list and the loop
    refine it; \<open>Porcupine_Entries\<close>, \<open>Porcupine_Events\<close>: operations and events as entries; \<open>Porcupine_Properties\<close>. \<open>Porcupine_Partial\<close>,
    \<open>Porcupine_Visual\<close>, \<open>Porcupine_Visual_Properties\<close>: the partial linearizations and what \<^verbatim>\<open>visualization.go\<close> computes from them.
  \<^item> \<open>Mr_Master\<close>, \<open>Mr_Worker\<close>, \<open>Mr_Files\<close>: \<^verbatim>\<open>mr\<close>, \<^verbatim>\<open>mrapps\<close> and the sequential program; \<open>Mr_Invariant\<close>, \<open>Mr_Tasks\<close>: the circular task lists
    and counters; \<open>Mr_Equivalence\<close>, \<open>Mr_Properties\<close>: the distributed run writes what the sequential one writes, and requests are answered.
    \<open>Mr_Apps\<close>: the applications that crash, wait or count workers; a crash changes nothing but whether a task is finished.

  \<^bold>\<open>Fuel.\<close> Loops without a bound in the code have fuel; running out of it is \<open>None\<close>, and each has a lemma that enough fuel gives the
  result: the master's search for a task needs \<open>2 * max files nReduce + 3\<close> turns; \<^verbatim>\<open>checkSingle\<close> ends for all fuel above some bound,
  by a measure on configurations not yet tried; the key/value clerk finds a leader within one round of the servers; the sharded clerk needs
  \<open>K + 2\<close> rounds and \<open>K + 1\<close> rounds per query once everything answers from call \<open>K\<close> on; \<^verbatim>\<open>checkType\<close> needs one level per type.

  \<^bold>\<open>What is assumed.\<close> Sorting functions of the library appear as arguments with their contracts \<open>sorts_byTime\<close>, \<open>sorts_ByKey\<close> and
  \<open>sorts_longest_first\<close>; gob as a codec; random numbers, names of ends, the order of goroutines, the moments at which timers fire and
  what the network returns as arguments that theorems quantify over; the random names of ends are different from each other. Histories have the clocks of \<open>timed\<close>, a model's \<^verbatim>\<open>Equal\<close> satisfies
  \<open>equal_ok\<close>, MapReduce functions satisfy \<open>order_free\<close> and write plain words.

  \<^bold>\<open>Not modelled.\<close> Sockets, plugins, command lines and debug printing, none of which keeps state of the program; the HTML page
  of \<^verbatim>\<open>visualization.go\<close>, a constant with a script in another language, and the functions that write it out; errors of the file
  system in the MapReduce applications; scratch programs in \<^verbatim>\<open>myMains\<close>, \<^verbatim>\<open>myTests\<close> and \<^verbatim>\<open>haha\<close>, and launchers for packages that are not in the
  repository. Nor is Go's memory model: a read without the lock returns the current
  value, and where a decision rests on it, as in the election loop, it is a step of its own; the tests of \<^verbatim>\<open>killed()\<close> and of the count of requests
  that come just before a lock is taken belong to the step that takes it, and so does the term that a new leader puts into its no-op. The log matching of whole clusters is not claimed: a late heartbeat can
  remove a committed entry, as \<open>Raft_Properties\<close> shows.
\<close>

end
